(* ===== verification/Prelude.thy ===== *)
theory Prelude
  imports Complex_Main "HOL-Library.Word" "HOL-Library.Char_ord"
    "HOL-Library.List_Lexorder" "HOL-Library.Multiset"
begin

text \<open>
  Shared vocabulary of the development: fallible results (the Rust \<open>Result\<close> type, with
  \<open>Inl\<close> for \<open>Err\<close>), the three-valued \<open>Ordering\<close>, lawful comparators and the stable
  sort, and the operations of Rust's \<open>str\<close> the gateway uses. A Rust string is the list of
  its UTF-8 bytes, one HOL character per byte, so \<open>length\<close> is Rust's \<open>len()\<close> and the
  list order is Rust's byte order; \<open>utf8_chars\<close> recovers the scalar values that
  \<open>chars()\<close> iterates over.
\<close>

named_theorems gateway_simps "rewrite rules shared by the component proofs"

type_synonym u64 = "64 word"
type_synonym u32 = "32 word"

section \<open>Results\<close>

text \<open>The operator \<open>?\<close>, \<open>Option::ok_or\<close> and the collecting iterators.\<close>

fun bindR :: "'e + 'a \<Rightarrow> ('a \<Rightarrow> 'e + 'b) \<Rightarrow> 'e + 'b" where
  "bindR (Inl e) f = Inl e"
| "bindR (Inr x) f = f x"

fun ok_or :: "'e \<Rightarrow> 'a option \<Rightarrow> 'e + 'a" where
  "ok_or e None = Inl e"
| "ok_or e (Some x) = Inr x"

fun map_ok :: "('a \<Rightarrow> 'b) \<Rightarrow> 'e + 'a \<Rightarrow> 'e + 'b" where
  "map_ok f (Inl e) = Inl e"
| "map_ok f (Inr x) = Inr (f x)"

fun is_ok :: "'e + 'a \<Rightarrow> bool" where
  "is_ok (Inl e) = False"
| "is_ok (Inr x) = True"

fun ok_opt :: "'e + 'a \<Rightarrow> 'a option" where
  "ok_opt (Inl e) = None"
| "ok_opt (Inr x) = Some x"

fun traverseR :: "('a \<Rightarrow> 'e + 'b) \<Rightarrow> 'a list \<Rightarrow> 'e + 'b list" where
  "traverseR f [] = Inr []"
| "traverseR f (x # xs) = bindR (f x) (\<lambda>y. bindR (traverseR f xs) (\<lambda>ys. Inr (y # ys)))"

fun eachR :: "('a \<Rightarrow> 'e + unit) \<Rightarrow> 'a list \<Rightarrow> 'e + unit" where
  "eachR f [] = Inr ()"
| "eachR f (x # xs) = bindR (f x) (\<lambda>_. eachR f xs)"

fun foldR :: "('a \<Rightarrow> 's \<Rightarrow> 'e + 's) \<Rightarrow> 'a list \<Rightarrow> 's \<Rightarrow> 'e + 's" where
  "foldR f [] s = Inr s"
| "foldR f (x # xs) s = bindR (f x s) (foldR f xs)"

lemma bindR_cong [fundef_cong]:
  "r = r' \<Longrightarrow> (\<And>x. r' = Inr x \<Longrightarrow> f x = f' x) \<Longrightarrow> bindR r f = bindR r' f'"
  by (cases r') auto

lemma traverseR_cong [fundef_cong]:
  "xs = ys \<Longrightarrow> (\<And>x. x \<in> set ys \<Longrightarrow> f x = g x) \<Longrightarrow> traverseR f xs = traverseR g ys"
  by (induction ys arbitrary: xs) auto

lemma eachR_cong [fundef_cong]:
  "xs = ys \<Longrightarrow> (\<And>x. x \<in> set ys \<Longrightarrow> f x = g x) \<Longrightarrow> eachR f xs = eachR g ys"
  by (induction ys arbitrary: xs) auto

lemma foldR_cong [fundef_cong]:
  "xs = ys \<Longrightarrow> (\<And>x s. x \<in> set ys \<Longrightarrow> f x s = g x s) \<Longrightarrow> s = t \<Longrightarrow> foldR f xs s = foldR g ys t"
proof (induction ys arbitrary: xs s t)
  case Nil
  then show ?case by simp
next
  case (Cons y ys)
  then show ?case
    by (simp add: ext [of "foldR f ys" "foldR g ys"])
qed

lemma bindR_Inr_iff [simp]: "bindR r f = Inr y \<longleftrightarrow> (\<exists>x. r = Inr x \<and> f x = Inr y)"
  by (cases r) auto

lemma bindR_Inl_iff [simp]:
  "bindR r f = Inl e \<longleftrightarrow> r = Inl e \<or> (\<exists>x. r = Inr x \<and> f x = Inl e)"
  by (cases r) auto

lemma bindR_assoc: "bindR (bindR r f) g = bindR r (\<lambda>x. bindR (f x) g)"
  by (cases r) auto

lemma ok_or_Inr_iff [simp]: "ok_or e r = Inr x \<longleftrightarrow> r = Some x"
  by (cases r) auto

lemma ok_or_Inl_iff [simp]: "ok_or e r = Inl d \<longleftrightarrow> r = None \<and> d = e"
  by (cases r) auto

lemma map_ok_Inr_iff [simp]: "map_ok f r = Inr y \<longleftrightarrow> (\<exists>x. r = Inr x \<and> y = f x)"
  by (cases r) auto

lemma map_ok_Inl_iff [simp]: "map_ok f r = Inl e \<longleftrightarrow> r = Inl e"
  by (cases r) auto

lemma is_ok_iff: "is_ok r \<longleftrightarrow> (\<exists>x. r = Inr x)"
  by (cases r) auto

lemma ok_opt_iff [simp]: "ok_opt r = Some x \<longleftrightarrow> r = Inr x" "ok_opt r = None \<longleftrightarrow> (\<exists>e. r = Inl e)"
  by (cases r; auto)+

lemma traverseR_ok_iff:
  "traverseR f xs = Inr ys \<longleftrightarrow> list_all2 (\<lambda>x y. f x = Inr y) xs ys"
  by (induction xs arbitrary: ys) (auto simp: list_all2_Cons1)

lemma traverseR_length: "traverseR f xs = Inr ys \<Longrightarrow> length ys = length xs"
  by (simp add: traverseR_ok_iff list_all2_lengthD)

lemma eachR_ok_iff [simp]: "eachR f xs = Inr u \<longleftrightarrow> (\<forall>x\<in>set xs. f x = Inr ())"
  by (induction xs) auto

section \<open>Orderings and the stable sort\<close>

datatype ordering = Less | Equal | Greater

fun reverse_ord :: "ordering \<Rightarrow> ordering" where
  "reverse_ord Less = Greater"
| "reverse_ord Equal = Equal"
| "reverse_ord Greater = Less"

fun then_ord :: "ordering \<Rightarrow> ordering \<Rightarrow> ordering" where
  "then_ord Equal o2 = o2"
| "then_ord o1 _ = o1"

definition cmp_of :: "'a::linorder \<Rightarrow> 'a \<Rightarrow> ordering" where
  "cmp_of x y = (if x < y then Less else if x = y then Equal else Greater)"

lemma reverse_ord_invol [simp]: "reverse_ord (reverse_ord o1) = o1"
  by (cases o1) auto

lemma reverse_ord_iff [simp]:
  "reverse_ord o1 = Less \<longleftrightarrow> o1 = Greater"
  "reverse_ord o1 = Equal \<longleftrightarrow> o1 = Equal"
  "reverse_ord o1 = Greater \<longleftrightarrow> o1 = Less"
  by (cases o1; simp)+

lemma then_ord_iff [simp]:
  "then_ord o1 o2 = Equal \<longleftrightarrow> o1 = Equal \<and> o2 = Equal"
  "then_ord o1 o2 = Less \<longleftrightarrow> o1 = Less \<or> o1 = Equal \<and> o2 = Less"
  "then_ord o1 o2 = Greater \<longleftrightarrow> o1 = Greater \<or> o1 = Equal \<and> o2 = Greater"
  by (cases o1; simp)+

lemma cmp_of_iff [simp]:
  "cmp_of x y = Less \<longleftrightarrow> x < y"
  "cmp_of x y = Equal \<longleftrightarrow> x = y"
  "cmp_of x y = Greater \<longleftrightarrow> y < x"
  by (auto simp: cmp_of_def)

text \<open>
  \<open>slice::sort_by\<close> is a stable sort. It is modelled by insertion, which agrees with any
  stable sort whenever the comparator is a total preorder; for other comparators Rust leaves
  the resulting order unspecified (and may panic).
\<close>

fun insert_by :: "('a \<Rightarrow> 'a \<Rightarrow> ordering) \<Rightarrow> 'a \<Rightarrow> 'a list \<Rightarrow> 'a list" where
  "insert_by cmp x [] = [x]"
| "insert_by cmp x (y # ys) = (if cmp x y = Greater then y # insert_by cmp x ys else x # y # ys)"

fun sort_by :: "('a \<Rightarrow> 'a \<Rightarrow> ordering) \<Rightarrow> 'a list \<Rightarrow> 'a list" where
  "sort_by cmp [] = []"
| "sort_by cmp (x # xs) = insert_by cmp x (sort_by cmp xs)"

fun sorted_by :: "('a \<Rightarrow> 'a \<Rightarrow> ordering) \<Rightarrow> 'a list \<Rightarrow> bool" where
  "sorted_by cmp [] = True"
| "sorted_by cmp (x # xs) = ((\<forall>y\<in>set xs. cmp x y \<noteq> Greater) \<and> sorted_by cmp xs)"

lemma mset_insert_by [simp]: "mset (insert_by cmp x xs) = add_mset x (mset xs)"
  by (induction xs) auto

lemma mset_sort_by [simp]: "mset (sort_by cmp xs) = mset xs"
  by (induction xs) auto

lemma set_insert_by [simp]: "set (insert_by cmp x xs) = insert x (set xs)"
  by (induction xs) auto

lemma set_sort_by [simp]: "set (sort_by cmp xs) = set xs"
  by (induction xs) auto

lemma length_sort_by [simp]: "length (sort_by cmp xs) = length xs"
  by (metis mset_sort_by size_mset)

text \<open>The contract a comparator owes \<open>sort_by\<close>.\<close>

locale lawful_comparator =
  fixes cmp :: "'a \<Rightarrow> 'a \<Rightarrow> ordering"
  assumes cmp_flip: "cmp y x = reverse_ord (cmp x y)"
    and cmp_trans: "cmp x y \<noteq> Greater \<Longrightarrow> cmp y z \<noteq> Greater \<Longrightarrow> cmp x z \<noteq> Greater"
begin

lemma cmp_refl: "cmp x x = Equal"
  using cmp_flip [of x x] by (cases "cmp x x") auto

lemma cmp_total: "cmp x y = Greater \<Longrightarrow> cmp y x \<noteq> Greater"
  using cmp_flip [of x y] by simp

lemma insert_by_sorted: "sorted_by cmp xs \<Longrightarrow> sorted_by cmp (insert_by cmp x xs)"
proof (induction xs)
  case Nil
  then show ?case by simp
next
  case (Cons y ys)
  then show ?case
    by (cases "cmp x y = Greater") (auto dest: cmp_total, meson cmp_trans)
qed

lemma sort_by_sorted: "sorted_by cmp (sort_by cmp xs)"
  by (induction xs) (auto intro: insert_by_sorted)

lemma insert_by_filter:
  "sorted_by cmp xs \<Longrightarrow> (\<And>y z. P y \<Longrightarrow> P z \<Longrightarrow> cmp y z = Equal) \<Longrightarrow>
   filter P (insert_by cmp x xs) = (if P x then x # filter P xs else filter P xs)"
proof (induction xs)
  case Nil
  then show ?case by simp
next
  case (Cons y ys)
  have "\<not> (P x \<and> P y)" if "cmp x y = Greater"
    using Cons.prems(2) [of x y] that by auto
  with Cons show ?case by auto
qed

text \<open>Stability: equivalent elements keep their relative order.\<close>

lemma sort_by_stable:
  "(\<And>y z. P y \<Longrightarrow> P z \<Longrightarrow> cmp y z = Equal) \<Longrightarrow> filter P (sort_by cmp xs) = filter P xs"
  by (induction xs) (auto simp: insert_by_filter sort_by_sorted)

lemma cmp_trans_Equal:
  assumes "cmp x z = Equal" "cmp x y \<noteq> Greater" "cmp y z \<noteq> Greater"
  shows "cmp x y = Equal" "cmp y z = Equal"
proof -
  have zx: "cmp z x \<noteq> Greater" using assms(1) cmp_flip [of z x] by simp
  have "cmp y x \<noteq> Greater" "cmp z y \<noteq> Greater"
    using cmp_trans assms(2,3) zx by blast+
  then have "cmp x y \<noteq> Less" "cmp y z \<noteq> Less"
    using cmp_flip [of y x] cmp_flip [of z y] by auto
  with assms(2,3) show "cmp x y = Equal" "cmp y z = Equal"
    by (meson ordering.exhaust)+
qed

text \<open>A sorted list is determined by its elements when no two of them compare equal.\<close>

lemma sorted_by_unique:
  "sorted_by cmp xs \<Longrightarrow> sorted_by cmp ys \<Longrightarrow> mset xs = mset ys \<Longrightarrow>
   (\<And>x y. x \<in> set xs \<Longrightarrow> y \<in> set xs \<Longrightarrow> cmp x y = Equal \<Longrightarrow> x = y) \<Longrightarrow> xs = ys"
proof (induction xs arbitrary: ys)
  case Nil
  then show ?case by simp
next
  case (Cons x xs)
  then obtain y ys' where ys: "ys = y # ys'" by (cases ys) auto
  have sets: "set (x # xs) = set (y # ys')" using Cons.prems(3) ys by (metis set_mset_mset)
  have xy: "y \<in> set (x # xs)" and yx: "x \<in> set (y # ys')" using sets by auto
  have "cmp x y \<noteq> Greater"
    using Cons.prems(1) xy cmp_refl [of x] by (cases "y = x") auto
  moreover have "cmp y x \<noteq> Greater"
    using Cons.prems(2) yx cmp_refl [of y] by (cases "x = y") (auto simp: ys)
  ultimately have "cmp x y = Equal" using cmp_flip [of y x] by (cases "cmp x y") auto
  then have "x = y" using Cons.prems(4) [of x y] sets by auto
  moreover have "xs = ys'"
    using Cons.prems ys \<open>x = y\<close> by (intro Cons.IH) auto
  ultimately show ?case by (simp add: ys)
qed

end

lemma lawful_on: "lawful_comparator cmp \<Longrightarrow> lawful_comparator (\<lambda>a b. cmp (f a) (f b))"
  unfolding lawful_comparator_def by blast

lemma lawful_reverse: "lawful_comparator cmp \<Longrightarrow> lawful_comparator (\<lambda>a b. reverse_ord (cmp a b))"
proof (rule lawful_comparator.intro)
  fix x y z
  assume c: "lawful_comparator cmp"
  show "reverse_ord (cmp y x) = reverse_ord (reverse_ord (cmp x y))"
    using lawful_comparator.cmp_flip [OF c, of y x] by simp
  assume "reverse_ord (cmp x y) \<noteq> Greater" "reverse_ord (cmp y z) \<noteq> Greater"
  then have "cmp y x \<noteq> Greater" "cmp z y \<noteq> Greater"
    using lawful_comparator.cmp_flip [OF c, of y x] lawful_comparator.cmp_flip [OF c, of z y] by simp_all
  then have "cmp z x \<noteq> Greater"
    using lawful_comparator.cmp_trans [OF c] by blast
  then show "reverse_ord (cmp x z) \<noteq> Greater"
    using lawful_comparator.cmp_flip [OF c, of z x] by simp
qed

lemma lawful_then:
  assumes "lawful_comparator c1" "lawful_comparator c2"
  shows "lawful_comparator (\<lambda>a b. then_ord (c1 a b) (c2 a b))"
proof (rule lawful_comparator.intro)
  fix x y z
  show "then_ord (c1 y x) (c2 y x) = reverse_ord (then_ord (c1 x y) (c2 x y))"
    using lawful_comparator.cmp_flip [OF assms(1), of y x] lawful_comparator.cmp_flip [OF assms(2), of y x]
    by (cases "c1 x y") simp_all
  assume xy: "then_ord (c1 x y) (c2 x y) \<noteq> Greater" and yz: "then_ord (c1 y z) (c2 y z) \<noteq> Greater"
  then have c1: "c1 x y \<noteq> Greater" "c1 y z \<noteq> Greater" by auto
  have "c2 x z \<noteq> Greater" if "c1 x z = Equal"
    using lawful_comparator.cmp_trans_Equal [OF assms(1) that c1] xy yz
    by (intro lawful_comparator.cmp_trans [OF assms(2), of x y z]) simp_all
  then show "then_ord (c1 x z) (c2 x z) \<noteq> Greater"
    using lawful_comparator.cmp_trans [OF assms(1) c1] by simp
qed

text \<open>Comparators that agree on the elements of a list sort it alike.\<close>

lemma insert_by_cong:
  "(\<And>y. y \<in> set xs \<Longrightarrow> c1 x y = c2 x y) \<Longrightarrow> insert_by c1 x xs = insert_by c2 x xs"
  by (induction xs) auto

lemma sort_by_cong:
  "(\<And>x y. x \<in> set xs \<Longrightarrow> y \<in> set xs \<Longrightarrow> c1 x y = c2 x y) \<Longrightarrow> sort_by c1 xs = sort_by c2 xs"
  by (induction xs) (auto intro!: insert_by_cong)

lemma sorted_by_cong:
  "(\<And>x y. x \<in> set xs \<Longrightarrow> y \<in> set xs \<Longrightarrow> c1 x y = c2 x y) \<Longrightarrow> sorted_by c1 xs = sorted_by c2 xs"
  by (induction xs) auto

interpretation ord_cmp: lawful_comparator "cmp_of :: 'a::linorder \<Rightarrow> 'a \<Rightarrow> ordering"
  by unfold_locales (auto simp: cmp_of_def split: if_splits)


end
