(* ===== verification/Strings.thy ===== *)
theory Strings
  imports Prelude
begin

text \<open>
  The operations of Rust's \<open>str\<close>, \<open>char\<close> and integer parsing that the gateway uses, on
  the byte lists of theory Prelude. Patterns in the source are ASCII, so searching for them
  byte by byte is what Rust does; the functions that look at scalar values go through
  \<open>utf8_chars\<close>.
\<close>

abbreviation byte :: "char \<Rightarrow> nat" where "byte c \<equiv> of_char c"

section \<open>Prefixes, suffixes, splitting\<close>

definition starts_with :: "string \<Rightarrow> string \<Rightarrow> bool" where
  "starts_with p s \<longleftrightarrow> take (length p) s = p"

definition ends_with :: "string \<Rightarrow> string \<Rightarrow> bool" where
  "ends_with p s \<longleftrightarrow> length p \<le> length s \<and> drop (length s - length p) s = p"

definition strip_prefix :: "string \<Rightarrow> string \<Rightarrow> string option" where
  "strip_prefix p s = (if starts_with p s then Some (drop (length p) s) else None)"

definition strip_suffix :: "string \<Rightarrow> string \<Rightarrow> string option" where
  "strip_suffix p s = (if ends_with p s then Some (take (length s - length p) s) else None)"

text \<open>\<open>str::split(c)\<close>: always at least one segment.\<close>

fun split_on :: "char \<Rightarrow> string \<Rightarrow> string list" where
  "split_on c [] = [[]]"
| "split_on c (x # xs) =
     (if x = c then [] # split_on c xs
      else (case split_on c xs of [] \<Rightarrow> [[x]] | s # ss \<Rightarrow> (x # s) # ss))"

fun join_with :: "string \<Rightarrow> string list \<Rightarrow> string" where
  "join_with sep [] = []"
| "join_with sep [s] = s"
| "join_with sep (s # t # ss) = s @ sep @ join_with sep (t # ss)"

text \<open>\<open>str::split_once\<close>.\<close>

fun split_once :: "char \<Rightarrow> string \<Rightarrow> (string \<times> string) option" where
  "split_once c [] = None"
| "split_once c (x # xs) =
     (if x = c then Some ([], xs) else map_option (\<lambda>(a, b). (x # a, b)) (split_once c xs))"

fun contains_str :: "string \<Rightarrow> string \<Rightarrow> bool" where
  "contains_str p [] = (p = [])"
| "contains_str p (x # xs) = (starts_with p (x # xs) \<or> contains_str p xs)"

definition replace_byte :: "char \<Rightarrow> char \<Rightarrow> string \<Rightarrow> string" where
  "replace_byte a b s = map (\<lambda>c. if c = a then b else c) s"

definition trim_matches :: "char \<Rightarrow> string \<Rightarrow> string" where
  "trim_matches c s = rev (dropWhile (\<lambda>x. x = c) (rev (dropWhile (\<lambda>x. x = c) s)))"

definition trim_end_matches :: "char \<Rightarrow> string \<Rightarrow> string" where
  "trim_end_matches c s = rev (dropWhile (\<lambda>x. x = c) (rev s))"

lemma split_on_nonempty [simp]: "split_on c s \<noteq> []"
  by (induction s) (auto split: list.splits)

lemma join_split_on: "join_with [c] (split_on c s) = s"
proof (induction s)
  case (Cons x xs)
  then show ?case
    by (cases "split_on c xs"; cases "tl (split_on c xs)") (auto split: list.splits)
qed simp

lemma split_on_no_sep: "seg \<in> set (split_on c s) \<Longrightarrow> c \<notin> set seg"
proof (induction s arbitrary: seg)
  case (Cons x xs)
  then show ?case
    by (cases "split_on c xs") (auto split: if_splits)
qed simp

lemma starts_with_append [simp]: "starts_with p (p @ s)"
  by (simp add: starts_with_def)

lemma starts_with_iff: "starts_with p s \<longleftrightarrow> (\<exists>t. s = p @ t)"
  by (metis append_eq_conv_conj append_take_drop_id starts_with_def)

lemma ends_with_iff: "ends_with p s \<longleftrightarrow> (\<exists>t. s = t @ p)"
proof
  assume "ends_with p s"
  then show "\<exists>t. s = t @ p"
    unfolding ends_with_def by (metis append_take_drop_id)
qed (auto simp: ends_with_def)

lemma strip_prefix_Some_iff [simp]: "strip_prefix p s = Some t \<longleftrightarrow> s = p @ t"
  by (auto simp: strip_prefix_def starts_with_iff)

lemma strip_suffix_Some_iff [simp]: "strip_suffix p s = Some t \<longleftrightarrow> s = t @ p"
  by (auto simp: strip_suffix_def ends_with_iff)

lemma replace_byte_length [simp]: "length (replace_byte a b s) = length s"
  by (simp add: replace_byte_def)

section \<open>Scalar values\<close>

definition utf8_width :: "char \<Rightarrow> nat" where
  "utf8_width c = (if byte c < 192 then 1 else if byte c < 224 then 2 else if byte c < 240 then 3 else 4)"

text \<open>The scalar values of a string, each as the group of its bytes.\<close>

function utf8_chars :: "string \<Rightarrow> string list" where
  "utf8_chars [] = []"
| "utf8_chars (c # cs) =
     (c # take (utf8_width c - 1) cs) # utf8_chars (drop (utf8_width c - 1) cs)"
  by pat_completeness auto
termination
  by (relation "measure length") auto

definition is_ascii :: "char \<Rightarrow> bool" where
  "is_ascii c \<longleftrightarrow> byte c < 128"

lemma concat_utf8_chars [simp]: "concat (utf8_chars s) = s"
  by (induction s rule: utf8_chars.induct) auto

lemma utf8_chars_ascii: "\<forall>c\<in>set s. is_ascii c \<Longrightarrow> utf8_chars s = map (\<lambda>c. [c]) s"
  by (induction s) (auto simp: utf8_width_def is_ascii_def)

lemma utf8_chars_nonempty: "x \<in> set (utf8_chars s) \<Longrightarrow> x \<noteq> []"
  by (induction s rule: utf8_chars.induct) auto

definition is_digit :: "char \<Rightarrow> bool" where
  "is_digit c \<longleftrightarrow> 48 \<le> byte c \<and> byte c \<le> 57"

definition is_lower_hex :: "char \<Rightarrow> bool" where
  "is_lower_hex c \<longleftrightarrow> is_digit c \<or> 97 \<le> byte c \<and> byte c \<le> 102"

definition is_ascii_alphanumeric :: "char \<Rightarrow> bool" where
  "is_ascii_alphanumeric c \<longleftrightarrow>
     is_digit c \<or> 65 \<le> byte c \<and> byte c \<le> 90 \<or> 97 \<le> byte c \<and> byte c \<le> 122"

text \<open>
  \<open>char::is_whitespace\<close>: the Unicode \<open>White_Space\<close> property, which has exactly these
  members, written as UTF-8 byte groups.
\<close>

definition is_whitespace :: "string \<Rightarrow> bool" where
  "is_whitespace ch \<longleftrightarrow> (case map byte ch of
       [b] \<Rightarrow> (9 \<le> b \<and> b \<le> 13) \<or> b = 32
     | [b1, b2] \<Rightarrow> b1 = 194 \<and> (b2 = 133 \<or> b2 = 160)
     | [b1, b2, b3] \<Rightarrow>
         (b1, b2, b3) = (225, 154, 128)
       \<or> b1 = 226 \<and> b2 = 128 \<and> (128 \<le> b3 \<and> b3 \<le> 138 \<or> b3 = 168 \<or> b3 = 169 \<or> b3 = 175)
       \<or> (b1, b2, b3) = (226, 129, 159)
       \<or> (b1, b2, b3) = (227, 128, 128)
     | _ \<Rightarrow> False)"

text \<open>\<open>split_whitespace\<close>: the maximal runs of scalar values that are not white space.\<close>

fun whitespace_runs :: "string list \<Rightarrow> string \<Rightarrow> string list" where
  "whitespace_runs [] acc = (if acc = [] then [] else [acc])"
| "whitespace_runs (ch # chs) acc =
     (if is_whitespace ch then (if acc = [] then [] else [acc]) @ whitespace_runs chs []
      else whitespace_runs chs (acc @ ch))"

definition split_whitespace :: "string \<Rightarrow> string list" where
  "split_whitespace s = whitespace_runs (utf8_chars s) []"

text \<open>\<open>str::lines\<close>: a line feed ends a line, with the carriage return before it.\<close>

definition body_lines :: "string \<Rightarrow> string list" where
  "body_lines s =
     (let parts = split_on CHR 0x0A s;
          ended = map (\<lambda>l. case strip_suffix [CHR 0x0D] l of Some l' \<Rightarrow> l' | None \<Rightarrow> l) (butlast parts)
      in ended @ (if last parts = [] then [] else [last parts]))"

definition trim_is_empty :: "string \<Rightarrow> bool" where
  "trim_is_empty s \<longleftrightarrow> list_all is_whitespace (utf8_chars s)"

lemma whitespace_runs_nonempty: "w \<in> set (whitespace_runs chs acc) \<Longrightarrow> w \<noteq> []"
  by (induction chs acc rule: whitespace_runs.induct) (auto split: if_splits)

section \<open>Numbers in strings\<close>

definition digit_value :: "char \<Rightarrow> nat" where
  "digit_value c = byte c - 48"

fun digits_value :: "nat \<Rightarrow> string \<Rightarrow> nat" where
  "digits_value acc [] = acc"
| "digits_value acc (c # cs) = digits_value (acc * 10 + digit_value c) cs"

text \<open>
  \<open>str::parse\<close> at an unsigned type: an optional \<open>+\<close>, at least one digit, nothing else, and
  a value below the bound of the type.
\<close>

definition parse_unsigned :: "nat \<Rightarrow> string \<Rightarrow> nat option" where
  "parse_unsigned bound s =
     (let d = (case s of c # cs \<Rightarrow> if c = CHR ''+'' then cs else s | [] \<Rightarrow> s)
      in if d \<noteq> [] \<and> list_all is_digit d \<and> digits_value 0 d < bound
         then Some (digits_value 0 d) else None)"

definition parse_u64 :: "string \<Rightarrow> u64 option" where
  "parse_u64 s = map_option of_nat (parse_unsigned (2 ^ 64) s)"

definition parse_u32 :: "string \<Rightarrow> u32 option" where
  "parse_u32 s = map_option of_nat (parse_unsigned (2 ^ 32) s)"

definition digit_char :: "nat \<Rightarrow> char" where
  "digit_char d = char_of (48 + d)"

text \<open>The decimal \<open>Display\<close> of an unsigned integer.\<close>

fun show_nat :: "nat \<Rightarrow> string" where
  "show_nat n = (if n < 10 then [digit_char n] else show_nat (n div 10) @ [digit_char (n mod 10)])"

declare show_nat.simps [simp del]

definition show_int :: "int \<Rightarrow> string" where
  "show_int i = (if i < 0 then CHR ''-'' # show_nat (nat (- i)) else show_nat (nat i))"

lemma byte_digit_char [simp]: "d < 10 \<Longrightarrow> byte (digit_char d) = 48 + d"
  by (simp add: digit_char_def)

lemma digit_value_digit_char [simp]: "d < 10 \<Longrightarrow> digit_value (digit_char d) = d"
  by (simp add: digit_value_def)

lemma is_digit_digit_char [simp]: "d < 10 \<Longrightarrow> is_digit (digit_char d)"
  by (simp add: is_digit_def)

lemma digits_value_append:
  "digits_value acc (xs @ ys) = digits_value (digits_value acc xs) ys"
  by (induction xs arbitrary: acc) auto

lemma show_nat_nonempty [simp]: "show_nat n \<noteq> []"
  by (subst show_nat.simps) simp

lemma show_nat_digits: "list_all is_digit (show_nat n)"
proof (induction n rule: show_nat.induct)
  case (1 n)
  then show ?case by (subst show_nat.simps) auto
qed

lemma digits_value_show_nat: "digits_value 0 (show_nat n) = n"
proof (induction n rule: show_nat.induct)
  case (1 n)
  then show ?case by (subst show_nat.simps) (auto simp: digits_value_append)
qed

lemma parse_unsigned_show_nat: "n < bound \<Longrightarrow> parse_unsigned bound (show_nat n) = Some n"
proof -
  assume n: "n < bound"
  have d: "list_all is_digit (show_nat n)" by (rule show_nat_digits)
  then have "hd (show_nat n) \<noteq> CHR ''+''"
    by (cases "show_nat n") (auto simp: is_digit_def)
  then have "(case show_nat n of [] \<Rightarrow> show_nat n | c # cs \<Rightarrow> if c = CHR ''+'' then cs else show_nat n) = show_nat n"
    by (cases "show_nat n") auto
  then show ?thesis
    using d n unfolding parse_unsigned_def Let_def by (simp add: digits_value_show_nat)
qed

lemma parse_unsigned_bound: "parse_unsigned bound s = Some n \<Longrightarrow> n < bound"
  by (auto simp: parse_unsigned_def Let_def split: if_splits)

text \<open>Lower-case hexadecimal, as \<open>format!\<close> with \<open>{:0wx}\<close> prints it.\<close>

definition hex_digit :: "nat \<Rightarrow> char" where
  "hex_digit d = (if d < 10 then char_of (48 + d) else char_of (87 + d))"

fun hex_padded :: "nat \<Rightarrow> nat \<Rightarrow> string" where
  "hex_padded 0 n = []"
| "hex_padded (Suc w) n = hex_padded w (n div 16) @ [hex_digit (n mod 16)]"

lemma length_hex_padded [simp]: "length (hex_padded w n) = w"
  by (induction w arbitrary: n) auto

lemma hex_digit_lower [simp]: "d < 16 \<Longrightarrow> is_lower_hex (hex_digit d)"
  by (auto simp: hex_digit_def is_lower_hex_def is_digit_def)

lemma hex_padded_lower: "list_all is_lower_hex (hex_padded w n)"
  by (induction w arbitrary: n) auto

lemma byte_hex_digit: "d < 16 \<Longrightarrow> byte (hex_digit d) = (if d < 10 then 48 + d else 87 + d)"
  by (simp add: hex_digit_def)

lemma hex_digit_inj:
  assumes "d < 16" "e < 16"
  shows "hex_digit d = hex_digit e \<longleftrightarrow> d = e"
proof
  assume "hex_digit d = hex_digit e"
  then have "byte (hex_digit d) = (byte (hex_digit e) :: nat)" by simp
  with assms show "d = e" by (auto simp: byte_hex_digit split: if_splits)
qed simp

lemma hex_padded_inj:
  "m < 16 ^ w \<Longrightarrow> n < 16 ^ w \<Longrightarrow> hex_padded w m = hex_padded w n \<longleftrightarrow> m = n"
proof (induction w arbitrary: m n)
  case 0
  then show ?case by simp
next
  case (Suc w)
  have "m div 16 < 16 ^ w" "n div 16 < 16 ^ w"
    using Suc.prems by (auto simp: less_mult_imp_div_less mult.commute)
  then have "hex_padded (Suc w) m = hex_padded (Suc w) n \<longleftrightarrow>
      m div 16 = n div 16 \<and> m mod 16 = n mod 16"
    using Suc.IH by (simp add: hex_digit_inj)
  then show ?case by (metis div_mult_mod_eq)
qed

end
