(* ===== verification/Json.thy ===== *)
theory Json
  imports Strings "HOL-Library.Log_Nat"
begin

text \<open>
  The \<open>serde_json\<close> data model as the gateway sees it: numbers are an unsigned or a negative
  64-bit integer or a finite double (a rational; a double is finite in JSON, and its order,
  equality and rounding are those of the rational it denotes, negative zero being identified
  with zero), and objects are \<open>BTreeMap\<close>s (the crate's default), here association lists
  sorted by key. Reading and printing JSON text belong to the crate and are parameters of the
  functions that need them.
\<close>

section \<open>Numbers\<close>

datatype number = PosInt u64 | NegInt "64 word" | Float rat

definition round_half_even :: "rat \<Rightarrow> int" where
  "round_half_even q =
     (let f = \<lfloor>q\<rfloor>; r = q - of_int f
      in if r < 1 / 2 then f else if 1 / 2 < r then f + 1 else if even f then f else f + 1)"

definition pow2 :: "int \<Rightarrow> rat" where
  "pow2 e = (if 0 \<le> e then 2 ^ nat e else 1 / 2 ^ nat (- e))"

text \<open>The exponent of the largest power of two that is at most a positive rational.\<close>

definition ilog2 :: "rat \<Rightarrow> int" where
  "ilog2 q = (case quotient_of q of (a, b) \<Rightarrow>
     let e = bitlen a - bitlen b in if pow2 e \<le> q then e else e - 1)"

text \<open>
  Rounding to the nearest value of a binary floating-point format, ties to even: \<open>p\<close> bits of
  precision, least exponent \<open>emin\<close>, largest exponent \<open>emax\<close>; \<open>None\<close> is an infinity.
\<close>

definition ieee_round :: "nat \<Rightarrow> int \<Rightarrow> int \<Rightarrow> rat \<Rightarrow> rat option" where
  "ieee_round p emin emax q =
     (if q = 0 then Some 0
      else let e = max (ilog2 \<bar>q\<bar> - (int p - 1)) emin;
               r = of_int (round_half_even (\<bar>q\<bar> / pow2 e)) * pow2 e
           in if pow2 (emax + 1) \<le> r then None else Some (sgn q * r))"

definition f64_round :: "rat \<Rightarrow> rat option" where
  "f64_round = ieee_round 53 (-1074) 1023"

definition f32_round :: "rat \<Rightarrow> rat option" where
  "f32_round = ieee_round 24 (-149) 127"

text \<open>An integer cast to a double (\<open>as f64\<close>): 64-bit integers never overflow it.\<close>

definition f64_of_int :: "int \<Rightarrow> rat" where
  "f64_of_int i =
     (if \<bar>i\<bar> \<le> 2 ^ 53 then of_int i
      else let s = bitlen \<bar>i\<bar> - 53;
               m = round_half_even (of_int \<bar>i\<bar> / pow2 s)
           in of_int (sgn i) * of_int m * pow2 s)"

fun num_as_i64 :: "number \<Rightarrow> int option" where
  "num_as_i64 (PosInt n) = (if uint n < 2 ^ 63 then Some (uint n) else None)"
| "num_as_i64 (NegInt n) = Some (sint n)"
| "num_as_i64 (Float q) = None"

fun num_as_u64 :: "number \<Rightarrow> u64 option" where
  "num_as_u64 (PosInt n) = Some n"
| "num_as_u64 _ = None"

fun num_as_f64 :: "number \<Rightarrow> rat" where
  "num_as_f64 (PosInt n) = f64_of_int (uint n)"
| "num_as_f64 (NegInt n) = f64_of_int (sint n)"
| "num_as_f64 (Float q) = q"

text \<open>The number a JSON number denotes, before any rounding.\<close>

fun num_exact :: "number \<Rightarrow> rat" where
  "num_exact (PosInt n) = of_int (uint n)"
| "num_exact (NegInt n) = of_int (sint n)"
| "num_exact (Float q) = q"

section \<open>Values\<close>

datatype json =
    JNull
  | JBool bool
  | JNum number
  | JStr string
  | JArr "json list"
  | JObj "(string \<times> json) list"

type_synonym object = "(string \<times> json) list"

abbreviation jint :: "u64 \<Rightarrow> json" where "jint n \<equiv> JNum (PosInt n)"

fun as_object :: "json \<Rightarrow> object option" where
  "as_object (JObj ms) = Some ms"
| "as_object _ = None"

fun as_array :: "json \<Rightarrow> json list option" where
  "as_array (JArr vs) = Some vs"
| "as_array _ = None"

fun as_str :: "json \<Rightarrow> string option" where
  "as_str (JStr s) = Some s"
| "as_str _ = None"

fun as_bool :: "json \<Rightarrow> bool option" where
  "as_bool (JBool b) = Some b"
| "as_bool _ = None"

fun as_u64 :: "json \<Rightarrow> u64 option" where
  "as_u64 (JNum n) = num_as_u64 n"
| "as_u64 _ = None"

fun as_i64 :: "json \<Rightarrow> int option" where
  "as_i64 (JNum n) = num_as_i64 n"
| "as_i64 _ = None"

fun as_f64 :: "json \<Rightarrow> rat option" where
  "as_f64 (JNum n) = Some (num_as_f64 n)"
| "as_f64 _ = None"

abbreviation is_object :: "json \<Rightarrow> bool" where "is_object v \<equiv> as_object v \<noteq> None"
abbreviation is_array :: "json \<Rightarrow> bool" where "is_array v \<equiv> as_array v \<noteq> None"
abbreviation is_string :: "json \<Rightarrow> bool" where "is_string v \<equiv> as_str v \<noteq> None"
abbreviation is_boolean :: "json \<Rightarrow> bool" where "is_boolean v \<equiv> as_bool v \<noteq> None"
abbreviation is_number :: "json \<Rightarrow> bool" where "is_number v \<equiv> as_f64 v \<noteq> None"
abbreviation is_null :: "json \<Rightarrow> bool" where "is_null v \<equiv> v = JNull"

lemma as_cases [simp]:
  "as_object v = Some ms \<longleftrightarrow> v = JObj ms"
  "as_array v = Some vs \<longleftrightarrow> v = JArr vs"
  "as_str v = Some s \<longleftrightarrow> v = JStr s"
  "as_bool v = Some b \<longleftrightarrow> v = JBool b"
  by (cases v; auto)+

section \<open>Objects as sorted maps\<close>

fun obj_get :: "string \<Rightarrow> object \<Rightarrow> json option" where
  "obj_get k [] = None"
| "obj_get k ((k', v) # ms) = (if k' = k then Some v else obj_get k ms)"

fun obj_insert :: "string \<Rightarrow> json \<Rightarrow> object \<Rightarrow> object" where
  "obj_insert k v [] = [(k, v)]"
| "obj_insert k v ((k', v') # ms) =
     (if k < k' then (k, v) # (k', v') # ms
      else if k = k' then (k, v) # ms
      else (k', v') # obj_insert k v ms)"

fun obj_remove :: "string \<Rightarrow> object \<Rightarrow> object" where
  "obj_remove k [] = []"
| "obj_remove k ((k', v) # ms) = (if k' = k then ms else (k', v) # obj_remove k ms)"

definition keys :: "object \<Rightarrow> string list" where
  "keys ms = map fst ms"

definition contains_key :: "string \<Rightarrow> object \<Rightarrow> bool" where
  "contains_key k ms \<longleftrightarrow> obj_get k ms \<noteq> None"

text \<open>The representation invariant: keys strictly increasing.\<close>

definition obj_ok :: "object \<Rightarrow> bool" where
  "obj_ok ms \<longleftrightarrow> sorted_wrt (<) (map fst ms)"

text \<open>The \<open>json!\<close> macro's object literals insert their members one by one.\<close>

definition obj_of :: "(string \<times> json) list \<Rightarrow> object" where
  "obj_of kvs = fold (\<lambda>(k, v). obj_insert k v) kvs []"

definition jobj :: "(string \<times> json) list \<Rightarrow> json" where
  "jobj kvs = JObj (obj_of kvs)"

text \<open>
  What the gateway relies on from \<open>serde_json::Map\<close>: lookups see exactly the latest
  insertions and removals, and the invariant is kept.
\<close>

locale ordered_map =
  fixes empty :: "'m"
    and lookup :: "'k \<Rightarrow> 'm \<Rightarrow> 'v option"
    and insert_kv :: "'k \<Rightarrow> 'v \<Rightarrow> 'm \<Rightarrow> 'm"
    and remove :: "'k \<Rightarrow> 'm \<Rightarrow> 'm"
    and invar :: "'m \<Rightarrow> bool"
  assumes lookup_empty: "lookup k empty = None"
    and lookup_insert: "invar m \<Longrightarrow> lookup k (insert_kv k' v m) = (if k = k' then Some v else lookup k m)"
    and lookup_remove: "invar m \<Longrightarrow> lookup k (remove k' m) = (if k = k' then None else lookup k m)"
    and invar_empty: "invar empty"
    and invar_insert: "invar m \<Longrightarrow> invar (insert_kv k v m)"
    and invar_remove: "invar m \<Longrightarrow> invar (remove k m)"
begin

definition build :: "('k \<times> 'v) list \<Rightarrow> 'm \<Rightarrow> 'm" where
  "build kvs m = fold (\<lambda>(k, v). insert_kv k v) kvs m"

lemma invar_build: "invar m \<Longrightarrow> invar (build kvs m)"
  by (induction kvs arbitrary: m) (auto simp: build_def invar_insert)

lemma lookup_build:
  "invar m \<Longrightarrow> lookup k (build kvs m) =
     (case map_of (rev kvs) k of Some v \<Rightarrow> Some v | None \<Rightarrow> lookup k m)"
proof (induction kvs arbitrary: m)
  case Nil
  then show ?case by (simp add: build_def)
next
  case (Cons kv kvs)
  obtain k' v where kv: "kv = (k', v)" by (cases kv)
  have "lookup k (build kvs (insert_kv k' v m)) =
      (case map_of (rev kvs) k of Some v \<Rightarrow> Some v | None \<Rightarrow> lookup k (insert_kv k' v m))"
    using Cons by (simp add: invar_insert)
  then show ?case
    using Cons.prems by (auto simp: build_def kv lookup_insert map_add_def split: option.splits)
qed

lemma distinct_map_of_rev: "distinct (map fst kvs) \<Longrightarrow> map_of (rev kvs) k = map_of (kvs :: ('k \<times> 'v) list) k"
  by (metis distinct_rev map_of_eqI map_of_inject_set rev_map set_rev)

lemma lookup_build_distinct:
  "distinct (map fst kvs) \<Longrightarrow> lookup k (build kvs empty) = map_of kvs k"
  by (simp add: lookup_build invar_empty lookup_empty distinct_map_of_rev split: option.splits)

end

lemma obj_get_insert: "obj_get k (obj_insert k' v ms) = (if k = k' then Some v else obj_get k ms)"
  by (induction ms) auto

lemma keys_insert [simp]: "fst ` set (obj_insert k v ms) = insert k (fst ` set ms)"
  by (induction k v ms rule: obj_insert.induct) (auto simp: insert_commute)

lemma obj_ok_Nil [simp]: "obj_ok []"
  by (simp add: obj_ok_def)

lemma obj_ok_Cons [simp]: "obj_ok ((k, v) # ms) \<longleftrightarrow> (\<forall>k'\<in>fst ` set ms. k < k') \<and> obj_ok ms"
  by (simp add: obj_ok_def)

lemma obj_ok_insert [simp]: "obj_ok ms \<Longrightarrow> obj_ok (obj_insert k v ms)"
proof (induction k v ms rule: obj_insert.induct)
  case (2 k v k' v' ms)
  then show ?case
    by (cases "k < k'"; cases "k = k'") (auto dest: less_trans)
qed simp

lemma obj_get_map_of: "obj_get k ms = map_of ms k"
  by (induction ms) auto

lemma obj_get_None_iff: "obj_get k ms = None \<longleftrightarrow> k \<notin> fst ` set ms"
  by (simp add: obj_get_map_of map_of_eq_None_iff)

lemma obj_get_Some_mem: "obj_get k ms = Some v \<Longrightarrow> (k, v) \<in> set ms"
  by (simp add: obj_get_map_of map_of_SomeD)

lemma keys_remove: "fst ` set (obj_remove k ms) \<subseteq> fst ` set ms"
  by (induction k ms rule: obj_remove.induct) auto

lemma obj_ok_remove [simp]: "obj_ok ms \<Longrightarrow> obj_ok (obj_remove k ms)"
proof (induction ms)
  case (Cons kv ms)
  with keys_remove [of k ms] show ?case by (cases kv) fastforce
qed simp

lemma obj_get_remove:
  "obj_ok ms \<Longrightarrow> obj_get k (obj_remove k' ms) = (if k = k' then None else obj_get k ms)"
proof (induction ms)
  case (Cons kv ms)
  then show ?case
    using obj_get_None_iff [of k ms] by (cases kv) auto
qed simp

interpretation json_map: ordered_map "[]" obj_get obj_insert obj_remove obj_ok
  by unfold_locales
     (auto simp: obj_get_insert obj_get_remove)

lemma obj_of_build: "obj_of kvs = json_map.build kvs []"
  by (simp add: obj_of_def json_map.build_def)

lemma obj_ok_obj_of [simp]: "obj_ok (obj_of kvs)"
  by (simp add: obj_of_build json_map.invar_build)

lemma obj_get_obj_of: "distinct (map fst kvs) \<Longrightarrow> obj_get k (obj_of kvs) = map_of kvs k"
  by (simp add: obj_of_build json_map.lookup_build_distinct)

lemma obj_ok_distinct: "obj_ok ms \<Longrightarrow> distinct (map fst ms)"
  by (simp add: obj_ok_def strict_sorted_iff)

lemma obj_get_mem: "obj_ok ms \<Longrightarrow> (k, v) \<in> set ms \<Longrightarrow> obj_get k ms = Some v"
  by (simp add: obj_get_map_of map_of_is_SomeI obj_ok_distinct)

lemma obj_get_iff: "obj_ok ms \<Longrightarrow> obj_get k ms = Some v \<longleftrightarrow> (k, v) \<in> set ms"
  by (blast intro: obj_get_mem dest: obj_get_Some_mem)

text \<open>Two well-formed objects with the same members are the same list.\<close>

lemma obj_ok_eqI: "obj_ok a \<Longrightarrow> obj_ok b \<Longrightarrow> (\<And>k. obj_get k a = obj_get k b) \<Longrightarrow> a = b"
proof -
  assume ok: "obj_ok a" "obj_ok b" and eq: "\<And>k. obj_get k a = obj_get k b"
  have st: "set a = set b"
  proof (rule set_eqI)
    fix kv :: "string \<times> json"
    show "kv \<in> set a \<longleftrightarrow> kv \<in> set b"
      using obj_get_iff [OF ok(1), of "fst kv" "snd kv"] obj_get_iff [OF ok(2), of "fst kv" "snd kv"]
        eq [of "fst kv"] by simp
  qed
  have d: "distinct (map fst a)" "distinct (map fst b)"
    using ok by (simp_all add: obj_ok_distinct)
  have inj: "inj_on fst (set a \<union> set b)"
    using d(1) st by (simp add: distinct_map)
  have srt: "sorted (map fst a)" "sorted (map fst b)"
    using ok by (simp_all add: obj_ok_def strict_sorted_iff)
  show "a = b"
    by (rule map_sorted_distinct_set_unique [OF inj srt(1) d(1) srt(2) d(2) st])
qed

section \<open>Access\<close>

text \<open>\<open>Value::get\<close> with a string index: members of objects only.\<close>

definition get :: "string \<Rightarrow> json \<Rightarrow> json option" where
  "get k v = (case v of JObj ms \<Rightarrow> obj_get k ms | _ \<Rightarrow> None)"

text \<open>\<open>v[k]\<close> reads \<open>Null\<close> where the member is missing.\<close>

definition index_key :: "string \<Rightarrow> json \<Rightarrow> json" where
  "index_key k v = (case get k v of Some x \<Rightarrow> x | None \<Rightarrow> JNull)"

text \<open>\<open>Value::pointer\<close> along object keys (the pointers of the source name no array index).\<close>

fun pointer :: "string list \<Rightarrow> json \<Rightarrow> json option" where
  "pointer [] v = Some v"
| "pointer (k # ks) v = Option.bind (get k v) (pointer ks)"

definition get_str :: "string \<Rightarrow> json \<Rightarrow> string option" where
  "get_str k v = Option.bind (get k v) as_str"

definition get_array :: "string \<Rightarrow> json \<Rightarrow> json list option" where
  "get_array k v = Option.bind (get k v) as_array"

definition get_object :: "string \<Rightarrow> json \<Rightarrow> object option" where
  "get_object k v = Option.bind (get k v) as_object"

definition or_else :: "'a option \<Rightarrow> 'a option \<Rightarrow> 'a option" where
  "or_else a b = (case a of Some x \<Rightarrow> Some x | None \<Rightarrow> b)"

definition unwrap_or :: "'a \<Rightarrow> 'a option \<Rightarrow> 'a" where
  "unwrap_or d a = (case a of Some x \<Rightarrow> x | None \<Rightarrow> d)"

definition is_some_and :: "'a option \<Rightarrow> ('a \<Rightarrow> bool) \<Rightarrow> bool" where
  "is_some_and a p = (case a of Some x \<Rightarrow> p x | None \<Rightarrow> False)"

definition is_none_or :: "'a option \<Rightarrow> ('a \<Rightarrow> bool) \<Rightarrow> bool" where
  "is_none_or a p = (case a of Some x \<Rightarrow> p x | None \<Rightarrow> True)"

text \<open>\<open>options.iter().next()\<close> on an object: its least key.\<close>

definition first_member :: "json \<Rightarrow> (string \<times> json) option" where
  "first_member v = (case v of JObj (kv # _) \<Rightarrow> Some kv | _ \<Rightarrow> None)"

lemma option_helpers [simp]:
  "or_else None b = b" "or_else (Some x) b = Some x"
  "unwrap_or d None = d" "unwrap_or d (Some x) = x"
  "is_some_and None p = False" "is_some_and (Some x) p = p x"
  "is_none_or None p = True" "is_none_or (Some x) p = p x"
  by (simp_all add: or_else_def unwrap_or_def is_some_and_def is_none_or_def)

lemma get_simps [simp]:
  "get k (JObj ms) = obj_get k ms" "get k JNull = None" "get k (JBool b) = None"
  "get k (JNum n) = None" "get k (JStr s) = None" "get k (JArr vs) = None"
  by (simp_all add: get_def)

lemma get_Some_iff: "get k v = Some x \<longleftrightarrow> (\<exists>ms. v = JObj ms \<and> obj_get k ms = Some x)"
  by (cases v) auto

lemma is_some_and_cong [fundef_cong]:
  "a = b \<Longrightarrow> (\<And>x. b = Some x \<Longrightarrow> p x = q x) \<Longrightarrow> is_some_and a p = is_some_and b q"
  by (cases b) auto

section \<open>Sizes, for recursion over values\<close>

lemma obj_get_size [termination_simp]: "obj_get k ms = Some v \<Longrightarrow> size v < size (JObj ms)"
  by (induction ms) (auto split: if_splits)

lemma member_size [termination_simp]: "(k, v) \<in> set ms \<Longrightarrow> size v < size (JObj ms)"
  by (induction ms) auto

lemma element_size [termination_simp]: "v \<in> set vs \<Longrightarrow> size v < size (JArr vs)"
  by (induction vs) auto

lemma get_size [termination_simp]: "get k v = Some x \<Longrightarrow> size x < size v"
  by (auto simp: get_Some_iff dest: obj_get_size)

lemma first_member_size [termination_simp]: "first_member v = Some (k, x) \<Longrightarrow> size x < size v"
  by (auto simp: first_member_def split: json.splits list.splits)

end
