(* ===== verification/Errors.thy ===== *)
theory Errors
  imports Json
begin

text \<open>
  The gateway's error type and the HTTP responses it answers with
  (\<open>src/main.rs\<close>, \<open>GatewayError\<close>, \<open>es_response\<close> and their kin). A response is its
  status code, its headers and its JSON body, \<open>None\<close> for an empty one.
\<close>

datatype gateway_error =
    Bad string string  \<comment> \<open>feature, message\<close>
  | NotFound string
  | AliasesNotFound "string list"
  | DocumentNotFound string string  \<comment> \<open>index, id\<close>
  | VersionConflict string string  \<comment> \<open>index, id\<close>
  | IndexAlreadyExists string
  | InvalidIndexName string string  \<comment> \<open>index, reason\<close>
  | IllegalArgument string
  | PayloadTooLarge string nat  \<comment> \<open>setting, limit\<close>
  | Upstream string
  | Internal string

type_synonym 'a outcome = "gateway_error + 'a"

fun error_status :: "gateway_error \<Rightarrow> nat" where
  "error_status (NotFound _) = 404"
| "error_status (AliasesNotFound _) = 404"
| "error_status (DocumentNotFound _ _) = 404"
| "error_status (VersionConflict _ _) = 409"
| "error_status (IndexAlreadyExists _) = 400"
| "error_status (InvalidIndexName _ _) = 400"
| "error_status (IllegalArgument _) = 400"
| "error_status (Bad _ _) = 400"
| "error_status (PayloadTooLarge _ _) = 413"
| "error_status (Upstream _) = 502"
| "error_status (Internal _) = 500"

definition error_object :: "(string \<times> json) list \<Rightarrow> u64 \<Rightarrow> json" where
  "error_object members status = jobj [(''error'', jobj members), (''status'', jint status)]"

text \<open>The Elasticsearch shape that repeats the cause under \<open>root_cause\<close>.\<close>

definition rooted_error :: "(string \<times> json) list \<Rightarrow> u64 \<Rightarrow> json" where
  "rooted_error cause status =
     error_object ((''root_cause'', JArr [jobj cause]) # cause) status"

fun error_body :: "gateway_error \<Rightarrow> json" where
  "error_body (Bad feature message) = error_object
     [(''type'', JStr ''qdrant_gateway_unsupported_query''),
      (''reason'', JStr ''Unsupported Elasticsearch request''),
      (''feature'', JStr feature), (''message'', JStr message)] 400"
| "error_body (NotFound message) = error_object
     [(''type'', JStr ''index_not_found_exception''), (''reason'', JStr message)] 404"
| "error_body (AliasesNotFound aliases) =
     (let reason = ''aliases ['' @ join_with '', '' aliases @ ''] missing'';
          resource_id = (case aliases of [a] \<Rightarrow> JStr a | _ \<Rightarrow> JArr (map JStr aliases))
      in rooted_error
        [(''type'', JStr ''aliases_not_found_exception''), (''reason'', JStr reason),
         (''resource.type'', JStr ''aliases''), (''resource.id'', resource_id)] 404)"
| "error_body (DocumentNotFound index ident) = error_object
     [(''type'', JStr ''document_missing_exception''),
      (''reason'', JStr (''['' @ ident @ '']: document missing'')),
      (''index'', JStr index), (''shard'', JStr ''0'')] 404"
| "error_body (VersionConflict index ident) = error_object
     [(''type'', JStr ''version_conflict_engine_exception''),
      (''reason'', JStr (''['' @ ident @
         '']: version conflict, document already exists (current version [1])'')),
      (''index'', JStr index), (''shard'', JStr ''0'')] 409"
| "error_body (IndexAlreadyExists index) = rooted_error
     [(''type'', JStr ''resource_already_exists_exception''),
      (''reason'', JStr (''index ['' @ index @ ''] already exists'')),
      (''index'', JStr index)] 400"
| "error_body (InvalidIndexName index reason) = rooted_error
     [(''type'', JStr ''invalid_index_name_exception''),
      (''reason'', JStr (''Invalid index name ['' @ index @ ''], '' @ reason)),
      (''index_uuid'', JStr ''_na_''), (''index'', JStr index)] 400"
| "error_body (IllegalArgument reason) = rooted_error
     [(''type'', JStr ''illegal_argument_exception''), (''reason'', JStr reason)] 400"
| "error_body (PayloadTooLarge setting limit) = error_object
     [(''type'', JStr ''content_too_long_exception''),
      (''reason'', JStr (''request body exceeds configured '' @ setting @ '' limit of '' @
         show_nat limit @ '' bytes''))] 413"
| "error_body (Upstream message) = error_object
     [(''type'', JStr ''qdrant_upstream_error''), (''reason'', JStr message)] 502"
| "error_body (Internal message) = error_object
     [(''type'', JStr ''qdrant_gateway_internal_error''), (''reason'', JStr message)] 500"

section \<open>Responses\<close>

record response =
  resp_status :: nat
  resp_headers :: "(string \<times> string) list"
  resp_body :: "json option"

definition elastic_header :: "string \<times> string" where
  "elastic_header = (''x-elastic-product'', ''Elasticsearch'')"

definition json_header :: "string \<times> string" where
  "json_header = (''content-type'', ''application/json'')"

definition es_response :: "nat \<Rightarrow> json \<Rightarrow> response" where
  "es_response status body =
     \<lparr>resp_status = status, resp_headers = [json_header, elastic_header], resp_body = Some body\<rparr>"

definition es_ok :: "json \<Rightarrow> response" where
  "es_ok body = es_response 200 body"

definition es_empty_response :: "nat \<Rightarrow> response" where
  "es_empty_response status =
     \<lparr>resp_status = status, resp_headers = [elastic_header], resp_body = None\<rparr>"

text \<open>The plain \<open>Json\<close> response of axum, without the product header.\<close>

definition json_response :: "nat \<Rightarrow> json \<Rightarrow> response" where
  "json_response status body =
     \<lparr>resp_status = status, resp_headers = [json_header], resp_body = Some body\<rparr>"

definition error_response :: "gateway_error \<Rightarrow> response" where
  "error_response e = es_response (error_status e) (error_body e)"

text \<open>\<open>unwrap_or_else(IntoResponse::into_response)\<close>.\<close>

fun into_response :: "response outcome \<Rightarrow> response" where
  "into_response (Inr r) = r"
| "into_response (Inl e) = error_response e"

definition is_success :: "nat \<Rightarrow> bool" where
  "is_success status \<longleftrightarrow> 200 \<le> status \<and> status < 300"

lemma es_response_simps [simp]:
  "resp_status (es_response s b) = s" "resp_body (es_response s b) = Some b"
  "resp_status (es_ok b) = 200" "resp_body (es_ok b) = Some b"
  "resp_status (es_empty_response s) = s"
  "resp_status (error_response e) = error_status e"
  "resp_body (error_response e) = Some (error_body e)"
  by (simp_all add: es_response_def es_ok_def es_empty_response_def error_response_def)

lemma get_jobj: "distinct (map fst kvs) \<Longrightarrow> get k (jobj kvs) = map_of kvs k"
  by (simp add: jobj_def obj_get_obj_of)

lemma get_error_object [simp]:
  "get ''status'' (error_object ms s) = Some (jint s)"
  "get ''error'' (error_object ms s) = Some (jobj ms)"
  by (simp_all add: error_object_def get_jobj)

lemma get_rooted_error [simp]: "get ''status'' (rooted_error c s) = Some (jint s)"
  by (simp add: rooted_error_def)

lemma error_not_success [simp]: "\<not> is_success (error_status e)"
  by (cases e) (auto simp: is_success_def)

end
