(* ===== verification/Compare.thy ===== *)
theory Compare
  imports Errors
begin

text \<open>
  Comparison of JSON values and of search hits (\<open>src/main.rs\<close>: \<open>value_cmp\<close>,
  \<open>hit_sort_value\<close>, \<open>compare_sorted_hits\<close>, \<open>hit_is_after\<close>, \<open>sort_safe_number\<close>) and
  the field access they rest on (\<open>source_field\<close>, \<open>compatibility_field\<close>). The text of a
  value that is neither a number nor a string is what \<open>serde_json\<close> prints, the parameter
  \<open>to_text\<close>.
\<close>

section \<open>Fields\<close>

definition source_field :: "json \<Rightarrow> string \<Rightarrow> json option" where
  "source_field source field = pointer (split_on CHR ''.'' field) source"

definition compatibility_field :: "string \<Rightarrow> string" where
  "compatibility_field field = unwrap_or field (strip_suffix ''.keyword'' field)"

definition sortable_source_field :: "json \<Rightarrow> string \<Rightarrow> json option" where
  "sortable_source_field source field = source_field source (compatibility_field field)"

definition source_value_exists :: "json \<Rightarrow> string \<Rightarrow> bool" where
  "source_value_exists source field =
     is_some_and (source_field source field) (\<lambda>v. case v of
        JNull \<Rightarrow> False
      | JArr vs \<Rightarrow> list_ex (\<lambda>x. \<not> is_null x) vs
      | _ \<Rightarrow> True)"

fun source_value_matches :: "json \<Rightarrow> (json \<Rightarrow> bool) \<Rightarrow> bool" where
  "source_value_matches (JArr vs) p = list_ex (\<lambda>v. source_value_matches v p) vs"
| "source_value_matches v p = p v"

section \<open>Values\<close>

text \<open>Casting a double to \<open>i128\<close>: truncation towards zero, saturating.\<close>

definition i128_of_f64 :: "rat \<Rightarrow> int" where
  "i128_of_f64 q = (let t = (if 0 \<le> q then \<lfloor>q\<rfloor> else \<lceil>q\<rceil>)
     in max (- (2 ^ 127)) (min (2 ^ 127 - 1) t))"

definition f64_fract :: "rat \<Rightarrow> rat" where
  "f64_fract q = q - of_int (if 0 \<le> q then \<lfloor>q\<rfloor> else \<lceil>q\<rceil>)"

definition json_integer :: "json \<Rightarrow> int option" where
  "json_integer v = or_else (as_i64 v) (map_option uint (as_u64 v))"

definition integer_float :: "int \<Rightarrow> rat \<Rightarrow> ordering" where
  "integer_float i q = then_ord (cmp_of i (i128_of_f64 q)) (cmp_of 0 (f64_fract q))"

definition value_cmp :: "(json \<Rightarrow> string) \<Rightarrow> json \<Rightarrow> json \<Rightarrow> ordering" where
  "value_cmp to_text left right =
     (case (json_integer left, json_integer right, as_f64 left, as_f64 right) of
        (Some a, Some b, _, _) \<Rightarrow> cmp_of a b
      | (Some a, None, _, Some q) \<Rightarrow> integer_float a q
      | (None, Some b, Some q, _) \<Rightarrow> reverse_ord (integer_float b q)
      | (_, _, Some a, Some b) \<Rightarrow> cmp_of a b
      | _ \<Rightarrow> cmp_of (unwrap_or (to_text left) (as_str left)) (unwrap_or (to_text right) (as_str right)))"

definition sort_safe_number :: "json \<Rightarrow> bool" where
  "sort_safe_number v = is_some_and (as_f64 v) (\<lambda>q. \<bar>q\<bar> \<le> 9007199254740991)"

section \<open>Hits\<close>

definition hit_sort_value :: "json \<Rightarrow> string \<Rightarrow> json" where
  "hit_sort_value hit field =
     (if field = ''_score'' then unwrap_or JNull (get ''_score'' hit)
      else if field = ''_id'' then unwrap_or JNull (get ''_id'' hit)
      else unwrap_or JNull (Option.bind (get ''_source'' hit) (\<lambda>s. sortable_source_field s field)))"

definition directed :: "string \<Rightarrow> ordering \<Rightarrow> ordering" where
  "directed direction o1 = (if direction = ''desc'' then reverse_ord o1 else o1)"

fun compare_sorted_hits ::
  "(json \<Rightarrow> string) \<Rightarrow> json \<Rightarrow> json \<Rightarrow> (string \<times> string) list \<Rightarrow> ordering" where
  "compare_sorted_hits to_text a b [] =
     value_cmp to_text (hit_sort_value a ''_id'') (hit_sort_value b ''_id'')"
| "compare_sorted_hits to_text a b ((field, direction) # sorts) =
     (let o1 = value_cmp to_text (hit_sort_value a field) (hit_sort_value b field)
      in if o1 \<noteq> Equal then directed direction o1 else compare_sorted_hits to_text a b sorts)"

fun hit_is_after ::
  "(json \<Rightarrow> string) \<Rightarrow> json \<Rightarrow> json list \<Rightarrow> (string \<times> string) list \<Rightarrow> bool" where
  "hit_is_after to_text hit (value # cursor) ((field, direction) # sorts) =
     (let o1 = value_cmp to_text (hit_sort_value hit field) value
      in if o1 \<noteq> Equal then (if direction = ''desc'' then o1 = Less else o1 = Greater)
         else hit_is_after to_text hit cursor sorts)"
| "hit_is_after to_text hit _ _ = False"

section \<open>Lemmas\<close>

lemma saturate_cmp:
  "\<bar>i\<bar> < 2 ^ 100 \<Longrightarrow> cmp_of i (max (- (2 ^ 127)) (min (2 ^ 127 - 1) t)) = cmp_of i (t :: int)"
  by (auto simp: cmp_of_def min_def max_def)

lemma trunc_cmp_nonneg:
  "then_ord (cmp_of i \<lfloor>q\<rfloor>) (cmp_of 0 (q - of_int \<lfloor>q\<rfloor>)) = cmp_of (of_int i) (q :: rat)"
proof -
  have le: "of_int \<lfloor>q\<rfloor> \<le> q" and less: "q < of_int \<lfloor>q\<rfloor> + 1"
    by linarith+
  consider "i < \<lfloor>q\<rfloor>" | "i = \<lfloor>q\<rfloor>" | "\<lfloor>q\<rfloor> < i" by linarith
  then show ?thesis
  proof cases
    case 1
    then have "of_int i < q" by linarith
    with 1 show ?thesis by (simp add: cmp_of_def)
  next
    case 2
    with le show ?thesis by (auto simp: cmp_of_def)
  next
    case 3
    then have "q < of_int i" by linarith
    with 3 show ?thesis by (simp add: cmp_of_def)
  qed
qed

lemma trunc_cmp_neg:
  "then_ord (cmp_of i \<lceil>q\<rceil>) (cmp_of 0 (q - of_int \<lceil>q\<rceil>)) = cmp_of (of_int i) (q :: rat)"
proof -
  have le: "q \<le> of_int \<lceil>q\<rceil>" and less: "of_int \<lceil>q\<rceil> - 1 < q"
    by linarith+
  consider "i < \<lceil>q\<rceil>" | "i = \<lceil>q\<rceil>" | "\<lceil>q\<rceil> < i" by linarith
  then show ?thesis
  proof cases
    case 1
    then have "of_int i < q" by linarith
    with 1 show ?thesis by (simp add: cmp_of_def)
  next
    case 2
    with le show ?thesis by (auto simp: cmp_of_def)
  next
    case 3
    then have "q < of_int i" by linarith
    with 3 show ?thesis by (simp add: cmp_of_def)
  qed
qed

lemma i128_cmp:
  "\<bar>i\<bar> < 2 ^ 100 \<Longrightarrow> cmp_of i (i128_of_f64 q) = cmp_of i (if 0 \<le> q then \<lfloor>q\<rfloor> else \<lceil>q\<rceil>)"
  by (simp only: i128_of_f64_def Let_def saturate_cmp)

text \<open>Truncation, saturation and the fractional part together compare exactly.\<close>

lemma integer_float_exact:
  assumes "\<bar>i\<bar> < 2 ^ 100"
  shows "integer_float i q = cmp_of (of_int i) q"
  unfolding integer_float_def f64_fract_def i128_cmp [OF assms]
  by (simp add: trunc_cmp_nonneg trunc_cmp_neg)

lemma uint_u64_small [simp]: "\<bar>uint (n :: 64 word)\<bar> < 2 ^ 100"
  using uint_lt2p [of n] uint_ge_0 [of n] by simp

lemma sint_i64_small [simp]: "\<bar>sint (n :: 64 word)\<bar> < 2 ^ 100"
  using sint_lt [of n] sint_ge [of n] by simp

lemma json_integer_simps [simp]:
  "json_integer (JNum (PosInt n)) = Some (uint n)"
  "json_integer (JNum (NegInt n)) = Some (sint n)"
  "json_integer (JNum (Float q)) = None"
  "json_integer JNull = None" "json_integer (JBool b) = None" "json_integer (JStr s) = None"
  "json_integer (JArr vs) = None" "json_integer (JObj ms) = None"
  by (auto simp: json_integer_def)

lemma integer_float_words [simp]:
  "integer_float (uint (n :: 64 word)) q = cmp_of (of_int (uint n)) q"
  "integer_float (sint (n :: 64 word)) q = cmp_of (of_int (sint n)) q"
  by (rule integer_float_exact, rule uint_u64_small, rule integer_float_exact, rule sint_i64_small)

lemma value_cmp_num [simp]:
  "value_cmp to_text (JNum a) (JNum b) = cmp_of (num_exact a) (num_exact b)"
  by (cases a; cases b)
     (auto simp: value_cmp_def cmp_of_def simp del: of_int_uint of_int_sint)

lemma value_cmp_str [simp]: "value_cmp to_text (JStr a) (JStr b) = cmp_of a b"
  by (simp add: value_cmp_def)

lemma reverse_cmp_of [simp]: "reverse_ord (cmp_of x y) = cmp_of y x"
  by (auto simp: cmp_of_def)

lemma value_cmp_flip: "value_cmp to_text b a = reverse_ord (value_cmp to_text a b)"
  by (cases "json_integer a"; cases "json_integer b"; cases "as_f64 a"; cases "as_f64 b")
     (simp_all add: value_cmp_def)

lemma is_number_JNum: "is_number v \<longleftrightarrow> (\<exists>n. v = JNum n)"
  by (cases v) auto

section \<open>Sorting hits\<close>

text \<open>
  \<open>value_cmp\<close> is an order on numbers and an order on everything else. Placing the numbers first
  gives a lawful comparator that agrees with it wherever a field does not mix the two.
\<close>

definition kinded_cmp :: "(json \<Rightarrow> string) \<Rightarrow> json \<Rightarrow> json \<Rightarrow> ordering" where
  "kinded_cmp to_text a b =
     (if is_number a = is_number b then value_cmp to_text a b else if is_number a then Less else Greater)"

definition same_kind :: "json \<Rightarrow> json \<Rightarrow> bool" where
  "same_kind a b \<longleftrightarrow> (is_number a \<longleftrightarrow> is_number b)"

lemma value_cmp_text:
  "\<not> is_number a \<Longrightarrow> \<not> is_number b \<Longrightarrow>
   value_cmp to_text a b = cmp_of (unwrap_or (to_text a) (as_str a)) (unwrap_or (to_text b) (as_str b))"
  by (cases a; cases b) (simp_all add: value_cmp_def)

interpretation kinded: lawful_comparator "kinded_cmp to_text"
proof unfold_locales
  fix x y z :: json
  show "kinded_cmp to_text y x = reverse_ord (kinded_cmp to_text x y)"
    using value_cmp_flip [of to_text y x] by (simp add: kinded_cmp_def)
  assume xy: "kinded_cmp to_text x y \<noteq> Greater" and yz: "kinded_cmp to_text y z \<noteq> Greater"
  have kinds: "is_number y \<Longrightarrow> is_number x" "is_number z \<Longrightarrow> is_number y"
    using xy yz by (auto simp: kinded_cmp_def split: if_splits)
  show "kinded_cmp to_text x z \<noteq> Greater"
  proof (cases "is_number x = is_number z")
    case same: True
    then have "is_number x = is_number y" "is_number y = is_number z" using kinds by blast+
    with xy yz have le: "value_cmp to_text x y \<noteq> Greater" "value_cmp to_text y z \<noteq> Greater"
      by (simp_all add: kinded_cmp_def)
    have "value_cmp to_text x z \<noteq> Greater"
    proof (cases "is_number x")
      case True
      then obtain a b c where "x = JNum a" "y = JNum b" "z = JNum c"
        using same \<open>is_number x = is_number y\<close> by (metis is_number_JNum)
      with le show ?thesis by (auto simp: cmp_of_def split: if_splits)
    next
      case False
      then have "\<not> is_number y" "\<not> is_number z" using same \<open>is_number x = is_number y\<close> by blast+
      with False le show ?thesis
        using value_cmp_text [of x y to_text] value_cmp_text [of y z to_text] value_cmp_text [of x z to_text]
        by (metis ord_cmp.cmp_trans)
    qed
    with same show ?thesis by (simp add: kinded_cmp_def)
  next
    case False
    then show ?thesis using kinds by (auto simp: kinded_cmp_def)
  qed
qed

text \<open>The lexicographic comparison of hits over an arbitrary comparison of values.\<close>

fun hits_cmp :: "(json \<Rightarrow> json \<Rightarrow> ordering) \<Rightarrow> (string \<times> string) list \<Rightarrow> json \<Rightarrow> json \<Rightarrow> ordering" where
  "hits_cmp cmp [] a b = cmp (hit_sort_value a ''_id'') (hit_sort_value b ''_id'')"
| "hits_cmp cmp ((field, direction) # sorts) a b =
     then_ord (directed direction (cmp (hit_sort_value a field) (hit_sort_value b field))) (hits_cmp cmp sorts a b)"

lemma compare_sorted_hits_eq: "compare_sorted_hits to_text a b sorts = hits_cmp (value_cmp to_text) sorts a b"
proof (induction sorts)
  case (Cons s sorts)
  then show ?case
    by (cases s; cases "value_cmp to_text (hit_sort_value a (fst s)) (hit_sort_value b (fst s))")
       (auto simp: directed_def Let_def)
qed simp

lemma hits_cmp_lawful:
  assumes "lawful_comparator cmp"
  shows "lawful_comparator (hits_cmp cmp sorts)"
proof (induction sorts)
  case Nil
  have "hits_cmp cmp [] = (\<lambda>a b. cmp (hit_sort_value a ''_id'') (hit_sort_value b ''_id''))"
    by (intro ext) simp
  then show ?case using lawful_on [OF assms] by simp
next
  case (Cons s sorts)
  obtain field direction where s: "s = (field, direction)" by (cases s)
  have "hits_cmp cmp (s # sorts) = (\<lambda>a b.
      then_ord (directed direction (cmp (hit_sort_value a field) (hit_sort_value b field))) (hits_cmp cmp sorts a b))"
    by (intro ext) (simp add: s)
  moreover have "lawful_comparator (\<lambda>a b. directed direction (cmp (hit_sort_value a field) (hit_sort_value b field)))"
    using lawful_on [OF assms] lawful_reverse [OF lawful_on [OF assms]]
    by (cases "direction = ''desc''") (simp_all only: directed_def if_True if_False refl)
  ultimately show ?case using lawful_then Cons.IH by simp
qed

text \<open>Hits that never mix numbers with other values in a sort field (nor in \<open>_id\<close>).\<close>

definition uniform_hits :: "(string \<times> string) list \<Rightarrow> json list \<Rightarrow> bool" where
  "uniform_hits sorts hits \<longleftrightarrow> list_all (\<lambda>field.
     list_all (\<lambda>a. list_all (\<lambda>b. same_kind (hit_sort_value a field) (hit_sort_value b field)) hits) hits)
     (''_id'' # map fst sorts)"

lemma uniform_hits_kind:
  "uniform_hits sorts hits \<Longrightarrow> a \<in> set hits \<Longrightarrow> b \<in> set hits \<Longrightarrow> field \<in> set (''_id'' # map fst sorts) \<Longrightarrow>
   same_kind (hit_sort_value a field) (hit_sort_value b field)"
  unfolding uniform_hits_def list_all_iff by blast

lemma uniform_hits_tail: "uniform_hits ((field, direction) # sorts) hits \<Longrightarrow> uniform_hits sorts hits"
  by (simp add: uniform_hits_def)

lemma kinded_cmp_same: "same_kind a b \<Longrightarrow> value_cmp to_text a b = kinded_cmp to_text a b"
  unfolding same_kind_def kinded_cmp_def by (simp only: if_True refl)

lemma uniform_hits_agree:
  "uniform_hits sorts hits \<Longrightarrow> a \<in> set hits \<Longrightarrow> b \<in> set hits \<Longrightarrow>
   hits_cmp (value_cmp to_text) sorts a b = hits_cmp (kinded_cmp to_text) sorts a b"
proof (induction sorts)
  case Nil
  then have "same_kind (hit_sort_value a ''_id'') (hit_sort_value b ''_id'')"
    by (rule uniform_hits_kind) simp
  then show ?case by (simp only: hits_cmp.simps kinded_cmp_same)
next
  case (Cons s sorts)
  obtain field direction where s: "s = (field, direction)" by (cases s)
  have "same_kind (hit_sort_value a field) (hit_sort_value b field)"
    using Cons.prems by (rule uniform_hits_kind) (simp add: s)
  then show ?case using Cons by (simp only: s hits_cmp.simps kinded_cmp_same uniform_hits_tail)
qed

definition sort_hits :: "(json \<Rightarrow> string) \<Rightarrow> (string \<times> string) list \<Rightarrow> json list \<Rightarrow> json list" where
  "sort_hits to_text sorts hits = sort_by (\<lambda>a b. compare_sorted_hits to_text a b sorts) hits"

lemma sort_hits_sorted:
  assumes "uniform_hits sorts hits"
  shows "sorted_by (\<lambda>a b. compare_sorted_hits to_text a b sorts) (sort_hits to_text sorts hits)"
proof -
  let ?v = "hits_cmp (value_cmp to_text) sorts" and ?k = "hits_cmp (kinded_cmp to_text) sorts"
  have "sort_by ?v hits = sort_by ?k hits"
    using uniform_hits_agree [OF assms] by (intro sort_by_cong) auto
  moreover have "sorted_by ?k (sort_by ?k hits)"
    by (rule lawful_comparator.sort_by_sorted [OF hits_cmp_lawful]) (rule kinded.lawful_comparator_axioms)
  then have "sorted_by ?v (sort_by ?k hits)"
    using sorted_by_cong [of "sort_by ?k hits" ?v ?k] uniform_hits_agree [OF assms] by simp
  ultimately show ?thesis by (simp add: sort_hits_def compare_sorted_hits_eq)
qed

section \<open>Properties\<close>

text \<open>C13: \<open>value_cmp\<close> compares JSON numbers by their exact values, whatever mix of unsigned,
  signed and double representations they have: no precision is lost above 2^53.\<close>

theorem value_cmp_exact:
  "value_cmp to_text (JNum a) (JNum b) = cmp_of (num_exact a) (num_exact b)"
  by (rule value_cmp_num)

text \<open>C11: When no sort field mixes numbers with other values, sorting the hits by the
  gateway's comparator yields an ordered permutation of them.\<close>

theorem sort_hits_correct:
  assumes "uniform_hits sorts hits"
  shows "sorted_by (\<lambda>a b. compare_sorted_hits to_text a b sorts) (sort_hits to_text sorts hits)
    \<and> mset (sort_hits to_text sorts hits) = mset hits"
  using sort_hits_sorted [OF assms] by (simp add: sort_hits_def)

definition sample_hit :: "string \<Rightarrow> u64 \<Rightarrow> json" where
  "sample_hit i n = JObj [(''_id'', JStr i), (''_source'', JObj [(''n'', jint n)])]"

definition decimal_text :: "json \<Rightarrow> string" where
  "decimal_text v = (case as_u64 v of Some n \<Rightarrow> show_nat (unat n) | None \<Rightarrow> [])"

lemma sample_hit_values:
  "hit_sort_value (sample_hit i n) ''_id'' = JStr i"
  "hit_sort_value (sample_hit i n) ''n'' = jint n"
  by (simp_all add: hit_sort_value_def sample_hit_def sortable_source_field_def source_field_def
      compatibility_field_def strip_suffix_def ends_with_def)

lemma sort_hits_correct_witness:
  "sorted_by (\<lambda>a b. compare_sorted_hits decimal_text a b [(''n'', ''desc'')])
     (sort_hits decimal_text [(''n'', ''desc'')] [sample_hit ''a'' 1, sample_hit ''b'' 2])"
  using sort_hits_correct [of "[(''n'', ''desc'')]" "[sample_hit ''a'' 1, sample_hit ''b'' 2]"]
  by (simp add: uniform_hits_def sample_hit_values same_kind_def)

text \<open>On a field that mixes numbers and strings the comparator is cyclic (9 < 10 < "5" <
  9), so it is no order there and the result of \<open>sort_by\<close> is unspecified.\<close>

theorem value_cmp_cyclic:
  assumes "to_text (jint 9) = ''9''" "to_text (jint 10) = ''10''"
  shows "value_cmp to_text (jint 9) (jint 10) = Less
    \<and> value_cmp to_text (jint 10) (JStr ''5'') = Less
    \<and> value_cmp to_text (JStr ''5'') (jint 9) = Less"
  using assms by (simp add: value_cmp_def)

lemma value_cmp_cyclic_witness:
  "value_cmp decimal_text (jint 10) (JStr ''5'') = Less"
proof -
  have "show_nat 9 = ''9''" by code_simp
  moreover have "show_nat 10 = ''10''" by code_simp
  ultimately show ?thesis using value_cmp_cyclic [of decimal_text] by (simp add: decimal_text_def)
qed

end
