(* ===== verification/Filters.thy ===== *)
theory Filters
  imports Compare
begin

text \<open>
  Filter clauses (\<open>src/main.rs\<close>): validating a \<open>post_filter\<close>, evaluating a clause on a
  source document, collecting the pattern clauses the gateway evaluates itself, and
  translating a query into a Qdrant filter. The regular-expression crate is the parameter
  \<open>regex\<close>: it compiles an expression into a matcher or reports an error.
\<close>

type_synonym regex_crate = "string \<Rightarrow> string + (string \<Rightarrow> bool)"

definition bad :: "string \<Rightarrow> string \<Rightarrow> 'a outcome" where
  "bad feature message = Inl (Bad feature message)"

lemma bad_iff [simp]: "bad f m \<noteq> Inr x" "Inr x \<noteq> bad f m" "is_ok (bad f m) = False"
  by (simp_all add: bad_def)

section \<open>Clause lists and the minimum\<close>

definition bool_clauses :: "object \<Rightarrow> string \<Rightarrow> json list" where
  "bool_clauses bq key =
     (case obj_get key bq of
        Some v \<Rightarrow> (case v of JArr vs \<Rightarrow> vs | _ \<Rightarrow> [v])
      | None \<Rightarrow> [])"

definition div_ceil :: "u64 \<Rightarrow> u64 \<Rightarrow> u64" where
  "div_ceil a b = a div b + (if a mod b = 0 then 0 else 1)"

definition percent_of :: "nat \<Rightarrow> u64 \<Rightarrow> u64" where
  "percent_of should_len percent = div_ceil (of_nat should_len * percent) 100"

definition explicit_minimum :: "object \<Rightarrow> nat \<Rightarrow> u64 option" where
  "explicit_minimum bq should_len =
     Option.bind (obj_get ''minimum_should_match'' bq) (\<lambda>value.
       or_else (as_u64 value)
         (Option.bind (as_str value) (\<lambda>text.
            or_else (parse_u64 text)
              (Option.bind (strip_suffix ''%'' text) (\<lambda>number.
                 map_option (percent_of should_len) (parse_u64 number))))))"

definition minimum_should_match :: "object \<Rightarrow> nat \<Rightarrow> bool \<Rightarrow> nat" where
  "minimum_should_match bq should_len has_required =
     (if should_len = 0 then 0
      else let default = (if has_required then 0 else 1)
           in unat (min (max (unwrap_or default (explicit_minimum bq should_len)) default)
                        (of_nat should_len)))"

definition has_required_clause :: "object \<Rightarrow> bool" where
  "has_required_clause bq \<longleftrightarrow> bool_clauses bq ''must'' \<noteq> [] \<or> bool_clauses bq ''filter'' \<noteq> []"

section \<open>Validating a post filter\<close>

definition single_filter_field :: "json \<Rightarrow> string \<Rightarrow> (string \<times> json) outcome" where
  "single_filter_field value feature =
     (case value of
        JObj [(field, v)] \<Rightarrow>
          if field = [] then bad feature ''filter field must not be empty'' else Inr (field, v)
      | JObj _ \<Rightarrow> bad feature ''filter must contain exactly one field''
      | _ \<Rightarrow> bad feature ''filter body must be an object'')"

definition validate_term :: "json \<Rightarrow> string \<Rightarrow> unit outcome" where
  "validate_term value feature =
     bindR (single_filter_field value (feature @ ''.term'')) (\<lambda>(_, expected).
       if is_array expected \<or> is_null expected
       then bad (feature @ ''.term'') ''term value must be a scalar or an options object''
       else case expected of
         JObj options \<Rightarrow>
           if obj_get ''value'' options = None
             \<or> list_ex (\<lambda>k. k \<noteq> ''value'' \<and> k \<noteq> ''boost'') (keys options)
             \<or> is_some_and (obj_get ''boost'' options) (\<lambda>b. \<not> is_number b)
           then bad (feature @ ''.term'')
             ''term options require value and support only a numeric boost''
           else Inr ()
       | _ \<Rightarrow> Inr ())"

definition validate_terms :: "json \<Rightarrow> string \<Rightarrow> unit outcome" where
  "validate_terms value feature =
     bindR (single_filter_field value (feature @ ''.terms'')) (\<lambda>(_, values).
       if is_array values then Inr ()
       else bad (feature @ ''.terms'') ''terms value must be an array'')"

definition validate_range_option :: "string \<Rightarrow> string \<Rightarrow> json \<Rightarrow> unit outcome" where
  "validate_range_option feature operator value =
     (let place = feature @ ''.range.'' @ operator in
      if operator \<in> set [''gt'', ''gte'', ''lt'', ''lte'', ''from'', ''to''] \<and> is_number value then Inr ()
      else if operator \<in> set [''include_lower'', ''include_upper''] \<and> is_boolean value then Inr ()
      else if operator = ''boost'' \<and> is_number value then Inr ()
      else if operator \<in> set [''gt'', ''gte'', ''lt'', ''lte'', ''from'', ''to'']
      then bad place ''post_filter range bounds must be numeric''
      else if operator \<in> set [''include_lower'', ''include_upper'', ''boost'']
      then bad place ''invalid range option value''
      else bad place ''unsupported range operator'')"

definition validate_range :: "json \<Rightarrow> string \<Rightarrow> unit outcome" where
  "validate_range value feature =
     bindR (single_filter_field value (feature @ ''.range'')) (\<lambda>(_, bounds).
       case bounds of
         JObj options \<Rightarrow> eachR (\<lambda>(operator, v). validate_range_option feature operator v) options
       | _ \<Rightarrow> bad (feature @ ''.range'') ''range body must be an object'')"

definition validate_exists :: "json \<Rightarrow> string \<Rightarrow> unit outcome" where
  "validate_exists value feature =
     (case value of
        JObj options \<Rightarrow>
          if length options \<noteq> 1
            \<or> is_none_or (Option.bind (obj_get ''field'' options) as_str) (\<lambda>f. f = [])
          then bad (feature @ ''.exists'') ''exists requires exactly one non-empty field''
          else Inr ()
      | _ \<Rightarrow> bad (feature @ ''.exists'') ''exists body must be an object'')"

definition supported_minimum :: "json \<Rightarrow> bool" where
  "supported_minimum clauses \<longleftrightarrow>
     as_u64 clauses \<noteq> None
     \<or> is_some_and (as_str clauses) (\<lambda>text.
         parse_u64 text \<noteq> None
         \<or> is_some_and (Option.bind (strip_suffix ''%'' text) parse_u64) (\<lambda>percent. percent \<le> 100))"

fun validate_filter :: "json \<Rightarrow> string \<Rightarrow> unit outcome" where
  "validate_filter (JObj [(kind, value)]) feature =
     (if kind = ''match_all'' then
        (if is_object value then Inr ()
         else bad (feature @ ''.match_all'') ''match_all body must be an object'')
      else if kind = ''term'' then validate_term value feature
      else if kind = ''terms'' then validate_terms value feature
      else if kind = ''range'' then validate_range value feature
      else if kind = ''exists'' then validate_exists value feature
      else if kind = ''bool'' then
        (case value of
           JObj bq \<Rightarrow> eachR (\<lambda>(key, clauses).
             if key \<in> set [''must'', ''filter'', ''must_not'', ''should''] then
               (case clauses of
                  JArr cs \<Rightarrow> eachR (\<lambda>c. validate_filter c (feature @ ''.bool.'' @ key)) cs
                | _ \<Rightarrow> validate_filter clauses (feature @ ''.bool.'' @ key))
             else if key = ''minimum_should_match'' then
               (if supported_minimum clauses then Inr ()
                else bad (feature @ ''.bool.minimum_should_match'')
                  ''minimum_should_match must be a non-negative integer or percentage from 0% to 100%'')
             else bad (feature @ ''.bool.'' @ key) ''unsupported bool filter option'') bq
         | _ \<Rightarrow> bad (feature @ ''.bool'') ''bool filter must be an object'')
      else bad (feature @ ''.'' @ kind) (kind @ '' is not supported in post_filter''))"
| "validate_filter (JObj _) feature =
     bad feature ''filter clause must contain exactly one query type''"
| "validate_filter _ feature = bad feature ''filter clause must be an object''"

declare validate_filter.simps(1) [simp del]

definition validate_post_filter :: "json \<Rightarrow> unit outcome" where
  "validate_post_filter query = validate_filter query ''post_filter''"

section \<open>Evaluating a clause on a source document\<close>

definition in_bounds :: "object \<Rightarrow> rat \<Rightarrow> bool" where
  "in_bounds bounds actual \<longleftrightarrow>
     list_all (\<lambda>op. is_none_or (Option.bind (obj_get op bounds) as_f64) (\<lambda>bound.
        if op = ''gt'' then bound < actual
        else if op = ''gte'' then bound \<le> actual
        else if op = ''lt'' then actual < bound
        else if op = ''lte'' then actual \<le> bound
        else True)) [''gt'', ''gte'', ''lt'', ''lte'']"

definition term_value :: "json \<Rightarrow> json" where
  "term_value v = unwrap_or v (get ''value'' v)"

definition matches_term :: "json \<Rightarrow> object \<Rightarrow> bool" where
  "matches_term source term =
     is_some_and (first_member (JObj term)) (\<lambda>(field, value).
       is_some_and (source_field source (compatibility_field field))
         (\<lambda>actual. source_value_matches actual (\<lambda>a. a = term_value value)))"

definition matches_terms :: "json \<Rightarrow> object \<Rightarrow> bool" where
  "matches_terms source terms =
     is_some_and (first_member (JObj terms)) (\<lambda>(field, values).
       is_some_and (as_array values) (\<lambda>vs.
         is_some_and (source_field source (compatibility_field field))
           (\<lambda>actual. source_value_matches actual (\<lambda>a. a \<in> set vs))))"

definition matches_range :: "json \<Rightarrow> object \<Rightarrow> bool" where
  "matches_range source rng =
     is_some_and (first_member (JObj rng)) (\<lambda>(field, bounds).
       is_some_and (source_field source (compatibility_field field)) (\<lambda>actual.
         is_some_and (as_object bounds) (\<lambda>bs.
           source_value_matches actual (\<lambda>a. is_some_and (as_f64 a) (in_bounds bs)))))"

lemma bool_clauses_size [termination_simp]:
  "c \<in> set (bool_clauses bq key) \<Longrightarrow> size c < size (JObj bq)"
proof -
  assume c: "c \<in> set (bool_clauses bq key)"
  then obtain v where v: "obj_get key bq = Some v"
    by (cases "obj_get key bq") (auto simp: bool_clauses_def)
  then have "size v < size (JObj bq)" by (rule obj_get_size)
  moreover have "size c \<le> size v"
    using c v by (auto simp: bool_clauses_def dest: element_size split: json.splits)
  ultimately show ?thesis by linarith
qed

lemma nested_bool_clauses_size [termination_simp]:
  "obj_get k ob = Some (JObj bq) \<Longrightarrow> c \<in> set (bool_clauses bq key) \<Longrightarrow> size c < size (JObj ob)"
  using bool_clauses_size obj_get_size less_trans by blast

function source_matches_query :: "json \<Rightarrow> json \<Rightarrow> bool" where
  "source_matches_query source query =
     (case query of JObj ob \<Rightarrow>
       if contains_key ''match_all'' ob then True
       else (case Option.bind (obj_get ''term'' ob) as_object of Some term \<Rightarrow> matches_term source term
       | None \<Rightarrow> (case Option.bind (obj_get ''terms'' ob) as_object of Some terms \<Rightarrow> matches_terms source terms
       | None \<Rightarrow> (case Option.bind (obj_get ''range'' ob) as_object of Some rng \<Rightarrow> matches_range source rng
       | None \<Rightarrow> (case obj_get ''exists'' ob of Some ex \<Rightarrow>
            is_some_and (Option.bind (get ''field'' ex) as_str)
              (\<lambda>field. source_value_exists source (compatibility_field field))
       | None \<Rightarrow> (case Option.bind (obj_get ''bool'' ob) as_object of Some bq \<Rightarrow>
            list_all (source_matches_query source) (bool_clauses bq ''must'' @ bool_clauses bq ''filter'')
            \<and> list_all (\<lambda>c. \<not> source_matches_query source c) (bool_clauses bq ''must_not'')
            \<and> minimum_should_match bq (length (bool_clauses bq ''should'')) (has_required_clause bq)
              \<le> length (filter (source_matches_query source) (bool_clauses bq ''should''))
       | None \<Rightarrow> False)))))
     | _ \<Rightarrow> False)"
  by pat_completeness auto
termination
  by (relation "measure (\<lambda>(s, q). size q)")
     (auto simp: bind_eq_Some_conv dest: nested_bool_clauses_size)

declare source_matches_query.simps [simp del]


section \<open>Patterns\<close>

datatype gateway_pattern =
    Regex string string  \<comment> \<open>field, pattern\<close>
  | Prefix string string  \<comment> \<open>field, prefix\<close>
  | Wildcard string string  \<comment> \<open>field, pattern\<close>

definition make_pattern :: "string \<Rightarrow> string \<Rightarrow> string \<Rightarrow> gateway_pattern" where
  "make_pattern kind field pattern =
     (if kind = ''regexp'' then Regex (compatibility_field field) pattern
      else if kind = ''prefix'' then Prefix (compatibility_field field) pattern
      else Wildcard (compatibility_field field) pattern)"

definition pattern_clause :: "regex_crate \<Rightarrow> string \<Rightarrow> json \<Rightarrow> gateway_pattern outcome" where
  "pattern_clause regex kind value =
     bindR (ok_or (Bad kind ''pattern query requires a field'') (first_member value)) (\<lambda>(field, raw).
     bindR (ok_or (Bad kind ''pattern must be a string'')
             (or_else (as_str raw) (get_str ''value'' raw))) (\<lambda>pattern.
       let p = make_pattern kind field pattern in
       case p of
         Regex _ expression \<Rightarrow>
           (case regex expression of Inl e \<Rightarrow> Inl (Bad ''query.regexp'' e) | Inr _ \<Rightarrow> Inr p)
       | _ \<Rightarrow> Inr p))"

definition nested_pattern_error :: "string \<Rightarrow> gateway_pattern list \<Rightarrow> unit outcome" where
  "nested_pattern_error key nested =
     (if nested = [] then Inr ()
      else bad (''query.bool.'' @ key)
        ''gateway-side pattern clauses are supported only in must/filter'')"

function collect_patterns ::
  "regex_crate \<Rightarrow> json \<Rightarrow> gateway_pattern list \<Rightarrow> gateway_pattern list outcome" where
  "collect_patterns regex q patterns =
     (case q of JObj ob \<Rightarrow>
        foldR (\<lambda>(kind, value) ps.
          if kind \<in> set [''regexp'', ''prefix'', ''wildcard''] then
            map_ok (\<lambda>p. ps @ [p]) (pattern_clause regex kind value)
          else if kind = ''bool'' then
            (case value of
               JObj bq \<Rightarrow>
                 bindR (foldR (\<lambda>c ps. collect_patterns regex c ps) (bool_clauses bq ''must'') ps) (\<lambda>ps.
                 bindR (foldR (\<lambda>c ps. collect_patterns regex c ps) (bool_clauses bq ''filter'') ps) (\<lambda>ps.
                 bindR (bindR (foldR (\<lambda>c ns. collect_patterns regex c ns) (bool_clauses bq ''should'') [])
                         (nested_pattern_error ''should'')) (\<lambda>_.
                 bindR (bindR (foldR (\<lambda>c ns. collect_patterns regex c ns) (bool_clauses bq ''must_not'') [])
                         (nested_pattern_error ''must_not'')) (\<lambda>_.
                 Inr ps))))
             | _ \<Rightarrow> Inr ps)
          else Inr ps) ob patterns
      | _ \<Rightarrow> bad ''query'' ''query clause must be an object'')"
  by pat_completeness auto
termination
  by (relation "measure (\<lambda>(r, q, ps). size q)")
     (auto dest!: member_size bool_clauses_size intro: less_trans)

declare collect_patterns.simps [simp del]

text \<open>
  \<open>wildcard_regex\<close>: the expression a wildcard pattern stands for; \<open>escape\<close> is
  \<open>regex::escape\<close>.
\<close>

definition wildcard_expression :: "(string \<Rightarrow> string) \<Rightarrow> string \<Rightarrow> string" where
  "wildcard_expression escape pattern =
     ''^'' @ concat (map (\<lambda>ch. if ch = ''*'' then ''.*'' else if ch = ''?'' then ''.'' else escape ch)
       (utf8_chars pattern)) @ ''$''"

definition wildcard_regex ::
  "regex_crate \<Rightarrow> (string \<Rightarrow> string) \<Rightarrow> string \<Rightarrow> (string \<Rightarrow> bool) outcome" where
  "wildcard_regex regex escape pattern =
     (case regex (wildcard_expression escape pattern) of
        Inl e \<Rightarrow> Inl (Internal e) | Inr m \<Rightarrow> Inr m)"

definition field_text_matches :: "json \<Rightarrow> string \<Rightarrow> (string \<Rightarrow> bool) \<Rightarrow> bool" where
  "field_text_matches source field p =
     is_some_and (source_field source field)
       (\<lambda>v. source_value_matches v (\<lambda>x. is_some_and (as_str x) p))"

fun pattern_matches ::
  "regex_crate \<Rightarrow> (string \<Rightarrow> string) \<Rightarrow> json \<Rightarrow> gateway_pattern \<Rightarrow> bool" where
  "pattern_matches regex escape source (Regex field pattern) =
     is_some_and (ok_opt (regex pattern)) (field_text_matches source field)"
| "pattern_matches regex escape source (Prefix field prefix) =
     field_text_matches source field (starts_with prefix)"
| "pattern_matches regex escape source (Wildcard field pattern) =
     is_some_and (ok_opt (wildcard_regex regex escape pattern)) (field_text_matches source field)"

section \<open>Translating a query into a Qdrant filter\<close>

definition term_condition :: "string \<Rightarrow> json \<Rightarrow> json" where
  "term_condition field v =
     jobj [(''key'', JStr (compatibility_field field)), (''match'', jobj [(''value'', term_value v)])]"

definition any_condition :: "string \<Rightarrow> json list \<Rightarrow> json" where
  "any_condition field vs =
     jobj [(''key'', JStr field), (''match'', jobj [(''any'', JArr vs)])]"

definition exists_condition :: "string \<Rightarrow> json" where
  "exists_condition field =
     jobj [(''must_not'', JArr [jobj [(''is_empty'', jobj [(''key'', JStr (compatibility_field field))])]])]"

definition range_condition :: "string \<Rightarrow> object \<Rightarrow> json" where
  "range_condition field rng =
     jobj [(''key'', JStr (compatibility_field field)), (''range'', JObj rng)]"

definition min_should_condition :: "json list \<Rightarrow> nat \<Rightarrow> json" where
  "min_should_condition should minimum =
     jobj [(''min_should'', jobj [(''conditions'', JArr should), (''min_count'', jint (of_nat minimum))])]"

text \<open>The conjunction of collected conditions and negated conditions, as one condition.\<close>

definition condition :: "json list \<Rightarrow> json list \<Rightarrow> json" where
  "condition must must_not =
     (case must_not of
        [] \<Rightarrow> (case must of [c] \<Rightarrow> c | [] \<Rightarrow> jobj [(''must'', JArr [])] | _ \<Rightarrow> jobj [(''must'', JArr must)])
      | _ \<Rightarrow> JObj (obj_of ((if must = [] then [] else [(''must'', JArr must)])
               @ [(''must_not'', JArr must_not)])))"

definition flag_or_true :: "string \<Rightarrow> object \<Rightarrow> bool" where
  "flag_or_true key options = unwrap_or True (Option.bind (obj_get key options) as_bool)"

text \<open>The Qdrant name of a range operator; \<open>None\<close> marks an option the translation skips.\<close>

definition range_operator :: "object \<Rightarrow> string \<Rightarrow> string option outcome" where
  "range_operator options k =
     (if k \<in> set [''gt'', ''gte'', ''lt'', ''lte''] then Inr (Some k)
      else if k = ''from'' then Inr (Some (if flag_or_true ''include_lower'' options then ''gte'' else ''gt''))
      else if k = ''to'' then Inr (Some (if flag_or_true ''include_upper'' options then ''lte'' else ''lt''))
      else if k \<in> set [''include_lower'', ''include_upper'', ''boost''] then Inr None
      else bad (''range.'' @ k) ''unsupported range operator'')"

definition translate_range :: "object \<Rightarrow> object outcome" where
  "translate_range options =
     foldR (\<lambda>(k, x) rng. map_ok (\<lambda>op. case op of None \<Rightarrow> rng | Some name \<Rightarrow> obj_insert name x rng)
              (range_operator options k)) options []"

text \<open>What a walk has collected: conditions, negated conditions, text clauses.\<close>

type_synonym walk_state = "json list \<times> json list \<times> json list"

fun push_must :: "json \<Rightarrow> walk_state \<Rightarrow> walk_state" where
  "push_must c (must, must_not, text) = (must @ [c], must_not, text)"

fun push_must_not :: "json \<Rightarrow> walk_state \<Rightarrow> walk_state" where
  "push_must_not c (must, must_not, text) = (must, must_not @ [c], text)"

fun push_text :: "json \<Rightarrow> walk_state \<Rightarrow> walk_state" where
  "push_text c (must, must_not, text) = (must, must_not, text @ [c])"

text \<open>A clause walked on its own, which must not contain text.\<close>

fun closed_condition :: "string \<Rightarrow> string \<Rightarrow> walk_state \<Rightarrow> json outcome" where
  "closed_condition feature message (cm, cn, ct) =
     (if ct \<noteq> [] then bad feature message else Inr (condition cm cn))"

definition walk_leaf :: "string \<Rightarrow> json \<Rightarrow> walk_state \<Rightarrow> walk_state outcome" where
  "walk_leaf kind v st =
     (if kind = ''match_all'' then Inr st
      else if kind \<in> set [''match'', ''match_phrase'', ''match_bool_prefix'', ''multi_match'', ''fuzzy'']
      then Inr (push_text v st)
      else if kind = ''term'' then
        bindR (ok_or (Bad ''term'' ''term requires a field'') (first_member v))
          (\<lambda>(f, val). Inr (push_must (term_condition f val) st))
      else if kind = ''terms'' then
        bindR (ok_or (Bad ''terms'' ''terms requires a field'') (first_member v)) (\<lambda>(f, val).
        bindR (ok_or (Bad ''terms'' ''terms value must be an array'') (as_array val)) (\<lambda>arr.
          Inr (push_must (any_condition (compatibility_field f) arr) st)))
      else if kind = ''exists'' then
        bindR (ok_or (Bad ''exists'' ''exists requires field'') (get_str ''field'' v)) (\<lambda>f.
          Inr (push_must (exists_condition f) st))
      else if kind = ''range'' then
        bindR (ok_or (Bad ''range'' ''range requires a field'') (first_member v)) (\<lambda>(f, r).
        bindR (ok_or (Bad ''range'' ''range body must be an object'') (as_object r)) (\<lambda>options.
        bindR (translate_range options) (\<lambda>rng. Inr (push_must (range_condition f rng) st))))
      else if kind = ''ids'' then
        bindR (ok_or (Bad ''ids'' ''ids.values must be an array'') (get_array ''values'' v)) (\<lambda>vals.
          Inr (push_must (any_condition ''_es_id'' vals) st))
      else if kind \<in> set [''prefix'', ''regexp'', ''wildcard''] then Inr st
      else bad (''query.'' @ kind) (kind @ '' queries are not supported''))"

definition must_not_text :: "walk_state \<Rightarrow> json outcome" where
  "must_not_text = closed_condition ''query.bool.must_not'' ''text must_not is not supported safely''"

definition should_text :: "walk_state \<Rightarrow> json outcome" where
  "should_text = closed_condition ''query.bool.should'' ''text should clauses are not supported safely''"

lemma get_array_size [termination_simp]:
  "get_array k v = Some vs \<Longrightarrow> c \<in> set vs \<Longrightarrow> size c < size v"
  by (auto simp: get_array_def bind_eq_Some_conv dest!: get_size element_size intro: less_trans)

function walk :: "json \<Rightarrow> walk_state \<Rightarrow> walk_state outcome" where
  "walk q st =
     (case q of JObj ob \<Rightarrow>
        foldR (\<lambda>(kind, v) st.
          if kind = ''dis_max'' then
            bindR (ok_or (Bad ''dis_max'' ''queries must be an array'') (get_array ''queries'' v)) (\<lambda>clauses.
              foldR (\<lambda>c st. walk c st) clauses st)
          else if kind = ''bool'' then
            (case v of
               JObj b \<Rightarrow>
                 bindR (foldR (\<lambda>c st. walk c st) (bool_clauses b ''must'') st) (\<lambda>st.
                 bindR (foldR (\<lambda>c st. walk c st) (bool_clauses b ''filter'') st) (\<lambda>st.
                 bindR (foldR (\<lambda>c st. bindR (bindR (walk c ([], [], [])) must_not_text)
                                 (\<lambda>cond. Inr (push_must_not cond st))) (bool_clauses b ''must_not'') st) (\<lambda>st.
                 if bool_clauses b ''should'' = [] then Inr st
                 else
                   bindR (traverseR (\<lambda>c. bindR (walk c ([], [], [])) should_text) (bool_clauses b ''should'')) (\<lambda>should.
                   let minimum = minimum_should_match b (length (bool_clauses b ''should'')) (has_required_clause b)
                   in Inr (if 0 < minimum then push_must (min_should_condition should minimum) st else st)))))
             | _ \<Rightarrow> bad ''bool'' ''bool must be an object'')
          else walk_leaf kind v st) ob st
      | _ \<Rightarrow> bad ''query'' ''query clause must be an object'')"
  by pat_completeness auto
termination
  by (relation "measure (\<lambda>(q, st). size q)")
     (auto dest!: member_size bool_clauses_size get_array_size intro: less_trans)

declare walk.simps [simp del]

definition query_filter :: "json \<Rightarrow> json option outcome" where
  "query_filter q =
     bindR (walk q ([], [], [])) (\<lambda>(must, must_not, text).
       let conjuncts = must @ map (\<lambda>x. jobj [(''must_not'', JArr [x])]) must_not
       in Inr (if conjuncts = [] then None else Some (jobj [(''must'', JArr conjuncts)])))"

end
