(* ===== verification/SourceFilter.thy ===== *)
theory SourceFilter
  imports Filters
begin

text \<open>
  Source filtering (\<open>src/main.rs\<close>): parsing the \<open>_source\<close> option, the glob matcher and
  the projection of a document. The matcher is the two-pointer loop of the source with its
  backtracking position; it is proved equal to the recursive meaning of a glob.
\<close>

record source_filter =
  sf_enabled :: bool
  sf_includes :: "string list"
  sf_excludes :: "string list"

section \<open>Parsing\<close>

definition filter_patterns :: "json \<Rightarrow> string \<Rightarrow> string list outcome" where
  "filter_patterns value feature =
     (case value of
        JStr pattern \<Rightarrow> Inr [pattern]
      | JArr patterns \<Rightarrow>
          if list_all is_string patterns then Inr (List.map_filter as_str patterns)
          else bad feature ''source filters must be a string or an array of strings''
      | _ \<Rightarrow> bad feature ''source filters must be a string or an array of strings'')"

definition option_patterns :: "object \<Rightarrow> string \<Rightarrow> string list \<Rightarrow> string list outcome" where
  "option_patterns options feature names =
     foldR (\<lambda>name acc. case obj_get name options of
         None \<Rightarrow> Inr acc
       | Some v \<Rightarrow> map_ok (\<lambda>ps. acc @ ps) (filter_patterns v (feature @ ''.'' @ name))) names []"

definition parse_source_filter :: "json option \<Rightarrow> string \<Rightarrow> source_filter option outcome" where
  "parse_source_filter spec feature = (case spec of
     None \<Rightarrow> Inr None
   | Some (JBool b) \<Rightarrow> Inr (Some \<lparr>sf_enabled = b, sf_includes = [], sf_excludes = []\<rparr>)
   | Some (JObj options) \<Rightarrow>
       (case find (\<lambda>k. k \<notin> set [''include'', ''includes'', ''exclude'', ''excludes'']) (keys options) of
          Some option \<Rightarrow> bad (feature @ ''.'' @ option) ''unsupported source filter option''
        | None \<Rightarrow>
            bindR (option_patterns options feature [''include'', ''includes'']) (\<lambda>inc.
            bindR (option_patterns options feature [''exclude'', ''excludes'']) (\<lambda>exc.
              Inr (Some \<lparr>sf_enabled = True, sf_includes = inc, sf_excludes = exc\<rparr>))))
   | Some v \<Rightarrow>
       if is_string v \<or> is_array v
       then bindR (filter_patterns v feature) (\<lambda>inc.
              Inr (Some \<lparr>sf_enabled = True, sf_includes = inc, sf_excludes = []\<rparr>))
       else bad feature
         ''_source must be a boolean, string, array of strings, or includes/excludes object'')"

section \<open>Globs\<close>

text \<open>
  The loop state: indices into pattern and value, and the position of the last \<open>*\<close> with the
  value index it is to be retried from. Characters are scalar values.
\<close>

record glob_state =
  pat_i :: nat
  val_i :: nat
  star :: "nat option"
  star_val :: nat

definition glob_step :: "string list \<Rightarrow> string list \<Rightarrow> glob_state \<Rightarrow> glob_state option" where
  "glob_step pattern value s =
     (if pat_i s < length pattern
         \<and> (pattern ! pat_i s = ''?'' \<or> pattern ! pat_i s = value ! val_i s)
      then Some (s\<lparr>pat_i := pat_i s + 1, val_i := val_i s + 1\<rparr>)
      else if pat_i s < length pattern \<and> pattern ! pat_i s = ''*''
      then Some (s\<lparr>star := Some (pat_i s), pat_i := pat_i s + 1, star_val := val_i s\<rparr>)
      else case star s of
        Some p \<Rightarrow> Some (s\<lparr>pat_i := p + 1, star_val := star_val s + 1, val_i := star_val s + 1\<rparr>)
      | None \<Rightarrow> None)"

text \<open>
  The loop with fuel; the measure below shows that \<open>glob_fuel\<close> steps are always
  enough, so \<open>glob_matches\<close> never runs out.
\<close>

fun glob_loop :: "nat \<Rightarrow> string list \<Rightarrow> string list \<Rightarrow> glob_state \<Rightarrow> bool option" where
  "glob_loop 0 pattern value s = None"
| "glob_loop (Suc fuel) pattern value s =
     (if val_i s < length value then
        (case glob_step pattern value s of
           None \<Rightarrow> Some False
         | Some s' \<Rightarrow> glob_loop fuel pattern value s')
      else Some (list_all (\<lambda>c. c = ''*'') (drop (pat_i s) pattern)))"

definition glob_fuel :: "string list \<Rightarrow> string list \<Rightarrow> nat" where
  "glob_fuel pattern value = (length value + 1) * (length pattern + 1) + 1"

definition glob_start :: glob_state where
  "glob_start = \<lparr>pat_i = 0, val_i = 0, star = None, star_val = 0\<rparr>"

definition glob_matches :: "string \<Rightarrow> string \<Rightarrow> bool" where
  "glob_matches pattern value =
     (glob_loop (glob_fuel (utf8_chars pattern) (utf8_chars value))
        (utf8_chars pattern) (utf8_chars value) glob_start = Some True)"

text \<open>What a glob means.\<close>

fun glob_spec :: "string list \<Rightarrow> string list \<Rightarrow> bool" where
  "glob_spec [] vs = (vs = [])"
| "glob_spec (p # ps) vs =
     (if p = ''*'' then glob_spec ps vs \<or> (case vs of [] \<Rightarrow> False | v # vs' \<Rightarrow> glob_spec (p # ps) vs')
      else case vs of [] \<Rightarrow> False | v # vs' \<Rightarrow> (p = ''?'' \<or> p = v) \<and> glob_spec ps vs')"


subsection \<open>The loop never runs out of fuel\<close>

definition glob_bounds :: "string list \<Rightarrow> string list \<Rightarrow> glob_state \<Rightarrow> bool" where
  "glob_bounds P V s \<longleftrightarrow> pat_i s \<le> length P \<and> star_val s \<le> val_i s \<and> val_i s \<le> length V
     \<and> (case star s of None \<Rightarrow> True | Some p \<Rightarrow> p < length P)"

definition glob_measure :: "string list \<Rightarrow> string list \<Rightarrow> glob_state \<Rightarrow> nat" where
  "glob_measure P V s = (length V - star_val s) * (length P + 1) + (length P - pat_i s)"

lemma glob_step_bounds:
  "glob_bounds P V s \<Longrightarrow> val_i s < length V \<Longrightarrow> glob_step P V s = Some s' \<Longrightarrow> glob_bounds P V s'"
  by (auto simp: glob_bounds_def glob_step_def split: if_splits option.splits)

lemma glob_measure_less:
  "a < b \<Longrightarrow> c \<le> n \<Longrightarrow> a * (n + 1) + c < b * (n + 1) + d" for a b c d n :: nat
proof -
  assume "a < b" "c \<le> n"
  then have "(a + 1) * (n + 1) \<le> b * (n + 1)" by (intro mult_le_mono1) simp
  then show ?thesis using \<open>c \<le> n\<close> by simp
qed

lemma glob_step_measure:
  assumes b: "glob_bounds P V s" and v: "val_i s < length V" and st: "glob_step P V s = Some s'"
  shows "glob_measure P V s' < glob_measure P V s"
proof -
  consider (match) "pat_i s < length P" "s' = s\<lparr>pat_i := pat_i s + 1, val_i := val_i s + 1\<rparr>"
    | (star) "pat_i s < length P" "s' = s\<lparr>star := Some (pat_i s), pat_i := pat_i s + 1, star_val := val_i s\<rparr>"
    | (retry) p where "p < length P" "s' = s\<lparr>pat_i := p + 1, star_val := star_val s + 1, val_i := star_val s + 1\<rparr>"
    using st b by (auto simp: glob_step_def glob_bounds_def split: if_splits option.splits)
  then show ?thesis
  proof cases
    case match
    then show ?thesis by (simp add: glob_measure_def)
  next
    case star
    have "length V - val_i s \<le> length V - star_val s" using b by (auto simp: glob_bounds_def)
    then have "(length V - val_i s) * (length P + 1) \<le> (length V - star_val s) * (length P + 1)"
      by (rule mult_le_mono1)
    moreover have "length P - (pat_i s + 1) < length P - pat_i s" using star by simp
    moreover have "glob_measure P V s' = (length V - val_i s) * (length P + 1) + (length P - (pat_i s + 1))"
      using star by (simp add: glob_measure_def)
    ultimately show ?thesis by (simp only: glob_measure_def add_le_less_mono)
  next
    case retry
    have "length V - (star_val s + 1) < length V - star_val s" using b v by (auto simp: glob_bounds_def)
    then show ?thesis
      using retry glob_measure_less [of "length V - (star_val s + 1)" "length V - star_val s"
          "length P - (p + 1)" "length P" "length P - pat_i s"]
      by (simp add: glob_measure_def)
  qed
qed

lemma glob_loop_enough:
  "glob_bounds P V s \<Longrightarrow> glob_measure P V s < fuel \<Longrightarrow> \<exists>r. glob_loop fuel P V s = Some r"
proof (induction fuel arbitrary: s)
  case (Suc fuel)
  show ?case
  proof (cases "val_i s < length V")
    case True
    show ?thesis
    proof (cases "glob_step P V s")
      case (Some s')
      then have "glob_bounds P V s'" "glob_measure P V s' < fuel"
        using Suc.prems True glob_step_bounds glob_step_measure by (blast, fastforce)
      with Suc.IH Some True show ?thesis by simp
    next
      case None
      then show ?thesis using True by auto
    qed
  qed auto
qed simp

lemma glob_start_bounds: "glob_bounds P V glob_start"
  by (simp add: glob_bounds_def glob_start_def)

lemma glob_start_fuel: "glob_measure P V glob_start < glob_fuel P V"
  by (simp add: glob_measure_def glob_fuel_def glob_start_def)

subsection \<open>The loop decides the glob\<close>

definition spec_at :: "string list \<Rightarrow> string list \<Rightarrow> nat \<Rightarrow> nat \<Rightarrow> bool" where
  "spec_at P V i j \<longleftrightarrow> j \<le> length V \<and> glob_spec (drop i P) (drop j V)"

text \<open>Since the last star, the loop has matched a star-free stretch of the pattern.\<close>

definition star_inv :: "string list \<Rightarrow> glob_state \<Rightarrow> bool" where
  "star_inv P s \<longleftrightarrow> (case star s of None \<Rightarrow> True
     | Some p \<Rightarrow> p < pat_i s \<and> P ! p = ''*'' \<and> val_i s = star_val s + (pat_i s - Suc p)
         \<and> (\<forall>i. p < i \<and> i < pat_i s \<longrightarrow> P ! i \<noteq> ''*''))"

text \<open>What the loop still has to decide.\<close>

definition remaining :: "string list \<Rightarrow> string list \<Rightarrow> glob_state \<Rightarrow> bool" where
  "remaining P V s \<longleftrightarrow> spec_at P V (pat_i s) (val_i s)
     \<or> (case star s of None \<Rightarrow> False | Some p \<Rightarrow> \<exists>j > star_val s. spec_at P V (Suc p) j)"

lemma spec_at_char:
  "i < length P \<Longrightarrow> P ! i \<noteq> ''*'' \<Longrightarrow>
   spec_at P V i j \<longleftrightarrow> j < length V \<and> (P ! i = ''?'' \<or> P ! i = V ! j) \<and> spec_at P V (Suc i) (Suc j)"
  by (cases "j < length V") (auto simp: spec_at_def Cons_nth_drop_Suc [symmetric])

lemma spec_at_star_step:
  "i < length P \<Longrightarrow> P ! i = ''*'' \<Longrightarrow>
   spec_at P V i j \<longleftrightarrow> spec_at P V (Suc i) j \<or> j < length V \<and> spec_at P V i (Suc j)"
  by (cases "j < length V") (auto simp: spec_at_def Cons_nth_drop_Suc [symmetric])

lemma spec_at_star:
  assumes "i < length P" "P ! i = ''*''"
  shows "spec_at P V i j \<longleftrightarrow> (\<exists>k \<ge> j. spec_at P V (Suc i) k)"
proof (induction "length V - j" arbitrary: j rule: less_induct)
  case less
  show ?case
  proof (cases "j < length V")
    case True
    then have "spec_at P V i (Suc j) \<longleftrightarrow> (\<exists>k \<ge> Suc j. spec_at P V (Suc i) k)"
      by (intro less) simp
    then show ?thesis
      using spec_at_star_step [OF assms, of V j] True by (metis Suc_leD le_refl not_less_eq_eq order_antisym)
  next
    case False
    have "k = j" if "j \<le> k" "spec_at P V (Suc i) k" for k
      using False that by (simp add: spec_at_def)
    then show ?thesis
      using spec_at_star_step [OF assms, of V j] False by blast
  qed
qed

lemma spec_at_stretch:
  assumes "spec_at P V i j" "i \<le> i'" "i' \<le> length P" "\<forall>k. i \<le> k \<and> k < i' \<longrightarrow> P ! k \<noteq> ''*''"
  shows "spec_at P V i' (j + (i' - i))"
  using assms
proof (induction "i' - i" arbitrary: i j)
  case (Suc n)
  then have "i < length P" "P ! i \<noteq> ''*''" by auto
  with Suc.prems(1) have "spec_at P V (Suc i) (Suc j)" using spec_at_char by blast
  moreover have "n = i' - Suc i" "Suc i \<le> i'" using Suc.hyps(2) by linarith+
  ultimately have "spec_at P V i' (Suc j + (i' - Suc i))"
    using Suc.hyps(1) [of "Suc i" "Suc j"] Suc.prems by (metis Suc_leD)
  moreover have "Suc j + (i' - Suc i) = j + (i' - i)" using Suc.hyps(2) by linarith
  ultimately show ?case by (simp only:)
qed simp

lemma star_alternatives:
  assumes "star_inv P s" "pat_i s \<le> length P" "star s = Some p" "star_val s < j" "spec_at P V (Suc p) j"
  shows "\<exists>k > val_i s. spec_at P V (pat_i s) k"
proof -
  have "spec_at P V (pat_i s) (j + (pat_i s - Suc p))"
    using assms by (intro spec_at_stretch) (auto simp: star_inv_def)
  moreover have "val_i s < j + (pat_i s - Suc p)"
    using assms by (auto simp: star_inv_def)
  ultimately show ?thesis by blast
qed

lemma glob_step_inv:
  assumes "glob_bounds P V s" "star_inv P s" "val_i s < length V" "\<forall>v\<in>set V. v \<noteq> ''*''"
    and "glob_step P V s = Some s'"
  shows "star_inv P s'"
proof -
  have nv: "V ! val_i s \<noteq> ''*''" using assms(3,4) by auto
  consider (match) "P ! pat_i s \<noteq> ''*''" "s' = s\<lparr>pat_i := pat_i s + 1, val_i := val_i s + 1\<rparr>"
    | (star) "P ! pat_i s = ''*''" "s' = s\<lparr>star := Some (pat_i s), pat_i := pat_i s + 1, star_val := val_i s\<rparr>"
    | (retry) p where "star s = Some p"
        "s' = s\<lparr>pat_i := p + 1, star_val := star_val s + 1, val_i := star_val s + 1\<rparr>"
    using assms(5) nv by (auto simp: glob_step_def split: if_splits option.splits)
  then show ?thesis
  proof cases
    case match
    then show ?thesis using assms(2) by (auto simp: star_inv_def less_Suc_eq split: option.splits)
  next
    case star
    then show ?thesis by (auto simp: star_inv_def)
  next
    case retry
    then show ?thesis using assms(2) by (auto simp: star_inv_def)
  qed
qed

lemma glob_step_remaining:
  assumes b: "glob_bounds P V s" and inv: "star_inv P s" and v: "val_i s < length V"
    and V: "\<forall>v\<in>set V. v \<noteq> ''*''"
  shows "remaining P V s \<longleftrightarrow> (case glob_step P V s of None \<Rightarrow> False | Some s' \<Rightarrow> remaining P V s')"
proof -
  have nv: "V ! val_i s \<noteq> ''*''" using v V by auto
  consider (match) "pat_i s < length P" "P ! pat_i s = ''?'' \<or> P ! pat_i s = V ! val_i s"
    | (star) "pat_i s < length P" "P ! pat_i s = ''*''"
    | (miss) "pat_i s = length P \<or> P ! pat_i s \<noteq> ''?'' \<and> P ! pat_i s \<noteq> V ! val_i s \<and> P ! pat_i s \<noteq> ''*''"
    using b by (force simp: glob_bounds_def)
  then show ?thesis
  proof cases
    case match
    then have "P ! pat_i s \<noteq> ''*''" using nv by auto
    then show ?thesis
      using match v by (auto simp: glob_step_def remaining_def spec_at_char split: option.splits)
  next
    case star
    have "(\<exists>k \<ge> val_i s. spec_at P V (Suc (pat_i s)) k) \<longleftrightarrow> remaining P V s"
    proof
      assume "remaining P V s"
      then consider "spec_at P V (pat_i s) (val_i s)" | k where "k > val_i s" "spec_at P V (pat_i s) k"
        using star_alternatives [OF inv] star(1) by (auto simp: remaining_def split: option.splits)
      then show "\<exists>k \<ge> val_i s. spec_at P V (Suc (pat_i s)) k"
        using spec_at_star [OF star] by (metis le_trans less_imp_le)
    qed (use spec_at_star [OF star] in \<open>auto simp: remaining_def\<close>)
    moreover have "P ! pat_i s \<noteq> V ! val_i s" using star nv by auto
    ultimately show ?thesis
      using star by (auto simp: glob_step_def remaining_def le_less)
  next
    case miss
    have ns: "\<not> spec_at P V (pat_i s) (val_i s)"
    proof (cases "pat_i s = length P")
      case True
      then show ?thesis using v by (simp add: spec_at_def)
    next
      case False
      with b miss show ?thesis
        using spec_at_char [of "pat_i s" P V "val_i s"] by (auto simp: glob_bounds_def)
    qed
    have ex: "(\<exists>j > n. Q j) \<longleftrightarrow> Q (Suc n) \<or> (\<exists>j > Suc n. Q j)" for n and Q :: "nat \<Rightarrow> bool"
      by (metis Suc_lessD Suc_lessI lessI)
    show ?thesis
    proof (cases "star s")
      case None
      then show ?thesis using miss ns by (auto simp: glob_step_def remaining_def)
    next
      case (Some p)
      then have "glob_step P V s = Some (s\<lparr>pat_i := p + 1, star_val := star_val s + 1, val_i := star_val s + 1\<rparr>)"
        using miss by (auto simp: glob_step_def)
      then show ?thesis
        using ns Some ex [of "star_val s" "spec_at P V (Suc p)"] by (simp add: remaining_def)
    qed
  qed
qed

lemma glob_end:
  assumes b: "glob_bounds P V s" and inv: "star_inv P s" and v: "\<not> val_i s < length V"
  shows "remaining P V s \<longleftrightarrow> list_all (\<lambda>c. c = ''*'') (drop (pat_i s) P)"
proof -
  have vi: "val_i s = length V" using b v by (simp add: glob_bounds_def)
  have stars: "glob_spec ps [] \<longleftrightarrow> list_all (\<lambda>c. c = ''*'') ps" for ps
    by (induction ps) auto
  have "\<not> (\<exists>p j. star s = Some p \<and> star_val s < j \<and> spec_at P V (Suc p) j)"
  proof
    assume "\<exists>p j. star s = Some p \<and> star_val s < j \<and> spec_at P V (Suc p) j"
    then obtain k where "k > val_i s" "spec_at P V (pat_i s) k"
      using star_alternatives [OF inv] b unfolding glob_bounds_def by blast
    then show False using vi by (simp add: spec_at_def)
  qed
  then show ?thesis
    using vi stars by (auto simp: remaining_def spec_at_def split: option.splits)
qed

lemma glob_loop_correct:
  "glob_bounds P V s \<Longrightarrow> star_inv P s \<Longrightarrow> \<forall>v\<in>set V. v \<noteq> ''*'' \<Longrightarrow>
   glob_loop fuel P V s = Some r \<Longrightarrow> r \<longleftrightarrow> remaining P V s"
proof (induction fuel arbitrary: s)
  case (Suc fuel)
  show ?case
  proof (cases "val_i s < length V")
    case True
    show ?thesis
    proof (cases "glob_step P V s")
      case None
      then show ?thesis
        using Suc.prems True glob_step_remaining [of P V s] by simp
    next
      case (Some s')
      have "r \<longleftrightarrow> remaining P V s'"
        using Suc True Some glob_step_bounds glob_step_inv by (intro Suc.IH) auto
      then show ?thesis
        using Suc.prems True Some glob_step_remaining [of P V s] by simp
    qed
  next
    case False
    then show ?thesis using Suc.prems glob_end by auto
  qed
qed simp

lemma glob_loop_total: "\<exists>r. glob_loop (glob_fuel P V) P V glob_start = Some r"
  by (rule glob_loop_enough [OF glob_start_bounds glob_start_fuel])

lemma glob_loop_spec:
  assumes "\<forall>v\<in>set V. v \<noteq> ''*''"
  shows "glob_loop (glob_fuel P V) P V glob_start = Some (glob_spec P V)"
proof -
  obtain r where r: "glob_loop (glob_fuel P V) P V glob_start = Some r"
    using glob_loop_total by blast
  have "r \<longleftrightarrow> remaining P V glob_start"
    by (rule glob_loop_correct [OF glob_start_bounds _ assms r]) (simp add: star_inv_def glob_start_def)
  also have "\<dots> \<longleftrightarrow> glob_spec P V"
    by (simp add: remaining_def glob_start_def spec_at_def)
  finally show ?thesis using r by simp
qed


lemma glob_matches_chars:
  assumes "CHR ''*'' \<notin> set value"
  shows "glob_matches pattern value = glob_spec (utf8_chars pattern) (utf8_chars value)"
proof -
  have "\<forall>v\<in>set (utf8_chars value). v \<noteq> ''*''"
    using assms concat_utf8_chars [of "value"] by (metis UN_I list.set_intros(1) set_concat)
  then show ?thesis by (simp add: glob_matches_def glob_loop_spec)
qed

section \<open>Projection\<close>

text \<open>
  A pattern covers a path when it matches it, or when it has no wildcard and names an
  ancestor of it.
\<close>

definition covers :: "string \<Rightarrow> string \<Rightarrow> bool" where
  "covers path pattern \<longleftrightarrow> glob_matches pattern path
     \<or> CHR ''*'' \<notin> set pattern \<and> CHR ''?'' \<notin> set pattern \<and> starts_with (pattern @ ''.'') path"

definition path_excluded :: "source_filter \<Rightarrow> string \<Rightarrow> bool" where
  "path_excluded flt path = list_ex (covers path) (sf_excludes flt)"

definition explicitly_included :: "source_filter \<Rightarrow> string \<Rightarrow> bool" where
  "explicitly_included flt path \<longleftrightarrow> sf_includes flt = [] \<or> list_ex (covers path) (sf_includes flt)"

definition child_path :: "string \<Rightarrow> string \<Rightarrow> string" where
  "child_path path key = (if path = [] then key else path @ ''.'' @ key)"

text \<open>The members of an object come in key order, so inserting the kept ones appends them.\<close>

fun project_source_value :: "json \<Rightarrow> string \<Rightarrow> source_filter \<Rightarrow> json option"
  and project_members :: "(string \<times> json) list \<Rightarrow> string \<Rightarrow> source_filter \<Rightarrow> object"
  and project_elements :: "json list \<Rightarrow> string \<Rightarrow> source_filter \<Rightarrow> json list" where
  "project_source_value value path flt =
     (if path_excluded flt path then None
      else case value of
        JObj object \<Rightarrow>
          (let result = project_members object path flt in
           if result \<noteq> [] \<or> path = [] \<or> object = [] \<and> explicitly_included flt path
           then Some (JObj result) else None)
      | JArr values \<Rightarrow>
          (let projected = project_elements values path flt in
           if projected \<noteq> [] \<or> values = [] \<and> explicitly_included flt path
           then Some (JArr projected) else None)
      | _ \<Rightarrow> if explicitly_included flt path then Some value else None)"
| "project_members [] path flt = []"
| "project_members ((key, child) # rest) path flt =
     (case project_source_value child (child_path path key) flt of
        None \<Rightarrow> project_members rest path flt
      | Some projected \<Rightarrow> (key, projected) # project_members rest path flt)"
| "project_elements [] path flt = []"
| "project_elements (v # vs) path flt =
     (case project_source_value v path flt of
        None \<Rightarrow> project_elements vs path flt
      | Some projected \<Rightarrow> projected # project_elements vs path flt)"

definition project_source :: "json \<Rightarrow> source_filter option \<Rightarrow> json option" where
  "project_source source flt = (case flt of
     None \<Rightarrow> Some source
   | Some f \<Rightarrow> if \<not> sf_enabled f then None else project_source_value source [] f)"

text \<open>A search hit is an object; its \<open>_source\<close> member is replaced or removed.\<close>

definition apply_source_projection :: "object \<Rightarrow> source_filter option \<Rightarrow> object" where
  "apply_source_projection hit flt =
     (case project_source (unwrap_or (JObj []) (obj_get ''_source'' hit)) flt of
        Some projected \<Rightarrow> obj_insert ''_source'' projected hit
      | None \<Rightarrow> obj_remove ''_source'' hit)"

subsection \<open>What is kept\<close>

text \<open>
  The scalar leaves of a value, each with the paths visited on the way to it (the leaf's own
  path last).
\<close>

fun leaves :: "string \<Rightarrow> json \<Rightarrow> (string list \<times> json) list"
  and leaves_members :: "string \<Rightarrow> (string \<times> json) list \<Rightarrow> (string list \<times> json) list"
  and leaves_elements :: "string \<Rightarrow> json list \<Rightarrow> (string list \<times> json) list" where
  "leaves path value = (case value of
     JObj object \<Rightarrow> map (\<lambda>(trail, leaf). (path # trail, leaf)) (leaves_members path object)
   | JArr values \<Rightarrow> map (\<lambda>(trail, leaf). (path # trail, leaf)) (leaves_elements path values)
   | _ \<Rightarrow> [([path], value)])"
| "leaves_members path [] = []"
| "leaves_members path ((key, child) # rest) =
     leaves (child_path path key) child @ leaves_members path rest"
| "leaves_elements path [] = []"
| "leaves_elements path (v # vs) = leaves path v @ leaves_elements path vs"

definition leaf_kept :: "source_filter \<Rightarrow> string list \<times> json \<Rightarrow> bool" where
  "leaf_kept flt = (\<lambda>(trail, leaf).
     list_all (\<lambda>p. \<not> path_excluded flt p) trail \<and> explicitly_included flt (last trail))"

lemma leaves_trail:
  "\<forall>tl \<in> set (leaves path value). fst tl \<noteq> []"
  "\<forall>tl \<in> set (leaves_members path object). fst tl \<noteq> []"
  "\<forall>tl \<in> set (leaves_elements path values). fst tl \<noteq> []"
  by (induction path "value" and path object and path "values" rule: leaves_leaves_members_leaves_elements.induct)
     (auto split: json.splits)

lemma filter_leaves_extend:
  assumes "\<not> path_excluded flt path" "\<forall>tl \<in> set ls. fst tl \<noteq> []"
  shows "filter (leaf_kept flt) (map (\<lambda>(trail, leaf). (path # trail, leaf)) ls)
    = map (\<lambda>(trail, leaf). (path # trail, leaf)) (filter (leaf_kept flt) ls)"
  using assms(2) by (induction ls) (auto simp: leaf_kept_def assms(1))

lemma leaf_kept_leaf: "leaf_kept flt ([path], v) \<longleftrightarrow> \<not> path_excluded flt path \<and> explicitly_included flt path"
  by (simp add: leaf_kept_def)

lemma filter_leaves_excluded:
  assumes "path_excluded flt path"
  shows "filter (leaf_kept flt) (leaves path value) = []"
  using assms by (cases "value") (auto simp: leaf_kept_def filter_empty_conv)

lemma project_leaves:
  "(case project_source_value value path flt of None \<Rightarrow> [] | Some v \<Rightarrow> leaves path v)
     = filter (leaf_kept flt) (leaves path value)"
  "leaves_members path (project_members object path flt) = filter (leaf_kept flt) (leaves_members path object)"
  "leaves_elements path (project_elements values path flt) = filter (leaf_kept flt) (leaves_elements path values)"
proof (induction "value" path flt and object path flt and "values" path flt
    rule: project_source_value_project_members_project_elements.induct)
  case (1 "value" path flt)
  show ?case
  proof (cases "path_excluded flt path")
    case True
    then show ?thesis by (simp add: filter_leaves_excluded del: leaves.simps)
  next
    case False
    have m: "filter (leaf_kept flt) (leaves_members path object) = leaves_members path (project_members object path flt)"
      if "value = JObj object" for object using 1 False that by (cases "value") auto
    have e: "filter (leaf_kept flt) (leaves_elements path vs) = leaves_elements path (project_elements vs path flt)"
      if "value = JArr vs" for vs using 1 False that by (cases "value") auto
    show ?thesis
      using False m e
      by (cases "value") (auto simp: filter_leaves_extend leaves_trail Let_def leaf_kept_leaf)
  qed
qed (auto simp del: leaves.simps project_source_value.simps split: option.splits)

lemma project_source_leaves_filter:
  "(case project_source source (Some flt) of None \<Rightarrow> [] | Some v \<Rightarrow> leaves [] v)
     = (if sf_enabled flt then filter (leaf_kept flt) (leaves [] source) else [])"
  using project_leaves(1) [of "[]" source flt]
  by (simp add: project_source_def del: leaves.simps project_source_value.simps)

section \<open>Properties\<close>

text \<open>C12: On a value without a literal \<open>*\<close>, the glob loop of source filtering decides the
  glob: \<open>*\<close> stands for any characters, \<open>?\<close> for exactly one, every other character for itself.\<close>

theorem glob_matches_spec:
  "CHR ''*'' \<notin> set value \<Longrightarrow>
   glob_matches pattern value \<longleftrightarrow> glob_spec (utf8_chars pattern) (utf8_chars value)"
  by (rule glob_matches_chars)

lemma glob_matches_spec_witness:
  "glob_matches ''a*c'' ''abbc'' \<and> \<not> glob_matches ''a?c'' ''abbc''"
  using glob_matches_spec [of "''abbc''" "''a*c''"] glob_matches_spec [of "''abbc''" "''a?c''"]
  by (simp add: utf8_width_def)

text \<open>The glob loop tries a literal match before the wildcard, so a \<open>*\<close> of the pattern is
  consumed by a literal \<open>*\<close> at the same place of the value: the pattern \<open>*\<close>, which means any
  field, rejects the field name \<open>*a\<close>.\<close>

theorem glob_literal_star:
  "\<not> glob_matches ''*'' ''*a'' \<and> glob_spec (utf8_chars ''*'') (utf8_chars ''*a'')"
  by (simp add: utf8_width_def glob_matches_def glob_fuel_def glob_start_def
      glob_step_def numeral_eq_Suc)

text \<open>C10: Source projection keeps exactly the scalar leaves of the document whose path is
  included and none of whose enclosing paths is excluded, in the document's order; a disabled
  filter keeps none of them.\<close>

theorem project_source_leaves:
  "(case project_source source (Some flt) of None \<Rightarrow> [] | Some v \<Rightarrow> leaves [] v)
     = (if sf_enabled flt then filter (leaf_kept flt) (leaves [] source) else [])"
  by (rule project_source_leaves_filter)

end
