(* ===== verification/SearchRequest.thy ===== *)
theory SearchRequest
  imports SourceFilter Compare
begin

text \<open>
  The options of a search request (\<open>src/main.rs\<close>): sort clauses, the page window, the
  cursor, the total-hits mode, collapsing and the controls the gateway rejects. The parameter
  \<open>percent_decode\<close> is \<open>percent_decode_str(..).decode_utf8()\<close>, \<open>None\<close> where the bytes are
  not UTF-8.
\<close>

section \<open>Sort clauses\<close>

type_synonym sort_specs = "(string \<times> string) list"

definition sort_clause :: "json \<Rightarrow> (string \<times> json option) outcome" where
  "sort_clause clause = (case clause of
     JStr field \<Rightarrow>
       if field \<noteq> [] then Inr (field, None)
       else bad ''sort'' ''each sort clause must be a field name or a single-field object''
   | JObj [(field, options)] \<Rightarrow>
       if field = [] then bad ''sort'' ''sort field must not be empty'' else Inr (field, Some options)
   | _ \<Rightarrow> bad ''sort'' ''each sort clause must be a field name or a single-field object'')"

definition default_order :: "string \<Rightarrow> string" where
  "default_order field = (if field = ''_score'' then ''desc'' else ''asc'')"

definition sort_order :: "string \<Rightarrow> json option \<Rightarrow> string outcome" where
  "sort_order field options = (case options of
     None \<Rightarrow> Inr (default_order field)
   | Some (JStr order) \<Rightarrow> Inr order
   | Some (JObj opts) \<Rightarrow>
       if list_ex (\<lambda>key. key \<noteq> ''order'') (keys opts)
       then bad ''sort'' ''only the basic sort order option is supported''
       else (case obj_get ''order'' opts of
               None \<Rightarrow> Inr (default_order field)
             | Some order \<Rightarrow> ok_or (Bad ''sort'' ''sort order must be asc or desc'') (as_str order))
   | Some _ \<Rightarrow> bad ''sort'' ''sort order must be asc or desc'')"

definition parse_sort_clause :: "json \<Rightarrow> (string \<times> string) outcome" where
  "parse_sort_clause clause =
     bindR (sort_clause clause) (\<lambda>(field, options).
     bindR (sort_order field options) (\<lambda>order.
       if order \<noteq> ''asc'' \<and> order \<noteq> ''desc'' then bad ''sort'' ''sort order must be asc or desc''
       else Inr (field, order)))"

definition parse_sort_specs :: "json option \<Rightarrow> sort_specs outcome" where
  "parse_sort_specs spec = (case spec of
     None \<Rightarrow> Inr []
   | Some (JArr clauses) \<Rightarrow> traverseR parse_sort_clause clauses
   | Some clause \<Rightarrow> traverseR parse_sort_clause [clause])"

section \<open>Window and cursor\<close>

definition non_negative_integer :: "json \<Rightarrow> string \<Rightarrow> u64 \<Rightarrow> u64 outcome" where
  "non_negative_integer body field dflt = (case get field body of
     None \<Rightarrow> Inr dflt
   | Some v \<Rightarrow> ok_or (Bad field (field @ '' must be a non-negative integer'')) (as_u64 v))"

definition window_fits :: "u64 \<Rightarrow> u64 \<Rightarrow> bool" where
  "window_fits start psize \<longleftrightarrow> unat start + unat psize < 2 ^ 64 \<and> start + psize \<le> 10000"

definition parse_search_window :: "json \<Rightarrow> u64 \<Rightarrow> (u64 \<times> u64) outcome" where
  "parse_search_window body max_page_size =
     bindR (non_negative_integer body ''from'' 0) (\<lambda>start.
     bindR (non_negative_integer body ''size'' (min 10 max_page_size)) (\<lambda>psize.
       if max_page_size < psize
       then bad ''size'' (''size is capped at '' @ show_nat (unat max_page_size) @ '' by MAX_PAGE_SIZE'')
       else if \<not> window_fits start psize
       then bad ''from'' ''from + size is capped at 10000; use search_after for later pages''
       else Inr (start, psize)))"

definition validate_search_after :: "json \<Rightarrow> sort_specs \<Rightarrow> u64 \<Rightarrow> unit outcome" where
  "validate_search_after body sorts start = (case get ''search_after'' body of
     None \<Rightarrow> Inr ()
   | Some cursor \<Rightarrow>
       bindR (ok_or (Bad ''search_after'' ''search_after must be an array of sort values'') (as_array cursor)) (\<lambda>vs.
         if sorts = [] \<or> length vs \<noteq> length sorts
         then bad ''search_after'' ''search_after must contain one value for every sort field''
         else if start \<noteq> 0
         then bad ''search_after'' ''search_after cannot be combined with a non-zero from offset''
         else if list_ex (\<lambda>v. is_array v \<or> is_object v) vs
         then bad ''search_after'' ''search_after values must be strings, numbers, booleans, or null''
         else Inr ()))"

section \<open>Totals\<close>

datatype track_total_hits = Enabled | Disabled | Threshold u64

definition parse_track_total_hits :: "json \<Rightarrow> track_total_hits outcome" where
  "parse_track_total_hits body = (case get ''track_total_hits'' body of
     None \<Rightarrow> Inr Enabled
   | Some (JBool True) \<Rightarrow> Inr Enabled
   | Some (JBool False) \<Rightarrow> Inr Disabled
   | Some v \<Rightarrow> map_ok Threshold
       (ok_or (Bad ''track_total_hits'' ''track_total_hits must be true, false, or a non-negative integer'') (as_u64 v)))"

definition total_object :: "u64 \<Rightarrow> bool \<Rightarrow> json" where
  "total_object n exact =
     jobj [(''value'', jint n), (''relation'', JStr (if exact then ''eq'' else ''gte''))]"

definition total_hits_value :: "track_total_hits \<Rightarrow> u64 \<Rightarrow> bool \<Rightarrow> bool \<Rightarrow> json option" where
  "total_hits_value mode found exact as_int =
     (if as_int then Some (case mode of Disabled \<Rightarrow> JNum (NegInt (- 1)) | _ \<Rightarrow> jint found)
      else case mode of
        Disabled \<Rightarrow> None
      | Enabled \<Rightarrow> Some (total_object found exact)
      | Threshold threshold \<Rightarrow> Some (total_object (min found threshold) (exact \<and> found \<le> threshold)))"

definition parse_rest_total_hits_as_int :: "(string \<Rightarrow> string option) \<Rightarrow> string option \<Rightarrow> bool outcome" where
  "parse_rest_total_hits_as_int percent_decode query =
     foldR (\<lambda>parameter enabled.
       let (name, v) = unwrap_or (parameter, []) (split_once CHR ''='' parameter) in
       if name \<noteq> ''rest_total_hits_as_int'' then Inr enabled
       else bindR (ok_or (Bad ''rest_total_hits_as_int'' ''rest_total_hits_as_int must be true or false'')
                    (percent_decode v)) (\<lambda>decoded.
         if decoded = [] \<or> decoded = ''true'' then Inr True
         else if decoded = ''false'' then Inr False
         else bad ''rest_total_hits_as_int'' ''rest_total_hits_as_int must be true or false''))
       (split_on CHR ''&'' (unwrap_or [] query)) False"

section \<open>Collapsing\<close>

record inner_hits_spec =
  ih_name :: string
  ih_size :: u64
  ih_source :: "source_filter option"

record collapse_spec =
  cs_field :: string
  cs_inner :: "inner_hits_spec option"

definition inner_hits_name :: "string \<Rightarrow> object \<Rightarrow> string outcome" where
  "inner_hits_name requested inner = (case obj_get ''name'' inner of
     None \<Rightarrow> Inr requested
   | Some (JStr name) \<Rightarrow>
       if name = [] then bad ''collapse.inner_hits.name'' ''inner_hits name must be a non-empty string''
       else Inr name
   | Some _ \<Rightarrow> bad ''collapse.inner_hits.name'' ''inner_hits name must be a non-empty string'')"

definition inner_hits_size :: "object \<Rightarrow> u64 outcome" where
  "inner_hits_size inner = (case obj_get ''size'' inner of
     None \<Rightarrow> Inr 3
   | Some n \<Rightarrow> ok_or (Bad ''collapse.inner_hits.size'' ''inner_hits size must be a non-negative integer'') (as_u64 n))"

definition inner_hits_fields_ok :: "object \<Rightarrow> bool" where
  "inner_hits_fields_ok inner =
     is_none_or (obj_get ''fields'' inner)
       (\<lambda>fs. is_some_and (as_array fs) (list_all (\<lambda>f. as_str f = Some ''_id'')))"

definition parse_inner_hits :: "string \<Rightarrow> u64 \<Rightarrow> json \<Rightarrow> inner_hits_spec outcome" where
  "parse_inner_hits requested max_page_size v =
     bindR (ok_or (Bad ''collapse.inner_hits'' ''inner_hits must be an object'') (as_object v)) (\<lambda>inner.
     case find (\<lambda>k. k \<notin> set [''name'', ''size'', ''fields'', ''_source'']) (keys inner) of
       Some option \<Rightarrow> bad (''collapse.inner_hits.'' @ option) ''unsupported inner_hits option''
     | None \<Rightarrow>
         bindR (inner_hits_name requested inner) (\<lambda>name.
         bindR (inner_hits_size inner) (\<lambda>n.
           if max_page_size < n
           then bad ''collapse.inner_hits.size''
             (''inner_hits size is capped at '' @ show_nat (unat max_page_size) @ '' by MAX_PAGE_SIZE'')
           else if \<not> inner_hits_fields_ok inner
           then bad ''collapse.inner_hits.fields'' ''only the _id metadata field is supported in inner_hits''
           else bindR (parse_source_filter (obj_get ''_source'' inner) ''collapse.inner_hits._source'') (\<lambda>source.
             Inr \<lparr>ih_name = name, ih_size = n, ih_source = source\<rparr>))))"

definition collapse_field :: "object \<Rightarrow> string outcome" where
  "collapse_field collapse = (case obj_get ''field'' collapse of
     Some (JStr field) \<Rightarrow>
       if field = [] then bad ''collapse.field'' ''collapse requires a field'' else Inr field
   | _ \<Rightarrow> bad ''collapse.field'' ''collapse requires a field'')"

definition parse_collapse_spec :: "json option \<Rightarrow> u64 \<Rightarrow> collapse_spec option outcome" where
  "parse_collapse_spec spec max_page_size = (case spec of
     None \<Rightarrow> Inr None
   | Some v \<Rightarrow>
       bindR (ok_or (Bad ''collapse'' ''collapse must be an object'') (as_object v)) (\<lambda>collapse.
       case find (\<lambda>k. k \<noteq> ''field'' \<and> k \<noteq> ''inner_hits'') (keys collapse) of
         Some option \<Rightarrow> bad (''collapse.'' @ option) ''unsupported collapse option''
       | None \<Rightarrow>
           bindR (collapse_field collapse) (\<lambda>requested.
           bindR (case obj_get ''inner_hits'' collapse of
                    None \<Rightarrow> Inr None
                  | Some inner \<Rightarrow> map_ok Some (parse_inner_hits requested max_page_size inner)) (\<lambda>inner.
             Inr (Some \<lparr>cs_field = compatibility_field requested, cs_inner = inner\<rparr>)))))"

section \<open>Rejected controls\<close>

definition require_false :: "json \<Rightarrow> string \<Rightarrow> string \<Rightarrow> unit outcome" where
  "require_false body control message = (case get control body of
     None \<Rightarrow> Inr ()
   | Some enabled \<Rightarrow>
       (case as_bool enabled of
          Some False \<Rightarrow> Inr ()
        | Some True \<Rightarrow> bad control message
        | None \<Rightarrow> bad control (control @ '' must be a boolean'')))"

definition validate_script_fields :: "json \<Rightarrow> unit outcome" where
  "validate_script_fields body = (case get ''script_fields'' body of
     None \<Rightarrow> Inr ()
   | Some v \<Rightarrow>
       bindR (ok_or (Bad ''script_fields'' ''script_fields must be an object'') (as_object v)) (\<lambda>fs.
         if fs \<noteq> [] then bad ''script_fields'' ''search-time scripted fields are not currently supported; the gateway cannot execute Elasticsearch or OpenSearch scripts or return their per-hit fields''
         else Inr ()))"

definition validate_docvalue_fields :: "json \<Rightarrow> unit outcome" where
  "validate_docvalue_fields body = (case get ''docvalue_fields'' body of
     None \<Rightarrow> Inr ()
   | Some v \<Rightarrow>
       bindR (ok_or (Bad ''docvalue_fields'' ''docvalue_fields must be an array'') (as_array v)) (\<lambda>fs.
         if fs \<noteq> [] then bad ''docvalue_fields'' (''doc value field retrieval is not currently supported; the gateway cannot return Elasticsearch or OpenSearch doc values in each hit'' @ [CHR 0x27] @ ''s fields object'')
         else Inr ()))"

definition boolean_controls :: "(string \<times> string) list" where
  "boolean_controls =
    [(''version'', ''per-hit document versions are not currently supported; the gateway cannot provide Elasticsearch or OpenSearch version concurrency metadata''),
     (''seq_no_primary_term'', ''per-hit sequence numbers and primary terms are not currently supported; gateway write metadata is not an Elasticsearch or OpenSearch concurrency token''),
     (''profile'', ''query profiling is not currently supported; the gateway cannot report Qdrant execution as Lucene query and collector timing trees''),
     (''explain'', ''per-hit score explanations are not currently supported; returned scores use Qdrant rather than Lucene scoring internals'')]"

definition rejected_controls :: "(string \<times> string) list" where
  "rejected_controls =
    [(''min_score'', ''min_score changes hit membership and totals and is not currently supported''),
     (''terminate_after'', ''terminate_after changes hit membership and early-termination metadata and is not currently supported''),
     (''timeout'', ''per-search timeout and partial-result semantics are not currently supported''),
     (''highlight'', ''search result highlighting is not currently supported; returned hits would omit the requested snippets'')]"

definition reject_control :: "json \<Rightarrow> string \<times> string \<Rightarrow> unit outcome" where
  "reject_control body = (\<lambda>(control, message). if get control body \<noteq> None then bad control message else Inr ())"

definition validate_search_execution_controls :: "json \<Rightarrow> unit outcome" where
  "validate_search_execution_controls body =
     bindR (validate_script_fields body) (\<lambda>_.
     bindR (validate_docvalue_fields body) (\<lambda>_.
     bindR (eachR (\<lambda>(control, message). require_false body control message) boolean_controls) (\<lambda>_.
       eachR (reject_control body) rejected_controls)))"


section \<open>Lemmas\<close>

lemma sort_clause_field: "sort_clause c = Inr (f, opts) \<Longrightarrow> f \<noteq> []"
  by (auto simp: sort_clause_def bad_def split: json.splits list.splits if_splits)

lemma parse_sort_clause_ok:
  "parse_sort_clause c = Inr (f, d) \<Longrightarrow> f \<noteq> [] \<and> (d = ''asc'' \<or> d = ''desc'')"
  by (auto simp: parse_sort_clause_def bad_def dest: sort_clause_field split: if_splits)

lemma parse_sort_specs_ok:
  "parse_sort_specs spec = Inr specs \<Longrightarrow> (f, d) \<in> set specs \<Longrightarrow> f \<noteq> [] \<and> (d = ''asc'' \<or> d = ''desc'')"
  using parse_sort_clause_ok
  by (fastforce simp: parse_sort_specs_def traverseR_ok_iff list_all2_iff in_set_zip in_set_conv_nth
      split: option.splits json.splits)

lemma parse_search_window_ok:
  assumes "parse_search_window body max_page_size = Inr (start, psize)"
  shows "psize \<le> max_page_size" "unat start + unat psize \<le> 10000"
proof -
  have fits: "window_fits start psize" and le: "\<not> max_page_size < psize"
    using assms by (auto simp: parse_search_window_def bad_def split: if_splits)
  from le show "psize \<le> max_page_size" by simp
  have "unat (start + psize) = unat start + unat psize"
    using fits by (simp add: window_fits_def unat_word_ariths)
  moreover have "unat (start + psize) \<le> 10000"
    using fits by (simp add: window_fits_def word_le_nat_alt)
  ultimately show "unat start + unat psize \<le> 10000" by simp
qed

section \<open>Properties\<close>

text \<open>An accepted page window never reads past the 10000th hit and never asks for more than
  \<open>MAX_PAGE_SIZE\<close> hits; the check does not wrap around.\<close>

theorem search_window_bounds:
  assumes "parse_search_window body max_page_size = Inr (start, psize)"
  shows "psize \<le> max_page_size \<and> unat start + unat psize \<le> 10000"
  using parse_search_window_ok [OF assms] by simp

lemma search_window_bounds_witness: "(20 :: u64) \<le> 100 \<and> unat (40 :: u64) + unat (20 :: u64) \<le> 10000"
  using search_window_bounds [of "JObj [(''from'', jint 40), (''size'', jint 20)]" 100 40 20]
  by (simp add: parse_search_window_def non_negative_integer_def window_fits_def)

text \<open>Of an accepted search, every sort direction is \<open>asc\<close> or \<open>desc\<close> on a named field,
  and a cursor starts at offset zero with one scalar for every sort field.\<close>

theorem search_order_validated:
  assumes "parse_sort_specs spec = Inr sorts" "validate_search_after body sorts start = Inr ()"
  shows "list_all (\<lambda>(field, direction). field \<noteq> [] \<and> direction \<in> {''asc'', ''desc''}) sorts
    \<and> (case get ''search_after'' body of None \<Rightarrow> True
       | Some cursor \<Rightarrow> start = 0 \<and> sorts \<noteq> [] \<and> (\<exists>vs. cursor = JArr vs \<and> length vs = length sorts
           \<and> list_all (\<lambda>v. \<not> is_array v \<and> \<not> is_object v) vs))"
proof
  show "list_all (\<lambda>(field, direction). field \<noteq> [] \<and> direction \<in> {''asc'', ''desc''}) sorts"
    using parse_sort_specs_ok [OF assms(1)] by (auto simp: list_all_iff)
  show "case get ''search_after'' body of None \<Rightarrow> True
       | Some cursor \<Rightarrow> start = 0 \<and> sorts \<noteq> [] \<and> (\<exists>vs. cursor = JArr vs \<and> length vs = length sorts
           \<and> list_all (\<lambda>v. \<not> is_array v \<and> \<not> is_object v) vs)"
    using assms(2)
    by (cases "get ''search_after'' body")
       (auto simp: validate_search_after_def bad_def list_all_iff list_ex_iff split: if_splits)
qed

lemma search_order_validated_witness:
  "list_all (\<lambda>(field, direction). field \<noteq> [] \<and> direction \<in> {''asc'', ''desc''}) [(''price'', ''desc'')]"
  using search_order_validated [of "Some (JArr [JObj [(''price'', JStr ''desc'')]])" "[(''price'', ''desc'')]"
      "JObj [(''search_after'', JArr [jint 7])]" 0]
  by (simp add: parse_sort_specs_def parse_sort_clause_def sort_clause_def sort_order_def validate_search_after_def)

text \<open>C21: The reported total is never misleading: \<open>eq\<close> comes only with an exact total and
  states it, \<open>gte\<close> states a lower bound of it.\<close>

theorem total_hits_honest:
  assumes "total_hits_value mode found exact False = Some v"
  shows "\<exists>n relation. v = jobj [(''value'', jint n), (''relation'', JStr relation)]
    \<and> (relation = ''eq'' \<and> exact \<and> n = found \<or> relation = ''gte'' \<and> n \<le> found)"
proof -
  obtain n e where v: "v = total_object n e" and e: "e \<longrightarrow> exact \<and> n = found" and n: "n \<le> found"
    using assms by (cases mode) (auto simp: total_hits_value_def)
  show ?thesis
    by (rule exI [of _ n], rule exI [of _ "if e then ''eq'' else ''gte''"]) (use v e n in \<open>simp add: total_object_def\<close>)
qed

lemma total_hits_honest_witness:
  "\<exists>n relation. total_object 10 False = jobj [(''value'', jint n), (''relation'', JStr relation)]
    \<and> (relation = ''eq'' \<and> True \<and> n = 25 \<or> relation = ''gte'' \<and> n \<le> 25)"
  using total_hits_honest [of "Threshold 10" 25 True "total_object 10 False"]
  by (simp add: total_hits_value_def)

end
