(* ===== verification/Sparse.thy ===== *)
theory Sparse
  imports SearchRequest
begin

text \<open>
  Explicit sparse vectors (\<open>src/sparse.rs\<close>): names, mapping rules, the conversion of token
  weights, the checks that keep scalar queries away from sparse fields, and the
  \<open>neural_sparse\<close> query.
\<close>

definition field_type :: "json \<Rightarrow> string option" where
  "field_type spec = get_str ''type'' spec"

definition properties :: "json \<Rightarrow> object option" where
  "properties mapping = get_object ''properties'' mapping"

definition sparse_name :: "string \<Rightarrow> string" where
  "sparse_name field = ''sparse_'' @ concat (map (\<lambda>b. hex_padded 2 (byte b)) field)"

section \<open>Mappings\<close>

definition sparse_keys_ok :: "json \<Rightarrow> bool" where
  "sparse_keys_ok spec =
     is_some_and (as_object spec) (\<lambda>s. list_all (\<lambda>k. k = ''type'' \<or> k = ''method'') (keys s))"

definition sparse_method_ok :: "json \<Rightarrow> bool" where
  "sparse_method_ok spec =
     is_none_or (get ''method'' spec) (\<lambda>method. is_some_and (as_object method) (\<lambda>m.
       list_all (\<lambda>k. k = ''name'' \<or> k = ''engine'') (keys m)
       \<and> Option.bind (obj_get ''name'' m) as_str = Some ''seismic''
       \<and> is_none_or (obj_get ''engine'' m) (\<lambda>engine. as_str engine = Some ''lucene'')))"

definition sparse_validate_mapping :: "json \<Rightarrow> unit outcome" where
  "sparse_validate_mapping mapping =
     eachR (\<lambda>(field, spec).
       if field_type spec \<noteq> Some ''sparse_vector'' then Inr ()
       else if \<not> sparse_keys_ok spec \<or> \<not> sparse_method_ok spec
       then bad (''mappings.properties.'' @ field) ''sparse_vector accepts type and optional method:{name:seismic,engine:lucene}; engine tuning, native engine and pruning options are unsupported''
       else Inr ()) (unwrap_or [] (properties mapping))"

section \<open>Vectors\<close>

definition token_message :: string where
  "token_message = ''token IDs must be canonical unsigned 32-bit decimal integers''"

definition weight_message :: string where
  "weight_message = ''weights must be positive finite float32 numbers''"

definition sparse_pair :: "string \<times> json \<Rightarrow> (u32 \<times> rat) outcome" where
  "sparse_pair = (\<lambda>(token, weight).
     bindR (ok_or (Bad ''sparse_vector'' token_message) (parse_u32 token)) (\<lambda>n.
       if show_nat (unat n) \<noteq> token then bad ''sparse_vector'' token_message
       else bindR (ok_or (Bad ''sparse_vector'' weight_message) (as_f64 weight)) (\<lambda>w.
         case f32_round w of
           None \<Rightarrow> bad ''sparse_vector'' weight_message
         | Some converted \<Rightarrow>
             if converted \<le> 0 then bad ''sparse_vector'' weight_message else Inr (n, converted))))"

definition sparse_value :: "(u32 \<times> rat) list \<Rightarrow> json" where
  "sparse_value pairs =
     jobj [(''indices'', JArr (map (\<lambda>(i, _). jint (ucast i)) pairs)),
           (''values'', JArr (map (\<lambda>(_, v). JNum (Float v)) pairs))]"

definition sparse_vector :: "json \<Rightarrow> json outcome" where
  "sparse_vector tokens =
     bindR (ok_or (Bad ''sparse_vector'' ''expected an object of numeric token IDs and positive weights'')
             (as_object tokens)) (\<lambda>ts.
     bindR (traverseR sparse_pair ts) (\<lambda>pairs.
       Inr (sparse_value (sort_by (\<lambda>a b. cmp_of (fst a) (fst b)) pairs))))"

definition sparse_document :: "json \<Rightarrow> json \<Rightarrow> object outcome" where
  "sparse_document source mapping =
     foldR (\<lambda>(field, spec) result.
       if field_type spec \<noteq> Some ''sparse_vector'' then Inr result
       else case get field source of
         None \<Rightarrow> Inr result
       | Some tokens \<Rightarrow>
           if is_null tokens then Inr result
           else map_ok (\<lambda>v. obj_insert (sparse_name field) v result) (sparse_vector tokens))
       (unwrap_or [] (properties mapping)) []"

section \<open>Scalar queries\<close>

definition check_scalar_field :: "string \<Rightarrow> json \<Rightarrow> unit outcome" where
  "check_scalar_field given mapping =
     (let field = hd (split_on CHR ''^'' given) in
      if list_ex (\<lambda>(name, spec). field_type spec = Some ''sparse_vector''
            \<and> (field = name \<or> is_some_and (strip_prefix name field) (starts_with ''.'')))
           (unwrap_or [] (properties mapping))
      then bad ''sparse_vector.scalar_query'' ''scalar predicates, aggregations, sorting and collapse on sparse_vector fields are unsupported; use neural_sparse query_tokens''
      else Inr ())"

definition scalar_leaf_kinds :: "string list" where
  "scalar_leaf_kinds = [''term'', ''terms'', ''range'', ''prefix'', ''wildcard'', ''regexp'', ''match'',
     ''match_phrase'', ''match_bool_prefix'', ''fuzzy'']"

text \<open>A clause that names its fields itself.\<close>

definition validate_leaf_fields :: "string \<Rightarrow> json \<Rightarrow> json \<Rightarrow> unit outcome" where
  "validate_leaf_fields kind v mapping =
     (if kind \<in> set scalar_leaf_kinds then
        eachR (\<lambda>field. check_scalar_field field mapping) (keys (unwrap_or [] (as_object v)))
      else if kind = ''exists'' then
        (case get_str ''field'' v of Some field \<Rightarrow> check_scalar_field field mapping | None \<Rightarrow> Inr ())
      else if kind = ''multi_match'' then
        eachR (\<lambda>field. check_scalar_field field mapping)
          (List.map_filter as_str (unwrap_or [] (get_array ''fields'' v)))
      else Inr ())"

definition optional_get :: "string \<Rightarrow> json \<Rightarrow> json list" where
  "optional_get key v = (case get key v of Some x \<Rightarrow> [x] | None \<Rightarrow> [])"

definition nested_queries :: "string \<Rightarrow> json \<Rightarrow> json list" where
  "nested_queries kind v =
     (if kind = ''bool'' then
        optional_get ''must'' v @ optional_get ''must_not'' v @ optional_get ''should'' v @ optional_get ''filter'' v
      else if kind = ''dis_max'' then optional_get ''queries'' v
      else [])"

lemma nested_queries_size: "q \<in> set (nested_queries kind v) \<Longrightarrow> size q < size v"
  by (auto simp: nested_queries_def optional_get_def split: if_splits option.splits
      dest: get_size [OF sym])

function validate_scalar_queries :: "json \<Rightarrow> json \<Rightarrow> unit outcome" where
  "validate_scalar_queries q mapping = (case q of
     JArr clauses \<Rightarrow> eachR (\<lambda>c. validate_scalar_queries c mapping) clauses
   | JObj ob \<Rightarrow>
       eachR (\<lambda>(kind, v). bindR (validate_leaf_fields kind v mapping) (\<lambda>_.
         eachR (\<lambda>c. validate_scalar_queries c mapping) (nested_queries kind v))) ob
   | _ \<Rightarrow> Inr ())"
  by pat_completeness auto
termination
  by (relation "measure (\<lambda>(q, m). size q)")
     (auto dest!: nested_queries_size member_size dest: element_size [simplified] intro: less_trans)

declare validate_scalar_queries.simps [simp del]

section \<open>Whole requests\<close>

definition validate_filters_option :: "json \<Rightarrow> json \<Rightarrow> unit outcome" where
  "validate_filters_option options mapping = (case get ''filters'' options of
     None \<Rightarrow> Inr ()
   | Some (JObj filters) \<Rightarrow> eachR (\<lambda>(_, f). validate_scalar_queries f mapping) filters
   | Some filters \<Rightarrow> validate_scalar_queries filters mapping)"

definition validate_aggregation_option :: "string \<Rightarrow> json \<Rightarrow> json \<Rightarrow> unit outcome" where
  "validate_aggregation_option kind options mapping =
     (if kind = ''filter'' then validate_scalar_queries options mapping
      else if kind = ''filters'' then validate_filters_option options mapping
      else (case get_str ''field'' options of
              Some field \<Rightarrow> check_scalar_field field mapping | None \<Rightarrow> Inr ()))"

function sparse_aggregations :: "json \<Rightarrow> json \<Rightarrow> unit outcome" where
  "sparse_aggregations v mapping = (case v of
     JObj aggs \<Rightarrow>
       eachR (\<lambda>(_, spec). case spec of
           JObj options \<Rightarrow>
             eachR (\<lambda>(kind, option).
               if kind = ''aggs'' \<or> kind = ''aggregations'' then sparse_aggregations option mapping
               else validate_aggregation_option kind option mapping) options
         | _ \<Rightarrow> Inr ()) aggs
   | _ \<Rightarrow> Inr ())"
  by pat_completeness auto
termination
  by (relation "measure (\<lambda>(q, m). size q)") (auto dest!: member_size intro: less_trans)

declare sparse_aggregations.simps [simp del]

definition sparse_validate_request :: "json \<Rightarrow> json \<Rightarrow> unit outcome" where
  "sparse_validate_request body mapping =
     bindR (parse_sort_specs (get ''sort'' body)) (\<lambda>sorts.
     bindR (eachR (\<lambda>(field, _). check_scalar_field field mapping) sorts) (\<lambda>_.
     bindR (case Option.bind (pointer [''collapse'', ''field''] body) as_str of
              Some field \<Rightarrow> check_scalar_field field mapping | None \<Rightarrow> Inr ()) (\<lambda>_.
     bindR (eachR (\<lambda>q. validate_scalar_queries q mapping)
              (optional_get ''query'' body @ optional_get ''post_filter'' body)) (\<lambda>_.
       eachR (\<lambda>v. sparse_aggregations v mapping)
         (optional_get ''aggs'' body @ optional_get ''aggregations'' body)))))"

section \<open>The neural sparse query\<close>

definition sparse_query_tokens :: "json \<Rightarrow> json outcome" where
  "sparse_query_tokens options = (case options of
     JObj [(k, tokens)] \<Rightarrow>
       if k = ''query_tokens'' then Inr tokens
       else bad ''neural_sparse'' ''only explicit query_tokens is supported; inference and method_parameters are unsupported''
   | _ \<Rightarrow> bad ''neural_sparse'' ''only explicit query_tokens is supported; inference and method_parameters are unsupported'')"

definition sparse_query :: "json \<Rightarrow> json \<Rightarrow> (string \<times> json) option outcome" where
  "sparse_query query mapping = (case get ''neural_sparse'' query of
     None \<Rightarrow> Inr None
   | Some sparse \<Rightarrow>
       if is_none_or (as_object query) (\<lambda>q. length q \<noteq> 1)
       then bad ''neural_sparse'' ''must be the sole top-level query''
       else (case sparse of
         JObj [(field, options)] \<Rightarrow>
           if Option.bind (Option.bind (get ''properties'' mapping) (get field)) field_type \<noteq> Some ''sparse_vector''
           then bad ''neural_sparse'' ''field must be mapped as sparse_vector''
           else bindR (sparse_query_tokens options) (\<lambda>tokens.
                bindR (sparse_vector tokens) (\<lambda>vector.
                  if is_none_or (as_array (index_key ''indices'' vector)) (\<lambda>v. v = [])
                  then bad ''neural_sparse'' ''query_tokens must not be empty''
                  else Inr (Some (sparse_name field, vector))))
       | _ \<Rightarrow> bad ''neural_sparse'' ''exactly one field is required''))"


section \<open>Lemmas\<close>

lemma sparse_name_inj: "sparse_name f = sparse_name g \<longleftrightarrow> f = g"
proof
  assume "sparse_name f = sparse_name g"
  then have eq: "concat (map (\<lambda>b. hex_padded 2 (byte b)) f) = concat (map (\<lambda>b. hex_padded 2 (byte b)) g)"
    by (simp add: sparse_name_def)
  from eq show "f = g"
  proof (induction f arbitrary: g)
    case Nil
    then show ?case
      by (cases g) (auto dest: arg_cong [of _ _ length])
  next
    case (Cons c f)
    then obtain d g' where g: "g = d # g'"
      by (cases g) (auto dest: arg_cong [of _ _ length])
    have "hex_padded 2 (byte c) = hex_padded 2 (byte d)"
      "concat (map (\<lambda>b. hex_padded 2 (byte b)) f) = concat (map (\<lambda>b. hex_padded 2 (byte b)) g')"
      using Cons.prems g by (auto simp: append_eq_append_conv)
    moreover have "byte c = byte d"
      using \<open>hex_padded 2 (byte c) = hex_padded 2 (byte d)\<close> hex_padded_inj [of "byte c" 2 "byte d"] by simp
    ultimately show ?case using Cons.IH g by simp
  qed
qed simp

lemma sparse_pair_ok:
  "sparse_pair (token, weight) = Inr (n, w) \<Longrightarrow> token = show_nat (unat n) \<and> 0 < w"
  by (auto simp: sparse_pair_def bad_def split: if_splits option.splits)

lemma sparse_pairs_distinct:
  "traverseR sparse_pair ts = Inr pairs \<Longrightarrow> distinct (map fst ts) \<Longrightarrow>
   map fst ts = map (\<lambda>p. show_nat (unat (fst p))) pairs \<and> (\<forall>p\<in>set pairs. 0 < snd p)"
proof (induction ts arbitrary: pairs)
  case (Cons t ts)
  obtain token weight where t: "t = (token, weight)" by (cases t)
  from Cons.prems(1) obtain p ps where p: "sparse_pair t = Inr p" "traverseR sparse_pair ts = Inr ps" "pairs = p # ps"
    by auto
  with Cons.IH [OF p(2)] Cons.prems(2) sparse_pair_ok [of token weight "fst p" "snd p"] show ?case
    by (simp add: t)
qed simp

lemma sorted_by_key: "sorted_by (\<lambda>a b. cmp_of (f a) (f b)) xs \<longleftrightarrow> sorted (map f xs)"
  by (induction xs) (auto simp: not_less)

lemma sort_pairs_sorted:
  assumes "distinct (map fst pairs)"
  shows "sorted_wrt (<) (map fst (sort_by (\<lambda>a b. cmp_of (fst a) (fst b)) (pairs :: (u32 \<times> rat) list)))"
proof -
  let ?s = "sort_by (\<lambda>a b. cmp_of (fst a) (fst b)) pairs"
  have "lawful_comparator (\<lambda>a b :: u32 \<times> rat. cmp_of (fst a) (fst b))"
    by (rule lawful_on [OF ord_cmp.lawful_comparator_axioms])
  then have "sorted_by (\<lambda>a b. cmp_of (fst a) (fst b)) ?s"
    by (rule lawful_comparator.sort_by_sorted)
  then have "sorted (map fst ?s)"
    by (simp add: sorted_by_key)
  moreover have "mset (map fst ?s) = mset (map fst pairs)"
    by simp
  then have "distinct (map fst ?s)"
    using assms mset_eq_imp_distinct_iff by blast
  ultimately show ?thesis by (simp add: strict_sorted_iff)
qed

section \<open>Properties\<close>

text \<open>C19: An accepted token object becomes a sparse vector with one entry per token, strictly
  increasing indices and positive weights, which is what Qdrant requires of a sparse vector.\<close>

theorem sparse_vector_ok:
  assumes "sparse_vector (JObj ts) = Inr v" "obj_ok ts"
  shows "\<exists>pairs. v = sparse_value pairs \<and> length pairs = length ts
    \<and> sorted_wrt (<) (map fst pairs) \<and> list_all (\<lambda>p. 0 < snd p) pairs"
proof -
  obtain pairs where p: "traverseR sparse_pair ts = Inr pairs"
      "v = sparse_value (sort_by (\<lambda>a b. cmp_of (fst a) (fst b)) pairs)"
    using assms(1) by (auto simp: sparse_vector_def)
  have names: "map fst ts = map (\<lambda>p. show_nat (unat (fst p))) pairs" and pos: "\<forall>p\<in>set pairs. 0 < snd p"
    using sparse_pairs_distinct [OF p(1) obj_ok_distinct [OF assms(2)]] by auto
  have "distinct (map (\<lambda>n. show_nat (unat n)) (map fst pairs))"
    using obj_ok_distinct [OF assms(2)] names by (simp add: comp_def)
  then have "distinct (map fst pairs)" using distinct_map by blast
  with p(2) pos traverseR_length [OF p(1)] show ?thesis
    using sort_pairs_sorted by (intro exI [of _ "sort_by (\<lambda>a b. cmp_of (fst a) (fst b)) pairs"]) (simp add: list_all_iff)
qed

lemma f32_two: "f32_round 2 = Some 2"
  by code_simp

lemma sample_pair: "sparse_pair (''7'', jint 2) = Inr (7, 2)"
proof -
  have "show_nat 7 = ''7''" by code_simp
  moreover have "parse_u32 ''7'' = Some 7"
    by (simp add: parse_u32_def parse_unsigned_def Let_def is_digit_def digit_value_def)
  ultimately show ?thesis by (simp add: sparse_pair_def f32_two f64_of_int_def)
qed

lemma sparse_vector_ok_witness:
  "\<exists>pairs. sparse_value [(7, 2)] = sparse_value pairs \<and> length pairs = 1
    \<and> sorted_wrt (<) (map fst pairs) \<and> list_all (\<lambda>p. 0 < snd p) pairs"
  using sparse_vector_ok [of "[(''7'', jint 2)]" "sparse_value [(7, 2)]"]
  by (simp add: sparse_vector_def sample_pair)

text \<open>Distinct fields have distinct sparse vector names.\<close>

theorem sparse_name_injective: "sparse_name f = sparse_name g \<longleftrightarrow> f = g"
  by (rule sparse_name_inj)

end
