(* ===== verification/Naming.thy ===== *)
theory Naming
  imports Errors
begin

text \<open>
  Names (\<open>src/main.rs\<close>): point ids, Qdrant collection names and the rules for index names.
  Parameters: \<open>sha256\<close> maps bytes to the 32 bytes of their digest, \<open>lower\<close> is
  \<open>str::to_lowercase\<close>.
\<close>

section \<open>Point ids\<close>

text \<open>A big-endian number, and the digest bytes from \<open>i\<close> up to \<open>j\<close> read as one.\<close>

definition be_value :: "string \<Rightarrow> nat" where
  "be_value bs = foldl (\<lambda>acc b. acc * 256 + byte b) 0 bs"

definition digest_slice :: "string \<Rightarrow> nat \<Rightarrow> nat \<Rightarrow> nat" where
  "digest_slice b i j = be_value (take (j - i) (drop i b))"

definition version_bits :: "16 word \<Rightarrow> 16 word" where
  "version_bits w = or (and w 0x0fff) 0x5000"

definition variant_bits :: "16 word \<Rightarrow> 16 word" where
  "variant_bits w = or (and w 0x3fff) 0x8000"

definition point_id :: "(string \<Rightarrow> string) \<Rightarrow> string \<Rightarrow> string \<Rightarrow> string" where
  "point_id sha256 index ident =
     (let b = sha256 (index @ [char_of (0 :: nat)] @ ident) in
      hex_padded 8 (digest_slice b 0 4) @ ''-'' @
      hex_padded 4 (digest_slice b 4 6) @ ''-'' @
      hex_padded 4 (unat (version_bits (of_nat (digest_slice b 6 8)))) @ ''-'' @
      hex_padded 4 (unat (variant_bits (of_nat (digest_slice b 8 10)))) @ ''-'' @
      hex_padded 12 (digest_slice b 10 16))"

section \<open>Collections\<close>

definition collection_char :: "string \<Rightarrow> string" where
  "collection_char ch = (case ch of
     [c] \<Rightarrow> if is_ascii_alphanumeric c \<or> c = CHR ''_'' \<or> c = CHR ''-'' then [c] else ''_''
   | _ \<Rightarrow> ''_'')"

definition collection :: "string \<Rightarrow> string" where
  "collection index = ''es_'' @ concat (map collection_char (utf8_chars index))"

definition document_collection :: "string \<Rightarrow> string" where
  "document_collection index = collection index @ ''_documents''"

section \<open>Index names\<close>

definition forbidden_chars :: string where
  "forbidden_chars =
     [CHR 0x5C, CHR ''/'', CHR ''*'', CHR ''?'', CHR 0x22, CHR ''<'', CHR ''>'', CHR ''|'', CHR '' '', CHR '','']"

definition forbidden_message :: string where
  "forbidden_message = ''must not contain the following characters ['' @ [CHR 0x5C] @ '', /, *, ?, '' @
     [CHR 0x22] @ '', <, >, |, space, ,]''"

definition validate_index_name :: "(string \<Rightarrow> string) \<Rightarrow> string \<Rightarrow> unit outcome" where
  "validate_index_name lower index =
     (let invalid = (\<lambda>reason. Inl (InvalidIndexName index reason)) in
      if index = [] then invalid ''must not be empty''
      else if list_ex (\<lambda>c. c \<in> set forbidden_chars) index then invalid forbidden_message
      else if CHR ''#'' \<in> set index then invalid (''must not contain '' @ [CHR 0x27] @ ''#'' @ [CHR 0x27])
      else if CHR '':'' \<in> set index then invalid (''must not contain '' @ [CHR 0x27] @ '':'' @ [CHR 0x27])
      else if hd index \<in> {CHR ''_'', CHR ''-'', CHR ''+''}
      then invalid (''must not start with '' @ [CHR 0x27] @ ''_'' @ [CHR 0x27] @ '', '' @ [CHR 0x27] @ ''-''
        @ [CHR 0x27] @ '', or '' @ [CHR 0x27] @ ''+'' @ [CHR 0x27])
      else if 255 < length index
      then invalid (''index name is too long, ('' @ show_nat (length index) @ '' > 255)'')
      else if index = ''.'' \<or> index = ''..''
      then invalid (''must not be '' @ [CHR 0x27] @ ''.'' @ [CHR 0x27] @ '' or '' @ [CHR 0x27] @ ''..'' @ [CHR 0x27])
      else if lower index \<noteq> index then invalid ''must be lowercase''
      else Inr ())"

section \<open>Lemmas\<close>

lemma collection_char_ok: "list_all (\<lambda>c. is_ascii_alphanumeric c \<or> c = CHR ''_'' \<or> c = CHR ''-'') (collection_char ch)"
  by (auto simp: collection_char_def split: list.splits)

lemma collection_chars_ok:
  "list_all (\<lambda>c. is_ascii_alphanumeric c \<or> c = CHR ''_'' \<or> c = CHR ''-'') (concat (map collection_char cs))"
  using collection_char_ok by (induction cs) auto

lemma validate_index_name_ok:
  assumes "validate_index_name lower index = Inr ()"
  shows "index \<noteq> []" "CHR ''/'' \<notin> set index" "CHR ''*'' \<notin> set index" "CHR '','' \<notin> set index"
    "hd index \<noteq> CHR ''_''" "length index \<le> 255"
  using assms by (auto simp: validate_index_name_def Let_def forbidden_chars_def list_ex_iff split: if_splits)

lemma unat_small: "unat (5 :: 16 word) = 5" "unat (2 :: 16 word) = 2"
  by simp_all

lemma version_bits_nibble: "unat (version_bits w) div 4096 = 5"
proof -
  have "drop_bit 12 (version_bits w) = 5"
    by (rule bit_word_eqI) (auto simp: version_bits_def bit_simps)
  then have "drop_bit 12 (unat (version_bits w)) = 5"
    by (metis unat_drop_bit_eq unat_small(1))
  then show ?thesis by (simp add: drop_bit_eq_div)
qed

lemma variant_bits_nibble: "unat (variant_bits w) div 4096 \<in> {8, 9, 10, 11}"
proof -
  have "drop_bit 14 (variant_bits w) = 2"
    by (rule bit_word_eqI) (auto simp: variant_bits_def bit_simps)
  then have "drop_bit 14 (unat (variant_bits w)) = 2"
    by (metis unat_drop_bit_eq unat_small(2))
  then have "unat (variant_bits w) div 4096 div 4 = 2"
    by (simp add: drop_bit_eq_div div_mult2_eq [symmetric])
  then show ?thesis by auto
qed

lemma hex_padded_4:
  "hex_padded 4 n = [hex_digit (n div 4096 mod 16), hex_digit (n div 256 mod 16), hex_digit (n div 16 mod 16), hex_digit (n mod 16)]"
proof -
  have four: "(4 :: nat) = Suc (Suc (Suc (Suc 0)))" by simp
  show ?thesis unfolding four by (simp add: div_mult2_eq [symmetric])
qed

lemma hex_digit_chars:
  "hex_digit 5 = CHR ''5''" "hex_digit 8 = CHR ''8''" "hex_digit 9 = CHR ''9''"
  "hex_digit 10 = CHR ''a''" "hex_digit 11 = CHR ''b''"
  by code_simp+

lemma collection_name_chars:
  "list_all (\<lambda>c. is_ascii_alphanumeric c \<or> c = CHR ''_'' \<or> c = CHR ''-'') (collection index)"
  using collection_chars_ok by (simp add: collection_def is_ascii_alphanumeric_def)

section \<open>Properties\<close>

text \<open>Whatever the digest, a point id has the shape of a version 5 UUID: 36 characters,
  dashes at the four fixed places, version digit 5 and a variant digit of 8, 9, a or b.\<close>

theorem point_id_is_uuid:
  "length (point_id sha256 index ident) = 36
   \<and> list_all (\<lambda>i. point_id sha256 index ident ! i = CHR ''-'') [8, 13, 18, 23]
   \<and> point_id sha256 index ident ! 14 = CHR ''5''
   \<and> point_id sha256 index ident ! 19 \<in> {CHR ''8'', CHR ''9'', CHR ''a'', CHR ''b''}"
proof -
  let ?b = "sha256 (index @ [char_of (0 :: nat)] @ ident)"
  let ?v = "unat (version_bits (of_nat (digest_slice ?b 6 8)))"
  let ?w = "unat (variant_bits (of_nat (digest_slice ?b 8 10)))"
  have id: "point_id sha256 index ident = hex_padded 8 (digest_slice ?b 0 4) @ ''-'' @ hex_padded 4 (digest_slice ?b 4 6)
      @ ''-'' @ hex_padded 4 ?v @ ''-'' @ hex_padded 4 ?w @ ''-'' @ hex_padded 12 (digest_slice ?b 10 16)"
    by (simp add: point_id_def Let_def)
  have v: "hex_padded 4 ?v ! 0 = CHR ''5''"
    by (simp only: hex_padded_4 version_bits_nibble) (simp add: hex_digit_chars)
  have w: "hex_padded 4 ?w ! 0 \<in> {CHR ''8'', CHR ''9'', CHR ''a'', CHR ''b''}"
    using variant_bits_nibble [of "of_nat (digest_slice ?b 8 10)"]
    by (simp only: hex_padded_4) (auto simp: hex_digit_chars)
  show ?thesis
    using v w by (simp add: id nth_append)
qed

end
