(* ===== verification/Mapping_Model.thy ===== *)
theory Mapping_Model
  imports Sparse Naming
begin

text \<open>
  Mappings and the Qdrant points documents become (\<open>src/main.rs\<close>): the vectors of a mapping,
  the texts and the payload of a document, partial updates.
\<close>

section \<open>Vectors\<close>

definition text_vector :: "string \<Rightarrow> string" where
  "text_vector field = ''text_'' @ replace_byte CHR ''.'' CHR ''_'' field"

definition field_vectors :: "string \<times> json \<Rightarrow> string list" where
  "field_vectors = (\<lambda>(field, spec).
     if field_type spec = Some ''text'' then [text_vector field]
     else if field_type spec = Some ''sparse_vector'' then [sparse_name field]
     else [])"

definition mapping_vectors :: "json \<Rightarrow> json \<times> string list" where
  "mapping_vectors body =
     (let mapping = unwrap_or (JObj []) (get ''mappings'' body);
          vectors = concat (map field_vectors (unwrap_or [] (properties mapping)));
          vectors = (if vectors = [] then [''text_all''] else vectors);
          vectors = (if ''text_all'' \<in> set vectors then vectors else vectors @ [''text_all''])
      in (mapping, sort vectors))"

definition payload_field_schema :: "json \<Rightarrow> string option" where
  "payload_field_schema spec = (case field_type spec of
     None \<Rightarrow> None
   | Some kind \<Rightarrow>
       if kind = ''keyword'' then Some ''keyword''
       else if kind = ''boolean'' then Some ''bool''
       else if kind \<in> set [''byte'', ''short'', ''integer'', ''long''] then Some ''integer''
       else if kind \<in> set [''float'', ''double''] then Some ''float''
       else if kind = ''date'' then Some ''datetime''
       else None)"

definition search_vector_for_field :: "json \<Rightarrow> string list \<Rightarrow> string \<Rightarrow> string option" where
  "search_vector_for_field mapping vectors field =
     (let vector = (if field = ''_all'' then ''text_all'' else text_vector field) in
      if vector \<in> set vectors then Some vector
      else if is_none_or (properties mapping) (\<lambda>ps. ps = []) \<and> ''text_all'' \<in> set vectors
      then Some ''text_all''
      else None)"

text \<open>The insertions into the map of texts, in order: a later one replaces an earlier one.\<close>

definition vector_text :: "object \<Rightarrow> string \<Rightarrow> string" where
  "vector_text ob vector =
     (let field = replace_byte CHR ''_'' CHR ''.'' (unwrap_or vector (strip_prefix ''text_'' vector))
      in unwrap_or [] (Option.bind (or_else (obj_get field ob) (obj_get vector ob)) as_str))"

definition flatten_text :: "json \<Rightarrow> string list \<Rightarrow> (string \<times> string) list" where
  "flatten_text source vectors =
     (let ob = unwrap_or [] (as_object source) in
      map (\<lambda>v. (v, vector_text ob v)) (filter (starts_with ''text_'') vectors)
      @ [(''text_all'', join_with '' '' (List.map_filter as_str (map snd ob)))])"

section \<open>Payloads\<close>

definition validate_fast_field_namespace :: "json \<Rightarrow> unit outcome" where
  "validate_fast_field_namespace mapping =
     (if Option.bind (get ''properties'' mapping) (get ''_qeg_fast_fields'') \<noteq> None
      then bad ''_mapping.properties._qeg_fast_fields'' ''field name is reserved for gateway execution metadata''
      else Inr ())"

definition keyword_facet_safe :: "json option \<Rightarrow> bool" where
  "keyword_facet_safe v = (case v of
     None \<Rightarrow> True
   | Some JNull \<Rightarrow> True
   | Some (JStr _) \<Rightarrow> True
   | Some (JArr vs) \<Rightarrow> list_all (\<lambda>x. is_null x \<or> is_string x) vs
   | Some _ \<Rightarrow> False)"

definition integer_kinds :: "string list" where
  "integer_kinds = [''integer'', ''long'', ''short'', ''byte'']"

definition numeric_kinds :: "string list" where
  "numeric_kinds = integer_kinds @ [''float'', ''double'']"

definition searchable_payload_field :: "json \<Rightarrow> bool" where
  "searchable_payload_field spec =
     is_some_and (field_type spec) (\<lambda>kind. kind \<noteq> ''text'' \<and> kind \<noteq> ''sparse_vector'')"

definition plain_fast_name :: "string \<Rightarrow> bool" where
  "plain_fast_name field \<longleftrightarrow>
     \<not> list_ex (\<lambda>c. c \<in> {CHR ''.'', CHR ''['', CHR '']''}) field \<and> \<not> starts_with ''_'' field"

definition numeric_marker_ok :: "json \<Rightarrow> string \<Rightarrow> string option \<Rightarrow> bool" where
  "numeric_marker_ok source field kind =
     is_some_and (get field source) (\<lambda>v. sort_safe_number v
       \<and> (is_some_and kind (\<lambda>k. k \<in> set integer_kinds) \<longrightarrow> as_i64 v \<noteq> None \<or> as_u64 v \<noteq> None))"

definition fast_field_marker :: "json \<Rightarrow> string \<times> json \<Rightarrow> json option" where
  "fast_field_marker source = (\<lambda>(field, spec).
     if \<not> plain_fast_name field then None
     else if is_some_and (field_type spec) (\<lambda>k. k \<in> set numeric_kinds)
          \<and> numeric_marker_ok source field (field_type spec)
     then Some (JStr (''v1:number:'' @ field))
     else if field_type spec = Some ''keyword'' \<and> keyword_facet_safe (get field source)
     then Some (JStr (''v1:keyword:'' @ field))
     else None)"

definition mapped_members :: "json \<Rightarrow> json \<Rightarrow> (string \<times> json) list" where
  "mapped_members source mapping =
     (if is_object source then
        List.map_filter (\<lambda>(field, spec). if searchable_payload_field spec
            then map_option (Pair field) (get field source) else None)
          (unwrap_or [] (properties mapping))
      else [])"

definition insert_all :: "(string \<times> json) list \<Rightarrow> object \<Rightarrow> object" where
  "insert_all kvs ob = fold (\<lambda>(k, v). obj_insert k v) kvs ob"

definition projected_search_payload :: "json \<Rightarrow> string \<Rightarrow> string \<Rightarrow> json \<Rightarrow> object" where
  "projected_search_payload source ident index mapping =
     (let p = insert_all (mapped_members source mapping)
                (obj_of [(''_es_id'', JStr ident), (''_es_index'', JStr index)]) in
      if \<not> is_ok (validate_fast_field_namespace mapping) then p
      else obj_insert ''_qeg_fast_fields''
        (JArr (List.map_filter (fast_field_marker source) (unwrap_or [] (properties mapping)))) p)"

definition qdrant_payload :: "json \<Rightarrow> string \<Rightarrow> string \<Rightarrow> json \<Rightarrow> object" where
  "qdrant_payload source ident index mapping =
     obj_insert ''_source'' source (projected_search_payload source ident index mapping)"

definition source_payload :: "json \<Rightarrow> string \<Rightarrow> string \<Rightarrow> json" where
  "source_payload source ident index =
     jobj [(''_es_id'', JStr ident), (''_es_index'', JStr index), (''_source'', source)]"

definition source_point :: "(string \<Rightarrow> string) \<Rightarrow> json \<Rightarrow> string \<Rightarrow> string \<Rightarrow> json" where
  "source_point sha256 source ident index =
     jobj [(''id'', JStr (point_id sha256 index ident)), (''vector'', JArr [JNum (Float 0)]),
           (''payload'', source_payload source ident index)]"

section \<open>Partial updates\<close>

text \<open>The merged document and whether it differs.\<close>

fun merge_partial_document :: "json \<Rightarrow> json \<Rightarrow> json \<times> bool"
  and merge_members :: "object \<Rightarrow> (string \<times> json) list \<Rightarrow> bool \<Rightarrow> object \<times> bool" where
  "merge_partial_document target patch =
     (case (target, patch) of
        (JObj t, JObj p) \<Rightarrow> (let (t', changed) = merge_members t p False in (JObj t', changed))
      | _ \<Rightarrow> if target = patch then (target, False) else (patch, True))"
| "merge_members t [] changed = (t, changed)"
| "merge_members t ((key, v) # rest) changed =
     (case obj_get key t of
        Some existing \<Rightarrow>
          (let (merged, c) = merge_partial_document existing v
           in merge_members (obj_insert key merged t) rest (changed \<or> c))
      | None \<Rightarrow> merge_members (obj_insert key v t) rest True)"

declare merge_partial_document.simps [simp del] merge_members.simps(2) [simp del]


section \<open>Lemmas on merging\<close>

text \<open>A value whose objects, at every depth, have strictly increasing keys, as serde builds them.\<close>

fun json_ok :: "json \<Rightarrow> bool" where
  "json_ok (JObj ms) = (obj_ok ms \<and> list_all (\<lambda>(k, v). json_ok v) ms)"
| "json_ok (JArr vs) = list_all json_ok vs"
| "json_ok _ = True"

lemma json_ok_get: "json_ok (JObj ms) \<Longrightarrow> obj_get k ms = Some v \<Longrightarrow> json_ok v"
  by (auto simp: list_all_iff dest: obj_get_Some_mem)

lemma merge_simps:
  "merge_partial_document (JObj t) (JObj p) = (JObj (fst (merge_members t p False)), snd (merge_members t p False))"
  "\<not> is_object t' \<or> \<not> is_object p' \<Longrightarrow> merge_partial_document t' p' = (if t' = p' then (t', False) else (p', True))"
  by (auto simp: merge_partial_document.simps split: prod.splits json.splits)

text \<open>The member a patch leaves at a key, and whether it changed it.\<close>

definition merged_member :: "json option \<Rightarrow> json \<Rightarrow> json \<times> bool" where
  "merged_member existing v = (case existing of None \<Rightarrow> (v, True) | Some e \<Rightarrow> merge_partial_document e v)"

lemma merge_members_Cons:
  "merge_members t ((key, v) # rest) changed =
     merge_members (obj_insert key (fst (merged_member (obj_get key t) v)) t) rest
       (changed \<or> snd (merged_member (obj_get key t) v))"
  by (auto simp: merge_members.simps(2) merged_member_def split: option.splits prod.splits)

lemma merge_members_get:
  "distinct (map fst p) \<Longrightarrow>
   obj_get k (fst (merge_members t p changed)) =
     (case map_of p k of None \<Rightarrow> obj_get k t | Some v \<Rightarrow> Some (fst (merged_member (obj_get k t) v)))"
proof (induction p arbitrary: t changed)
  case Nil
  then show ?case by simp
next
  case (Cons kv p)
  obtain key v where kv: "kv = (key, v)" by (cases kv)
  have "map_of p key = None" using Cons.prems kv by (simp add: map_of_eq_None_iff)
  then show ?case
    using Cons by (auto simp: kv merge_members_Cons obj_get_insert split: option.splits)
qed

lemma merge_members_changed:
  "distinct (map fst p) \<Longrightarrow>
   snd (merge_members t p changed) \<longleftrightarrow> changed \<or> (\<exists>(k, v)\<in>set p. snd (merged_member (obj_get k t) v))"
proof (induction p arbitrary: t changed)
  case Nil
  then show ?case by simp
next
  case (Cons kv p)
  obtain key v where kv: "kv = (key, v)" by (cases kv)
  have other: "obj_get k (obj_insert key x t) = obj_get k t" if "(k, u) \<in> set p" for k u x
    using Cons.prems that kv by (force simp: obj_get_insert)
  have "snd (merge_members t (kv # p) changed) \<longleftrightarrow>
      (changed \<or> snd (merged_member (obj_get key t) v)) \<or>
      (\<exists>(k, u)\<in>set p. snd (merged_member (obj_get k (obj_insert key (fst (merged_member (obj_get key t) v)) t)) u))"
    using Cons by (simp only: kv merge_members_Cons) (simp add: Cons.IH)
  moreover have "(\<exists>(k, u)\<in>set p. snd (merged_member (obj_get k (obj_insert key (fst (merged_member (obj_get key t) v)) t)) u))
      \<longleftrightarrow> (\<exists>(k, u)\<in>set p. snd (merged_member (obj_get k t) u))"
    using other by (intro bex_cong) auto
  ultimately show ?case by (simp add: kv)
qed

lemma merge_members_ok: "obj_ok t \<Longrightarrow> obj_ok (fst (merge_members t p changed))"
proof (induction p arbitrary: t changed)
  case (Cons kv p)
  then show ?case by (cases kv) (simp add: merge_members_Cons)
qed simp

text \<open>The flag is exact.\<close>

lemma merge_changed_iff:
  "json_ok t \<Longrightarrow> json_ok p \<Longrightarrow> snd (merge_partial_document t p) \<longleftrightarrow> fst (merge_partial_document t p) \<noteq> t"
proof (induction "size p" arbitrary: t p rule: less_induct)
  case less
  show ?case
  proof (cases "is_object t \<and> is_object p")
    case True
    then obtain ts ps where tp: "t = JObj ts" "p = JObj ps" by (auto elim: as_object.elims)
    have d: "distinct (map fst ps)" using less.prems(2) tp by (simp add: obj_ok_distinct)
    have member: "snd (merged_member (obj_get k ts) v) \<longleftrightarrow> Some (fst (merged_member (obj_get k ts) v)) \<noteq> obj_get k ts"
      if kv: "(k, v) \<in> set ps" for k v
    proof (cases "obj_get k ts")
      case None
      then show ?thesis by (simp add: merged_member_def)
    next
      case (Some e)
      have "json_ok v" using less.prems(2) kv by (auto simp: tp list_all_iff)
      moreover have "size v < size p" unfolding tp using kv by (rule member_size)
      moreover have "json_ok e" using less.prems(1) Some json_ok_get tp by blast
      ultimately show ?thesis using less.hyps [of v e] Some by (simp add: merged_member_def)
    qed
    have eq: "fst (merge_members ts ps False) = ts \<longleftrightarrow>
        (\<forall>(k, v)\<in>set ps. Some (fst (merged_member (obj_get k ts) v)) = obj_get k ts)"
    proof
      assume same: "fst (merge_members ts ps False) = ts"
      show "\<forall>(k, v)\<in>set ps. Some (fst (merged_member (obj_get k ts) v)) = obj_get k ts"
      proof clarify
        fix k v
        assume "(k, v) \<in> set ps"
        then have "map_of ps k = Some v" using d by (rule map_of_is_SomeI [rotated])
        then show "Some (fst (merged_member (obj_get k ts) v)) = obj_get k ts"
          using merge_members_get [OF d, of k ts False] same by simp
      qed
    next
      assume all: "\<forall>(k, v)\<in>set ps. Some (fst (merged_member (obj_get k ts) v)) = obj_get k ts"
      show "fst (merge_members ts ps False) = ts"
      proof (rule obj_ok_eqI)
        show "obj_ok (fst (merge_members ts ps False))" "obj_ok ts"
          using less.prems(1) tp merge_members_ok by simp_all
        show "obj_get k (fst (merge_members ts ps False)) = obj_get k ts" for k
          using all by (auto simp: merge_members_get [OF d] dest!: map_of_SomeD split: option.splits)
      qed
    qed
    have "(\<exists>(k, v)\<in>set ps. snd (merged_member (obj_get k ts) v)) \<longleftrightarrow>
        \<not> (\<forall>(k, v)\<in>set ps. Some (fst (merged_member (obj_get k ts) v)) = obj_get k ts)"
      using member by (simp add: split_beta)
    then show ?thesis by (simp add: tp merge_simps merge_members_changed [OF d] eq)
  next
    case False
    then have "\<not> is_object t \<or> \<not> is_object p" by blast
    then show ?thesis by (simp only: merge_simps) auto
  qed
qed

lemma merge_ok:
  "json_ok t \<Longrightarrow> json_ok p \<Longrightarrow> json_ok (fst (merge_partial_document t p))"
proof (induction "size p" arbitrary: t p rule: less_induct)
  case less
  show ?case
  proof (cases "is_object t \<and> is_object p")
    case True
    then obtain ts ps where tp: "t = JObj ts" "p = JObj ps" by (auto elim: as_object.elims)
    have d: "distinct (map fst ps)" using less.prems(2) tp by (simp add: obj_ok_distinct)
    have ok: "obj_ok (fst (merge_members ts ps False))" using less.prems(1) tp merge_members_ok by simp
    have "json_ok x" if x: "(k, x) \<in> set (fst (merge_members ts ps False))" for k x
    proof (cases "map_of ps k")
      case None
      then have "obj_get k ts = Some x"
        using obj_get_mem [OF ok x] merge_members_get [OF d, of k ts False] by simp
      then show ?thesis using less.prems(1) json_ok_get tp by blast
    next
      case (Some v)
      then have v: "(k, v) \<in> set ps" by (rule map_of_SomeD)
      have xv: "x = fst (merged_member (obj_get k ts) v)"
        using obj_get_mem [OF ok x] merge_members_get [OF d, of k ts False] Some by simp
      have "json_ok v" using less.prems(2) v by (auto simp: tp list_all_iff)
      moreover have "size v < size p" unfolding tp using v by (rule member_size)
      ultimately show ?thesis
        using less.hyps [of v] less.prems(1) json_ok_get xv tp
        by (cases "obj_get k ts") (auto simp: merged_member_def simp del: json_ok.simps)
    qed
    then show ?thesis using ok by (auto simp: tp merge_simps list_all_iff)
  next
    case False
    then have "\<not> is_object t \<or> \<not> is_object p" by blast
    then show ?thesis using less.prems by (simp only: merge_simps) auto
  qed
qed

text \<open>A value patched with itself is unchanged, and so is one patched twice.\<close>

lemma merge_idem:
  "json_ok t \<Longrightarrow> json_ok p \<Longrightarrow>
   fst (merge_partial_document (fst (merge_partial_document t p)) p) = fst (merge_partial_document t p)
   \<and> fst (merge_partial_document p p) = p"
proof (induction "size p" arbitrary: t p rule: less_induct)
  case less
  show ?case
  proof (cases "is_object p")
    case False
    then have "\<not> is_object t \<or> \<not> is_object p" "\<not> is_object p \<or> \<not> is_object p" by blast+
    then show ?thesis by (simp add: merge_simps)
  next
    case True
    then obtain ps where p: "p = JObj ps" by (auto elim: as_object.elims)
    have d: "distinct (map fst ps)" and okp: "obj_ok ps" using less.prems(2) p by (simp_all add: obj_ok_distinct)
    have ih: "fst (merge_partial_document (fst (merge_partial_document e v)) v) = fst (merge_partial_document e v)"
        "fst (merge_partial_document v v) = v"
      if "(k, v) \<in> set ps" "json_ok e" for k v e
    proof -
      have "json_ok v" using less.prems(2) that(1) by (auto simp: p list_all_iff)
      moreover have "size v < size p" unfolding p using that(1) by (rule member_size)
      ultimately show "fst (merge_partial_document (fst (merge_partial_document e v)) v) = fst (merge_partial_document e v)"
        "fst (merge_partial_document v v) = v"
        using less.hyps [of v e] that(2) by blast+
    qed
    have self: "fst (merge_partial_document v v) = v" if "(k, v) \<in> set ps" for k v
      using ih(2) [OF that, of JNull] by simp
    have pp: "fst (merge_members ps ps False) = ps"
    proof (rule obj_ok_eqI [OF merge_members_ok [OF okp] okp])
      fix k
      have "obj_get k ps = map_of ps k" by (rule obj_get_map_of)
      then show "obj_get k (fst (merge_members ps ps False)) = obj_get k ps"
        using self by (cases "map_of ps k") (auto simp: merge_members_get [OF d] merged_member_def dest: map_of_SomeD)
    qed
    show ?thesis
    proof (cases "is_object t")
      case False
      then have "\<not> is_object t \<or> \<not> is_object p" "t \<noteq> p" using True by (blast, auto)
      then have "merge_partial_document t p = (p, True)" by (simp only: merge_simps(2) if_False)
      then show ?thesis using pp by (simp add: p merge_simps)
    next
      case to: True
      then obtain ts where t: "t = JObj ts" by (auto elim: as_object.elims)
      let ?m = "fst (merge_members ts ps False)"
      have okt: "obj_ok ts" using less.prems(1) t by simp
      have twice: "fst (merged_member (Some (fst (merged_member (obj_get k ts) v))) v) = fst (merged_member (obj_get k ts) v)"
        if "(k, v) \<in> set ps" for k v
        using ih(1) [OF that] self [OF that] less.prems(1) json_ok_get t
        by (cases "obj_get k ts") (auto simp: merged_member_def simp del: json_ok.simps)
      have "fst (merge_members ?m ps False) = ?m"
      proof (rule obj_ok_eqI [OF merge_members_ok [OF merge_members_ok [OF okt]] merge_members_ok [OF okt]])
        show "obj_get k (fst (merge_members ?m ps False)) = obj_get k ?m" for k
          using twice by (auto simp: merge_members_get [OF d] dest!: map_of_SomeD split: option.splits)
      qed
      then show ?thesis using pp by (simp add: t p merge_simps)
    qed
  qed
qed

section \<open>Lemmas on texts\<close>

lemma replace_byte_gone: "a \<noteq> b \<Longrightarrow> a \<notin> set (replace_byte a b s)"
  by (auto simp: replace_byte_def)

lemma text_vector_field:
  "CHR ''_'' \<in> set field \<Longrightarrow>
   replace_byte CHR ''_'' CHR ''.'' (replace_byte CHR ''.'' CHR ''_'' field) \<noteq> field"
  using replace_byte_gone [of "CHR ''_''" "CHR ''.''" "replace_byte CHR ''.'' CHR ''_'' field"] by auto

lemma text_vector_other: "text_vector field \<noteq> field"
  by (auto simp: text_vector_def dest!: arg_cong [of _ _ length])

section \<open>Properties\<close>

text \<open>C18: A partial update reports a change exactly when the document changes, and applying the
  same update again is a no-op: the basis of \<open>detect_noop\<close>.\<close>

theorem partial_update_noop:
  assumes "json_ok source" "json_ok patch"
  shows "(snd (merge_partial_document source patch) \<longleftrightarrow> fst (merge_partial_document source patch) \<noteq> source)
    \<and> merge_partial_document (fst (merge_partial_document source patch)) patch
        = (fst (merge_partial_document source patch), False)"
proof
  let ?m = "fst (merge_partial_document source patch)"
  show "snd (merge_partial_document source patch) \<longleftrightarrow> ?m \<noteq> source"
    by (rule merge_changed_iff [OF assms])
  have same: "fst (merge_partial_document ?m patch) = ?m"
    using merge_idem [OF assms] by blast
  have "\<not> snd (merge_partial_document ?m patch)"
    using merge_changed_iff [OF merge_ok [OF assms] assms(2)] same by blast
  with same show "merge_partial_document ?m patch = (?m, False)" by (simp add: prod_eq_iff)
qed

lemma partial_update_noop_witness:
  "merge_partial_document (JObj [(''a'', jint 1), (''b'', jint 3)]) (JObj [(''b'', jint 3)])
     = (JObj [(''a'', jint 1), (''b'', jint 3)], False)"
  using partial_update_noop [of "JObj [(''a'', jint 1)]" "JObj [(''b'', jint 3)]"]
  by (simp add: merge_simps merge_members.simps)

text \<open>The text of a field with an underscore in its name never reaches the vector of that
  field (the name is mapped back with dots for underscores): the vector is stored empty and only
  the catch-all vector holds the text.\<close>

theorem underscore_field_vector_empty:
  assumes "CHR ''_'' \<in> set field"
  shows "flatten_text (JObj [(field, JStr text)]) [text_vector field]
    = [(text_vector field, []), (''text_all'', text)]"
  using text_vector_field [OF assms] text_vector_other [of field]
  by (simp add: flatten_text_def vector_text_def text_vector_def strip_prefix_def starts_with_def)

lemma underscore_field_vector_empty_witness:
  "flatten_text (JObj [(''product_name'', JStr ''red shoe'')]) [text_vector ''product_name'']
    = [(text_vector ''product_name'', []), (''text_all'', ''red shoe'')]"
  using underscore_field_vector_empty [of "''product_name''" "''red shoe''"] by simp

text \<open>A mapped field named \<open>_es_id\<close> replaces the document id in the payload, so a search
  reports the id the document claims instead of its own.\<close>

theorem payload_id_overridden:
  "obj_get ''_es_id'' (projected_search_payload (JObj [(''_es_id'', JStr forged)]) ident index
      (JObj [(''properties'', JObj [(''_es_id'', JObj [(''type'', JStr ''keyword'')])])]))
    = Some (JStr forged)"
  by (simp add: projected_search_payload_def mapped_members_def properties_def get_object_def
      validate_fast_field_namespace_def searchable_payload_field_def field_type_def get_str_def
      insert_all_def obj_of_def obj_get_insert List.map_filter_def)

end
