(* ===== verification/FilterSemantics.thy ===== *)
theory FilterSemantics
  imports Filters
begin

text \<open>
  The meaning of a translated filter. Qdrant evaluates conditions on the payload of a point; what the
  gateway relies on is the documented meaning of the condition forms it builds, the predicate
  \<open>qdrant_laws\<close> of an arbitrary evaluator. It speaks of keys without special characters, of the value
  types Qdrant documents for each condition, and of payloads whose value at the key is no nested
  structure. Within that, the filter \<open>query_filter\<close> builds from a validated clause selects exactly the
  payloads on which the gateway's own evaluator \<open>source_matches_query\<close> holds.
\<close>

section \<open>What Qdrant documents\<close>

text \<open>The value under a nested key, and the values a condition on the key is about: the elements of an
  array, otherwise the value itself.\<close>

fun nested_value :: "string list \<Rightarrow> json \<Rightarrow> json option" where
  "nested_value [] v = Some v"
| "nested_value (k # ks) (JObj ms) = (case map_of ms k of None \<Rightarrow> None | Some v \<Rightarrow> nested_value ks v)"
| "nested_value (k # ks) v = None"

abbreviation key_path :: "string \<Rightarrow> string list" where
  "key_path key \<equiv> split_on CHR ''.'' key"

definition stored_values :: "string \<Rightarrow> json \<Rightarrow> json list" where
  "stored_values key payload = (case nested_value (key_path key) payload of
     None \<Rightarrow> [] | Some (JArr vs) \<Rightarrow> vs | Some v \<Rightarrow> [v])"

text \<open>Keys without special characters, and payloads with no array on the way to the key and no array,
  object or null inside an array at its end.\<close>

definition word_char :: "char \<Rightarrow> bool" where
  "word_char c \<longleftrightarrow> is_ascii_alphanumeric c \<or> c = CHR ''_'' \<or> c = CHR ''-''"

definition plain_key :: "string \<Rightarrow> bool" where
  "plain_key key \<longleftrightarrow> list_all (\<lambda>part. part \<noteq> [] \<and> list_all word_char part) (key_path key)"

definition scalar_value :: "json \<Rightarrow> bool" where
  "scalar_value v \<longleftrightarrow> is_string v \<or> is_number v \<or> is_boolean v"

fun plain_along :: "string list \<Rightarrow> json \<Rightarrow> bool" where
  "plain_along [] (JArr vs) = list_all scalar_value vs"
| "plain_along [] v = True"
| "plain_along (k # ks) (JObj ms) = (case map_of ms k of None \<Rightarrow> True | Some v \<Rightarrow> plain_along ks v)"
| "plain_along (k # ks) (JArr vs) = False"
| "plain_along (k # ks) v = True"

definition plain_at :: "string \<Rightarrow> json \<Rightarrow> bool" where
  "plain_at key payload \<longleftrightarrow> plain_along (key_path key) payload"

text \<open>The values of \<open>match\<close> (a keyword, an integer or a boolean) and of \<open>match any\<close> (keywords or integers),
  and the body of \<open>range\<close>.\<close>

definition integer_value :: "json \<Rightarrow> bool" where
  "integer_value v \<longleftrightarrow> as_i64 v \<noteq> None"

definition match_value :: "json \<Rightarrow> bool" where
  "match_value v \<longleftrightarrow> is_string v \<or> integer_value v \<or> is_boolean v"

definition any_values :: "json list \<Rightarrow> bool" where
  "any_values vs \<longleftrightarrow> vs \<noteq> [] \<and> (list_all is_string vs \<or> list_all integer_value vs)"

definition bound_entry :: "string \<times> json \<Rightarrow> bool" where
  "bound_entry e \<longleftrightarrow> fst e \<in> set [''gt'', ''gte'', ''lt'', ''lte''] \<and> is_number (snd e)"

definition range_body :: "object \<Rightarrow> bool" where
  "range_body rng \<longleftrightarrow> rng \<noteq> [] \<and> distinct (map fst rng) \<and> list_all bound_entry rng"

definition bound_holds :: "string \<Rightarrow> rat \<Rightarrow> rat \<Rightarrow> bool" where
  "bound_holds op bound x = (if op = ''gt'' then bound < x else if op = ''gte'' then bound \<le> x
     else if op = ''lt'' then x < bound else x \<le> bound)"

definition in_range :: "object \<Rightarrow> json \<Rightarrow> bool" where
  "in_range rng v \<longleftrightarrow> is_some_and (as_f64 v) (\<lambda>x. list_all (\<lambda>(op, b). is_some_and (as_f64 b) (\<lambda>bound. bound_holds op bound x)) rng)"

definition boolean_laws :: "(json \<Rightarrow> json \<Rightarrow> bool) \<Rightarrow> bool" where
  "boolean_laws holds \<longleftrightarrow>
     (\<forall>cs d. holds (jobj [(''must'', JArr cs)]) d \<longleftrightarrow> (\<forall>c\<in>set cs. holds c d))
   \<and> (\<forall>ns d. holds (jobj [(''must_not'', JArr ns)]) d \<longleftrightarrow> (\<forall>c\<in>set ns. \<not> holds c d))
   \<and> (\<forall>cs ns d. holds (jobj [(''must'', JArr cs), (''must_not'', JArr ns)]) d
        \<longleftrightarrow> (\<forall>c\<in>set cs. holds c d) \<and> (\<forall>c\<in>set ns. \<not> holds c d))
   \<and> (\<forall>cs n d. n < 2 ^ 64 \<longrightarrow> (holds (min_should_condition cs n) d
        \<longleftrightarrow> n \<le> length (filter (\<lambda>c. holds c d) cs)))"

text \<open>A field condition holds when at least one of the stored values satisfies it; \<open>is_empty\<close> when the
  key is missing, null or an empty array.\<close>

definition field_laws :: "(json \<Rightarrow> json \<Rightarrow> bool) \<Rightarrow> bool" where
  "field_laws holds \<longleftrightarrow> (\<forall>f d. plain_key f \<and> plain_at f d \<longrightarrow>
     (holds (jobj [(''is_empty'', jobj [(''key'', JStr f)])]) d
        \<longleftrightarrow> nested_value (key_path f) d \<in> {None, Some JNull, Some (JArr [])})
   \<and> (\<forall>v. match_value v \<longrightarrow> (holds (jobj [(''key'', JStr f), (''match'', jobj [(''value'', v)])]) d
        \<longleftrightarrow> v \<in> set (stored_values f d)))
   \<and> (\<forall>vs. any_values vs \<longrightarrow> (holds (jobj [(''key'', JStr f), (''match'', jobj [(''any'', JArr vs)])]) d
        \<longleftrightarrow> set vs \<inter> set (stored_values f d) \<noteq> {}))
   \<and> (\<forall>rng. range_body rng \<longrightarrow> (holds (jobj [(''key'', JStr f), (''range'', JObj rng)]) d
        \<longleftrightarrow> list_ex (in_range rng) (stored_values f d))))"

definition qdrant_laws :: "(json \<Rightarrow> json \<Rightarrow> bool) \<Rightarrow> bool" where
  "qdrant_laws holds \<longleftrightarrow> boolean_laws holds \<and> field_laws holds"

section \<open>The clauses they cover\<close>

text \<open>Range bodies with distinct options, at least one bound, and without the Java-style \<open>from\<close> and
  \<open>to\<close>, which the gateway translates but does not evaluate.\<close>

definition plain_range :: "object \<Rightarrow> bool" where
  "plain_range options \<longleftrightarrow> distinct (keys options) \<and> ''from'' \<notin> set (keys options) \<and> ''to'' \<notin> set (keys options)
     \<and> list_ex (\<lambda>op. op \<in> set (keys options)) [''gt'', ''gte'', ''lt'', ''lte'']"

definition plain_leaf :: "string \<Rightarrow> json \<Rightarrow> bool" where
  "plain_leaf kind v =
     (if kind = ''term'' then is_some_and (first_member v) (\<lambda>(_, x). match_value (term_value x))
      else if kind = ''terms'' then is_some_and (first_member v) (\<lambda>(_, x). is_some_and (as_array x) any_values)
      else if kind = ''range'' then is_some_and (first_member v) (\<lambda>(_, x). is_some_and (as_object x) plain_range)
      else True)"

definition leaf_fields :: "string \<Rightarrow> json \<Rightarrow> string list" where
  "leaf_fields kind v =
     (if kind \<in> set [''term'', ''terms'', ''range'']
      then (case first_member v of None \<Rightarrow> [] | Some (f, _) \<Rightarrow> [compatibility_field f])
      else if kind = ''exists'' then (case get_str ''field'' v of None \<Rightarrow> [] | Some f \<Rightarrow> [compatibility_field f])
      else [])"

text \<open>Every leaf of a clause satisfies a predicate.\<close>

function every_leaf :: "(string \<Rightarrow> json \<Rightarrow> bool) \<Rightarrow> json \<Rightarrow> bool" where
  "every_leaf p q = (case q of
     JObj [(kind, v)] \<Rightarrow>
       if kind = ''bool'' then
         (case v of JObj b \<Rightarrow> list_all (\<lambda>key. list_all (every_leaf p) (bool_clauses b key))
             [''must'', ''filter'', ''must_not'', ''should'']
          | _ \<Rightarrow> True)
       else p kind v
   | _ \<Rightarrow> True)"
  by pat_completeness auto
termination
  by (relation "measure (\<lambda>(p, q). size q)") (auto dest!: bool_clauses_size)

declare every_leaf.simps [simp del]

text \<open>The clauses of \<open>q\<close> are plain, and so are their fields in a payload.\<close>

definition plain_query :: "json \<Rightarrow> bool" where
  "plain_query q \<longleftrightarrow> every_leaf (\<lambda>kind v. plain_leaf kind v \<and> list_all plain_key (leaf_fields kind v)) q"

definition plain_for :: "json \<Rightarrow> json \<Rightarrow> bool" where
  "plain_for q payload \<longleftrightarrow> every_leaf (\<lambda>kind v. list_all (\<lambda>f. plain_at f payload) (leaf_fields kind v)) q"

definition plain_case :: "json \<Rightarrow> string \<Rightarrow> json \<Rightarrow> bool" where
  "plain_case d kind v \<longleftrightarrow> plain_leaf kind v \<and> list_all (\<lambda>f. plain_key f \<and> plain_at f d) (leaf_fields kind v)"

lemma bindR_right_unit: "bindR r (\<lambda>x. Inr x) = r"
  by (cases r) auto

section \<open>Conditions under the laws\<close>

text \<open>What walking a clause adds, and that it means the clause.\<close>

definition selects :: "(json \<Rightarrow> json \<Rightarrow> bool) \<Rightarrow> json list \<Rightarrow> json list \<Rightarrow> json \<Rightarrow> bool" where
  "selects holds must must_not d \<longleftrightarrow>
     (\<forall>c\<in>set must. holds c d) \<and> (\<forall>c\<in>set must_not. \<not> holds c d)"

definition walks_to :: "(json \<Rightarrow> json \<Rightarrow> bool) \<Rightarrow> json \<Rightarrow> json list \<Rightarrow> (walk_state \<Rightarrow> walk_state outcome) \<Rightarrow> bool" where
  "walks_to holds d cs step \<longleftrightarrow> (\<exists>m' n'.
     (\<forall>m n t. step (m, n, t) = Inr (m @ m', n @ n', t))
   \<and> (selects holds m' n' d \<longleftrightarrow> (\<forall>c\<in>set cs. source_matches_query d c)))"

lemma selects_append [simp]:
  "selects holds (m @ m') (n @ n') d \<longleftrightarrow> selects holds m n d \<and> selects holds m' n' d"
  by (auto simp: selects_def)

lemma holds_condition:
  assumes "qdrant_laws holds"
  shows "holds (condition cm cn) d \<longleftrightarrow> selects holds cm cn d"
proof -
  note laws = assms [unfolded qdrant_laws_def boolean_laws_def]
  show ?thesis
  proof (cases cn)
    case Nil
    then show ?thesis
      using laws by (auto simp: condition_def selects_def split: list.splits)
  next
    case (Cons x xs)
    then show ?thesis
      using laws by (auto simp: condition_def selects_def jobj_def [symmetric])
  qed
qed

lemma walks_to_fold:
  assumes "\<And>c. c \<in> set cs \<Longrightarrow> walks_to holds d [c] (walk c)"
  shows "walks_to holds d cs (foldR (\<lambda>c st. walk c st) cs)"
  using assms
proof (induction cs)
  case Nil
  then show ?case by (auto simp: walks_to_def selects_def intro!: exI [of _ "[]"])
next
  case (Cons c cs)
  from Cons.prems [of c] obtain m1 n1 where
    1: "\<And>m n t. walk c (m, n, t) = Inr (m @ m1, n @ n1, t)"
      "selects holds m1 n1 d \<longleftrightarrow> source_matches_query d c"
    by (auto simp: walks_to_def)
  from Cons.IH Cons.prems obtain m2 n2 where
    2: "\<And>m n t. foldR (\<lambda>c st. walk c st) cs (m, n, t) = Inr (m @ m2, n @ n2, t)"
      "selects holds m2 n2 d \<longleftrightarrow> (\<forall>c\<in>set cs. source_matches_query d c)"
    by (auto simp: walks_to_def)
  show ?case
    unfolding walks_to_def using 1 2
    by (intro exI [of _ "m1 @ m2"] exI [of _ "n1 @ n2"]) auto
qed

text \<open>A clause walked on its own becomes one condition with the clause's meaning.\<close>

lemma walk_alone:
  assumes laws: "qdrant_laws holds" and w: "walks_to holds d [c] (walk c)"
  obtains cond where "bindR (walk c ([], [], [])) (closed_condition f msg) = Inr cond"
    "holds cond d \<longleftrightarrow> source_matches_query d c"
proof -
  from w obtain m n where "walk c ([], [], []) = Inr (m, n, [])"
    "selects holds m n d \<longleftrightarrow> source_matches_query d c"
    unfolding walks_to_def by (metis append_Nil list.set_intros(1) empty_iff list.set(1) set_ConsD)
  then show thesis
    using that [of "condition m n"] by (simp add: holds_condition [OF laws])
qed

lemma walk_must_not:
  assumes laws: "qdrant_laws holds"
    and "\<And>c. c \<in> set cs \<Longrightarrow> walks_to holds d [c] (walk c)"
  shows "\<exists>n'. (\<forall>m n t. foldR (\<lambda>c st. bindR (bindR (walk c ([], [], [])) must_not_text)
              (\<lambda>cond. Inr (push_must_not cond st))) cs (m, n, t) = Inr (m, n @ n', t))
     \<and> (selects holds [] n' d \<longleftrightarrow> (\<forall>c\<in>set cs. \<not> source_matches_query d c))"
  using assms(2)
proof (induction cs)
  case Nil
  then show ?case by (auto simp: selects_def intro!: exI [of _ "[]"])
next
  case (Cons c cs)
  from walk_alone [OF laws Cons.prems [of c]] obtain cond where
    c: "bindR (walk c ([], [], [])) must_not_text = Inr cond"
       "holds cond d \<longleftrightarrow> source_matches_query d c"
    unfolding must_not_text_def by (metis list.set_intros(1))
  from Cons obtain n' where
    n': "\<And>m n t. foldR (\<lambda>c st. bindR (bindR (walk c ([], [], [])) must_not_text)
              (\<lambda>cond. Inr (push_must_not cond st))) cs (m, n, t) = Inr (m, n @ n', t)"
        "selects holds [] n' d \<longleftrightarrow> (\<forall>c\<in>set cs. \<not> source_matches_query d c)"
    by auto
  show ?case
    using c n' by (intro exI [of _ "cond # n'"]) (auto simp: selects_def)
qed

lemma walk_should:
  assumes laws: "qdrant_laws holds"
    and "\<And>c. c \<in> set cs \<Longrightarrow> walks_to holds d [c] (walk c)"
  shows "\<exists>should. traverseR (\<lambda>c. bindR (walk c ([], [], [])) should_text) cs = Inr should
     \<and> (length (filter (\<lambda>c. holds c d) should) = length (filter (source_matches_query d) cs))"
  using assms(2)
proof (induction cs)
  case (Cons c cs)
  from walk_alone [OF laws Cons.prems [of c]] obtain cond where
    c: "bindR (walk c ([], [], [])) should_text = Inr cond"
       "holds cond d \<longleftrightarrow> source_matches_query d c"
    unfolding should_text_def by (metis list.set_intros(1))
  from Cons obtain should where
    s: "traverseR (\<lambda>c. bindR (walk c ([], [], [])) should_text) cs = Inr should"
       "length (filter (\<lambda>c. holds c d) should) = length (filter (source_matches_query d) cs)"
    by auto
  show ?case
    using c s by (intro exI [of _ "cond # should"]) simp
qed simp


section \<open>The two readings of a payload\<close>

lemma nested_pointer: "nested_value ks v = pointer ks v"
proof (induction ks arbitrary: v)
  case (Cons k ks)
  then show ?case by (cases v) (simp_all add: get_def obj_get_map_of split: option.split)
qed simp

lemma source_field_nested: "source_field d f = nested_value (key_path f) d"
  by (simp add: source_field_def nested_pointer)

lemma plain_along_end: "plain_along ks v \<Longrightarrow> nested_value ks v = Some (JArr vs) \<Longrightarrow> list_all scalar_value vs"
proof (induction ks arbitrary: v)
  case (Cons k ks)
  then show ?case by (cases v) (auto split: option.splits)
qed simp

lemma scalar_matches: "scalar_value v \<Longrightarrow> source_value_matches v p = p v"
  by (cases v) (simp_all add: scalar_value_def)

lemma matches_stored:
  assumes "plain_at f d"
  shows "is_some_and (source_field d f) (\<lambda>a. source_value_matches a p) \<longleftrightarrow> list_ex p (stored_values f d)"
proof (cases "nested_value (key_path f) d")
  case (Some v)
  show ?thesis
  proof (cases "is_array v")
    case True
    then obtain vs where v: "v = JArr vs" by (cases v) simp_all
    then have "list_all scalar_value vs" using plain_along_end assms Some by (simp add: plain_at_def)
    then have "list_ex (\<lambda>x. source_value_matches x p) vs = list_ex p vs"
      by (induction vs) (simp_all add: scalar_matches)
    then show ?thesis by (simp add: source_field_nested stored_values_def Some v)
  next
    case False
    then show ?thesis by (cases v) (simp_all add: source_field_nested stored_values_def Some)
  qed
qed (simp add: source_field_nested stored_values_def)

lemma exists_stored:
  assumes "plain_at f d"
  shows "source_value_exists d f \<longleftrightarrow> nested_value (key_path f) d \<notin> {None, Some JNull, Some (JArr [])}"
proof (cases "nested_value (key_path f) d")
  case (Some v)
  have "list_ex (\<lambda>x. \<not> is_null x) vs \<longleftrightarrow> vs \<noteq> []" if "v = JArr vs" for vs
  proof -
    have "list_all scalar_value vs" using plain_along_end assms Some that by (simp add: plain_at_def)
    then show ?thesis by (cases vs) (auto simp: scalar_value_def)
  qed
  then show ?thesis by (cases v) (simp_all add: source_value_exists_def source_field_nested Some)
qed (simp add: source_value_exists_def source_field_nested)

section \<open>Leaves\<close>

lemma single_get [simp]: "obj_get k [(k', v)] = (if k' = k then Some v else None)"
  by simp

lemma first_member_single: "single_filter_field v f = Inr (field, x) \<Longrightarrow> v = JObj [(field, x)]"
  by (auto simp: single_filter_field_def split: json.splits list.splits if_splits)

lemma walks_to_condition:
  assumes "\<And>m n t. step (m, n, t) = Inr (m @ [cond], n, t)"
    and "holds cond d \<longleftrightarrow> source_matches_query d q"
  shows "walks_to holds d [q] step"
  using assms unfolding walks_to_def selects_def
  by (intro exI [of _ "[cond]"] exI [of _ "[]"]) auto

lemma matches_singletons:
  "source_matches_query d (JObj [(''match_all'', v)])"
  "source_matches_query d (JObj [(''term'', JObj ob)]) = matches_term d ob"
  "source_matches_query d (JObj [(''terms'', JObj ob)]) = matches_terms d ob"
  "source_matches_query d (JObj [(''range'', JObj ob)]) = matches_range d ob"
  "source_matches_query d (JObj [(''exists'', JObj ob)]) =
     is_some_and (Option.bind (obj_get ''field'' ob) as_str)
       (\<lambda>field. source_value_exists d (compatibility_field field))"
  "source_matches_query d (JObj [(''bool'', JObj bq)]) =
     (list_all (source_matches_query d) (bool_clauses bq ''must'' @ bool_clauses bq ''filter'')
      \<and> list_all (\<lambda>c. \<not> source_matches_query d c) (bool_clauses bq ''must_not'')
      \<and> minimum_should_match bq (length (bool_clauses bq ''should'')) (has_required_clause bq)
        \<le> length (filter (source_matches_query d) (bool_clauses bq ''should'')))"
  by (subst source_matches_query.simps, simp add: contains_key_def)+

text \<open>The translated range agrees with the original on the four operators evaluation reads.\<close>

lemma range_operators_plain:
  "range_operator options k = Inr r \<Longrightarrow> k \<noteq> ''from'' \<Longrightarrow> k \<noteq> ''to'' \<Longrightarrow>
   r = (if k \<in> {''gt'', ''gte'', ''lt'', ''lte''} then Some k else None)"
  by (auto simp: range_operator_def split: if_splits)

lemma translate_range_get:
  assumes "foldR (\<lambda>(k, x) rng. map_ok (\<lambda>op. case op of None \<Rightarrow> rng | Some name \<Rightarrow> obj_insert name x rng)
              (range_operator options k)) opts rng0 = Inr rng"
    and "distinct (keys opts)" "''from'' \<notin> set (keys opts)" "''to'' \<notin> set (keys opts)"
    and "op \<in> {''gt'', ''gte'', ''lt'', ''lte''}"
  shows "obj_get op rng = or_else (obj_get op opts) (obj_get op rng0)"
  using assms
proof (induction opts arbitrary: rng0)
  case Nil
  then show ?case by simp
next
  case (Cons kv opts)
  obtain k x where kv: "kv = (k, x)" by (cases kv)
  from Cons.prems(1) obtain r where r: "range_operator options k = Inr r"
    and rest: "foldR (\<lambda>(k, x) rng. map_ok (\<lambda>op. case op of None \<Rightarrow> rng | Some name \<Rightarrow> obj_insert name x rng)
              (range_operator options k)) opts
              (case r of None \<Rightarrow> rng0 | Some name \<Rightarrow> obj_insert name x rng0) = Inr rng"
    by (auto simp: kv)
  have rv: "r = (if k \<in> {''gt'', ''gte'', ''lt'', ''lte''} then Some k else None)"
    using Cons.prems r by (intro range_operators_plain) (auto simp: kv keys_def)
  have ih: "obj_get op rng = or_else (obj_get op opts)
      (obj_get op (case r of None \<Rightarrow> rng0 | Some name \<Rightarrow> obj_insert name x rng0))"
    using Cons.IH [OF rest] Cons.prems by (auto simp: keys_def)
  have "k \<notin> fst ` set opts" using Cons.prems(2) by (simp add: kv keys_def)
  then have "obj_get k opts = None" by (simp add: obj_get_None_iff)
  then show ?case
    using ih rv Cons.prems(5) by (auto simp: kv obj_get_insert or_else_def split: option.splits if_splits)
qed

lemma translate_range_ok:
  assumes "eachR (\<lambda>(operator, v). validate_range_option feature operator v) options = Inr ()"
  shows "\<exists>rng. translate_range options = Inr rng"
proof -
  have op: "\<exists>r. range_operator all k = Inr r" if "(k, v) \<in> set options" for k v all
  proof -
    have "validate_range_option feature k v = Inr ()" using assms that by auto
    then show ?thesis
      by (auto simp: validate_range_option_def range_operator_def Let_def split: if_splits)
  qed
  have "\<exists>rng. foldR (\<lambda>(k, x) rng. map_ok (\<lambda>op. case op of None \<Rightarrow> rng | Some name \<Rightarrow> obj_insert name x rng)
      (range_operator all k)) opts rng0 = Inr rng" if "set opts \<subseteq> set options" for opts rng0 all
    using that
  proof (induction opts arbitrary: rng0)
    case (Cons kv opts)
    then obtain r where "range_operator all (fst kv) = Inr r"
      using op [of "fst kv" "snd kv" all] by (cases kv) auto
    with Cons show ?case by (cases kv) auto
  qed simp
  then show ?thesis unfolding translate_range_def by blast
qed

lemma in_bounds_cong:
  assumes "\<And>op. op \<in> {''gt'', ''gte'', ''lt'', ''lte''} \<Longrightarrow> obj_get op a = obj_get op b"
  shows "in_bounds a = in_bounds b"
  using assms by (auto simp: in_bounds_def fun_eq_iff)

text \<open>The translated range is one Qdrant documents, and bounds as the evaluator does.\<close>

lemma set_obj_insert: "set (obj_insert k v ms) \<subseteq> insert (k, v) (set ms)"
  by (induction k v ms rule: obj_insert.induct) auto

lemma bound_entry_insert:
  assumes "list_all bound_entry rng" and "bound_entry (k, x)"
  shows "list_all bound_entry (obj_insert k x rng)"
  using assms set_obj_insert [of k x rng] unfolding list_all_iff by blast

lemma operator_entry:
  assumes "range_operator options k = Inr r" and "validate_range_option feature k x = Inr ()"
    and "k \<noteq> ''from''" "k \<noteq> ''to''"
  shows "r = None \<or> (r = Some k \<and> bound_entry (k, x))"
proof (cases "k \<in> {''gt'', ''gte'', ''lt'', ''lte''}")
  case True
  then have "is_number x"
    using assms(2) by (elim insertE emptyE) (simp_all add: validate_range_option_def Let_def split: if_splits)
  with True show ?thesis
    using range_operators_plain [OF assms(1,3,4)] by (simp add: bound_entry_def)
qed (use range_operators_plain [OF assms(1,3,4)] in simp)

lemma translate_range_body:
  assumes "foldR (\<lambda>(k, x) rng. map_ok (\<lambda>op. case op of None \<Rightarrow> rng | Some name \<Rightarrow> obj_insert name x rng)
              (range_operator options k)) opts rng0 = Inr rng"
    and "eachR (\<lambda>(operator, v). validate_range_option feature operator v) opts = Inr ()"
    and "''from'' \<notin> set (keys opts)" "''to'' \<notin> set (keys opts)"
    and "obj_ok rng0" "list_all bound_entry rng0"
  shows "obj_ok rng \<and> list_all bound_entry rng"
  using assms
proof (induction opts arbitrary: rng0)
  case (Cons kv opts)
  obtain k x where kv: "kv = (k, x)" by (cases kv)
  define rng1 where "rng1 r = (case r of None \<Rightarrow> rng0 | Some name \<Rightarrow> obj_insert name x rng0)" for r
  from Cons.prems(1) obtain r where r: "range_operator options k = Inr r"
    and rest: "foldR (\<lambda>(k, x) rng. map_ok (\<lambda>op. case op of None \<Rightarrow> rng | Some name \<Rightarrow> obj_insert name x rng)
              (range_operator options k)) opts (rng1 r) = Inr rng"
    by (auto simp: kv rng1_def)
  have k: "k \<noteq> ''from''" "k \<noteq> ''to''" "''from'' \<notin> set (keys opts)" "''to'' \<notin> set (keys opts)"
    using Cons.prems(3,4) by (auto simp: kv keys_def)
  have v: "validate_range_option feature k x = Inr ()"
    "eachR (\<lambda>(operator, v). validate_range_option feature operator v) opts = Inr ()"
    using Cons.prems(2) by (simp_all add: kv)
  from operator_entry [OF r v(1) k(1,2)] have "obj_ok (rng1 r) \<and> list_all bound_entry (rng1 r)"
    using Cons.prems(5,6) bound_entry_insert by (auto simp: rng1_def)
  then show ?case using Cons.IH [OF rest v(2) k(3,4)] by blast
qed simp

lemma in_bounds_ops:
  "in_bounds rng x \<longleftrightarrow> (\<forall>op\<in>{''gt'', ''gte'', ''lt'', ''lte''}.
     is_none_or (Option.bind (obj_get op rng) as_f64) (\<lambda>q. bound_holds op q x))"
  by (simp add: in_bounds_def bound_holds_def)

lemma in_bounds_body:
  assumes "range_body rng"
  shows "is_some_and (as_f64 v) (in_bounds rng) \<longleftrightarrow> in_range rng v"
proof (cases "as_f64 v")
  case (Some x)
  define ok where "ok op b = is_some_and (as_f64 b) (\<lambda>q. bound_holds op q x)" for op b
  have dist: "distinct (map fst rng)" using assms by (simp add: range_body_def)
  have entry: "e \<in> set rng \<Longrightarrow> bound_entry e" for e
    using assms by (simp add: range_body_def list_all_iff)
  have num: "\<exists>q. as_f64 b = Some q" if "(op, b) \<in> set rng" for op b
    using entry [OF that] by (cases b) (simp_all add: bound_entry_def)
  have get: "obj_get op rng = Some b \<longleftrightarrow> (op, b) \<in> set rng" for op b
    using dist by (simp add: obj_get_map_of)
  have one: "is_none_or (Option.bind (obj_get op rng) as_f64) (\<lambda>q. bound_holds op q x) \<longleftrightarrow>
      (\<forall>b. (op, b) \<in> set rng \<longrightarrow> ok op b)" for op
  proof (cases "obj_get op rng")
    case None
    then show ?thesis using get [of op] by simp
  next
    case b: (Some b)
    then have "(op, b') \<in> set rng \<longleftrightarrow> b' = b" for b' using get [of op b'] by auto
    moreover obtain q where "as_f64 b = Some q" using num get b by blast
    ultimately show ?thesis by (simp add: b ok_def)
  qed
  have "in_bounds rng x \<longleftrightarrow> (\<forall>op\<in>{''gt'', ''gte'', ''lt'', ''lte''}. \<forall>b. (op, b) \<in> set rng \<longrightarrow> ok op b)"
    unfolding in_bounds_ops one ..
  also have "\<dots> \<longleftrightarrow> (\<forall>e\<in>set rng. ok (fst e) (snd e))"
  proof (intro iffI ballI allI impI)
    fix e assume all: "\<forall>op\<in>{''gt'', ''gte'', ''lt'', ''lte''}. \<forall>b. (op, b) \<in> set rng \<longrightarrow> ok op b"
      and e: "e \<in> set rng"
    have "fst e \<in> {''gt'', ''gte'', ''lt'', ''lte''}"
      using entry [OF e] by (simp only: bound_entry_def list.set)
    moreover have "(fst e, snd e) \<in> set rng" using e by simp
    ultimately show "ok (fst e) (snd e)" using all by blast
  qed force
  also have "\<dots> \<longleftrightarrow> in_range rng v" by (simp add: in_range_def Some ok_def list_all_iff split_beta)
  finally show ?thesis by (simp add: Some)
qed (simp add: in_range_def)

lemma walks_to_range:
  assumes laws: "qdrant_laws holds"
    and v: "validate_range v feature = Inr ()" and plain: "plain_case d ''range'' v"
  shows "walks_to holds d [JObj [(''range'', v)]] (walk_leaf ''range'' v)"
proof -
  from v obtain field bounds where s: "single_filter_field v (feature @ ''.range'') = Inr (field, bounds)"
    by (auto simp: validate_range_def)
  with v obtain options where o: "bounds = JObj options"
    "eachR (\<lambda>(operator, v). validate_range_option feature operator v) options = Inr ()"
    by (auto simp: validate_range_def split: json.splits)
  have vv: "v = JObj [(field, JObj options)]"
    using first_member_single [OF s] o by simp
  have p: "plain_range options" "plain_key (compatibility_field field)" "plain_at (compatibility_field field) d"
    using plain by (simp_all add: plain_case_def plain_leaf_def leaf_fields_def vv first_member_def)
  from translate_range_ok [OF o(2)] obtain rng where rng: "translate_range options = Inr rng" by blast
  have get: "obj_get op rng = obj_get op options" if "op \<in> {''gt'', ''gte'', ''lt'', ''lte''}" for op
    using translate_range_get [OF rng [unfolded translate_range_def] _ _ _ that] p(1)
    by (auto simp: plain_range_def or_else_def split: option.splits)
  then have bounds: "in_bounds rng = in_bounds options" by (rule in_bounds_cong)
  have body: "obj_ok rng" "list_all bound_entry rng"
    using translate_range_body [OF rng [unfolded translate_range_def] o(2)] p(1) by (simp_all add: plain_range_def)
  obtain op where op: "op \<in> {''gt'', ''gte'', ''lt'', ''lte''}" "op \<in> set (keys options)"
    using p(1) by (auto simp: plain_range_def)
  then have "obj_get op options \<noteq> None" by (simp add: obj_get_None_iff keys_def)
  with get [OF op(1)] have "rng \<noteq> []" by auto
  then have rb: "range_body rng" using body obj_ok_distinct by (simp add: range_body_def)
  have "holds (range_condition field rng) d \<longleftrightarrow> list_ex (in_range rng) (stored_values (compatibility_field field) d)"
    using laws p(2,3) rb by (simp add: qdrant_laws_def field_laws_def range_condition_def)
  also have "\<dots> \<longleftrightarrow> source_matches_query d (JObj [(''range'', v)])"
    using matches_stored [OF p(3), of "\<lambda>x. is_some_and (as_f64 x) (in_bounds options)"] in_bounds_body [OF rb]
    by (simp add: vv matches_singletons matches_range_def first_member_def bounds)
  finally show ?thesis
    by (intro walks_to_condition [of _ "range_condition field rng"])
       (auto simp: walk_leaf_def vv first_member_def rng)
qed

lemma walks_to_term:
  assumes laws: "qdrant_laws holds" and v: "validate_term v feature = Inr ()" and plain: "plain_case d ''term'' v"
  shows "walks_to holds d [JObj [(''term'', v)]] (walk_leaf ''term'' v)"
proof -
  from v obtain field x where s: "single_filter_field v (feature @ ''.term'') = Inr (field, x)"
    by (auto simp: validate_term_def)
  note vv = first_member_single [OF s]
  have p: "match_value (term_value x)" "plain_key (compatibility_field field)" "plain_at (compatibility_field field) d"
    using plain by (simp_all add: plain_case_def plain_leaf_def leaf_fields_def vv first_member_def)
  have "holds (term_condition field x) d \<longleftrightarrow> source_matches_query d (JObj [(''term'', v)])"
    using laws p matches_stored [OF p(3), of "\<lambda>a. a = term_value x"]
    by (simp add: qdrant_laws_def field_laws_def term_condition_def vv matches_singletons
        matches_term_def first_member_def list_ex_iff)
  then show ?thesis
    by (intro walks_to_condition [of _ "term_condition field x"])
       (auto simp: walk_leaf_def vv first_member_def)
qed

lemma walks_to_terms:
  assumes laws: "qdrant_laws holds" and v: "validate_terms v feature = Inr ()" and plain: "plain_case d ''terms'' v"
  shows "walks_to holds d [JObj [(''terms'', v)]] (walk_leaf ''terms'' v)"
proof -
  from v obtain field vs where s: "single_filter_field v (feature @ ''.terms'') = Inr (field, JArr vs)"
    by (auto simp: validate_terms_def split: if_splits)
  note vv = first_member_single [OF s]
  have p: "any_values vs" "plain_key (compatibility_field field)" "plain_at (compatibility_field field) d"
    using plain by (simp_all add: plain_case_def plain_leaf_def leaf_fields_def vv first_member_def)
  have "set vs \<inter> A \<noteq> {} \<longleftrightarrow> (\<exists>x\<in>A. x \<in> set vs)" for A by blast
  then have "holds (any_condition (compatibility_field field) vs) d \<longleftrightarrow>
      source_matches_query d (JObj [(''terms'', v)])"
    using laws p matches_stored [OF p(3), of "\<lambda>a. a \<in> set vs"]
    by (simp add: qdrant_laws_def field_laws_def any_condition_def vv matches_singletons
        matches_terms_def first_member_def list_ex_iff)
  then show ?thesis
    by (intro walks_to_condition [of _ "any_condition (compatibility_field field) vs"])
       (auto simp: walk_leaf_def vv first_member_def)
qed

lemma walks_to_exists:
  assumes laws: "qdrant_laws holds" and v: "validate_exists v feature = Inr ()" and plain: "plain_case d ''exists'' v"
  shows "walks_to holds d [JObj [(''exists'', v)]] (walk_leaf ''exists'' v)"
proof -
  from v obtain options f where o: "v = JObj options" "obj_get ''field'' options = Some (JStr f)"
    by (auto simp: validate_exists_def is_none_or_def bind_eq_Some_conv bind_eq_None_conv
        split: json.splits option.splits if_splits)
  have p: "plain_key (compatibility_field f)" "plain_at (compatibility_field f) d"
    using plain by (simp_all add: plain_case_def leaf_fields_def o get_str_def)
  let ?empty = "jobj [(''is_empty'', jobj [(''key'', JStr (compatibility_field f))])]"
  have "holds (exists_condition f) d \<longleftrightarrow> \<not> holds ?empty d"
    using laws by (simp add: qdrant_laws_def boolean_laws_def exists_condition_def)
  also have "\<dots> \<longleftrightarrow> source_value_exists d (compatibility_field f)"
    using laws p exists_stored [OF p(2)] by (simp add: qdrant_laws_def field_laws_def)
  finally have "holds (exists_condition f) d \<longleftrightarrow> source_matches_query d (JObj [(''exists'', v)])"
    by (simp add: o matches_singletons)
  then show ?thesis
    by (intro walks_to_condition [of _ "exists_condition f"])
       (auto simp: walk_leaf_def o get_str_def)
qed


section \<open>Boolean clauses and the translation theorem\<close>

definition clause_key :: "string \<Rightarrow> bool" where
  "clause_key key \<longleftrightarrow> key \<in> set [''must'', ''filter'', ''must_not'', ''should'']"

lemma clause_keys [simp]:
  "clause_key ''must''" "clause_key ''filter''" "clause_key ''must_not''" "clause_key ''should''"
  by (simp_all add: clause_key_def)


lemma validate_bool_members:
  assumes "validate_filter (JObj [(''bool'', JObj b)]) feature = Inr ()"
    and "(key, clauses) \<in> set b" and "clause_key key"
  shows "(case clauses of
        JArr cs \<Rightarrow> eachR (\<lambda>c. validate_filter c (feature @ ''.bool.'' @ key)) cs
      | _ \<Rightarrow> validate_filter clauses (feature @ ''.bool.'' @ key)) = Inr ()"
proof -
  define body where "body = (\<lambda>(key, clauses).
     if key \<in> set [''must'', ''filter'', ''must_not'', ''should''] then
       (case clauses of
          JArr cs \<Rightarrow> eachR (\<lambda>c. validate_filter c (feature @ ''.bool.'' @ key)) cs
        | _ \<Rightarrow> validate_filter clauses (feature @ ''.bool.'' @ key))
     else if key = ''minimum_should_match'' then
       (if supported_minimum clauses then Inr ()
        else bad (feature @ ''.bool.minimum_should_match'')
          ''minimum_should_match must be a non-negative integer or percentage from 0% to 100%'')
     else bad (feature @ ''.bool.'' @ key) ''unsupported bool filter option'')"
  have "validate_filter (JObj [(''bool'', JObj b)]) feature = eachR body b"
    unfolding body_def by (simp add: validate_filter.simps(1))
  with assms(1,2) have "body (key, clauses) = Inr ()" by auto
  with assms(3) show ?thesis unfolding body_def clause_key_def by (simp only: prod.case if_True)
qed

lemma validate_bool_clause:
  assumes v: "validate_filter (JObj [(''bool'', JObj b)]) feature = Inr ()"
    and key: "clause_key key"
    and c: "c \<in> set (bool_clauses b key)"
  shows "validate_filter c (feature @ ''.bool.'' @ key) = Inr ()"
proof -
  from c obtain x where x: "obj_get key b = Some x"
    by (cases "obj_get key b") (auto simp: bool_clauses_def)
  then have "(key, x) \<in> set b" by (rule obj_get_Some_mem)
  then have "(case x of
        JArr cs \<Rightarrow> eachR (\<lambda>c. validate_filter c (feature @ ''.bool.'' @ key)) cs
      | _ \<Rightarrow> validate_filter x (feature @ ''.bool.'' @ key)) = Inr ()"
    using validate_bool_members [OF v _ key] by blast
  with c x show ?thesis by (auto simp: bool_clauses_def split: json.splits)
qed

lemma unat64_bound: "unat (w :: 64 word) < 2 ^ 64"
  using unsigned_less [of w] by simp

lemma holds_min_should:
  "qdrant_laws holds \<Longrightarrow> n < 2 ^ 64 \<Longrightarrow>
   holds (min_should_condition cs n) d \<longleftrightarrow> n \<le> length (filter (\<lambda>c. holds c d) cs)"
  by (simp add: qdrant_laws_def boolean_laws_def)

lemma holds_must_not_one:
  "qdrant_laws holds \<Longrightarrow> holds (jobj [(''must_not'', JArr [x])]) d \<longleftrightarrow> \<not> holds x d"
  by (simp add: qdrant_laws_def boolean_laws_def)

lemma unat_minimum_bound: "minimum_should_match b len req < 2 ^ 64"
  by (simp only: minimum_should_match_def Let_def) (simp add: unat64_bound [simplified])

lemma bindR_foldR_Nil [simp]: "bindR r (foldR f []) = r"
  by (cases r) auto

lemma walk_single:
  "kind \<noteq> ''dis_max'' \<Longrightarrow> kind \<noteq> ''bool'' \<Longrightarrow> walk (JObj [(kind, v)]) = walk_leaf kind v"
  by (rule ext) (subst walk.simps, simp)

lemma walk_dis_max:
  "walk (JObj [(''dis_max'', v)]) st =
     bindR (ok_or (Bad ''dis_max'' ''queries must be an array'') (get_array ''queries'' v))
       (\<lambda>clauses. foldR (\<lambda>c st. walk c st) clauses st)"
  by (subst walk.simps) simp

lemma walk_bool:
  "walk (JObj [(''bool'', JObj b)]) st =
     bindR (foldR (\<lambda>c st. walk c st) (bool_clauses b ''must'') st) (\<lambda>st.
     bindR (foldR (\<lambda>c st. walk c st) (bool_clauses b ''filter'') st) (\<lambda>st.
     bindR (foldR (\<lambda>c st. bindR (bindR (walk c ([], [], [])) must_not_text)
                     (\<lambda>cond. Inr (push_must_not cond st))) (bool_clauses b ''must_not'') st) (\<lambda>st.
     if bool_clauses b ''should'' = [] then Inr st
     else
       bindR (traverseR (\<lambda>c. bindR (walk c ([], [], [])) should_text) (bool_clauses b ''should'')) (\<lambda>should.
       let minimum = minimum_should_match b (length (bool_clauses b ''should'')) (has_required_clause b)
       in Inr (if 0 < minimum then push_must (min_should_condition should minimum) st else st)))))"
  by (subst walk.simps) simp

lemma walks_to_bool:
  assumes laws: "qdrant_laws holds"
    and ih: "\<And>key c. clause_key key \<Longrightarrow>
               c \<in> set (bool_clauses b key) \<Longrightarrow> walks_to holds d [c] (walk c)"
  shows "walks_to holds d [JObj [(''bool'', JObj b)]] (walk (JObj [(''bool'', JObj b)]))"
proof -
  have "walks_to holds d (bool_clauses b ''must'') (foldR (\<lambda>c st. walk c st) (bool_clauses b ''must''))"
    by (rule walks_to_fold) (rule ih [OF clause_keys(1)])
  then obtain m1 n1 where
    1: "\<forall>m n t. foldR (\<lambda>c st. walk c st) (bool_clauses b ''must'') (m, n, t) = Inr (m @ m1, n @ n1, t)"
      "selects holds m1 n1 d \<longleftrightarrow> (\<forall>c\<in>set (bool_clauses b ''must''). source_matches_query d c)"
    unfolding walks_to_def by (elim exE conjE) (rule that)
  have "walks_to holds d (bool_clauses b ''filter'') (foldR (\<lambda>c st. walk c st) (bool_clauses b ''filter''))"
    by (rule walks_to_fold) (rule ih [OF clause_keys(2)])
  then obtain m2 n2 where
    2: "\<forall>m n t. foldR (\<lambda>c st. walk c st) (bool_clauses b ''filter'') (m, n, t) = Inr (m @ m2, n @ n2, t)"
      "selects holds m2 n2 d \<longleftrightarrow> (\<forall>c\<in>set (bool_clauses b ''filter''). source_matches_query d c)"
    unfolding walks_to_def by (elim exE conjE) (rule that)
  have "\<exists>n'. (\<forall>m n t. foldR (\<lambda>c st. bindR (bindR (walk c ([], [], [])) must_not_text)
              (\<lambda>cond. Inr (push_must_not cond st))) (bool_clauses b ''must_not'') (m, n, t) = Inr (m, n @ n', t))
     \<and> (selects holds [] n' d \<longleftrightarrow> (\<forall>c\<in>set (bool_clauses b ''must_not''). \<not> source_matches_query d c))"
    by (rule walk_must_not [OF laws]) (rule ih [OF clause_keys(3)])
  then obtain n3 where
    3: "\<forall>m n t. foldR (\<lambda>c st. bindR (bindR (walk c ([], [], [])) must_not_text)
              (\<lambda>cond. Inr (push_must_not cond st))) (bool_clauses b ''must_not'') (m, n, t) = Inr (m, n @ n3, t)"
      "selects holds [] n3 d \<longleftrightarrow> (\<forall>c\<in>set (bool_clauses b ''must_not''). \<not> source_matches_query d c)"
    by (elim exE conjE) (rule that)
  have "\<exists>should. traverseR (\<lambda>c. bindR (walk c ([], [], [])) should_text) (bool_clauses b ''should'') = Inr should
     \<and> (length (filter (\<lambda>c. holds c d) should) = length (filter (source_matches_query d) (bool_clauses b ''should'')))"
    by (rule walk_should [OF laws]) (rule ih [OF clause_keys(4)])
  then obtain should where
    4: "traverseR (\<lambda>c. bindR (walk c ([], [], [])) should_text) (bool_clauses b ''should'') = Inr should"
      "length (filter (\<lambda>c. holds c d) should) = length (filter (source_matches_query d) (bool_clauses b ''should''))"
    by (elim exE conjE) (rule that)
  define k where "k = minimum_should_match b (length (bool_clauses b ''should'')) (has_required_clause b)"
  define m4 where "m4 = (if 0 < k then [min_should_condition should k] else [])"
  have k0: "bool_clauses b ''should'' = [] \<Longrightarrow> k = 0"
    by (simp add: k_def minimum_should_match_def)
  have k64: "k < 2 ^ 64" unfolding k_def by (rule unat_minimum_bound)
  have m4: "selects holds m4 [] d \<longleftrightarrow> k \<le> length (filter (source_matches_query d) (bool_clauses b ''should''))"
    using holds_min_should [OF laws k64, of should d] 4(2)
    by (cases "0 < k") (simp_all add: m4_def selects_def)
  have w: "walk (JObj [(''bool'', JObj b)]) (m, n, t) =
      Inr (m @ (m1 @ m2 @ m4), n @ (n1 @ n2 @ n3), t)" for m n t
  proof (cases "bool_clauses b ''should'' = []")
    case True
    then have "m4 = []" using k0 by (simp add: m4_def)
    then show ?thesis
      by (simp only: walk_bool 1(1) [rule_format] 2(1) [rule_format] 3(1) [rule_format] True bindR.simps refl if_True append_assoc append_Nil2
          \<open>m4 = []\<close>)
  next
    case False
    then show ?thesis
      by (simp add: walk_bool 1(1) [rule_format] 2(1) [rule_format] 3(1) [rule_format] 4(1) Let_def m4_def flip: k_def)
  qed
  have "selects holds (m1 @ m2 @ m4) (n1 @ n2 @ n3) d \<longleftrightarrow>
      selects holds m1 n1 d \<and> selects holds m2 n2 d \<and> selects holds [] n3 d \<and> selects holds m4 [] d"
    by (auto simp: selects_def)
  also have "\<dots> \<longleftrightarrow> source_matches_query d (JObj [(''bool'', JObj b)])"
    unfolding 1(2) 2(2) 3(2) m4 matches_singletons list_all_append list_all_iff k_def set_append ball_Un conj_assoc ..
  finally show ?thesis
    unfolding walks_to_def using w
    by (intro exI [of _ "m1 @ m2 @ m4"] exI [of _ "n1 @ n2 @ n3"]) simp
qed

lemma validate_filter_kinds:
  "validate_filter (JObj [(''term'', v)]) f = validate_term v f"
  "validate_filter (JObj [(''terms'', v)]) f = validate_terms v f"
  "validate_filter (JObj [(''range'', v)]) f = validate_range v f"
  "validate_filter (JObj [(''exists'', v)]) f = validate_exists v f"
  by (simp_all only: validate_filter.simps(1)) simp_all

lemma validate_bool_object:
  assumes "validate_filter (JObj [(''bool'', v)]) f = Inr ()"
  shows "\<exists>b. v = JObj b"
proof (rule ccontr)
  assume "\<nexists>b. v = JObj b"
  then have "validate_filter (JObj [(''bool'', v)]) f = bad (f @ ''.bool'') ''bool filter must be an object''"
    by (cases v) (simp_all add: validate_filter.simps(1))
  with assms show False by simp
qed

lemma every_leaf_clause:
  assumes "every_leaf p (JObj [(''bool'', JObj b)])" and "clause_key key" and "c \<in> set (bool_clauses b key)"
  shows "every_leaf p c"
  using assms(1) [unfolded every_leaf.simps [of p "JObj _"]] assms(2,3)
  by (auto simp: clause_key_def list_all_iff)

lemma every_leaf_single: "kind \<noteq> ''bool'' \<Longrightarrow> every_leaf p (JObj [(kind, v)]) = p kind v"
  by (subst every_leaf.simps) simp

lemma validated_singleton:
  assumes "validate_filter q f = Inr ()"
  obtains kind v where "q = JObj [(kind, v)]"
    "kind \<in> {''match_all'', ''term'', ''terms'', ''range'', ''exists'', ''bool''}"
proof -
  have "\<exists>kind v. q = JObj [(kind, v)]"
  proof (rule ccontr)
    assume no: "\<nexists>kind v. q = JObj [(kind, v)]"
    show False
    proof (cases "(q, f)" rule: validate_filter.cases)
      case (1 kind v f')
      with no show False by blast
    qed (insert assms, simp_all only: prod.inject validate_filter.simps(2-8) bad_iff)
  qed
  then obtain kind v where q: "q = JObj [(kind, v)]" by blast
  have "kind \<in> {''match_all'', ''term'', ''terms'', ''range'', ''exists'', ''bool''}"
  proof (rule ccontr)
    assume "\<not> ?thesis"
    then have "kind \<noteq> ''match_all''" "kind \<noteq> ''term''" "kind \<noteq> ''terms''" "kind \<noteq> ''range''"
      "kind \<noteq> ''exists''" "kind \<noteq> ''bool''"
      by simp_all
    then have "validate_filter q f = bad (f @ ''.'' @ kind) (kind @ '' is not supported in post_filter'')"
      unfolding q validate_filter.simps by (simp only: if_False)
    with assms show False by simp
  qed
  with q show thesis by (rule that)
qed

lemma validated_walks_to:
  assumes laws: "qdrant_laws holds"
  shows "validate_filter q feature = Inr () \<Longrightarrow> every_leaf (plain_case d) q \<Longrightarrow> walks_to holds d [q] (walk q)"
proof (induction q arbitrary: feature rule: measure_induct_rule [where f = size])
  case (less q)
  from validated_singleton [OF less.prems(1)] obtain kind v where q: "q = JObj [(kind, v)]"
    and kind: "kind \<in> {''match_all'', ''term'', ''terms'', ''range'', ''exists'', ''bool''}" .
  have bool: "\<exists>b. v = JObj b" if "kind = ''bool''"
    using less.prems(1) unfolding q that by (rule validate_bool_object)
  consider "kind = ''match_all''" | "kind = ''term''" | "kind = ''terms''" | "kind = ''range''"
    | "kind = ''exists''" | b where "kind = ''bool''" "v = JObj b"
    using kind bool by (simp only: insert_iff empty_iff) metis
  then show ?case
  proof cases
    case 1
    have "walks_to holds d [q] (walk_leaf kind v)"
      unfolding walks_to_def selects_def
      by (intro exI [of _ "[]"]) (auto simp: 1 q walk_leaf_def matches_singletons)
    then show ?thesis by (simp add: 1 q walk_single)
  next
    case 2
    with less.prems(1) have "validate_term v feature = Inr ()" by (simp only: q validate_filter_kinds)
    from walks_to_term [OF laws this] show ?thesis using less.prems(2) by (simp add: q 2 walk_single every_leaf_single)
  next
    case 3
    with less.prems(1) have "validate_terms v feature = Inr ()" by (simp only: q validate_filter_kinds)
    from walks_to_terms [OF laws this] show ?thesis using less.prems(2) by (simp add: q 3 walk_single every_leaf_single)
  next
    case 4
    with less.prems(1) have "validate_range v feature = Inr ()" by (simp only: q validate_filter_kinds)
    from walks_to_range [OF laws this] show ?thesis using less.prems(2) by (simp add: q 4 walk_single every_leaf_single)
  next
    case 5
    with less.prems(1) have "validate_exists v feature = Inr ()" by (simp only: q validate_filter_kinds)
    from walks_to_exists [OF laws this] show ?thesis using less.prems(2) by (simp add: q 5 walk_single every_leaf_single)
  next
    case 6
    have "walks_to holds d [c] (walk c)"
      if key: "clause_key key"
        and c: "c \<in> set (bool_clauses b key)" for key c
    proof (rule less.IH)
      show "size c < size q" using bool_clauses_size [OF c] by (simp add: q 6)
      show "validate_filter c (feature @ ''.bool.'' @ key) = Inr ()"
        using validate_bool_clause [OF _ key c] less.prems(1) by (simp only: q 6)
      show "every_leaf (plain_case d) c"
        using less.prems(2) key c unfolding q 6 by (rule every_leaf_clause)
    qed
    then show ?thesis unfolding q 6 by (rule walks_to_bool [OF laws])
  qed
qed


section \<open>A reference evaluator\<close>

text \<open>An evaluator that satisfies the laws, to show that they can hold together.\<close>

definition key_condition :: "object \<Rightarrow> json \<Rightarrow> bool" where
  "key_condition ms d = is_none_or (Option.bind (obj_get ''key'' ms) as_str) (\<lambda>f.
     list_ex (\<lambda>x.
       is_none_or (obj_get ''match'' ms) (\<lambda>m.
         is_none_or (get ''value'' m) (\<lambda>v. x = v) \<and> is_none_or (get_array ''any'' m) (\<lambda>vs. x \<in> set vs))
       \<and> is_none_or (Option.bind (obj_get ''range'' ms) as_object) (\<lambda>r. in_range r x)) (stored_values f d))"

lemma obj_get_array_size [termination_simp]:
  "Option.bind (obj_get k ms) as_array = Some cs \<Longrightarrow> c \<in> set cs \<Longrightarrow> size c < size (JObj ms)"
  by (auto simp: bind_eq_Some_conv dest!: obj_get_size element_size intro: less_trans)

lemma min_should_size [termination_simp]:
  "obj_get k ms = Some m \<Longrightarrow> get_array k' m = Some cs \<Longrightarrow> c \<in> set cs \<Longrightarrow> size c < size (JObj ms)"
  using get_array_size obj_get_size less_trans by blast

function reference_condition :: "json \<Rightarrow> json \<Rightarrow> bool" where
  "reference_condition c d = (case c of JObj ms \<Rightarrow>
       (case Option.bind (obj_get ''must'' ms) as_array of None \<Rightarrow> True
        | Some cs \<Rightarrow> list_all (\<lambda>c. reference_condition c d) cs)
     \<and> (case Option.bind (obj_get ''must_not'' ms) as_array of None \<Rightarrow> True
        | Some cs \<Rightarrow> list_all (\<lambda>c. \<not> reference_condition c d) cs)
     \<and> (case obj_get ''min_should'' ms of None \<Rightarrow> True
        | Some m \<Rightarrow> (case get_array ''conditions'' m of None \<Rightarrow> False
           | Some cs \<Rightarrow> is_some_and (Option.bind (get ''min_count'' m) as_u64)
               (\<lambda>n. unat n \<le> length (filter (\<lambda>c. reference_condition c d) cs))))
     \<and> is_none_or (Option.bind (obj_get ''is_empty'' ms) (get_str ''key''))
          (\<lambda>f. nested_value (key_path f) d \<in> {None, Some JNull, Some (JArr [])})
     \<and> key_condition ms d
   | _ \<Rightarrow> False)"
  by pat_completeness auto
termination
  by (relation "measure (\<lambda>(c, d). size c)") (auto dest: obj_get_array_size min_should_size)

declare reference_condition.simps [simp del]

lemma obj_of_pairs:
  "obj_of [(a, x)] = [(a, x)]"
  "a < b \<Longrightarrow> obj_of [(a, x), (b, y)] = [(a, x), (b, y)]"
  by (auto simp: obj_of_def)

lemma reference_boolean_laws: "boolean_laws reference_condition"
  unfolding boolean_laws_def jobj_def min_should_condition_def
  by (intro conjI allI impI)
     (subst reference_condition.simps,
      simp add: obj_of_def key_condition_def get_array_def get_def list_all_iff unat_of_nat take_bit_nat_eq_self)+

lemma reference_field_laws: "field_laws reference_condition"
  unfolding field_laws_def jobj_def
proof (intro conjI allI impI)
  fix f d
  show "reference_condition (JObj (obj_of [(''is_empty'', JObj (obj_of [(''key'', JStr f)]))])) d
     \<longleftrightarrow> nested_value (key_path f) d \<in> {None, Some JNull, Some (JArr [])}"
    by (subst reference_condition.simps) (simp add: obj_of_def key_condition_def get_str_def get_def)
next
  fix f d v
  show "reference_condition (JObj (obj_of [(''key'', JStr f), (''match'', JObj (obj_of [(''value'', v)]))])) d
     \<longleftrightarrow> v \<in> set (stored_values f d)"
    by (subst reference_condition.simps)
       (auto simp: obj_of_def key_condition_def get_array_def get_def list_ex_iff)
next
  fix f d vs
  show "reference_condition (JObj (obj_of [(''key'', JStr f), (''match'', JObj (obj_of [(''any'', JArr vs)]))])) d
     \<longleftrightarrow> set vs \<inter> set (stored_values f d) \<noteq> {}"
    by (subst reference_condition.simps)
       (auto simp: obj_of_def key_condition_def get_array_def get_def list_ex_iff)
next
  fix f d rng
  show "reference_condition (JObj (obj_of [(''key'', JStr f), (''range'', JObj rng)])) d
     \<longleftrightarrow> list_ex (in_range rng) (stored_values f d)"
    by (subst reference_condition.simps)
       (simp add: obj_of_def key_condition_def get_array_def get_def)
qed

lemma reference_condition_laws: "qdrant_laws reference_condition"
  by (simp add: qdrant_laws_def reference_boolean_laws reference_field_laws)

section \<open>The translation\<close>

lemma translation_selects:
  assumes laws: "qdrant_laws holds" and q: "validate_post_filter q = Inr ()" "every_leaf (plain_case d) q"
  shows "\<exists>flt. query_filter q = Inr flt \<and> (is_none_or flt (\<lambda>f. holds f d) \<longleftrightarrow> source_matches_query d q)"
proof -
  from validated_walks_to [OF laws q(1) [unfolded validate_post_filter_def] q(2)]
  obtain m n where w: "walk q ([], [], []) = Inr (m, n, [])"
    and sel: "selects holds m n d \<longleftrightarrow> source_matches_query d q"
    unfolding walks_to_def by (metis append_Nil list.set_intros(1) empty_iff list.set(1) set_ConsD)
  define conjuncts where "conjuncts = m @ map (\<lambda>x. jobj [(''must_not'', JArr [x])]) n"
  have conj: "(\<forall>c\<in>set conjuncts. holds c d) \<longleftrightarrow> selects holds m n d"
    using holds_must_not_one [OF laws] by (auto simp: conjuncts_def selects_def)
  have "holds (jobj [(''must'', JArr conjuncts)]) d \<longleftrightarrow> (\<forall>c\<in>set conjuncts. holds c d)"
    using laws by (simp add: qdrant_laws_def boolean_laws_def)
  then show ?thesis
    using conj sel by (auto simp: query_filter_def w Let_def selects_def simp flip: conjuncts_def)
qed

section \<open>Properties\<close>

text \<open>C15: a validated clause whose range uses the Java-style bounds \<open>from\<close> and \<open>to\<close> passes
  validation, but the evaluator reads neither bound: every document with a number in the field
  matches.\<close>

theorem range_from_to_ignored:
  assumes "field \<noteq> []"
  shows "validate_post_filter (JObj [(''range'', JObj [(field, JObj [(''from'', JNum lo), (''to'', JNum hi)])])])
           = Inr ()
       \<and> (source_matches_query d (JObj [(''range'', JObj [(field, JObj [(''from'', JNum lo), (''to'', JNum hi)])])])
          \<longleftrightarrow> is_some_and (source_field d (compatibility_field field))
                (\<lambda>v. source_value_matches v (\<lambda>x. is_number x)))"
proof -
  have "in_bounds [(''from'', JNum lo), (''to'', JNum hi)] = (\<lambda>q. True)"
    by (auto simp: in_bounds_def fun_eq_iff)
  moreover have "is_some_and (as_f64 x) (\<lambda>q. True) \<longleftrightarrow> is_number x" for x
    by (cases x) auto
  ultimately show ?thesis
    using assms by (simp add: matches_singletons matches_range_def first_member_def
        validate_post_filter_def validate_filter.simps(1) validate_range_def
        validate_range_option_def single_filter_field_def)
qed

theorem range_from_to_ignored_witness:
  "source_matches_query (JObj [(''price'', jint 1)])
     (JObj [(''range'', JObj [(''price'', JObj [(''from'', jint 10), (''to'', jint 20)])])])"
  using range_from_to_ignored [of "''price''" "PosInt 10" "PosInt 20" "JObj [(''price'', jint 1)]"]
  by (simp add: source_field_def compatibility_field_def strip_suffix_def ends_with_def)

text \<open>C14: the number of \<open>should\<close> clauses that must match never exceeds their number and is
  at least one when no other clause is required, whatever \<open>minimum_should_match\<close> says.\<close>

theorem minimum_should_match_bounds:
  assumes "n < 2 ^ 64"
  shows "minimum_should_match b n req \<le> n
       \<and> (n \<noteq> 0 \<and> \<not> req \<longrightarrow> 1 \<le> minimum_should_match b n req)"
proof -
  have n: "unat (of_nat n :: u64) = n"
    using assms by (simp add: unat_of_nat take_bit_nat_eq_self)
  have "unat (min (max x y) (of_nat n :: u64)) \<le> n" for x y
    using n by (metis min.cobounded2 word_le_nat_alt)
  moreover have "1 \<le> unat (min (max x 1) (of_nat n :: u64))" if "n \<noteq> 0" for x
  proof -
    have "(1 :: u64) \<le> of_nat n" using that n by (simp add: word_le_nat_alt)
    then have "(1 :: u64) \<le> min (max x 1) (of_nat n)" by simp
    then show ?thesis by (simp add: word_le_nat_alt)
  qed
  ultimately show ?thesis by (auto simp: minimum_should_match_def Let_def)
qed

theorem minimum_should_match_bounds_witness:
  "minimum_should_match [(''minimum_should_match'', jint 7)] 2 False \<le> 2"
  using minimum_should_match_bounds [of 2 "[(''minimum_should_match'', jint 7)]" False] by simp

lemma percent_strings:
  "parse_u64 ''9223372036854775808%'' = None" "parse_u64 ''9223372036854775808'' = Some 9223372036854775808"
  "parse_u64 ''100%'' = None" "parse_u64 ''100'' = Some 100"
  by (simp_all add: parse_u64_def parse_unsigned_def Let_def is_digit_def digit_value_def)

lemma percent_suffixes:
  "strip_suffix ''%'' ''9223372036854775808%'' = Some ''9223372036854775808''"
  "strip_suffix ''%'' ''100%'' = Some ''100''"
  by simp_all

lemma percent_products: "percent_of 2 9223372036854775808 = 0" "percent_of 2 100 = 2"
  by (simp_all add: percent_of_def div_ceil_def)

text \<open>the percentage form multiplies in 64 bits without a check, so (in a build without
  overflow checks, the release profile) a large percentage wraps around: with two clauses, \<open>9223372036854775808%\<close> asks for none of them.\<close>

theorem minimum_should_match_percent_wraps:
  "explicit_minimum [(''minimum_should_match'', JStr ''9223372036854775808%'')] 2 = Some 0
   \<and> minimum_should_match [(''minimum_should_match'', JStr ''9223372036854775808%'')] 2 True = 0
   \<and> minimum_should_match [(''minimum_should_match'', JStr ''100%'')] 2 True = 2"
  by (simp add: explicit_minimum_def minimum_should_match_def percent_strings percent_suffixes percent_products)

text \<open>Pattern clauses below \<open>dis_max\<close> are neither collected for the gateway nor
  translated: such a query filters nothing.\<close>

theorem dis_max_patterns_dropped:
  "collect_patterns regex (JObj [(''dis_max'', JObj [(''queries'', JArr (map (\<lambda>v. JObj [(''prefix'', v)]) vs))])]) []
     = Inr []
   \<and> query_filter (JObj [(''dis_max'', JObj [(''queries'', JArr (map (\<lambda>v. JObj [(''prefix'', v)]) vs))])])
     = Inr None"
proof -
  have "foldR (\<lambda>c st. walk c st) (map (\<lambda>v. JObj [(''prefix'', v)]) vs) st = Inr st" for st
    by (induction vs arbitrary: st) (simp_all add: walk_single walk_leaf_def)
  then show ?thesis
    by (simp add: collect_patterns.simps query_filter_def walk_dis_max get_array_def)
qed

end
