(* ===== verification/TextQuery.thy ===== *)
theory TextQuery
  imports FilterSemantics
begin

text \<open>
  Text queries (\<open>src/main.rs\<close>): choosing the text and the fields to search
  (\<open>pick_text\<close>), and matching documents at the gateway (\<open>words\<close>, \<open>field_text\<close>,
  \<open>edit_distance\<close>, \<open>fuzzy_matches\<close>, \<open>text_query_matches\<close>). Parameters: \<open>lower\<close> is
  \<open>str::to_lowercase\<close>, \<open>to_text\<close> the JSON text of a value, \<open>parse_f32\<close> the parser of
  floats. A boost is a 32-bit float, \<open>None\<close> when it is not finite.
\<close>

type_synonym f32 = "rat option"
type_synonym text_fields = "string \<times> (string \<times> f32) list"

section \<open>Choosing the text to search\<close>

fun first_some :: "('a \<Rightarrow> 'b option) \<Rightarrow> 'a list \<Rightarrow> 'b option" where
  "first_some f [] = None"
| "first_some f (x # xs) = (case f x of Some y \<Rightarrow> Some y | None \<Rightarrow> first_some f xs)"

lemma first_some_cong [fundef_cong]:
  "xs = ys \<Longrightarrow> (\<And>x. x \<in> set ys \<Longrightarrow> f x = g x) \<Longrightarrow> first_some f xs = first_some g ys"
  by (induction ys arbitrary: xs) (auto split: option.splits)

definition clause_text :: "string \<Rightarrow> json \<Rightarrow> string option" where
  "clause_text key v = or_else (as_str v) (get_str key v)"

definition clause_boost :: "json \<Rightarrow> f32" where
  "clause_boost v = f32_round (unwrap_or 1 (Option.bind (get ''boost'' v) as_f64))"

definition field_clause :: "string \<Rightarrow> (json \<Rightarrow> f32) \<Rightarrow> json \<Rightarrow> text_fields option" where
  "field_clause key boost m =
     Option.bind (first_member m) (\<lambda>(f, v).
     Option.bind (clause_text key v) (\<lambda>text. Some (text, [(f, boost v)])))"

definition boosted_field :: "(string \<Rightarrow> f32 option) \<Rightarrow> string \<Rightarrow> string \<times> f32" where
  "boosted_field parse_f32 s =
     (case split_on CHR ''^'' s of
        f # x # _ \<Rightarrow> (f, unwrap_or (Some 1) (parse_f32 x))
      | f # _ \<Rightarrow> (f, Some 1)
      | [] \<Rightarrow> ([], Some 1))"

definition multi_match_text :: "(string \<Rightarrow> f32 option) \<Rightarrow> json \<Rightarrow> text_fields option" where
  "multi_match_text parse_f32 m =
     Option.bind (get_str ''query'' m) (\<lambda>text.
     Option.bind (get_array ''fields'' m) (\<lambda>fs.
       Some (text, List.map_filter (\<lambda>v. map_option (boosted_field parse_f32) (as_str v)) fs)))"

definition combine_text :: "text_fields option \<Rightarrow> text_fields option \<Rightarrow> text_fields option" where
  "combine_text acc found = (case found of
     None \<Rightarrow> acc
   | Some (text, found_fields) \<Rightarrow>
       (case acc of None \<Rightarrow> Some (text, found_fields) | Some (t, fs) \<Rightarrow> Some (t, fs @ found_fields)))"

lemma queries_size: "get k q = Some d \<Longrightarrow> get_array k' d = Some vs \<Longrightarrow> c \<in> set vs \<Longrightarrow> size c < size q"
  using get_size get_array_size less_trans by blast

lemma bool_query_size: "get k q = Some (JObj b) \<Longrightarrow> c \<in> set (bool_clauses b k') \<Longrightarrow> size c < size q"
  using get_size bool_clauses_size less_trans by blast

function pick_text :: "(string \<Rightarrow> f32 option) \<Rightarrow> json \<Rightarrow> text_fields option" where
  "pick_text parse_f32 q =
     (case get ''match'' q of Some m \<Rightarrow> field_clause ''query'' (\<lambda>_. Some 1) m
      | None \<Rightarrow> (case get ''match_phrase'' q of Some m \<Rightarrow> field_clause ''query'' (\<lambda>_. Some 1) m
      | None \<Rightarrow> (case get ''match_bool_prefix'' q of Some m \<Rightarrow> field_clause ''query'' clause_boost m
      | None \<Rightarrow> (case get ''fuzzy'' q of Some m \<Rightarrow> field_clause ''value'' clause_boost m
      | None \<Rightarrow> (case get ''multi_match'' q of Some m \<Rightarrow> multi_match_text parse_f32 m
      | None \<Rightarrow> (case get ''dis_max'' q of Some d \<Rightarrow>
            Option.bind (get_array ''queries'' d) (\<lambda>clauses.
              fold (\<lambda>c acc. combine_text acc (pick_text parse_f32 c)) clauses None)
      | None \<Rightarrow> (case Option.bind (get ''bool'' q) as_object of Some b \<Rightarrow>
            first_some (pick_text parse_f32) (bool_clauses b ''must'' @ bool_clauses b ''filter'')
      | None \<Rightarrow> None)))))))"
  by pat_completeness auto
termination
  by (relation "measure (\<lambda>(p, q). size q)")
     (auto simp: bind_eq_Some_conv dest: queries_size bool_query_size)

declare pick_text.simps [simp del]

section \<open>Words and distances\<close>

definition words :: "(string \<Rightarrow> string) \<Rightarrow> string \<Rightarrow> string list" where
  "words lower s = map lower (split_whitespace s)"

definition field_text :: "(string \<Rightarrow> string) \<Rightarrow> (json \<Rightarrow> string) \<Rightarrow> json \<Rightarrow> string \<Rightarrow> string" where
  "field_text lower to_text source field = lower (unwrap_or []
     (map_option (\<lambda>v. case v of
          JStr text \<Rightarrow> text
        | JArr values \<Rightarrow> join_with '' '' (List.map_filter as_str values)
        | _ \<Rightarrow> to_text v) (source_field source (compatibility_field field))))"

text \<open>One row of the table: \<open>j\<close> counts the characters of \<open>right\<close> done, \<open>next\<close> is the row so far.\<close>

fun edit_row :: "nat list \<Rightarrow> 'a \<Rightarrow> 'a list \<Rightarrow> nat \<Rightarrow> nat list \<Rightarrow> nat list" where
  "edit_row row l [] j nxt = nxt"
| "edit_row row l (r # rs) j nxt =
     edit_row row l rs (j + 1)
       (nxt @ [if l = r then row ! j else 1 + min (min (row ! j) (row ! (j + 1))) (nxt ! j)])"

fun edit_rows :: "nat list \<Rightarrow> nat \<Rightarrow> 'a list \<Rightarrow> 'a list \<Rightarrow> nat list" where
  "edit_rows row i [] right = row"
| "edit_rows row i (l # left) right = edit_rows (edit_row row l right 0 [i + 1]) (i + 1) left right"

definition edit_distance :: "string \<Rightarrow> string \<Rightarrow> nat" where
  "edit_distance left right =
     edit_rows [0..<length (utf8_chars right) + 1] 0 (utf8_chars left) (utf8_chars right)
       ! length (utf8_chars right)"

definition fuzziness :: "string \<Rightarrow> nat" where
  "fuzziness term = (let n = length (utf8_chars term) in if n \<le> 2 then 0 else if n \<le> 5 then 1 else 2)"

definition fuzzy_matches :: "(string \<Rightarrow> string) \<Rightarrow> string \<Rightarrow> string \<Rightarrow> bool" where
  "fuzzy_matches lower text query =
     list_all (\<lambda>term. list_ex (\<lambda>candidate. edit_distance term candidate \<le> fuzziness term) (words lower text))
       (words lower query)"

section \<open>Matching documents\<close>

definition all_terms_in :: "(string \<Rightarrow> string) \<Rightarrow> string \<Rightarrow> string \<Rightarrow> bool" where
  "all_terms_in lower query text = list_all (\<lambda>term. term \<in> set (split_whitespace text)) (words lower query)"

definition bool_prefix_matches :: "(string \<Rightarrow> string) \<Rightarrow> string \<Rightarrow> string \<Rightarrow> bool" where
  "bool_prefix_matches lower query text =
     (let terms = words lower query; candidates = split_whitespace text in
      terms \<noteq> [] \<and> list_all (\<lambda>term. term \<in> set candidates) (butlast terms)
        \<and> list_ex (starts_with (last terms)) candidates)"

function text_query_matches :: "(string \<Rightarrow> string) \<Rightarrow> (json \<Rightarrow> string) \<Rightarrow> json \<Rightarrow> json \<Rightarrow> bool" where
  "text_query_matches lower to_text source query =
     (case query of JObj ob \<Rightarrow>
       if contains_key ''match_all'' ob then True
       else (case obj_get ''match'' ob of Some m \<Rightarrow>
            is_some_and (first_member m) (\<lambda>(field, v).
              all_terms_in lower (unwrap_or [] (clause_text ''query'' v)) (field_text lower to_text source field))
       | None \<Rightarrow> (case obj_get ''match_bool_prefix'' ob of Some m \<Rightarrow>
            is_some_and (first_member m) (\<lambda>(field, v).
              bool_prefix_matches lower (unwrap_or [] (clause_text ''query'' v)) (field_text lower to_text source field))
       | None \<Rightarrow> (case obj_get ''fuzzy'' ob of Some m \<Rightarrow>
            is_some_and (first_member m) (\<lambda>(field, v).
              fuzzy_matches lower (field_text lower to_text source field) (unwrap_or [] (clause_text ''value'' v)))
       | None \<Rightarrow> (case obj_get ''multi_match'' ob of Some m \<Rightarrow>
            is_some_and (get_array ''fields'' m) (\<lambda>fields.
              list_ex (\<lambda>field. all_terms_in lower (unwrap_or [] (get_str ''query'' m)) (field_text lower to_text source field))
                (List.map_filter as_str fields))
       | None \<Rightarrow> (case obj_get ''dis_max'' ob of Some d \<Rightarrow>
            is_some_and (get_array ''queries'' d) (\<lambda>queries. list_ex (text_query_matches lower to_text source) queries)
       | None \<Rightarrow> (case Option.bind (obj_get ''bool'' ob) as_object of Some bq \<Rightarrow>
            list_all (text_query_matches lower to_text source) (bool_clauses bq ''must'' @ bool_clauses bq ''filter'')
            \<and> list_all (\<lambda>c. \<not> text_query_matches lower to_text source c) (bool_clauses bq ''must_not'')
            \<and> minimum_should_match bq (length (bool_clauses bq ''should'')) (has_required_clause bq)
              \<le> length (filter (text_query_matches lower to_text source) (bool_clauses bq ''should''))
       | None \<Rightarrow> False))))))
     | _ \<Rightarrow> False)"
  by pat_completeness auto
termination
  by (relation "measure (\<lambda>(l, t, s, q). size q)")
     (auto simp: bind_eq_Some_conv dest: nested_bool_clauses_size [simplified] queries_size [of _ "JObj ob" for ob, simplified])

declare text_query_matches.simps [simp del]

fun contains_approx_text_query :: "json \<Rightarrow> bool" where
  "contains_approx_text_query (JObj ob) =
     (contains_key ''match_bool_prefix'' ob \<or> contains_key ''fuzzy'' ob
      \<or> list_ex (\<lambda>(k, v). contains_approx_text_query v) ob)"
| "contains_approx_text_query _ = False"


section \<open>The table computes the edit distance\<close>

text \<open>Turning one word into another by keeping, deleting, inserting and replacing characters.\<close>

inductive edits :: "'a list \<Rightarrow> 'a list \<Rightarrow> nat \<Rightarrow> bool" where
  edits_nil: "edits [] [] 0"
| edits_keep: "edits xs ys n \<Longrightarrow> edits (x # xs) (x # ys) n"
| edits_replace: "edits xs ys n \<Longrightarrow> edits (x # xs) (y # ys) (Suc n)"
| edits_delete: "edits xs ys n \<Longrightarrow> edits (x # xs) ys (Suc n)"
| edits_insert: "edits xs ys n \<Longrightarrow> edits xs (y # ys) (Suc n)"

fun lev :: "'a list \<Rightarrow> 'a list \<Rightarrow> nat" where
  "lev [] ys = length ys"
| "lev xs [] = length xs"
| "lev (x # xs) (y # ys) =
     (if x = y then lev xs ys else 1 + min (min (lev xs ys) (lev (x # xs) ys)) (lev xs (y # ys)))"

lemma lev_Nil2 [simp]: "lev xs [] = length xs"
  by (cases xs) auto

lemma lev_sym: "lev xs ys = lev ys xs"
  by (induction xs ys rule: lev.induct) auto

lemma lev_lipschitz: "lev (x # xs) ys \<le> Suc (lev xs ys) \<and> lev xs ys \<le> Suc (lev (x # xs) ys)"
proof (induction "length xs + length ys" arbitrary: x xs ys rule: less_induct)
  case less
  show ?case
  proof (cases ys)
    case (Cons y ys')
    have right: "lev xs ys' \<le> Suc (lev xs (y # ys'))" "lev xs (y # ys') \<le> Suc (lev xs ys')"
      using less [of ys' xs y] Cons by (simp_all add: lev_sym [of xs])
    have left: "lev xs ys' \<le> Suc (lev (x # xs) ys')"
      using less [of xs ys' x] Cons by simp
    from right left show ?thesis by (simp add: Cons min_def)
  qed simp
qed

lemma lev_least: "edits xs ys n \<Longrightarrow> lev xs ys \<le> n"
proof (induction rule: edits.induct)
  case (edits_delete xs ys n x)
  then show ?case using lev_lipschitz [of x xs ys] by linarith
next
  case (edits_insert xs ys n y)
  then show ?case using lev_lipschitz [of y ys xs] by (simp add: lev_sym [of xs])
qed auto

lemma edits_delete_all: "edits xs [] (length xs)"
  by (induction xs) (auto intro: edits.intros)

lemma edits_insert_all: "edits [] ys (length ys)"
  by (induction ys) (auto intro: edits.intros)

lemma lev_edits: "edits xs ys (lev xs ys)"
  by (induction xs ys rule: lev.induct) (auto simp: min_def edits_delete_all edits_insert_all intro: edits.intros)

lemma edits_rev: "edits xs ys n \<Longrightarrow> edits (rev xs) (rev ys) n"
proof (induction rule: edits.induct)
  have snoc: "edits as bs n \<Longrightarrow> edits (as @ [x]) (bs @ [x]) n"
    "edits as bs n \<Longrightarrow> edits (as @ [x]) (bs @ [y]) (Suc n)"
    "edits as bs n \<Longrightarrow> edits (as @ [x]) bs (Suc n)"
    "edits as bs n \<Longrightarrow> edits as (bs @ [y]) (Suc n)" for as bs :: "'a list" and x y n
    by (induction rule: edits.induct) (auto intro: edits.intros)
  {
    case (edits_keep xs ys n x) then show ?case by (simp add: snoc)
  next
    case (edits_replace xs ys n x y) then show ?case by (simp add: snoc)
  next
    case (edits_delete xs ys n x) then show ?case by (simp add: snoc)
  next
    case (edits_insert xs ys n y) then show ?case by (simp add: snoc)
  next
    case edits_nil show ?case by (simp add: edits.edits_nil)
  }
qed

lemma lev_rev: "lev (rev xs) (rev ys) = lev xs ys"
  using lev_least [OF edits_rev [OF lev_edits [of xs ys]]]
    lev_least [OF edits_rev [OF lev_edits [of "rev xs" "rev ys"]]] by simp

text \<open>\<open>prefix_row left right i\<close>: the distances of the first \<open>i\<close> characters to every prefix.\<close>

definition prefix_row :: "'a list \<Rightarrow> 'a list \<Rightarrow> nat \<Rightarrow> nat list" where
  "prefix_row left right k = map (\<lambda>j. lev (rev left) (rev (take j right))) [0..<k]"

lemma prefix_row_nth [simp]: "j < k \<Longrightarrow> prefix_row left right k ! j = lev (rev left) (rev (take j right))"
  by (simp add: prefix_row_def)

lemma prefix_row_Suc: "prefix_row left right (Suc k) = prefix_row left right k @ [lev (rev left) (rev (take k right))]"
  by (simp add: prefix_row_def)

lemma edit_row_prefixes:
  "right = done @ rs \<Longrightarrow> length done = j \<Longrightarrow>
   edit_row (prefix_row left right (Suc (length right))) l rs j (prefix_row (left @ [l]) right (Suc j))
     = prefix_row (left @ [l]) right (Suc (length right))"
proof (induction rs arbitrary: j "done")
  case Nil
  then show ?case by simp
next
  case (Cons r rs)
  let ?row = "prefix_row left right (Suc (length right))" and ?next = "prefix_row (left @ [l]) right (Suc j)"
  have take_j: "take (Suc j) right = take j right @ [r]"
    using Cons.prems by simp
  have "(if l = r then ?row ! j else 1 + min (min (?row ! j) (?row ! (j + 1))) (?next ! j))
      = lev (rev (left @ [l])) (rev (take (Suc j) right))"
    using Cons.prems by (simp only: take_j) (auto simp: min_def)
  then have "?next @ [if l = r then ?row ! j else 1 + min (min (?row ! j) (?row ! (j + 1))) (?next ! j)]
      = prefix_row (left @ [l]) right (Suc (Suc j))"
    by (simp add: prefix_row_Suc)
  moreover have "edit_row ?row l rs (Suc j) (prefix_row (left @ [l]) right (Suc (Suc j)))
      = prefix_row (left @ [l]) right (Suc (length right))"
    using Cons.prems by (intro Cons.IH [of "done @ [r]"]) simp_all
  ultimately show ?case by (simp only: edit_row.simps Suc_eq_plus1)
qed

lemma edit_rows_prefixes:
  "length left = i \<Longrightarrow>
   edit_rows (prefix_row left right (Suc (length right))) i rest right
     = prefix_row (left @ rest) right (Suc (length right))"
proof (induction rest arbitrary: left i)
  case Nil
  then show ?case by simp
next
  case (Cons l rest)
  have "[i + 1] = prefix_row (left @ [l]) right (Suc 0)"
    using Cons.prems by (simp add: prefix_row_def)
  then show ?case
    using Cons.IH [of "left @ [l]" "Suc i"] Cons.prems edit_row_prefixes [of right "[]" right 0 left l] by simp
qed

lemma edit_distance_lev: "edit_distance left right = lev (utf8_chars left) (utf8_chars right)"
proof -
  let ?l = "utf8_chars left" and ?r = "utf8_chars right"
  have "map length (map (\<lambda>j. rev (take j ?r)) [0..<Suc (length ?r)]) = [0..<Suc (length ?r)]"
    by (simp add: list_eq_iff_nth_eq del: upt_Suc)
  then have "[0..<length ?r + 1] = prefix_row [] ?r (Suc (length ?r))"
    by (simp add: prefix_row_def comp_def)
  then show ?thesis
    using edit_rows_prefixes [of "[]" 0 ?r ?l] by (simp add: edit_distance_def lev_rev)
qed

section \<open>Properties\<close>

text \<open>C20: The table of \<open>edit_distance\<close> computes the least number of deletions, insertions and
  replacements of characters that turns the one word into the other.\<close>

theorem edit_distance_least:
  "edit_distance left right = (LEAST n. edits (utf8_chars left) (utf8_chars right) n)"
  unfolding edit_distance_lev by (metis Least_equality lev_edits lev_least)

text \<open>The clauses that restrict a bool query without being text.\<close>

definition fuzzy_with_filter :: "string \<Rightarrow> json \<Rightarrow> string \<Rightarrow> json \<Rightarrow> json" where
  "fuzzy_with_filter field text filter_field value =
     JObj [(''bool'', JObj
       [(''filter'', JArr [JObj [(''term'', JObj [(filter_field, value)])]]),
        (''must'', JObj [(''fuzzy'', JObj [(field, text)])])])]"

text \<open>A query with a fuzzy clause and a \<open>term\<close> filter is accepted and its filter sent to
  Qdrant, but the gateway evaluates the whole query on each candidate with a text matcher that
  knows no \<open>term\<close> clause: it never has a hit, whatever the documents hold.\<close>

theorem approximate_query_with_filter_empty:
  "contains_approx_text_query (fuzzy_with_filter field text f v)
   \<and> query_filter (fuzzy_with_filter field text f v)
       = Inr (Some (jobj [(''must'', JArr [term_condition f v])]))
   \<and> \<not> text_query_matches lower to_text source (fuzzy_with_filter field text f v)"
proof (intro conjI)
  show "contains_approx_text_query (fuzzy_with_filter field text f v)"
    by (simp add: fuzzy_with_filter_def contains_key_def keys_def)
  show "query_filter (fuzzy_with_filter field text f v) = Inr (Some (jobj [(''must'', JArr [term_condition f v])]))"
    by (simp add: fuzzy_with_filter_def query_filter_def walk_bool walk_single walk_leaf_def bool_clauses_def
        first_member_def)
  have "\<not> text_query_matches lower to_text source (JObj [(''term'', JObj [(f, v)])])"
    by (simp add: text_query_matches.simps contains_key_def keys_def)
  then show "\<not> text_query_matches lower to_text source (fuzzy_with_filter field text f v)"
    by (simp add: fuzzy_with_filter_def text_query_matches.simps [of _ _ _ "JObj [(''bool'', b)]" for b]
        bool_clauses_def contains_key_def keys_def)
qed

text \<open>Fuzzy and prefix clauses are looked for in objects only, never in lists: whatever the
  clauses of a bool query given as a list or of a \<open>dis_max\<close> query, the query is not recognised
  as approximate and is searched as plain text.\<close>

theorem approximate_clauses_in_lists_missed:
  "\<not> contains_approx_text_query (JObj [(''bool'', JObj [(''must'', JArr clauses)])])
   \<and> \<not> contains_approx_text_query (JObj [(''dis_max'', JObj [(''queries'', JArr clauses)])])
   \<and> map_option fst (pick_text parse_f32
         (JObj [(''bool'', JObj [(''must'', JArr [JObj [(''fuzzy'', JObj [(field, JStr s)])]])])])) = Some s"
  by (simp add: contains_key_def pick_text.simps bool_clauses_def field_clause_def clause_text_def
      first_member_def)

text \<open>Of several \<open>match\<close> clauses required together, only the first is searched: the others
  leave no trace in the search text or in the filter.\<close>

theorem second_text_clause_ignored:
  "pick_text parse_f32 (JObj [(''bool'', JObj [(''must'',
       JArr (JObj [(''match'', JObj [(f, JStr s)])] # map (\<lambda>m. JObj [(''match'', m)]) ms))])])
     = Some (s, [(f, Some 1)])
   \<and> query_filter (JObj [(''bool'', JObj [(''must'',
       JArr (JObj [(''match'', JObj [(f, JStr s)])] # map (\<lambda>m. JObj [(''match'', m)]) ms))])])
     = Inr None"
proof
  show "pick_text parse_f32 (JObj [(''bool'', JObj [(''must'',
       JArr (JObj [(''match'', JObj [(f, JStr s)])] # map (\<lambda>m. JObj [(''match'', m)]) ms))])])
     = Some (s, [(f, Some 1)])"
    by (simp add: pick_text.simps bool_clauses_def field_clause_def first_member_def clause_text_def)
  have "\<exists>ts. foldR (\<lambda>c st. walk c st) (map (\<lambda>m. JObj [(''match'', m)]) ms) (must, mn, tx) = Inr (must, mn, ts)"
    for must mn tx
    by (induction ms arbitrary: tx) (simp_all add: walk_single walk_leaf_def)
  then show "query_filter (JObj [(''bool'', JObj [(''must'',
       JArr (JObj [(''match'', JObj [(f, JStr s)])] # map (\<lambda>m. JObj [(''match'', m)]) ms))])])
     = Inr None"
    by (auto simp: query_filter_def walk_bool walk_single walk_leaf_def bool_clauses_def)
qed

end
