(* ===== verification/Backend.thy ===== *)
theory Backend
  imports Mapping_Model TextQuery
begin

text \<open>
  The gateway's effects: the Qdrant client of \<open>src/main.rs\<close> (\<open>impl Qdrant\<close>) with the
  completion evidence of \<open>src/mutation_completion.rs\<close>, and the state every handler threads.
  Qdrant is the parameter \<open>env_qdrant\<close>, any function from the exchanges so far and a call to
  its reply; the other third-party code is the rest of the record \<open>env\<close>. A handler maps the
  state to a result and the next state; an asynchronous join is modelled as its parts in order.
\<close>

section \<open>Configuration and parameters\<close>

record config =
  listen_addr :: string
  qdrant_url :: string
  qdrant_api_key :: "string option"
  compat_version :: string
  analytics_on :: bool
  max_body_bytes :: nat
  max_bulk_bytes :: nat
  max_page_size :: u64
  async_payload_writes :: bool
  document_projection :: bool
  async_search_projection :: bool
  replication_factor :: "u64 option"
  connect_timeout_ms :: u64
  request_timeout_ms :: u64
  async_write_queue :: nat

datatype http_method = GET | HEAD | OPTIONS | POST | PUT | DELETE | PATCH | Method string

record call =
  call_method :: http_method
  call_path :: string
  call_wait :: "bool option"
  call_body :: "json option"

text \<open>No reply at all, or a status with a body: JSON, or the text that does not parse as JSON.\<close>

datatype reply = Unreachable string | Reply nat "string + json"

type_synonym trace = "(call \<times> reply) list"

text \<open>
  A catalog snapshot as the shared catalog stores it (name, mapping text and vectors text of
  every index; alias and target), and the parsed view of one that a read request may carry.
\<close>

record snapshot =
  sn_indices :: "(string \<times> string \<times> string) list"
  sn_aliases :: "(string \<times> string) list"

record read_view =
  rv_indices :: "(string \<times> json \<times> string list) list"
  rv_aliases :: "(string \<times> string) list"

text \<open>
  The parts of the \<open>chrono\<close> crates the histogram uses: times are milliseconds of the epoch, dates
  are day numbers, and a local midnight may be unique, ambiguous or skipped.
\<close>

datatype local_time = Single int | Ambiguous int int | Skipped

record calendar =
  known_zone :: "string \<Rightarrow> bool"
  millis_in_range :: "int \<Rightarrow> bool"
  parse_rfc3339 :: "string \<Rightarrow> int option"
  parse_date :: "string \<Rightarrow> int option"
  local_date :: "string \<Rightarrow> int \<Rightarrow> int"
  days_from_monday :: "int \<Rightarrow> int"
  date_in_range :: "int \<Rightarrow> bool"
  year_of :: "int \<Rightarrow> int"
  month_of :: "int \<Rightarrow> int"
  from_ymd :: "int \<Rightarrow> int \<Rightarrow> int \<Rightarrow> int option"
  local_midnight :: "string \<Rightarrow> int \<Rightarrow> local_time"
  time_text :: "string \<Rightarrow> int \<Rightarrow> string"

record env =
  cfg :: config
  env_qdrant :: "trace \<Rightarrow> call \<Rightarrow> reply"
  tracked :: bool
  admin_tracked :: bool
  sha256 :: "string \<Rightarrow> string"
  lower :: "string \<Rightarrow> string"
  json_text :: "json \<Rightarrow> string"
  parse_json :: "string \<Rightarrow> string + json"
  parse_float :: "string \<Rightarrow> f32 option"
  percent_utf8 :: "string \<Rightarrow> string option"
  regex_new :: "string \<Rightarrow> string + (string \<Rightarrow> bool)"
  regex_escape :: "string \<Rightarrow> string"
  status_text :: "nat \<Rightarrow> string"
  snapshot_text :: "snapshot \<Rightarrow> string"
  parse_snapshot_text :: "string \<Rightarrow> snapshot option"
  hash_order :: "string list \<Rightarrow> string list"
  new_uuid :: "nat \<Rightarrow> string"
  elapsed_ms :: u64
  float_text :: "rat \<Rightarrow> string"
  chrono :: calendar
  shared_catalog :: bool
  read_catalog :: "read_view option"

section \<open>State\<close>

text \<open>
  The metadata tables, as rows in the order SQLite returns them: \<open>indices\<close> maps a name to the
  JSON texts of its mapping and vectors, \<open>aliases\<close> an alias to an index name.
\<close>

record tables =
  indices :: "(string \<times> string \<times> string) list"
  aliases :: "(string \<times> string) list"

record analytics =
  an_requests :: nat
  an_supported :: nat
  an_unsupported :: "(string \<times> nat) list"

record world =
  w_trace :: trace
  w_attempts :: nat
  w_admin_started :: bool
  w_permits :: nat
  w_pending :: "(http_method \<times> string \<times> json) list"
  w_tables :: tables
  w_analytics :: analytics

type_synonym 'a act = "world \<Rightarrow> 'a outcome \<times> world"

definition returnE :: "'a \<Rightarrow> 'a act" where
  "returnE x = (\<lambda>w. (Inr x, w))"

definition liftE :: "'a outcome \<Rightarrow> 'a act" where
  "liftE r = (\<lambda>w. (r, w))"

definition throwE :: "gateway_error \<Rightarrow> 'a act" where
  "throwE e = liftE (Inl e)"

definition bindE :: "'a act \<Rightarrow> ('a \<Rightarrow> 'b act) \<Rightarrow> 'b act" where
  "bindE m k = (\<lambda>w. case m w of (Inl e, w') \<Rightarrow> (Inl e, w') | (Inr x, w') \<Rightarrow> k x w')"

text \<open>A result inspected instead of propagated.\<close>

definition tryE :: "'a act \<Rightarrow> 'a outcome act" where
  "tryE m = (\<lambda>w. case m w of (r, w') \<Rightarrow> (Inr r, w'))"

definition getE :: "(world \<Rightarrow> 'a) \<Rightarrow> 'a act" where
  "getE f = (\<lambda>w. (Inr (f w), w))"

definition modifyE :: "(world \<Rightarrow> world) \<Rightarrow> unit act" where
  "modifyE f = (\<lambda>w. (Inr (), f w))"

definition whenE :: "bool \<Rightarrow> unit act \<Rightarrow> unit act" where
  "whenE b m = (if b then m else returnE ())"

fun mapE :: "('a \<Rightarrow> 'b act) \<Rightarrow> 'a list \<Rightarrow> 'b list act" where
  "mapE f [] = returnE []"
| "mapE f (x # xs) = bindE (f x) (\<lambda>y. bindE (mapE f xs) (\<lambda>ys. returnE (y # ys)))"

fun foldE :: "('a \<Rightarrow> 's \<Rightarrow> 's act) \<Rightarrow> 'a list \<Rightarrow> 's \<Rightarrow> 's act" where
  "foldE f [] s = returnE s"
| "foldE f (x # xs) s = bindE (f x s) (foldE f xs)"

text \<open>
  A loop that pages through Qdrant runs as long as Qdrant names a next page: \<open>loopE n\<close> is its first
  \<open>n\<close> rounds, and returns \<open>None\<close> when it has not ended by then. A round continues with \<open>Inl\<close> the
  next state or ends with \<open>Inr\<close> a result. \<open>bindO\<close> continues with the result of such a loop.
\<close>

fun loopE :: "nat \<Rightarrow> ('s \<Rightarrow> ('s + 'a) act) \<Rightarrow> 's \<Rightarrow> 'a option act" where
  "loopE 0 step s = returnE None"
| "loopE (Suc n) step s = bindE (step s) (\<lambda>r. case r of
     Inl s' \<Rightarrow> loopE n step s'
   | Inr x \<Rightarrow> returnE (Some x))"

definition bindO :: "'a option act \<Rightarrow> ('a \<Rightarrow> 'b option act) \<Rightarrow> 'b option act" where
  "bindO m k = bindE m (\<lambda>r. case r of None \<Rightarrow> returnE None | Some x \<Rightarrow> k x)"

definition doneE :: "'a act \<Rightarrow> 'a option act" where
  "doneE m = bindE m (\<lambda>x. returnE (Some x))"

section \<open>Completion evidence\<close>

datatype proof_kind = Completed | CollectionBoolean

definition accepts :: "proof_kind \<Rightarrow> json \<Rightarrow> bool" where
  "accepts p v = (case p of
     Completed \<Rightarrow> Option.bind (pointer [''result'', ''status''] v) as_str = Some ''completed''
   | CollectionBoolean \<Rightarrow> Option.bind (get ''result'' v) as_bool = Some True)"

definition classify :: "http_method \<Rightarrow> string \<Rightarrow> proof_kind option" where
  "classify m path =
     (if list_ex (\<lambda>c. c \<in> {CHR ''?'', CHR ''#'', CHR ''%''}) path then None
      else case split_on CHR ''/'' path of
        [a, b, name] \<Rightarrow>
          if a = [] \<and> b = ''collections'' \<and> name \<noteq> [] \<and> (m = PUT \<or> m = DELETE)
          then Some CollectionBoolean else None
      | [a, b, name, c] \<Rightarrow>
          if a = [] \<and> b = ''collections'' \<and> (c = ''points'' \<or> c = ''index'') \<and> name \<noteq> [] \<and> m = PUT
          then Some Completed else None
      | [a, b, name, c, d] \<Rightarrow>
          if a = [] \<and> b = ''collections'' \<and> c = ''points'' \<and> (d = ''delete'' \<or> d = ''payload'') \<and> name \<noteq> [] \<and> m = POST
          then Some Completed else None
      | _ \<Rightarrow> None)"

definition is_read :: "http_method \<Rightarrow> string \<Rightarrow> bool" where
  "is_read m path =
     (if m = GET \<or> m = HEAD then True
      else if m \<noteq> POST \<or> list_ex (\<lambda>c. c \<in> {CHR ''#'', CHR ''%''}) path then False
      else case split_on CHR ''/'' (hd (split_on CHR ''?'' path)) of
        [a, b, name, c] \<Rightarrow> a = [] \<and> b = ''collections'' \<and> (c = ''points'' \<or> c = ''facet'') \<and> name \<noteq> []
      | [a, b, name, c, d] \<Rightarrow>
          a = [] \<and> b = ''collections'' \<and> c = ''points'' \<and> d \<in> set [''count'', ''scroll'', ''query''] \<and> name \<noteq> []
      | _ \<Rightarrow> False)"

section \<open>The Qdrant client\<close>

text \<open>The completion control of a body moves to the query of the URL.\<close>

definition take_wait :: "json option \<Rightarrow> bool option \<times> json option" where
  "take_wait body = (case body of
     Some (JObj ms) \<Rightarrow>
       (case Option.bind (obj_get ''wait'' ms) as_bool of
          Some wait \<Rightarrow> (Some wait, Some (JObj (obj_remove ''wait'' ms)))
        | None \<Rightarrow> (None, body))
   | _ \<Rightarrow> (None, body))"

definition make_call :: "http_method \<Rightarrow> string \<Rightarrow> json option \<Rightarrow> call" where
  "make_call m path body = (case take_wait body of (wait, b) \<Rightarrow>
     \<lparr>call_method = m, call_path = path, call_wait = wait, call_body = b\<rparr>)"

definition reply_json :: "string + json \<Rightarrow> json" where
  "reply_json b = (case b of Inr v \<Rightarrow> v | Inl text \<Rightarrow> jobj [(''status'', JStr text)])"

definition mark_admin :: "env \<Rightarrow> http_method \<Rightarrow> world \<Rightarrow> world" where
  "mark_admin env m w =
     (if m \<noteq> GET \<and> m \<noteq> HEAD \<and> admin_tracked env then w\<lparr>w_admin_started := True\<rparr> else w)"

definition send_request :: "env \<Rightarrow> http_method \<Rightarrow> string \<Rightarrow> json option \<Rightarrow> (nat \<times> json) act" where
  "send_request env m path body = (\<lambda>w.
     let c = make_call m path body;
         r = env_qdrant env (w_trace w) c;
         w' = (mark_admin env m w)\<lparr>w_trace := w_trace w @ [(c, r)]\<rparr>
     in case r of
          Unreachable e \<Rightarrow> (Inl (Upstream e), w')
        | Reply status b \<Rightarrow> (Inr (status, reply_json b), w'))"

definition raw_request :: "env \<Rightarrow> http_method \<Rightarrow> string \<Rightarrow> json option \<Rightarrow> (nat \<times> json) act" where
  "raw_request env m path body =
     (if tracked env \<and> \<not> is_read m path
      then throwE (Upstream ''unclassified Qdrant mutation: use explicit mutation helper'')
      else send_request env m path body)"

definition failed_reply :: "nat \<times> json \<Rightarrow> bool" where
  "failed_reply = (\<lambda>(status, v). \<not> is_success status \<or> get_str ''status'' v = Some ''error'')"

definition reply_error :: "env \<Rightarrow> nat \<times> json \<Rightarrow> gateway_error" where
  "reply_error env = (\<lambda>(status, v).
     Upstream (''Qdrant returned '' @ status_text env status @ '': '' @ json_text env v))"

definition request :: "env \<Rightarrow> http_method \<Rightarrow> string \<Rightarrow> json option \<Rightarrow> json act" where
  "request env m path body =
     bindE (raw_request env m path body) (\<lambda>r.
       if failed_reply r then throwE (reply_error env r) else returnE (snd r))"

definition wait_true :: "json option \<Rightarrow> bool" where
  "wait_true body \<longleftrightarrow> Option.bind (Option.bind body (get ''wait'')) as_bool = Some True"

definition begin_attempt :: "unit act" where
  "begin_attempt = modifyE (\<lambda>w. w\<lparr>w_attempts := w_attempts w + 1\<rparr>)"

definition complete_attempt :: "unit act" where
  "complete_attempt = modifyE (\<lambda>w. w\<lparr>w_attempts := w_attempts w - 1\<rparr>)"

definition proven :: "proof_kind \<Rightarrow> nat \<times> json \<Rightarrow> bool" where
  "proven p = (\<lambda>(status, v). is_success status \<and> get ''status'' v = Some (JStr ''ok'') \<and> accepts p v)"

definition mutation :: "env \<Rightarrow> http_method \<Rightarrow> string \<Rightarrow> json option \<Rightarrow> json act" where
  "mutation env m path body =
     (if \<not> tracked env then request env m path body
      else case classify m path of
        None \<Rightarrow> throwE (Upstream ''unsupported coordinated Qdrant mutation'')
      | Some p \<Rightarrow>
          if p = Completed \<and> \<not> wait_true body
          then throwE (Upstream ''coordinated Qdrant mutations require wait=true'')
          else bindE begin_attempt (\<lambda>_.
               bindE (send_request env m path body) (\<lambda>r.
                 if \<not> proven p r then throwE (Upstream ''Qdrant mutation completion is uncertain'')
                 else bindE complete_attempt (\<lambda>_. returnE (snd r)))))"

definition missing_point :: "nat \<times> json \<Rightarrow> bool" where
  "missing_point = (\<lambda>(status, v). status = 404
     \<and> is_some_and (Option.bind (pointer [''status'', ''error''] v) as_str) (contains_str ''Point with id''))"

definition request_optional_point :: "env \<Rightarrow> string \<Rightarrow> json option act" where
  "request_optional_point env path =
     bindE (raw_request env GET path None) (\<lambda>r.
       if missing_point r then returnE None
       else if failed_reply r then throwE (reply_error env r)
       else returnE (Some (snd r)))"

definition backend_health :: "env \<Rightarrow> unit act" where
  "backend_health env = bindE (request env GET ''/'' None) (\<lambda>_. returnE ())"

text \<open>An asynchronous write holds a permit of the queue until its task has run.\<close>

definition spawn_request :: "env \<Rightarrow> http_method \<Rightarrow> string \<Rightarrow> json \<Rightarrow> unit act" where
  "spawn_request env m path body =
     (if tracked env then throwE (Upstream ''coordinated Qdrant mutations cannot run asynchronously'')
      else bindE (getE w_permits) (\<lambda>permits.
        if permits = 0 then throwE (Upstream ''asynchronous write queue is full'')
        else modifyE (\<lambda>w. w\<lparr>w_permits := permits - 1, w_pending := w_pending w @ [(m, path, body)]\<rparr>)))"

definition run_pending :: "env \<Rightarrow> world \<Rightarrow> world" where
  "run_pending env w = (case w_pending w of
     [] \<Rightarrow> w
   | (m, path, body) # rest \<Rightarrow>
       (let w' = snd (mutation env m path (Some body) (w\<lparr>w_pending := rest\<rparr>))
        in w'\<lparr>w_permits := w_permits w' + 1\<rparr>))"


section \<open>Reads and mutations\<close>

lemma split_on_id: "c \<notin> set s \<Longrightarrow> split_on c s = [s]"
  by (induction s) auto

lemma split_on_append: "c \<notin> set s \<Longrightarrow> split_on c (s @ c # t) = s # split_on c t"
  by (induction s) auto

lemma classify_not_read: "classify m path = Some k \<Longrightarrow> \<not> is_read m path"
proof -
  assume c: "classify m path = Some k"
  then have clean: "hd (split_on CHR ''?'' path) = path"
    by (subst split_on_id) (auto simp: classify_def list_ex_iff split: if_splits)
  show ?thesis
    using c by (auto simp: classify_def is_read_def clean split: if_splits list.splits)
qed

text \<open>A collection name as it appears in a path.\<close>

definition path_segment :: "string \<Rightarrow> bool" where
  "path_segment s \<longleftrightarrow> s \<noteq> [] \<and> list_all (\<lambda>c. is_ascii_alphanumeric c \<or> c = CHR ''_'' \<or> c = CHR ''-'') s"

lemma path_segment_collection: "path_segment (collection index)" "path_segment (document_collection index)"
  using collection_name_chars [of index]
  by (auto simp: path_segment_def collection_def document_collection_def is_ascii_alphanumeric_def)

lemma path_segment_chars:
  assumes "path_segment s"
  shows "CHR ''/'' \<notin> set s" "CHR ''?'' \<notin> set s" "CHR ''#'' \<notin> set s" "CHR ''%'' \<notin> set s" "s \<noteq> []"
  using assms by (auto simp: path_segment_def list_all_iff is_ascii_alphanumeric_def is_digit_def)

definition points_path :: "string \<Rightarrow> string \<Rightarrow> string" where
  "points_path coll rest = ''/collections/'' @ coll @ rest"

lemma split_points_path:
  "path_segment c \<Longrightarrow> split_on CHR ''/'' (points_path c []) = [[], ''collections'', c]"
  "path_segment c \<Longrightarrow> split_on CHR ''/'' (points_path c (CHR ''/'' # rest)) = [] # ''collections'' # c # split_on CHR ''/'' rest"
  using path_segment_chars(1) by (auto simp: points_path_def split_on_append split_on_id)

lemma clean_points_path:
  assumes "path_segment c"
  shows "list_ex (\<lambda>c. c \<in> {CHR ''?'', CHR ''#'', CHR ''%''}) (points_path c rest)
    \<longleftrightarrow> list_ex (\<lambda>c. c \<in> {CHR ''?'', CHR ''#'', CHR ''%''}) rest"
proof -
  have "\<not> list_ex (\<lambda>c. c \<in> {CHR ''?'', CHR ''#'', CHR ''%''}) c"
    using path_segment_chars [OF assms] by (auto simp: list_ex_iff)
  then show ?thesis by (simp add: points_path_def)
qed

lemma is_read_paths:
  assumes "path_segment c"
  shows "is_read POST (points_path c ''/points'')" "is_read POST (points_path c ''/points/count'')"
    "is_read POST (points_path c ''/points/scroll'')" "is_read POST (points_path c ''/points/query'')"
    "is_read POST (points_path c ''/facet'')"
proof -
  have clean: "hd (split_on CHR ''?'' (points_path c rest)) = points_path c rest" if "CHR ''?'' \<notin> set rest" for rest
    using path_segment_chars [OF assms] that by (subst split_on_id) (auto simp: points_path_def)
  have none: "\<not> list_ex (\<lambda>c. c = CHR ''#'' \<or> c = CHR ''%'') (points_path c rest)"
    if "\<not> list_ex (\<lambda>c. c = CHR ''#'' \<or> c = CHR ''%'') rest" for rest
    using path_segment_chars [OF assms] that by (auto simp: points_path_def list_ex_iff)
  show "is_read POST (points_path c ''/points'')" "is_read POST (points_path c ''/points/count'')"
    "is_read POST (points_path c ''/points/scroll'')" "is_read POST (points_path c ''/points/query'')"
    "is_read POST (points_path c ''/facet'')"
    using path_segment_chars(5) [OF assms]
    by (simp_all add: is_read_def clean none split_points_path [OF assms])
qed

lemma classify_paths:
  assumes "path_segment c"
  shows "classify PUT (points_path c []) = Some CollectionBoolean"
    "classify DELETE (points_path c []) = Some CollectionBoolean"
    "classify PUT (points_path c ''/points'') = Some Completed"
    "classify PUT (points_path c ''/index'') = Some Completed"
    "classify POST (points_path c ''/points/delete'') = Some Completed"
    "classify POST (points_path c ''/points/payload'') = Some Completed"
  using path_segment_chars(5) [OF assms]
  by (simp_all add: classify_def clean_points_path [OF assms, simplified] split_points_path [OF assms])

section \<open>Invariants of handlers\<close>

named_theorems preserve

definition preserves :: "(world \<Rightarrow> bool) \<Rightarrow> 'a act \<Rightarrow> bool" where
  "preserves I m \<longleftrightarrow> (\<forall>w. I w \<longrightarrow> I (snd (m w)))"

lemma preserves_return [preserve]: "preserves I (returnE x)" "preserves I (liftE r)" "preserves I (throwE e)"
  "preserves I (getE f)"
  by (simp_all add: preserves_def returnE_def liftE_def throwE_def getE_def)

lemma preserves_bind [preserve]:
  "preserves I m \<Longrightarrow> (\<And>x. preserves I (k x)) \<Longrightarrow> preserves I (bindE m k)"
  unfolding preserves_def
proof (intro allI impI)
  fix w
  assume m: "\<forall>w. I w \<longrightarrow> I (snd (m w))" and k: "\<And>x. \<forall>w. I w \<longrightarrow> I (snd (k x w))" and w: "I w"
  obtain r w1 where r: "m w = (r, w1)" by (cases "m w")
  then have "I w1" using m w by force
  then show "I (snd (bindE m k w))"
    using k by (cases r) (auto simp: bindE_def r)
qed

lemma preserves_try [preserve]: "preserves I m \<Longrightarrow> preserves I (tryE m)"
  unfolding preserves_def tryE_def by (simp add: split_beta)

lemma preserves_if [preserve]: "preserves I a \<Longrightarrow> preserves I b \<Longrightarrow> preserves I (if c then a else b)"
  by simp

lemma preserves_when [preserve]: "preserves I m \<Longrightarrow> preserves I (whenE b m)"
  by (simp add: whenE_def preserves_return)

lemma preserves_option [preserve]:
  "preserves I a \<Longrightarrow> (\<And>x. preserves I (b x)) \<Longrightarrow> preserves I (case c of None \<Rightarrow> a | Some x \<Rightarrow> b x)"
  by (cases c) simp_all

lemma preserves_prod [preserve]: "(\<And>x y. preserves I (b x y)) \<Longrightarrow> preserves I (case c of (x, y) \<Rightarrow> b x y)"
  by (cases c) simp

lemma preserves_let [preserve]: "(\<And>x. preserves I (b x)) \<Longrightarrow> preserves I (let x = c in b x)"
  by (simp add: Let_def)

lemma preserves_sum [preserve]:
  "(\<And>x. preserves I (a x)) \<Longrightarrow> (\<And>x. preserves I (b x)) \<Longrightarrow> preserves I (case c of Inl x \<Rightarrow> a x | Inr x \<Rightarrow> b x)"
  by (cases c) simp_all

lemma preserves_map [preserve]: "(\<And>x. preserves I (f x)) \<Longrightarrow> preserves I (mapE f xs)"
  by (induction xs) (auto intro!: preserve)

lemma preserves_fold [preserve]: "(\<And>x s. preserves I (f x s)) \<Longrightarrow> preserves I (foldE f xs s)"
  by (induction xs arbitrary: s) (auto intro!: preserve)

lemma preserves_loop [preserve]: "(\<And>s. preserves I (step s)) \<Longrightarrow> preserves I (loopE n step s)"
  by (induction n arbitrary: s) (auto intro!: preserve)

lemma preserves_bindO [preserve]: "preserves I m \<Longrightarrow> (\<And>x. preserves I (k x)) \<Longrightarrow> preserves I (bindO m k)"
  unfolding bindO_def by (intro preserve)

lemma preserves_done [preserve]: "preserves I m \<Longrightarrow> preserves I (doneE m)"
  unfolding doneE_def by (intro preserve)

text \<open>More rounds do not change the result of a loop that has ended.\<close>

lemma loopE_more:
  "loopE n step s w = (Inr (Some x), w') \<Longrightarrow> n \<le> m \<Longrightarrow> loopE m step s w = (Inr (Some x), w')"
proof (induction n arbitrary: m s w)
  case (Suc n)
  then obtain m' where m: "m = Suc m'" "n \<le> m'" by (cases m) auto
  obtain r w1 where r: "step s w = (r, w1)" by (cases "step s w")
  show ?case
    using Suc.prems(1) Suc.IH [OF _ m(2)]
    by (cases r; cases "projr r") (auto simp: m(1) bindE_def r split: sum.split_asm)
qed (simp add: returnE_def)

text \<open>What an action returns.\<close>

definition yields :: "('a \<Rightarrow> bool) \<Rightarrow> 'a act \<Rightarrow> bool" where
  "yields Q m \<longleftrightarrow> (\<forall>w x. fst (m w) = Inr x \<longrightarrow> Q x)"

lemma preserves_bind_yields:
  "preserves I m \<Longrightarrow> yields Q m \<Longrightarrow> (\<And>x. Q x \<Longrightarrow> preserves I (k x)) \<Longrightarrow> preserves I (bindE m k)"
  unfolding preserves_def
proof (intro allI impI)
  fix w
  assume m: "\<forall>w. I w \<longrightarrow> I (snd (m w))" and q: "yields Q m" and k: "\<And>x. Q x \<Longrightarrow> \<forall>w. I w \<longrightarrow> I (snd (k x w))" and w: "I w"
  obtain r w1 where r: "m w = (r, w1)" by (cases "m w")
  then have "I w1" using m w by force
  moreover have "Q x" if "r = Inr x" for x using q r that by (metis yields_def fst_conv)
  ultimately show "I (snd (bindE m k w))"
    using k by (cases r) (auto simp: bindE_def r)
qed

text \<open>What the handlers owe a property of the state. Handlers that only read owe that reads keep
  it; every handler owes that the three ways of reaching Qdrant and the statistics keep it.\<close>

locale read_invariant =
  fixes env :: env and I :: "world \<Rightarrow> bool"
  assumes inv_read: "is_read m path \<Longrightarrow> preserves I (raw_request env m path body)"
begin

lemma read_request: "is_read m path \<Longrightarrow> preserves I (request env m path body)"
  unfolding request_def by (intro preserve inv_read)

lemma is_read_get: "is_read GET path"
  by (simp add: is_read_def)

lemma read_optional: "preserves I (request_optional_point env path)"
  unfolding request_optional_point_def by (intro preserve inv_read is_read_get)

lemma read_health: "preserves I (backend_health env)"
  unfolding backend_health_def by (intro preserve read_request is_read_get)

end

locale client_invariant =
  fixes env :: env and I :: "world \<Rightarrow> bool"
  assumes inv_raw: "preserves I (raw_request env m path body)"
    and inv_mutation: "preserves I (mutation env m path body)"
    and inv_spawn: "preserves I (spawn_request env m path b)"
    and inv_analytics: "I w \<Longrightarrow> I (w\<lparr>w_analytics := a\<rparr>)"
begin

lemma inv_request: "preserves I (request env m path body)"
  unfolding request_def by (intro preserve inv_raw)

end

sublocale client_invariant \<subseteq> read_invariant
  by unfold_locales (rule inv_raw)

subsection \<open>The ledger of unconfirmed mutations\<close>

definition confirmed :: "call \<times> reply \<Rightarrow> bool" where
  "confirmed = (\<lambda>(c, r). case (classify (call_method c) (call_path c), r) of
     (Some p, Reply status b) \<Rightarrow> proven p (status, reply_json b)
   | _ \<Rightarrow> False)"

definition unconfirmed :: "call \<times> reply \<Rightarrow> bool" where
  "unconfirmed cr \<longleftrightarrow> \<not> is_read (call_method (fst cr)) (call_path (fst cr)) \<and> \<not> confirmed cr"

definition ledger :: "world \<Rightarrow> bool" where
  "ledger w \<longleftrightarrow> w_attempts w = length (filter unconfirmed (w_trace w))"

lemma make_call_simps [simp]:
  "call_method (make_call m path body) = m" "call_path (make_call m path body) = path"
  by (simp_all add: make_call_def split: prod.splits)

lemma mark_admin_simps [simp]:
  "w_trace (mark_admin env m w) = w_trace w" "w_attempts (mark_admin env m w) = w_attempts w"
  "w_tables (mark_admin env m w) = w_tables w" "w_permits (mark_admin env m w) = w_permits w"
  by (simp_all add: mark_admin_def)

lemma send_request_cases:
  obtains r where
    "w_trace (snd (send_request env m path body w)) = w_trace w @ [(make_call m path body, r)]"
    "w_attempts (snd (send_request env m path body w)) = w_attempts w"
    "case r of Unreachable e \<Rightarrow> fst (send_request env m path body w) = Inl (Upstream e)
      | Reply status b \<Rightarrow> fst (send_request env m path body w) = Inr (status, reply_json b)"
  by (cases "env_qdrant env (w_trace w) (make_call m path body)")
     (auto simp: send_request_def Let_def)

lemma ledger_raw: "tracked env \<Longrightarrow> preserves ledger (raw_request env m path body)"
proof -
  assume "tracked env"
  have "ledger (snd (send_request env m path body w))" if l: "ledger w" and rd: "is_read m path" for w
  proof -
    obtain r where "w_trace (snd (send_request env m path body w)) = w_trace w @ [(make_call m path body, r)]"
        "w_attempts (snd (send_request env m path body w)) = w_attempts w"
      by (rule send_request_cases)
    with l rd show ?thesis by (simp add: ledger_def unconfirmed_def)
  qed
  then show ?thesis
    using \<open>tracked env\<close> by (simp add: preserves_def raw_request_def throwE_def liftE_def)
qed

lemma ledger_mutation: "tracked env \<Longrightarrow> preserves ledger (mutation env m path body)"
  unfolding preserves_def
proof (intro allI impI)
  fix w
  assume t: "tracked env" and l: "ledger w"
  show "ledger (snd (mutation env m path body w))"
  proof (cases "classify m path")
    case None
    then show ?thesis using t l by (simp add: mutation_def throwE_def liftE_def)
  next
    case (Some p)
    note nr = classify_not_read [OF Some]
    let ?w = "w\<lparr>w_attempts := w_attempts w + 1\<rparr>"
    obtain r where r: "w_trace (snd (send_request env m path body ?w)) = w_trace w @ [(make_call m path body, r)]"
        "w_attempts (snd (send_request env m path body ?w)) = w_attempts w + 1"
        "case r of Unreachable e \<Rightarrow> fst (send_request env m path body ?w) = Inl (Upstream e)
          | Reply status b \<Rightarrow> fst (send_request env m path body ?w) = Inr (status, reply_json b)"
      by (rule send_request_cases [of env m path body ?w]) auto
    obtain res w1 where s: "send_request env m path body ?w = (res, w1)" by (cases "send_request env m path body ?w")
    show ?thesis
    proof (cases "p = Completed \<and> \<not> wait_true body")
      case True
      then show ?thesis using t l Some by (simp add: mutation_def throwE_def liftE_def)
    next
      case False
      then show ?thesis
        using t l Some r s nr
        by (cases r) (auto simp: mutation_def bindE_def begin_attempt_def complete_attempt_def modifyE_def throwE_def
            liftE_def returnE_def ledger_def unconfirmed_def confirmed_def)
    qed
  qed
qed

lemma ledger_invariant: "tracked env \<Longrightarrow> client_invariant env ledger"
  by (rule client_invariant.intro)
     (simp_all add: ledger_raw ledger_mutation ledger_def spawn_request_def preserves_return)

text \<open>The dispatcher of the cache turns tracking on for the requests it fences.\<close>

interpretation fenced: client_invariant "env\<lparr>tracked := True\<rparr>" ledger
  by (rule ledger_invariant) simp

subsection \<open>Qdrant calls leave the tables alone\<close>

lemma send_request_tables: "w_tables (snd (send_request env m path body w)) = w_tables w"
  by (simp add: send_request_def Let_def split: reply.splits)

lemma preserves_send_tables: "preserves (\<lambda>w. P (w_tables w)) (send_request env m path body)"
  by (simp add: preserves_def send_request_tables)

lemma preserves_attempt_tables:
  "preserves (\<lambda>w. P (w_tables w)) begin_attempt" "preserves (\<lambda>w. P (w_tables w)) complete_attempt"
  by (simp_all add: preserves_def begin_attempt_def complete_attempt_def modifyE_def)

interpretation tables_kept: client_invariant env "\<lambda>w. P (w_tables w)"
proof unfold_locales
  have raw: "preserves (\<lambda>w. P (w_tables w)) (raw_request env m path body)" for m path body
    unfolding raw_request_def by (intro preserve preserves_send_tables)
  show "preserves (\<lambda>w. P (w_tables w)) (raw_request env m path body)" for m path body by (rule raw)
  have req: "preserves (\<lambda>w. P (w_tables w)) (request env m path body)" for m path body
    unfolding request_def by (intro preserve raw)
  show "preserves (\<lambda>w. P (w_tables w)) (mutation env m path body)" for m path body
    unfolding mutation_def by (intro preserve preserves_send_tables preserves_attempt_tables req)
  show "preserves (\<lambda>w. P (w_tables w)) (spawn_request env m path b)" for m path b
    by (auto simp: preserves_def spawn_request_def bindE_def getE_def modifyE_def throwE_def liftE_def)
qed simp

subsection \<open>Handlers that only read\<close>

definition only_reads :: "trace \<Rightarrow> world \<Rightarrow> bool" where
  "only_reads base w \<longleftrightarrow> (\<exists>sent. w_trace w = base @ sent
     \<and> list_all (\<lambda>(c, r). is_read (call_method c) (call_path c)) sent)"

lemma only_reads_start: "only_reads (w_trace w) w"
  by (simp add: only_reads_def)

interpretation reading: read_invariant env "only_reads base"
proof unfold_locales
  fix m path body
  assume rd: "is_read m path"
  have "only_reads base (snd (send_request env m path body w))" if w: "only_reads base w" for w
  proof -
    obtain r where "w_trace (snd (send_request env m path body w)) = w_trace w @ [(make_call m path body, r)]"
      by (rule send_request_cases)
    with w rd show ?thesis by (auto simp: only_reads_def)
  qed
  then show "preserves (only_reads base) (raw_request env m path body)"
    using rd by (simp add: preserves_def raw_request_def)
qed

section \<open>A concrete environment\<close>

text \<open>For evaluating the model on examples: a backend that confirms every mutation and returns no
  point, and simple stand-ins for the third-party functions.\<close>

definition sample_config :: config where
  "sample_config = \<lparr>listen_addr = ''0.0.0.0:9200'', qdrant_url = ''http://qdrant:6333'', qdrant_api_key = None,
     compat_version = ''8.15.0'', analytics_on = True, max_body_bytes = 10485760, max_bulk_bytes = 52428800,
     max_page_size = 1000, async_payload_writes = False, document_projection = False,
     async_search_projection = False, replication_factor = None, connect_timeout_ms = 5000,
     request_timeout_ms = 180000, async_write_queue = 256\<rparr>"

definition sample_qdrant :: "trace \<Rightarrow> call \<Rightarrow> reply" where
  "sample_qdrant _ c = Reply 200 (Inr (jobj [(''status'', JStr ''ok''),
     (''result'', if call_method c = POST \<and> is_read POST (call_path c) then JArr []
                else if call_wait c = Some True then jobj [(''status'', JStr ''completed'')]
                else JBool True)]))"

definition sample_calendar :: calendar where
  "sample_calendar = \<lparr>known_zone = (\<lambda>z. z = ''UTC''), millis_in_range = (\<lambda>_. True), parse_rfc3339 = (\<lambda>_. None),
     parse_date = (\<lambda>_. None), local_date = (\<lambda>_ ms. ms div 86400000), days_from_monday = (\<lambda>d. (d + 3) mod 7),
     date_in_range = (\<lambda>_. True), year_of = (\<lambda>d. 1970 + d div 365), month_of = (\<lambda>_. 1),
     from_ymd = (\<lambda>y _ _. Some ((y - 1970) * 365)), local_midnight = (\<lambda>_ d. Single (d * 86400000)),
     time_text = (\<lambda>_ _. ''1970-01-01T00:00:00.000Z'')\<rparr>"

definition sample_env :: env where
  "sample_env = \<lparr>cfg = sample_config, env_qdrant = sample_qdrant, tracked = False, admin_tracked = False,
     sha256 = (\<lambda>_. replicate 32 CHR ''x''), lower = id, json_text = (\<lambda>_. ''{}''), parse_json = (\<lambda>_. Inr (JObj [])),
     parse_float = (\<lambda>_. None), percent_utf8 = Some, regex_new = (\<lambda>_. Inl ''regex''), regex_escape = id,
     status_text = show_nat, snapshot_text = (\<lambda>_. ''{}''), parse_snapshot_text = (\<lambda>_. None), hash_order = id,
     new_uuid = show_nat, elapsed_ms = 1, float_text = (\<lambda>_. ''0.5''), chrono = sample_calendar,
     shared_catalog = False, read_catalog = None\<rparr>"

definition empty_world :: world where
  "empty_world = \<lparr>w_trace = [], w_attempts = 0, w_admin_started = False, w_permits = 256, w_pending = [],
     w_tables = \<lparr>indices = [], aliases = []\<rparr>,
     w_analytics = \<lparr>an_requests = 0, an_supported = 0, an_unsupported = []\<rparr>\<rparr>"

end
