(* ===== verification/Catalog.thy ===== *)
theory Catalog
  imports Backend
begin

text \<open>
  The metadata catalog: the SQLite tables of \<open>src/main.rs\<close> (\<open>resolve_index\<close>, \<open>get_index\<close>,
  \<open>ensure_collection_namespace_available\<close>) and the snapshots and read views of
  \<open>src/shared_catalog.rs\<close> that replace them in replicated deployments. Names resolve through
  the locale \<open>catalog_lookup\<close>, which both representations interpret.
\<close>

section \<open>Tables\<close>

definition row_replace :: "'k \<Rightarrow> 'v \<Rightarrow> ('k \<times> 'v) list \<Rightarrow> ('k \<times> 'v) list" where
  "row_replace k v rows = filter (\<lambda>r. fst r \<noteq> k) rows @ [(k, v)]"

definition row_update :: "'k \<Rightarrow> 'v \<Rightarrow> ('k \<times> 'v) list \<Rightarrow> ('k \<times> 'v) list" where
  "row_update k v rows = map (\<lambda>r. if fst r = k then (k, v) else r) rows"

definition row_delete :: "('k \<times> 'v \<Rightarrow> bool) \<Rightarrow> ('k \<times> 'v) list \<Rightarrow> ('k \<times> 'v) list" where
  "row_delete p rows = filter (\<lambda>r. \<not> p r) rows"

text \<open>\<open>WHERE name = COALESCE((index of that name), (target of that alias))\<close>.\<close>

definition coalesce_name :: "('m \<Rightarrow> string \<Rightarrow> 'r option) \<Rightarrow> ('m \<Rightarrow> string \<Rightarrow> string option) \<Rightarrow> 'm \<Rightarrow> string \<Rightarrow> (string \<times> 'r) option" where
  "coalesce_name index_row alias_target cat name =
     (let key = (if index_row cat name \<noteq> None then Some name else alias_target cat name)
      in Option.bind key (\<lambda>k. map_option (Pair k) (index_row cat k)))"

definition table_index :: "tables \<Rightarrow> string \<Rightarrow> (string \<times> string) option" where
  "table_index t name = map_of (indices t) name"

definition table_alias :: "tables \<Rightarrow> string \<Rightarrow> string option" where
  "table_alias t name = map_of (aliases t) name"

definition sql_resolve :: "tables \<Rightarrow> string \<Rightarrow> (string \<times> string \<times> string) option" where
  "sql_resolve = coalesce_name table_index table_alias"

section \<open>Snapshots and read views\<close>

definition max_catalog_bytes :: nat where
  "max_catalog_bytes = 8 * 1024 * 1024"

definition unavailable :: gateway_error where
  "unavailable = Upstream ''shared catalog unavailable or administrative claim requires recovery''"

definition parse_strings :: "env \<Rightarrow> string \<Rightarrow> string + string list" where
  "parse_strings env text = (case parse_json env text of
     Inl e \<Rightarrow> Inl e
   | Inr (JArr vs) \<Rightarrow> if list_all is_string vs then Inr (List.map_filter as_str vs) else Inl ''invalid type''
   | Inr _ \<Rightarrow> Inl ''invalid type'')"

definition vectors_text :: "env \<Rightarrow> string list \<Rightarrow> string" where
  "vectors_text env vectors = json_text env (JArr (map JStr vectors))"

definition parse_snapshot :: "env \<Rightarrow> string \<Rightarrow> snapshot outcome" where
  "parse_snapshot env bytes =
     (if max_catalog_bytes < length bytes then Inl unavailable
      else ok_or unavailable (parse_snapshot_text env bytes))"

definition view_row :: "env \<Rightarrow> string \<times> string \<times> string \<Rightarrow> (string \<times> json \<times> string list) outcome" where
  "view_row env = (\<lambda>(name, mapping, vectors).
     case (parse_json env mapping, parse_strings env vectors) of
       (Inr m, Inr vs) \<Rightarrow> Inr (name, m, vs)
     | _ \<Rightarrow> Inl unavailable)"

definition into_read_view :: "env \<Rightarrow> snapshot \<Rightarrow> read_view outcome" where
  "into_read_view env s =
     bindR (traverseR (view_row env) (sn_indices s)) (\<lambda>rows.
       if \<not> distinct (map fst rows) \<or> \<not> distinct (map fst (sn_aliases s)) then Inl unavailable
       else Inr \<lparr>rv_indices = rows, rv_aliases = sn_aliases s\<rparr>)"

text \<open>The request-local database: the primary keys reject repeated rows.\<close>

definition into_db :: "env \<Rightarrow> snapshot \<Rightarrow> tables outcome" where
  "into_db env s =
     bindR (eachR (\<lambda>row. map_ok (\<lambda>_. ()) (view_row env row)) (sn_indices s)) (\<lambda>_.
       if \<not> distinct (map fst (sn_indices s)) \<or> \<not> distinct (map fst (sn_aliases s)) then Inl unavailable
       else Inr \<lparr>indices = sn_indices s, aliases = sn_aliases s\<rparr>)"

definition snapshot_read :: "tables \<Rightarrow> snapshot" where
  "snapshot_read t =
     \<lparr>sn_indices = sort_key fst (indices t), sn_aliases = sort_key fst (aliases t)\<rparr>"

definition snapshot_db :: "env \<Rightarrow> string \<Rightarrow> tables outcome" where
  "snapshot_db env bytes = bindR (parse_snapshot env bytes) (into_db env)"

definition snapshot_read_view :: "env \<Rightarrow> string \<Rightarrow> read_view outcome" where
  "snapshot_read_view env bytes = bindR (parse_snapshot env bytes) (into_read_view env)"

definition validate_snapshot_capacity :: "env \<Rightarrow> snapshot \<Rightarrow> unit outcome" where
  "validate_snapshot_capacity env s =
     (if max_catalog_bytes < length (snapshot_text env s)
      then bad ''catalog.size'' ''shared metadata catalog would exceed its fixed 8 MiB capacity; no upstream changes were attempted''
      else Inr ())"

definition validate_index_capacity :: "env \<Rightarrow> tables \<Rightarrow> string \<Rightarrow> json \<Rightarrow> string list \<Rightarrow> unit outcome" where
  "validate_index_capacity env t index mapping vectors =
     (if \<not> shared_catalog env then Inr ()
      else let s = snapshot_read t in
        validate_snapshot_capacity env
          (s\<lparr>sn_indices := filter (\<lambda>r. fst r \<noteq> index) (sn_indices s)
               @ [(index, json_text env mapping, vectors_text env vectors)]\<rparr>))"

definition validate_catalog_capacity :: "env \<Rightarrow> tables \<Rightarrow> unit outcome" where
  "validate_catalog_capacity env t =
     (if \<not> shared_catalog env then Inr () else validate_snapshot_capacity env (snapshot_read t))"

definition view_index :: "read_view \<Rightarrow> string \<Rightarrow> (json \<times> string list) option" where
  "view_index v name = map_of (rv_indices v) name"

definition view_alias :: "read_view \<Rightarrow> string \<Rightarrow> string option" where
  "view_alias v name = map_of (rv_aliases v) name"

text \<open>\<open>ReadView::resolve\<close>.\<close>

definition view_resolve :: "read_view \<Rightarrow> string \<Rightarrow> (string \<times> json \<times> string list) option" where
  "view_resolve v name =
     or_else (map_option (Pair name) (view_index v name))
       (Option.bind (view_alias v name) (\<lambda>target. map_option (Pair target) (view_index v target)))"

section \<open>Resolving a name\<close>

type_synonym index_info = "string \<times> string \<times> json \<times> string list"

definition no_such_index :: "string \<Rightarrow> gateway_error" where
  "no_such_index name = NotFound (''no such index ['' @ name @ '']'')"

definition view_get_index :: "read_view \<Rightarrow> string \<Rightarrow> index_info outcome" where
  "view_get_index v name = (case view_resolve v name of
     None \<Rightarrow> Inl (no_such_index name)
   | Some (index, m, vs) \<Rightarrow> Inr (index, collection index, m, vs))"

definition view_resolve_index :: "read_view \<Rightarrow> string \<Rightarrow> (string \<times> string) outcome" where
  "view_resolve_index v name = (case view_resolve v name of
     None \<Rightarrow> Inl (no_such_index name)
   | Some (index, _) \<Rightarrow> Inr (index, collection index))"

definition sql_get_index :: "env \<Rightarrow> tables \<Rightarrow> string \<Rightarrow> index_info outcome" where
  "sql_get_index env t name = (case sql_resolve t name of
     None \<Rightarrow> Inl (no_such_index name)
   | Some (index, m, vs) \<Rightarrow>
       (case parse_strings env vs of
          Inl e \<Rightarrow> Inl (Internal e)
        | Inr vectors \<Rightarrow>
            (case parse_json env m of
               Inl e \<Rightarrow> Inl (Internal e)
             | Inr mapping \<Rightarrow> Inr (index, collection index, mapping, vectors))))"

definition sql_resolve_index :: "tables \<Rightarrow> string \<Rightarrow> (string \<times> string) outcome" where
  "sql_resolve_index t name = (case sql_resolve t name of
     None \<Rightarrow> Inl (no_such_index name)
   | Some (index, _) \<Rightarrow> Inr (index, collection index))"

definition resolve_index :: "env \<Rightarrow> string \<Rightarrow> (string \<times> string) act" where
  "resolve_index env name = (case read_catalog env of
     Some view \<Rightarrow> liftE (view_resolve_index view name)
   | None \<Rightarrow> bindE (getE w_tables) (\<lambda>t. liftE (sql_resolve_index t name)))"

definition get_index :: "env \<Rightarrow> string \<Rightarrow> index_info act" where
  "get_index env name = (case read_catalog env of
     Some view \<Rightarrow> liftE (view_get_index view name)
   | None \<Rightarrow> bindE (getE w_tables) (\<lambda>t. liftE (sql_get_index env t name)))"

lemma preserves_get_index [preserve]: "preserves I (get_index env name)"
  unfolding get_index_def by (intro preserve)

lemma preserves_resolve_index [preserve]: "preserves I (resolve_index env name)"
  unfolding resolve_index_def by (intro preserve)

section \<open>The namespace of collections\<close>

definition reserved_names :: "string \<Rightarrow> string list" where
  "reserved_names index = [collection index, document_collection index]"

definition namespace_conflict :: "string \<Rightarrow> string \<Rightarrow> bool" where
  "namespace_conflict index existing =
     list_ex (\<lambda>candidate. candidate \<in> set (reserved_names existing)) (reserved_names index)"

definition check_existing :: "string \<Rightarrow> string \<Rightarrow> unit outcome" where
  "check_existing index existing =
     (if existing = index then Inl (IndexAlreadyExists index)
      else if namespace_conflict index existing
      then bad ''index.name'' (''index ['' @ index @ ''] conflicts with the Qdrant collection namespace reserved by existing index ['' @ existing @ '']; choose a different index name'')
      else Inr ())"

definition ensure_collection_namespace_available :: "tables \<Rightarrow> string \<Rightarrow> unit outcome" where
  "ensure_collection_namespace_available t index =
     (if table_alias t index \<noteq> None
      then bad ''index.name'' (''index ['' @ index @ ''] conflicts with an existing alias'')
      else eachR (check_existing index) (map fst (indices t)))"


section \<open>What both catalogs promise\<close>

locale catalog_lookup =
  fixes index_row :: "'m \<Rightarrow> string \<Rightarrow> 'r option"
    and alias_target :: "'m \<Rightarrow> string \<Rightarrow> string option"
    and resolve :: "'m \<Rightarrow> string \<Rightarrow> (string \<times> 'r) option"
  assumes concrete: "index_row c n = Some r \<Longrightarrow> resolve c n = Some (n, r)"
    and via_alias: "index_row c n = None \<Longrightarrow> alias_target c n = Some k \<Longrightarrow> resolve c n = map_option (Pair k) (index_row c k)"
    and missing: "index_row c n = None \<Longrightarrow> alias_target c n = None \<Longrightarrow> resolve c n = None"
begin

lemma resolve_row: "resolve c n = Some (k, r) \<Longrightarrow> index_row c k = Some r"
  by (cases "index_row c n"; cases "alias_target c n") (auto simp: concrete via_alias missing)

lemma resolve_idem: "resolve c n = Some (k, r) \<Longrightarrow> resolve c k = Some (k, r)"
  by (rule concrete) (rule resolve_row)

lemma resolve_iff:
  "resolve c n = Some (k, r) \<longleftrightarrow>
     index_row c k = Some r \<and> (k = n \<or> index_row c n = None \<and> alias_target c n = Some k)"
  by (cases "index_row c n"; cases "alias_target c n") (auto simp: concrete via_alias missing)

end

interpretation sql: catalog_lookup table_index table_alias sql_resolve
  by unfold_locales (auto simp: sql_resolve_def coalesce_name_def)

interpretation view: catalog_lookup view_index view_alias view_resolve
  by unfold_locales (auto simp: view_resolve_def)

lemma view_row_name: "view_row env r = Inr r' \<Longrightarrow> fst r' = fst r"
  by (auto simp: view_row_def split: prod.splits sum.splits)

lemma view_rows_names: "traverseR (view_row env) rows = Inr rows' \<Longrightarrow> map fst rows' = map fst rows"
  by (induction rows arbitrary: rows') (auto dest: view_row_name)

lemma view_rows_lookup:
  "traverseR (view_row env) rows = Inr rows' \<Longrightarrow>
   (case map_of rows k of None \<Rightarrow> map_of rows' k = None
    | Some (m, vs) \<Rightarrow> \<exists>j js. map_of rows' k = Some (j, js) \<and> parse_json env m = Inr j \<and> parse_strings env vs = Inr js)"
proof (induction rows arbitrary: rows')
  case (Cons r rows)
  obtain n m vs where r: "r = (n, m, vs)" by (cases r)
  from Cons.prems obtain r' rs where rr: "view_row env r = Inr r'" "traverseR (view_row env) rows = Inr rs" "rows' = r' # rs"
    by auto
  from rr(1) obtain j js where "r' = (n, j, js)" "parse_json env m = Inr j" "parse_strings env vs = Inr js"
    by (auto simp: view_row_def r split: sum.splits)
  then show ?case using Cons.IH [OF rr(2)] rr(3) r by (cases "k = n") (auto split: option.splits prod.splits)
qed simp

lemma distinct_map_fst_sort: "distinct (map fst xs) \<Longrightarrow> distinct (map fst (sort_key fst xs))" for xs :: "('k::linorder \<times> 'v) list"
  by (metis mset_eq_imp_distinct_iff mset_map mset_sort)

lemma map_of_sort_key:
  assumes "distinct (map fst xs)"
  shows "map_of (sort_key fst xs) = map_of (xs :: ('k::linorder \<times> 'v) list)"
proof (rule map_of_inject_set [THEN iffD2])
  show "distinct (map fst (sort_key fst xs))"
    using assms by (metis distinct_map_fst_sort)
qed (use assms in simp_all)

lemma into_read_view_parts:
  assumes "into_read_view env s = Inr v"
  shows "traverseR (view_row env) (sn_indices s) = Inr (rv_indices v)" "rv_aliases v = sn_aliases s"
    "distinct (map fst (sn_indices s))"
  using assms view_rows_names by (auto simp: into_read_view_def split: if_splits)

lemma view_agrees:
  assumes v: "into_read_view env s = Inr v"
    and rows: "map_of (sn_indices s) = map_of (indices t)" "map_of (sn_aliases s) = map_of (aliases t)"
  shows "view_get_index v name = sql_get_index env t name"
    and "view_resolve_index v name = sql_resolve_index t name"
proof -
  note parts = into_read_view_parts [OF v]
  have lookup: "case table_index t k of None \<Rightarrow> view_index v k = None
      | Some (m, vs) \<Rightarrow> \<exists>j js. view_index v k = Some (j, js) \<and> parse_json env m = Inr j \<and> parse_strings env vs = Inr js" for k
    using view_rows_lookup [OF parts(1), of k] rows(1) unfolding table_index_def view_index_def by simp
  have same_alias: "view_alias v k = table_alias t k" for k
    using parts(2) rows by (simp add: view_alias_def table_alias_def)
  have resolves: "case sql_resolve t name of None \<Rightarrow> view_resolve v name = None
      | Some (k, m, vs) \<Rightarrow> \<exists>j js. view_resolve v name = Some (k, j, js) \<and> parse_json env m = Inr j \<and> parse_strings env vs = Inr js"
  proof (cases "sql_resolve t name")
    case None
    have "view_resolve v name \<noteq> Some (k, r)" for k r
    proof
      assume r: "view_resolve v name = Some (k, r)"
      then have vk: "view_index v k = Some r"
        and how: "k = name \<or> view_index v name = None \<and> view_alias v name = Some k"
        using view.resolve_iff by auto
      obtain row where "table_index t k = Some row" using lookup [of k] vk by (cases "table_index t k") auto
      moreover have "table_index t name = None" if "view_index v name = None"
        using lookup [of name] that by (cases "table_index t name") auto
      ultimately have "sql_resolve t name = Some (k, row)"
        using how same_alias [of name] sql.resolve_iff [of t name k row] by auto
      then show False using None by simp
    qed
    then show ?thesis using None by (cases "view_resolve v name") auto
  next
    case (Some r)
    then obtain k m vs where r: "sql_resolve t name = Some (k, m, vs)" by (cases r) auto
    then have row: "table_index t k = Some (m, vs)" and how: "k = name \<or> table_index t name = None \<and> table_alias t name = Some k"
      using sql.resolve_iff by auto
    obtain j js where j: "view_index v k = Some (j, js)" "parse_json env m = Inr j" "parse_strings env vs = Inr js"
      using lookup [of k] row by auto
    have "view_resolve v name = Some (k, j, js)"
      using how j(1) lookup [of name] same_alias [of name] view.resolve_iff [of v name k "(j, js)"] by auto
    then show ?thesis using r j by simp
  qed
  show "view_get_index v name = sql_get_index env t name"
    using resolves by (auto simp: view_get_index_def sql_get_index_def split: option.splits)
  show "view_resolve_index v name = sql_resolve_index t name"
    using resolves by (auto simp: view_resolve_index_def sql_resolve_index_def split: option.splits)
qed

section \<open>Properties\<close>

text \<open>A read request served from the parsed view of a published catalog sees exactly what the
  SQL tables it was published from would tell it: the same index, mapping and vectors, or the same
  error, for every index name and alias.\<close>

theorem read_view_equals_tables:
  assumes "distinct (map fst (indices t))" "distinct (map fst (aliases t))"
    and "into_read_view env (snapshot_read t) = Inr view"
  shows "view_get_index view name = sql_get_index env t name
    \<and> view_resolve_index view name = sql_resolve_index t name"
  using view_agrees [OF assms(3)] assms(1,2) by (simp add: snapshot_read_def map_of_sort_key)

definition sample_tables :: tables where
  "sample_tables = \<lparr>indices = [(''shoes'', ''m'', ''v'')], aliases = [(''products'', ''shoes'')]\<rparr>"

definition sample_parse :: "string \<Rightarrow> string + json" where
  "sample_parse text =
     (if text = ''m'' then Inr (JObj []) else if text = ''v'' then Inr (JArr [JStr ''text_all'']) else Inl ''error'')"

lemma sample_rows:
  "parse_json env = sample_parse \<Longrightarrow> into_read_view env (snapshot_read sample_tables) =
     Inr \<lparr>rv_indices = [(''shoes'', JObj [], [''text_all''])], rv_aliases = [(''products'', ''shoes'')]\<rparr>"
  by (simp add: into_read_view_def snapshot_read_def sample_tables_def view_row_def parse_strings_def
      sample_parse_def List.map_filter_def)

lemma read_view_equals_tables_witness:
  "sql_resolve_index sample_tables ''products'' = Inr (''shoes'', collection ''shoes'')"
proof -
  have env: "parse_json (sample_env\<lparr>parse_json := sample_parse\<rparr>) = sample_parse" by simp
  have "view_resolve_index \<lparr>rv_indices = [(''shoes'', JObj [], [''text_all''])], rv_aliases = [(''products'', ''shoes'')]\<rparr>
      ''products'' = sql_resolve_index sample_tables ''products''"
    using read_view_equals_tables [OF _ _ sample_rows [OF env], of "''products''"]
    by (simp add: sample_tables_def)
  then show ?thesis
    by (simp add: view_resolve_index_def view_resolve_def view_index_def view_alias_def)
qed

end
