(* ===== verification/Aggregations.thy ===== *)
theory Aggregations
  imports Catalog FilterSemantics
begin

text \<open>
  Aggregations: \<open>src/aggregations.rs\<close>. A plan holds one reduction per requested name; reductions
  are answered by an exact count or a facet when every document in scope is marked as indexed
  faithfully, and otherwise by observing every document of a complete scroll. Time zones and
  calendar arithmetic belong to the \<open>chrono\<close> crates, the parameter \<open>chrono\<close> of the environment.
\<close>

section \<open>Plans\<close>

type_synonym bucket_map = "(string \<times> json \<times> u64) list"

datatype reduction =
    Metric string bool "rat option"  \<comment> \<open>field, minimum, value\<close>
  | FilterCount json u64
  | FilterCounts bucket_map
  | Terms string nat bucket_map  \<comment> \<open>field, size, counts\<close>
  | Histogram string string string "(int \<times> u64) list"  \<comment> \<open>field, interval, time zone, counts\<close>

type_synonym plan = "(string \<times> reduction) list"

definition max_buckets :: nat where
  "max_buckets = 10000"

definition agg_bad :: "string \<Rightarrow> gateway_error" where
  "agg_bad message = Bad ''aggs'' message"

text \<open>\<open>BTreeMap\<close>: an association list in the order of the keys.\<close>

fun bt_insert :: "'k::linorder \<Rightarrow> 'v \<Rightarrow> ('k \<times> 'v) list \<Rightarrow> ('k \<times> 'v) list" where
  "bt_insert k v [] = [(k, v)]"
| "bt_insert k v ((k', v') # m) =
     (if k < k' then (k, v) # (k', v') # m
      else if k = k' then (k, v) # m
      else (k', v') # bt_insert k v m)"

definition only_options :: "json \<Rightarrow> string list \<Rightarrow> unit outcome" where
  "only_options v allowed =
     bindR (ok_or (agg_bad ''aggregation options must be an object'') (as_object v)) (\<lambda>ob.
       case find (\<lambda>key. key \<notin> set allowed) (keys ob) of
         Some key \<Rightarrow> Inl (agg_bad (''unsupported aggregation option: '' @ key))
       | None \<Rightarrow> Inr ())"

definition agg_field :: "json \<Rightarrow> string outcome" where
  "agg_field v = (case get_str ''field'' v of
     Some f \<Rightarrow> if f = [] then Inl (agg_bad ''aggregation requires a field'') else Inr (compatibility_field f)
   | None \<Rightarrow> Inl (agg_bad ''aggregation requires a field''))"

definition agg_values :: "json option \<Rightarrow> json list" where
  "agg_values v = (case v of None \<Rightarrow> [] | Some (JArr vs) \<Rightarrow> vs | Some v \<Rightarrow> [v])"

definition terms_key :: "env \<Rightarrow> json \<Rightarrow> string" where
  "terms_key env v = (case v of
     JNum n \<Rightarrow>
       (case num_as_i64 n of
          Some i \<Rightarrow> ''number:'' @ show_int i
        | None \<Rightarrow>
            (case num_as_u64 n of
               Some u \<Rightarrow> ''number:'' @ show_nat (unat u)
             | None \<Rightarrow>
                 (let f = num_as_f64 n in
                  if f64_fract f = 0 \<and> - (2 ^ 63) \<le> f \<and> f < 2 ^ 63 then ''number:'' @ show_int \<lfloor>f\<rfloor>
                  else if f64_fract f = 0 \<and> 0 \<le> f \<and> f < 2 ^ 64 then ''number:'' @ show_nat (nat \<lfloor>f\<rfloor>)
                  else ''number:'' @ float_text env f)))
   | _ \<Rightarrow> json_text env v)"

subsection \<open>Parsing a plan\<close>

definition parse_metric :: "string \<Rightarrow> json \<Rightarrow> reduction outcome" where
  "parse_metric kind options =
     bindR (only_options options [''field'']) (\<lambda>_.
     map_ok (\<lambda>f. Metric f (kind = ''min'') None) (agg_field options))"

definition parse_filters :: "json \<Rightarrow> reduction outcome" where
  "parse_filters options =
     bindR (only_options options [''filters'']) (\<lambda>_.
     bindR (ok_or (agg_bad ''filters requires a keyed filters object'') (get_object ''filters'' options)) (\<lambda>filters.
       if max_buckets < length filters then Inl (agg_bad ''too many keyed filters'')
       else bindR (eachR (\<lambda>(_, q). validate_post_filter q) filters) (\<lambda>_.
         Inr (FilterCounts (map (\<lambda>(name, q). (name, q, 0)) filters)))))"

definition terms_size :: "json \<Rightarrow> nat outcome" where
  "terms_size options = (case get ''size'' options of
     None \<Rightarrow> Inr 10
   | Some v \<Rightarrow> (case as_u64 v of
       Some n \<Rightarrow> if 1 \<le> n \<and> n \<le> 1000 then Inr (unat n)
                 else Inl (agg_bad ''terms size must be between 1 and 1000'')
     | None \<Rightarrow> Inl (agg_bad ''terms size must be between 1 and 1000'')))"

definition parse_terms :: "json \<Rightarrow> reduction outcome" where
  "parse_terms options =
     bindR (only_options options [''field'', ''size'']) (\<lambda>_.
     bindR (terms_size options) (\<lambda>sz.
     bindR (agg_field options) (\<lambda>f. Inr (Terms f sz []))))"

definition calendar_interval :: "string \<Rightarrow> string outcome" where
  "calendar_interval s =
     (if s = ''day'' \<or> s = ''1d'' then Inr ''day''
      else if s = ''week'' \<or> s = ''1w'' then Inr ''week''
      else if s = ''month'' \<or> s = ''1M'' then Inr ''month''
      else if s = ''year'' \<or> s = ''1y'' then Inr ''year''
      else Inl (agg_bad ''supported calendar intervals are day, week, month, and year''))"

definition parse_zone :: "calendar \<Rightarrow> json \<Rightarrow> string outcome" where
  "parse_zone cal options =
     bindR (case get ''time_zone'' options of
              None \<Rightarrow> Inr ''UTC''
            | Some v \<Rightarrow> ok_or (agg_bad ''time_zone must be an IANA name'') (as_str v)) (\<lambda>zone.
       if known_zone cal zone then Inr zone else Inl (agg_bad ''time_zone must be a known IANA name''))"

definition parse_histogram :: "calendar \<Rightarrow> json \<Rightarrow> reduction outcome" where
  "parse_histogram cal options =
     bindR (only_options options [''field'', ''calendar_interval'', ''time_zone'', ''min_doc_count'']) (\<lambda>_.
     if Option.bind (get ''min_doc_count'' options) as_u64 \<noteq> Some 1
     then Inl (agg_bad ''date_histogram requires min_doc_count: 1; empty bucket generation is unsupported'')
     else
       bindR (ok_or (agg_bad ''date_histogram requires calendar_interval'') (get_str ''calendar_interval'' options)) (\<lambda>s.
       bindR (calendar_interval s) (\<lambda>interval.
       bindR (parse_zone cal options) (\<lambda>zone.
       bindR (agg_field options) (\<lambda>f. Inr (Histogram f interval zone []))))))"

definition parse_reduction :: "calendar \<Rightarrow> json \<Rightarrow> reduction outcome" where
  "parse_reduction cal spec =
     bindR (ok_or (agg_bad ''aggregation must be an object'') (as_object spec)) (\<lambda>ob.
     case ob of
       [(kind, options)] \<Rightarrow>
         if kind = ''min'' \<or> kind = ''max'' then parse_metric kind options
         else if kind = ''filter'' then bindR (validate_post_filter options) (\<lambda>_. Inr (FilterCount options 0))
         else if kind = ''filters'' then parse_filters options
         else if kind = ''terms'' then parse_terms options
         else if kind = ''date_histogram'' then parse_histogram cal options
         else Inl (agg_bad (''unsupported aggregation: '' @ kind))
     | _ \<Rightarrow> Inl (agg_bad ''each aggregation must contain one supported reducer; nested aggregations are unsupported''))"

definition parse_plan :: "calendar \<Rightarrow> json option \<Rightarrow> plan option outcome" where
  "parse_plan cal v = (case v of
     None \<Rightarrow> Inr None
   | Some v \<Rightarrow>
       bindR (ok_or (agg_bad ''aggregations must be an object'') (as_object v)) (\<lambda>specs.
         if 100 < length specs then Inl (agg_bad ''at most 100 aggregations are supported'')
         else bindR (foldR (\<lambda>(name, spec) plan. map_ok (\<lambda>r. bt_insert name r plan) (parse_reduction cal spec)) specs [])
           (\<lambda>plan. Inr (Some plan))))"

subsection \<open>The fields a plan reads\<close>

fun query_fields :: "json \<Rightarrow> string list" where
  "query_fields (JObj ob) = concat (map (\<lambda>(kind, options).
     if kind = ''term'' \<or> kind = ''terms'' \<or> kind = ''range''
     then (case as_object options of Some os \<Rightarrow> map compatibility_field (keys os) | None \<Rightarrow> [])
     else if kind = ''exists''
     then (case get_str ''field'' options of Some f \<Rightarrow> [compatibility_field f] | None \<Rightarrow> [])
     else query_fields options) ob)"
| "query_fields (JArr vs) = concat (map query_fields vs)"
| "query_fields _ = []"

fun reduction_fields :: "reduction \<Rightarrow> string list" where
  "reduction_fields (Metric f _ _) = [f]"
| "reduction_fields (Terms f _ _) = [f]"
| "reduction_fields (Histogram f _ _ _) = [f]"
| "reduction_fields (FilterCount q _) = query_fields q"
| "reduction_fields (FilterCounts fs) = concat (map (\<lambda>(_, q, _). query_fields q) fs)"

definition mapped_type :: "json \<Rightarrow> string \<Rightarrow> string option" where
  "mapped_type mapping f =
     Option.bind (Option.bind (get ''properties'' mapping) (get f)) field_type"

definition check_agg_field :: "json \<Rightarrow> bool \<Rightarrow> string \<Rightarrow> unit outcome" where
  "check_agg_field mapping projected f =
     (if is_some_and (mapped_type mapping f) (\<lambda>k. k \<in> set [''text'', ''sparse_vector'', ''dense_vector'', ''knn_vector''])
      then Inl (agg_bad (''aggregations do not support text or vector field: '' @ f))
      else if projected \<and> mapped_type mapping f = None
      then Inl (agg_bad (''document projection aggregations require a mapped scalar field: '' @ f))
      else Inr ())"

definition plan_validate_mapping :: "plan \<Rightarrow> json \<Rightarrow> bool \<Rightarrow> unit outcome" where
  "plan_validate_mapping plan mapping projected =
     eachR (check_agg_field mapping projected) (concat (map (\<lambda>(_, r). reduction_fields r) plan))"

section \<open>Observing a document\<close>

definition metric_value :: "bool \<Rightarrow> rat option \<Rightarrow> rat \<Rightarrow> rat" where
  "metric_value minimum previous candidate = (case previous of
     None \<Rightarrow> candidate
   | Some p \<Rightarrow> if minimum then min p candidate else max p candidate)"

definition field_values :: "json \<Rightarrow> string \<Rightarrow> json list" where
  "field_values source f = filter (\<lambda>v. \<not> is_null v) (agg_values (source_field source f))"

definition observe_metric :: "string \<Rightarrow> bool \<Rightarrow> json \<Rightarrow> rat option \<Rightarrow> rat option outcome" where
  "observe_metric f minimum source v =
     foldR (\<lambda>candidate previous.
         bindR (ok_or (agg_bad ''numeric metric field contains a nonnumeric value'') (as_f64 candidate)) (\<lambda>q.
           Inr (Some (metric_value minimum previous q))))
       (field_values source f) v"

definition count_match :: "json \<Rightarrow> json \<Rightarrow> u64 \<Rightarrow> u64" where
  "count_match source q n = n + (if source_matches_query source q then 1 else 0)"

text \<open>A value is counted once per document; \<open>fst\<close> is the state (keys seen, counts).\<close>

definition count_term :: "env \<Rightarrow> json \<Rightarrow> string list \<times> bucket_map \<Rightarrow> (string list \<times> bucket_map) outcome" where
  "count_term env v = (\<lambda>(seen, counts).
     if \<not> (is_string v \<or> is_number v \<or> is_boolean v)
     then Inl (agg_bad ''terms field must contain scalar values'')
     else let key = terms_key env v in
       if key \<in> set seen then Inr (seen, counts)
       else Inr (key # seen,
         (case map_of counts key of
            None \<Rightarrow> bt_insert key (v, 1) counts
          | Some (first, n) \<Rightarrow> bt_insert key (first, n + 1) counts)))"

definition bounded_buckets :: "('k \<times> 'v) list \<Rightarrow> ('k \<times> 'v) list outcome" where
  "bounded_buckets counts =
     (if max_buckets < length counts
      then Inl (agg_bad ''aggregation exceeds 10000 distinct buckets; narrow the query'')
      else Inr counts)"

definition observe_terms :: "env \<Rightarrow> string \<Rightarrow> json \<Rightarrow> bucket_map \<Rightarrow> bucket_map outcome" where
  "observe_terms env f source counts =
     bindR (foldR (count_term env) (field_values source f) ([], counts)) (\<lambda>(_, counts').
       bounded_buckets counts')"

text \<open>The start of the calendar bucket a value falls into.\<close>

definition bucket_instant :: "calendar \<Rightarrow> json \<Rightarrow> int outcome" where
  "bucket_instant cal v = (case as_i64 v of
     Some millis \<Rightarrow>
       if millis_in_range cal millis then Inr millis
       else Inl (agg_bad ''date value is outside the supported timestamp range'')
   | None \<Rightarrow>
       (case as_str v of
          Some t \<Rightarrow>
            (case parse_rfc3339 cal t of
               Some millis \<Rightarrow> Inr millis
             | None \<Rightarrow>
                 (case parse_date cal t of
                    Some day \<Rightarrow> Inr (day * 86400000)
                  | None \<Rightarrow> Inl (agg_bad ''date_histogram accepts epoch milliseconds, RFC3339 timestamps, or YYYY-MM-DD'')))
        | None \<Rightarrow> Inl (agg_bad ''date_histogram field contains an unsupported value'')))"

definition bucket_date :: "calendar \<Rightarrow> string \<Rightarrow> int \<Rightarrow> int option" where
  "bucket_date cal interval day =
     (if interval = ''week'' then
        (let start = day - days_from_monday cal day in if date_in_range cal start then Some start else None)
      else if interval = ''month'' then from_ymd cal (year_of cal day) (month_of cal day) 1
      else if interval = ''year'' then from_ymd cal (year_of cal day) 1 1
      else Some day)"

definition bucket_key :: "calendar \<Rightarrow> json \<Rightarrow> string \<Rightarrow> string \<Rightarrow> int outcome" where
  "bucket_key cal v interval zone =
     bindR (bucket_instant cal v) (\<lambda>instant.
     bindR (ok_or (agg_bad ''calendar bucket is outside the supported date range'')
              (bucket_date cal interval (local_date cal zone instant))) (\<lambda>date.
     case local_midnight cal zone date of
       Single t \<Rightarrow> Inr t
     | Ambiguous a b \<Rightarrow> Inr (min a b)
     | Skipped \<Rightarrow> Inl (agg_bad ''calendar bucket starts at a nonexistent local midnight; this timezone transition is unsupported'')))"

definition count_bucket :: "env \<Rightarrow> string \<Rightarrow> string \<Rightarrow> json \<Rightarrow> int list \<times> (int \<times> u64) list \<Rightarrow> (int list \<times> (int \<times> u64) list) outcome" where
  "count_bucket env interval zone v = (\<lambda>(seen, counts).
     bindR (bucket_key (chrono env) v interval zone) (\<lambda>key.
       if key \<in> set seen then Inr (seen, counts)
       else Inr (key # seen, bt_insert key (unwrap_or 0 (map_of counts key) + 1) counts)))"

definition observe_histogram :: "env \<Rightarrow> string \<Rightarrow> string \<Rightarrow> string \<Rightarrow> json \<Rightarrow> (int \<times> u64) list \<Rightarrow> (int \<times> u64) list outcome" where
  "observe_histogram env f interval zone source counts =
     bindR (foldR (count_bucket env interval zone) (field_values source f) ([], counts)) (\<lambda>(_, counts').
       bounded_buckets counts')"

fun observe :: "env \<Rightarrow> json \<Rightarrow> reduction \<Rightarrow> reduction outcome" where
  "observe env source (Metric f minimum v) = map_ok (Metric f minimum) (observe_metric f minimum source v)"
| "observe env source (FilterCount q n) = Inr (FilterCount q (count_match source q n))"
| "observe env source (FilterCounts fs) = Inr (FilterCounts (map (\<lambda>(name, q, n). (name, q, count_match source q n)) fs))"
| "observe env source (Terms f sz counts) = map_ok (Terms f sz) (observe_terms env f source counts)"
| "observe env source (Histogram f interval zone counts) =
     map_ok (Histogram f interval zone) (observe_histogram env f interval zone source counts)"

definition observe_plan :: "env \<Rightarrow> json \<Rightarrow> plan \<Rightarrow> plan outcome" where
  "observe_plan env source plan = traverseR (\<lambda>(name, r). map_ok (Pair name) (observe env source r)) plan"

section \<open>Results\<close>

definition bucket_cmp :: "(json \<Rightarrow> string) \<Rightarrow> json \<times> u64 \<Rightarrow> json \<times> u64 \<Rightarrow> ordering" where
  "bucket_cmp to_text a b = then_ord (cmp_of (snd b) (snd a)) (value_cmp to_text (fst a) (fst b))"

definition term_bucket :: "json \<times> u64 \<Rightarrow> json" where
  "term_bucket = (\<lambda>(key, count). case key of
     JBool b \<Rightarrow> jobj [(''key'', jint (if b then 1 else 0)),
       (''key_as_string'', JStr (if b then ''true'' else ''false'')), (''doc_count'', jint count)]
   | _ \<Rightarrow> jobj [(''key'', key), (''doc_count'', jint count)])"

definition terms_result :: "(json \<Rightarrow> string) \<Rightarrow> nat \<Rightarrow> bucket_map \<Rightarrow> (json \<times> u64) list \<times> u64" where
  "terms_result to_text sz counts =
     (let buckets = sort_by (bucket_cmp to_text) (map snd counts)
      in (take sz buckets, sum_list (map snd (drop sz buckets))))"

fun finish :: "env \<Rightarrow> reduction \<Rightarrow> json" where
  "finish env (Metric _ _ v) =
     jobj [(''value'', case v of None \<Rightarrow> JNull | Some q \<Rightarrow> JNum (Float q))]"
| "finish env (FilterCount _ n) = jobj [(''doc_count'', jint n)]"
| "finish env (FilterCounts fs) =
     jobj [(''buckets'', jobj (map (\<lambda>(name, _, n). (name, jobj [(''doc_count'', jint n)])) fs))]"
| "finish env (Terms _ sz counts) =
     (case terms_result (json_text env) sz counts of (shown, others) \<Rightarrow>
        jobj [(''doc_count_error_upper_bound'', jint 0), (''sum_other_doc_count'', jint others),
              (''buckets'', JArr (map term_bucket shown))])"
| "finish env (Histogram _ _ zone counts) =
     jobj [(''buckets'', JArr (map (\<lambda>(key, n). jobj [(''key'', JNum (if key < 0 then NegInt (of_int key) else PosInt (of_int key))),
       (''key_as_string'', JStr (time_text (chrono env) zone key)), (''doc_count'', jint n)]) counts))]"

section \<open>Execution\<close>

definition numeric_field_types :: "string list" where
  "numeric_field_types = [''integer'', ''long'', ''short'', ''byte'', ''float'', ''double'', ''half_float'', ''scaled_float'']"

definition range_bound_ok :: "string \<times> json \<Rightarrow> bool" where
  "range_bound_ok = (\<lambda>(op, v). op \<in> set [''gt'', ''gte'', ''lt'', ''lte'']
     \<and> is_some_and (as_f64 v) (\<lambda>n. \<bar>n\<bar> \<le> 9007199254740991))"

text \<open>The marker a filter needs on every document, and the condition that then counts exactly.\<close>

definition count_condition :: "json \<Rightarrow> json \<Rightarrow> (string \<times> json) option" where
  "count_condition q mapping = (case q of
     JObj [(kind, JObj [(raw_field, v)])] \<Rightarrow>
       (let f = compatibility_field raw_field in
        if starts_with ''_'' f \<or> list_ex (\<lambda>c. c \<in> {CHR ''.'', CHR ''['', CHR '']''}) f then None
        else Option.bind (mapped_type mapping f) (\<lambda>mapped.
          if kind = ''term'' \<and> mapped = ''keyword''
          then map_option (\<lambda>s. (''v1:keyword:'' @ f,
                 jobj [(''key'', JStr f), (''match'', jobj [(''value'', JStr s)])]))
               (as_str (unwrap_or v (get ''value'' v)))
          else if kind = ''range'' \<and> mapped \<in> set numeric_field_types
          then Option.bind (as_object v) (\<lambda>bounds.
                 if bounds = [] \<or> \<not> list_all range_bound_ok bounds then None
                 else Some (''v1:number:'' @ f, jobj [(''key'', JStr f), (''range'', JObj bounds)]))
          else None))
   | _ \<Rightarrow> None)"

definition optional_member :: "string \<Rightarrow> json option \<Rightarrow> (string \<times> json) list" where
  "optional_member k v = (case v of None \<Rightarrow> [] | Some x \<Rightarrow> [(k, x)])"

definition coverage_filter :: "json option \<Rightarrow> string \<Rightarrow> json" where
  "coverage_filter flt marker =
     jobj ((''must_not'', JArr [jobj [(''key'', JStr ''_qeg_fast_fields''), (''match'', jobj [(''value'', JStr marker)])]])
           # optional_member ''must'' (map_option (\<lambda>f. JArr [f]) flt))"

definition marker_covered :: "env \<Rightarrow> string \<Rightarrow> json option \<Rightarrow> string \<Rightarrow> bool act" where
  "marker_covered env coll flt marker =
     bindE (request env POST (points_path coll ''/points/scroll'')
       (Some (jobj [(''limit'', jint 1), (''with_payload'', JBool False), (''with_vector'', JBool False),
                    (''filter'', coverage_filter flt marker)]))) (\<lambda>response.
     case Option.bind (pointer [''result'', ''points''] response) as_array of
       None \<Rightarrow> throwE (agg_bad ''invalid Qdrant coverage response'')
     | Some points \<Rightarrow> returnE (points = []))"

text \<open>A speculative read: it counts only when the marker covers the scope; otherwise its result and
  its error are dropped.\<close>

definition if_covered :: "env \<Rightarrow> string \<Rightarrow> json option \<Rightarrow> string \<Rightarrow> json act \<Rightarrow> (json \<Rightarrow> 'a outcome) \<Rightarrow> 'a option act" where
  "if_covered env coll flt marker read k =
     bindE (tryE (marker_covered env coll flt marker)) (\<lambda>covered.
     bindE (tryE read) (\<lambda>response.
     bindE (liftE covered) (\<lambda>c.
       if \<not> c then returnE None
       else bindE (liftE response) (\<lambda>r. bindE (liftE (k r)) (\<lambda>x. returnE (Some x))))))"

definition count_result :: "json \<Rightarrow> json outcome" where
  "count_result response = (case Option.bind (pointer [''result'', ''count''] response) as_u64 of
     None \<Rightarrow> Inl (agg_bad ''invalid Qdrant count response'')
   | Some n \<Rightarrow> Inr (jobj [(''doc_count'', jint n)]))"

definition filter_fast :: "env \<Rightarrow> string \<Rightarrow> json option \<Rightarrow> json \<Rightarrow> string \<times> reduction \<Rightarrow> (string \<times> json) option act" where
  "filter_fast env coll flt mapping = (\<lambda>(name, r). case r of
     FilterCount q _ \<Rightarrow>
       (case count_condition q mapping of
          None \<Rightarrow> returnE None
        | Some (marker, cond) \<Rightarrow>
            if_covered env coll flt marker
              (request env POST (points_path coll ''/points/count'')
                (Some (jobj [(''exact'', JBool True),
                  (''filter'', jobj [(''must'', JArr (cond # (case flt of None \<Rightarrow> [] | Some f \<Rightarrow> [f])))])])))
              (\<lambda>response. map_ok (Pair name) (count_result response)))
   | _ \<Rightarrow> returnE None)"

fun facet_total :: "json list \<Rightarrow> u64 \<Rightarrow> bucket_map \<Rightarrow> (string \<Rightarrow> string) \<Rightarrow> bucket_map outcome" where
  "facet_total [] acc counts quote = Inr counts"
| "facet_total (hit # hits) acc counts quote =
     (case get ''value'' hit of
        Some (JStr s) \<Rightarrow>
          (case Option.bind (get ''count'' hit) as_u64 of
             None \<Rightarrow> Inl (agg_bad ''invalid Qdrant facet count'')
           | Some n \<Rightarrow>
               if unat acc + unat n \<ge> 2 ^ 64 then Inl (agg_bad ''Qdrant facet count overflow'')
               else if map_of counts (quote s) \<noteq> None then Inl (agg_bad ''duplicate Qdrant facet value'')
               else facet_total hits (acc + n) (bt_insert (quote s) (JStr s, n) counts) quote)
      | _ \<Rightarrow> Inl (agg_bad ''invalid Qdrant keyword facet value''))"

definition facet_counts :: "env \<Rightarrow> json \<Rightarrow> bucket_map outcome" where
  "facet_counts env response =
     (case Option.bind (pointer [''result'', ''hits''] response) as_array of
        None \<Rightarrow> Inl (agg_bad ''invalid Qdrant facet response'')
      | Some hits \<Rightarrow>
          if max_buckets < length hits
          then Inl (agg_bad ''aggregation exceeds 10000 distinct buckets; narrow the query'')
          else map_ok (filter (\<lambda>(_, _, n). n > 0)) (facet_total hits 0 [] (\<lambda>s. json_text env (JStr s))))"

definition terms_fast :: "env \<Rightarrow> string \<Rightarrow> json option \<Rightarrow> json \<Rightarrow> string \<times> reduction \<Rightarrow> (string \<times> json) option act" where
  "terms_fast env coll flt mapping = (\<lambda>(name, r). case r of
     Terms f sz _ \<Rightarrow>
       if starts_with ''_'' f \<or> list_ex (\<lambda>c. c \<in> {CHR ''.'', CHR ''['', CHR '']''}) f \<or> mapped_type mapping f \<noteq> Some ''keyword''
       then returnE None
       else if_covered env coll flt (''v1:keyword:'' @ f)
         (request env POST (points_path coll ''/facet'')
           (Some (jobj ([(''key'', JStr f), (''exact'', JBool True), (''limit'', jint (of_nat (max_buckets + 1)))]
                        @ optional_member ''filter'' flt))))
         (\<lambda>response. map_ok (\<lambda>counts. (name, finish env (Terms f sz counts))) (facet_counts env response))
   | _ \<Rightarrow> returnE None)"

text \<open>Every reduction of the plan tried by a fast path: the results, and the plan that remains.\<close>

definition try_fast :: "(string \<times> reduction \<Rightarrow> (string \<times> json) option act) \<Rightarrow> plan \<Rightarrow> ((string \<times> json) list \<times> plan) act" where
  "try_fast fast plan =
     bindE (mapE fast plan) (\<lambda>results.
       returnE (List.map_filter id results,
                map fst (filter (\<lambda>(_, r). r = None) (zip plan results))))"

definition page_plan :: "env \<Rightarrow> json list \<Rightarrow> plan \<Rightarrow> plan outcome" where
  "page_plan env points plan =
     foldR (\<lambda>point plan.
       bindR (ok_or (agg_bad ''aggregation payload is missing'') (get ''payload'' point)) (\<lambda>payload.
         observe_plan env (unwrap_or payload (get ''_source'' payload)) plan)) points plan"

definition offset_member :: "json \<Rightarrow> (string \<times> json) list" where
  "offset_member offset = (if is_null offset then [] else [(''offset'', offset)])"

definition next_offset :: "json \<Rightarrow> json" where
  "next_offset result = unwrap_or JNull (get ''next_page_offset'' result)"

definition aggregate_body :: "env \<Rightarrow> json option \<Rightarrow> json \<Rightarrow> json" where
  "aggregate_body env flt offset =
     jobj ([(''limit'', jint (max (max_page_size (cfg env)) 1)), (''with_payload'', JBool True),
            (''with_vector'', JBool False)] @ optional_member ''filter'' flt @ offset_member offset)"

definition aggregate_round :: "env \<Rightarrow> string \<Rightarrow> json option \<Rightarrow> json \<times> plan \<Rightarrow> (json \<times> plan + plan) act" where
  "aggregate_round env coll flt = (\<lambda>(offset, plan).
     bindE (request env POST (points_path coll ''/points/scroll'') (Some (aggregate_body env flt offset))) (\<lambda>response.
     bindE (liftE (ok_or (agg_bad ''invalid Qdrant scroll response'') (get ''result'' response))) (\<lambda>result.
     bindE (liftE (ok_or (agg_bad ''invalid Qdrant scroll points'') (get_array ''points'' result))) (\<lambda>points.
     bindE (liftE (page_plan env points plan)) (\<lambda>plan'.
       let next = next_offset result in
       if is_null next then returnE (Inr plan')
       else if next = offset \<or> points = [] then throwE (agg_bad ''Qdrant scroll did not advance'')
       else returnE (Inl (next, plan')))))))"

definition plan_results :: "env \<Rightarrow> (string \<times> json) list \<Rightarrow> plan \<Rightarrow> json" where
  "plan_results env completed plan = jobj (completed @ map (\<lambda>(name, r). (name, finish env r)) plan)"

definition execute_plan :: "env \<Rightarrow> nat \<Rightarrow> plan \<Rightarrow> string \<Rightarrow> json option \<Rightarrow> json \<Rightarrow> json option act" where
  "execute_plan env fuel plan coll flt mapping =
     (if plan = [] then doneE (returnE (JObj []))
      else
        let fast = (\<lambda>f. if is_ok (validate_fast_field_namespace mapping) then f else (\<lambda>_. returnE None)) in
        bindE (try_fast (fast (filter_fast env coll flt mapping)) plan) (\<lambda>(counted, plan).
        bindE (try_fast (fast (terms_fast env coll flt mapping)) plan) (\<lambda>(faceted, plan).
          if plan = [] then doneE (returnE (plan_results env (counted @ faceted) []))
          else bindO (loopE fuel (aggregate_round env coll flt) (JNull, plan)) (\<lambda>plan'.
            doneE (returnE (plan_results env (counted @ faceted) plan'))))))"

section \<open>Aggregations only read\<close>

context read_invariant
begin

lemma read_marker_covered: "path_segment coll \<Longrightarrow> preserves I (marker_covered env coll flt marker)"
  unfolding marker_covered_def by (intro preserve read_request is_read_paths)

lemma read_if_covered:
  "path_segment coll \<Longrightarrow> preserves I r \<Longrightarrow> preserves I (if_covered env coll flt marker r k)"
  unfolding if_covered_def by (intro preserve read_marker_covered)

lemma read_filter_fast: "path_segment coll \<Longrightarrow> preserves I (filter_fast env coll flt mapping nr)"
  unfolding filter_fast_def
  by (cases nr; cases "snd nr") (auto intro!: preserve read_if_covered read_request is_read_paths)

lemma read_terms_fast: "path_segment coll \<Longrightarrow> preserves I (terms_fast env coll flt mapping nr)"
  unfolding terms_fast_def
  by (cases nr; cases "snd nr") (auto intro!: preserve read_if_covered read_request is_read_paths)

lemma read_aggregate_round: "path_segment coll \<Longrightarrow> preserves I (aggregate_round env coll flt s)"
  unfolding aggregate_round_def by (intro preserve read_request is_read_paths)

lemma read_try_fast: "(\<And>nr. preserves I (f nr)) \<Longrightarrow> preserves I (try_fast f plan)"
  unfolding try_fast_def by (intro preserve)

lemma read_execute_plan:
  assumes "path_segment coll"
  shows "preserves I (execute_plan env fuel plan coll flt mapping)"
  unfolding execute_plan_def Let_def
  by (intro preserve read_try_fast read_aggregate_round [OF assms])
     (simp_all add: read_filter_fast [OF assms] read_terms_fast [OF assms] preserve)

end

section \<open>Tree maps\<close>

definition bt_remove :: "'k \<Rightarrow> ('k \<times> 'v) list \<Rightarrow> ('k \<times> 'v) list" where
  "bt_remove k m = filter (\<lambda>kv. fst kv \<noteq> k) m"

definition bt_ok :: "('k::linorder \<times> 'v) list \<Rightarrow> bool" where
  "bt_ok m \<longleftrightarrow> sorted_wrt (<) (map fst m)"

lemma map_of_bt_insert: "map_of (bt_insert k v m) = (map_of m)(k \<mapsto> v)"
  by (induction k v m rule: bt_insert.induct) auto

lemma keys_bt_insert: "fst ` set (bt_insert k v m) = insert k (fst ` set m)"
  by (induction k v m rule: bt_insert.induct) (auto simp: insert_commute)

lemma bt_ok_insert: "bt_ok m \<Longrightarrow> bt_ok (bt_insert k v m)"
proof (induction k v m rule: bt_insert.induct)
  case (2 k v k' v' m)
  have "\<forall>a\<in>fst ` set (bt_insert k v m). k' < a" if "k' < k"
    using "2.prems" that unfolding keys_bt_insert by (auto simp: bt_ok_def)
  then show ?case
    using 2 by (cases k k' rule: linorder_cases) (auto simp: bt_ok_def dest: less_trans)
qed (simp add: bt_ok_def)

lemma map_of_filter_key: "map_of (filter (\<lambda>kv. fst kv \<noteq> k') m) k = (if k = k' then None else map_of m k)"
  by (induction m) auto

interpretation tree_map: ordered_map "[]" "\<lambda>k m. map_of m k" bt_insert bt_remove bt_ok
  by unfold_locales
     (simp_all add: map_of_bt_insert map_of_filter_key bt_remove_def bt_ok_insert,
      simp_all add: bt_ok_def sorted_wrt_filter sorted_wrt_map)

section \<open>What the reductions compute\<close>

text \<open>The documents that contribute to a terms bucket.\<close>

definition term_keys :: "env \<Rightarrow> string \<Rightarrow> json \<Rightarrow> string set" where
  "term_keys env f source = terms_key env ` set (field_values source f)"

definition docs_with_key :: "env \<Rightarrow> string \<Rightarrow> json list \<Rightarrow> string \<Rightarrow> nat" where
  "docs_with_key env f sources key = length (filter (\<lambda>s. key \<in> term_keys env f s) sources)"

definition bucket_count :: "bucket_map \<Rightarrow> string \<Rightarrow> u64" where
  "bucket_count counts key = (case map_of counts key of None \<Rightarrow> 0 | Some (_, n) \<Rightarrow> n)"

definition buckets_ok :: "env \<Rightarrow> bucket_map \<Rightarrow> bool" where
  "buckets_ok env counts \<longleftrightarrow> bt_ok counts \<and> (\<forall>key v n. map_of counts key = Some (v, n) \<longrightarrow> terms_key env v = key)"

lemma count_term_step:
  assumes step: "count_term env v (seen, counts) = Inr (seen', counts')"
  shows "set seen' = insert (terms_key env v) (set seen)"
    and "buckets_ok env counts \<Longrightarrow> buckets_ok env counts'"
    and "bucket_count counts' key =
      bucket_count counts key + (if key = terms_key env v \<and> key \<notin> set seen then 1 else 0)"
proof -
  show "set seen' = insert (terms_key env v) (set seen)"
    using step by (auto simp: count_term_def Let_def split: if_splits)
  show "buckets_ok env counts \<Longrightarrow> buckets_ok env counts'"
    using step by (auto simp: count_term_def Let_def buckets_ok_def map_of_bt_insert bt_ok_insert
        split: if_splits option.splits)
  show "bucket_count counts' key =
      bucket_count counts key + (if key = terms_key env v \<and> key \<notin> set seen then 1 else 0)"
    using step by (auto simp: count_term_def Let_def bucket_count_def map_of_bt_insert
        split: if_splits option.splits)
qed

lemma count_terms:
  assumes "foldR (count_term env) vs (seen, counts) = Inr (seen', counts')"
  shows "buckets_ok env counts \<Longrightarrow> buckets_ok env counts'"
    and "bucket_count counts' key =
      bucket_count counts key + (if key \<in> terms_key env ` set vs - set seen then 1 else 0)"
  using assms
proof (induction vs arbitrary: seen counts)
  case (Cons v vs)
  {
    case 1
    then show ?case using Cons.IH(1) count_term_step(2) by (auto dest!: count_term_step(2))
  next
    case 2
    then obtain s1 c1 where step: "count_term env v (seen, counts) = Inr (s1, c1)"
        and rest: "foldR (count_term env) vs (s1, c1) = Inr (seen', counts')"
      by auto
    show ?case
      using Cons.IH(2) [OF rest] count_term_step(3) [OF step, of key] count_term_step(1) [OF step] by auto
  }
qed simp_all

lemma observe_terms_count:
  assumes "observe_terms env f source counts = Inr counts'"
  shows "buckets_ok env counts \<Longrightarrow> buckets_ok env counts'"
    and "bucket_count counts' key = bucket_count counts key + (if key \<in> term_keys env f source then 1 else 0)"
    and "length counts' \<le> max_buckets"
  using assms count_terms [of env "field_values source f" "[]" counts]
  by (auto simp: observe_terms_def bounded_buckets_def term_keys_def split: if_splits)

lemma terms_stream:
  "foldR (observe_terms env f) sources counts = Inr counts' \<Longrightarrow> buckets_ok env counts \<Longrightarrow>
   buckets_ok env counts' \<and> bucket_count counts' key = bucket_count counts key + of_nat (docs_with_key env f sources key)"
proof (induction sources arbitrary: counts)
  case (Cons s sources)
  then obtain c where c: "observe_terms env f s counts = Inr c" "foldR (observe_terms env f) sources c = Inr counts'"
    by auto
  show ?case
    using Cons.IH [OF c(2) observe_terms_count(1) [OF c(1) Cons.prems(2)]] observe_terms_count(2) [OF c(1), of key]
    by (simp add: docs_with_key_def)
qed (simp add: docs_with_key_def)

subsection \<open>Metrics and filters\<close>

definition metric_fold :: "bool \<Rightarrow> rat list \<Rightarrow> rat option \<Rightarrow> rat option" where
  "metric_fold minimum qs v = fold (\<lambda>q p. Some (metric_value minimum p q)) qs v"

lemma observe_metric_fold:
  "observe_metric f minimum source v = Inr v' \<Longrightarrow>
   \<exists>qs. traverseR (\<lambda>c. ok_or (agg_bad ''numeric metric field contains a nonnumeric value'') (as_f64 c)) (field_values source f) = Inr qs
     \<and> v' = metric_fold minimum qs v"
proof -
  have "foldR (\<lambda>candidate previous. bindR (ok_or e (as_f64 candidate)) (\<lambda>q. Inr (Some (metric_value minimum previous q)))) vs v = Inr v' \<Longrightarrow>
      \<exists>qs. traverseR (\<lambda>c. ok_or e (as_f64 c)) vs = Inr qs \<and> v' = metric_fold minimum qs v" for vs and e :: gateway_error
    by (induction vs arbitrary: v) (fastforce simp: metric_fold_def)+
  then show "observe_metric f minimum source v = Inr v' \<Longrightarrow> ?thesis"
    by (simp add: observe_metric_def)
qed

lemma metric_fold_extreme:
  "metric_fold minimum qs None = (if qs = [] then None else Some ((if minimum then Min else Max) (set qs)))"
proof -
  have some: "metric_fold minimum qs (Some p) = Some ((if minimum then Min else Max) (insert p (set qs)))" for p
  proof (induction qs arbitrary: p)
    case (Cons q qs)
    show ?case
    proof (cases "qs = []")
      case False
      then show ?thesis
        using Cons by (simp add: metric_fold_def metric_value_def insert_commute [of p] min.assoc max.assoc min.left_commute max.left_commute)
    qed (simp add: metric_fold_def metric_value_def)
  qed (simp add: metric_fold_def)
  show ?thesis
  proof (cases qs)
    case (Cons q qs')
    then show ?thesis using some [of q] by (cases minimum) (simp_all add: metric_fold_def metric_value_def)
  qed (simp add: metric_fold_def)
qed

lemma filter_stream:
  "foldR (observe env) sources (FilterCount q n) =
     Inr (FilterCount q (n + of_nat (length (filter (\<lambda>s. source_matches_query s q) sources))))"
  by (induction sources arbitrary: n) (simp_all add: count_match_def)

subsection \<open>The terms page\<close>

lemma insert_bucket_desc:
  "sorted_wrt (\<lambda>a b. snd b \<le> snd a) bs \<Longrightarrow> sorted_wrt (\<lambda>a b. snd b \<le> snd a) (insert_by (bucket_cmp to_text) x bs)"
proof (induction bs)
  case (Cons b bs)
  show ?case
  proof (cases "bucket_cmp to_text x b = Greater")
    case True
    then have "snd x \<le> snd b" by (auto simp: bucket_cmp_def)
    then show ?thesis using Cons True by auto
  next
    case False
    then have "\<not> snd x < snd b" by (auto simp: bucket_cmp_def)
    then have "snd b \<le> snd x" by simp
    then show ?thesis using Cons False by (auto dest: order_trans)
  qed
qed simp

lemma sort_buckets_desc: "sorted_wrt (\<lambda>a b. snd b \<le> snd a) (sort_by (bucket_cmp to_text) bs)"
  by (induction bs) (simp_all add: insert_bucket_desc)

lemma terms_result_props:
  assumes r: "terms_result to_text sz counts = (shown, others)"
  shows "length shown = min sz (length counts)" "mset shown \<subseteq># mset (map snd counts)"
    "\<forall>b\<in>set shown. \<forall>c\<in># mset (map snd counts) - mset shown. snd c \<le> snd b"
    "sum_list (map snd shown) + others = sum_list (map (snd \<circ> snd) counts)"
proof -
  let ?bs = "sort_by (bucket_cmp to_text) (map snd counts)"
  have shown: "shown = take sz ?bs" and others: "others = sum_list (map snd (drop sz ?bs))"
    using r by (auto simp: terms_result_def Let_def)
  have split: "mset ?bs = mset shown + mset (drop sz ?bs)"
    unfolding shown by (metis append_take_drop_id mset_append)
  show "length shown = min sz (length counts)" by (simp add: shown min.commute)
  show "mset shown \<subseteq># mset (map snd counts)" using split by (simp add: mset_subset_eq_add_left)
  have rest: "mset (map snd counts) - mset shown = mset (drop sz ?bs)" using split by simp
  have "sorted_wrt (\<lambda>a b. snd b \<le> snd a) (shown @ drop sz ?bs)"
    using sort_buckets_desc by (simp add: shown)
  then show "\<forall>b\<in>set shown. \<forall>c\<in># mset (map snd counts) - mset shown. snd c \<le> snd b"
    unfolding rest by (auto simp: sorted_wrt_append)
  have "sum_list (map snd shown) + others = sum_list (map snd ?bs)"
    unfolding shown others by (metis append_take_drop_id map_append sum_list_append)
  also have "\<dots> = sum_list (map snd (map snd counts))"
    by (metis mset_map mset_sort_by sum_mset_sum_list)
  finally show "sum_list (map snd shown) + others = sum_list (map (snd \<circ> snd) counts)" by (simp add: comp_def)
qed

section \<open>Complete scrolls\<close>

text \<open>What a reply to a scroll says.\<close>

definition reply_result :: "reply \<Rightarrow> json" where
  "reply_result r = (case r of
     Reply _ b \<Rightarrow> unwrap_or JNull (get ''result'' (reply_json b))
   | Unreachable _ \<Rightarrow> JNull)"

definition reply_points :: "reply \<Rightarrow> json list" where
  "reply_points r = unwrap_or [] (get_array ''points'' (reply_result r))"

definition call_offset :: "call \<Rightarrow> json" where
  "call_offset c = unwrap_or JNull (Option.bind (call_body c) (get ''offset''))"

text \<open>Scrolling advances: a page that names a next one moves to an offset of smaller rank. The
  offsets of Qdrant are point ids in increasing order, of which a collection has finitely many.\<close>

definition scroll_advances :: "(trace \<Rightarrow> call \<Rightarrow> reply) \<Rightarrow> (json \<Rightarrow> nat) \<Rightarrow> bool" where
  "scroll_advances qdrant rank \<longleftrightarrow> (\<forall>tr c.
     \<not> is_null (next_offset (reply_result (qdrant tr c))) \<longrightarrow>
     rank (next_offset (reply_result (qdrant tr c))) < rank (call_offset c))"

lemma request_sent:
  assumes "request env m path body w = (Inr v, w')"
  obtains status b where "w_trace w' = w_trace w @ [(make_call m path body, Reply status b)]" "v = reply_json b"
    "env_qdrant env (w_trace w) (make_call m path body) = Reply status b"
  using assms
  by (auto simp: request_def raw_request_def send_request_def bindE_def throwE_def liftE_def returnE_def Let_def
      split: if_split_asm reply.split_asm sum.split_asm prod.split_asm)

lemma loopE_ends:
  assumes smaller: "\<And>s w s' w'. step s w = (Inr (Inl s'), w') \<Longrightarrow> (rank s' :: nat) < rank s"
  shows "rank s < n \<Longrightarrow> fst (loopE n step s w) \<noteq> Inr None"
proof (induction n arbitrary: s w)
  case (Suc n)
  obtain r w1 where r: "step s w = (r, w1)" by (cases "step s w")
  show ?case
  proof (cases r)
    case (Inr q)
    then show ?thesis
      using Suc smaller [of s w] r by (cases q) (fastforce simp: bindE_def returnE_def)+
  qed (simp add: bindE_def r)
qed simp

lemma page_plan_append:
  "page_plan env (xs @ ys) plan = bindR (page_plan env xs plan) (page_plan env ys)"
proof -
  have "foldR f (xs @ ys) s = bindR (foldR f xs s) (foldR f ys)" for f :: "json \<Rightarrow> plan \<Rightarrow> plan outcome" and s
  proof (induction xs arbitrary: s)
    case (Cons x xs)
    then have "foldR f (xs @ ys) = (\<lambda>s. bindR (foldR f xs s) (foldR f ys))" by (rule ext)
    then show ?case by (simp add: bindR_assoc)
  qed simp
  then show ?thesis by (simp add: page_plan_def [abs_def])
qed

lemma get_aggregate_body:
  "get ''offset'' (aggregate_body env flt offset) = (if is_null offset then None else Some offset)"
  "get ''wait'' (aggregate_body env flt offset) = None"
  by (cases flt; simp add: aggregate_body_def optional_member_def offset_member_def get_jobj)+

lemma call_body_no_wait: "get ''wait'' b = None \<Longrightarrow> call_body (make_call m path (Some b)) = Some b"
  by (cases b) (simp_all add: make_call_def take_wait_def)

lemma call_offset_no_wait:
  "get ''wait'' b = None \<Longrightarrow> get ''offset'' b = (if is_null offset then None else Some offset) \<Longrightarrow>
   call_offset (make_call m path (Some b)) = offset"
  by (simp add: call_offset_def call_body_no_wait)

text \<open>The calls of a scroll: one after another from an offset, each asking for the page the reply before
  it named, until a reply names none.\<close>

fun scroll_pages :: "(json \<Rightarrow> call) \<Rightarrow> json \<Rightarrow> trace \<Rightarrow> bool" where
  "scroll_pages page offset [] = False"
| "scroll_pages page offset ((c, rep) # rest) = (c = page offset \<and> call_offset c = offset
     \<and> (let next = next_offset (reply_result rep) in if is_null next then rest = [] else scroll_pages page next rest))"

definition aggregate_call :: "env \<Rightarrow> string \<Rightarrow> json option \<Rightarrow> json \<Rightarrow> call" where
  "aggregate_call env coll flt offset =
     make_call POST (points_path coll ''/points/scroll'') (Some (aggregate_body env flt offset))"

lemma aggregate_round_sent:
  assumes run: "aggregate_round env coll flt (offset, plan) w = (Inr r, w')"
  obtains c rep plan' where "w_trace w' = w_trace w @ [(c, rep)]" "rep = env_qdrant env (w_trace w) c" "call_offset c = offset"
    "c = aggregate_call env coll flt offset" "page_plan env (reply_points rep) plan = Inr plan'"
    "if is_null (next_offset (reply_result rep)) then r = Inr plan' else r = Inl (next_offset (reply_result rep), plan')"
proof -
  let ?body = "aggregate_body env flt offset"
  let ?c = "make_call POST (points_path coll ''/points/scroll'') (Some ?body)"
  obtain v w1 where v: "request env POST (points_path coll ''/points/scroll'') (Some ?body) w = (Inr v, w1)"
    using run by (auto simp: aggregate_round_def bindE_def split: prod.split_asm sum.split_asm)
  obtain status b where sent: "w_trace w1 = w_trace w @ [(?c, Reply status b)]" "v = reply_json b"
      "env_qdrant env (w_trace w) ?c = Reply status b"
    using v by (rule request_sent)
  obtain result points where "get ''result'' v = Some result" "get_array ''points'' result = Some points"
    using run by (cases "get ''result'' v"; cases "Option.bind (get ''result'' v) (get_array ''points'')")
      (auto simp: aggregate_round_def bindE_def v liftE_def)
  then have rep: "reply_result (Reply status b) = result" "reply_points (Reply status b) = points"
    by (simp_all add: reply_result_def reply_points_def sent(2) [symmetric])
  show ?thesis
  proof (rule that [of ?c "Reply status b"])
    show "page_plan env (reply_points (Reply status b)) plan = Inr (case r of Inl (_, p) \<Rightarrow> p | Inr p \<Rightarrow> p)"
      "if is_null (next_offset (reply_result (Reply status b))) then r = Inr (case r of Inl (_, p) \<Rightarrow> p | Inr p \<Rightarrow> p)
       else r = Inl (next_offset (reply_result (Reply status b)), case r of Inl (_, p) \<Rightarrow> p | Inr p \<Rightarrow> p)"
      "w_trace w' = w_trace w @ [(?c, Reply status b)]"
      using run \<open>get ''result'' v = Some result\<close> \<open>get_array ''points'' result = Some points\<close> sent(1)
      by (auto simp: aggregate_round_def bindE_def v liftE_def returnE_def throwE_def Let_def rep
          split: sum.split_asm if_split_asm)
  qed (simp_all add: sent(3) call_offset_no_wait get_aggregate_body aggregate_call_def)
qed

lemma aggregate_loop:
  assumes "loopE n (aggregate_round env coll flt) (offset, plan) w = (Inr (Some plan'), w')"
  shows "\<exists>sent. w_trace w' = w_trace w @ sent \<and> scroll_pages (aggregate_call env coll flt) offset sent
    \<and> page_plan env (concat (map (\<lambda>(_, r). reply_points r) sent)) plan = Inr plan'"
  using assms
proof (induction n arbitrary: offset plan w)
  case (Suc n)
  obtain r w1 where round: "aggregate_round env coll flt (offset, plan) w = (Inr r, w1)"
    using Suc.prems by (cases "aggregate_round env coll flt (offset, plan) w") (auto simp: bindE_def split: sum.split_asm)
  obtain c rep p where sent: "w_trace w1 = w_trace w @ [(c, rep)]" "page_plan env (reply_points rep) plan = Inr p"
      "if is_null (next_offset (reply_result rep)) then r = Inr p else r = Inl (next_offset (reply_result rep), p)"
    and c: "c = aggregate_call env coll flt offset" "call_offset c = offset"
    using round by (rule aggregate_round_sent)
  show ?case
  proof (cases "is_null (next_offset (reply_result rep))")
    case True
    then have "plan' = p" "w' = w1"
      using Suc.prems sent(3) by (auto simp: bindE_def round returnE_def)
    then show ?thesis using sent(1,2) True c by (intro exI [of _ "[(c, rep)]"]) simp
  next
    case False
    then have "loopE n (aggregate_round env coll flt) (next_offset (reply_result rep), p) w1 = (Inr (Some plan'), w')"
      using Suc.prems sent(3) by (simp add: bindE_def round)
    from Suc.IH [OF this] obtain rest where rest: "w_trace w' = w_trace w1 @ rest"
        "scroll_pages (aggregate_call env coll flt) (next_offset (reply_result rep)) rest"
        "page_plan env (concat (map (\<lambda>(_, r). reply_points r) rest)) p = Inr plan'"
      by blast
    then show ?thesis
      using False c by (intro exI [of _ "(c, rep) # rest"]) (simp add: sent(1,2) page_plan_append)
  qed
qed (simp add: returnE_def)

section \<open>Properties\<close>

text \<open>C24: The scan of an aggregation is complete: when it returns, it has sent nothing but scroll calls
  over the collection, the first without an offset, every later one with the offset the reply before it
  named as the next page, until a reply named none; and its reductions are those of observing every point
  of those replies once and in order, whatever the page boundaries.\<close>

theorem aggregate_scan_complete:
  assumes "loopE fuel (aggregate_round env coll flt) (JNull, plan) w = (Inr (Some plan'), w')"
  shows "\<exists>sent. w_trace w' = w_trace w @ sent \<and> scroll_pages (aggregate_call env coll flt) JNull sent
    \<and> page_plan env (concat (map (\<lambda>(_, r). reply_points r) sent)) plan = Inr plan'"
  using assms by (rule aggregate_loop)

text \<open>C25: An aggregation returns: over a Qdrant whose scroll offsets advance, the scan ends, with a
  result or an error, within as many rounds as the rank of its first offset and one more.\<close>

theorem aggregate_scan_ends:
  assumes "scroll_advances (env_qdrant env) rank" "rank JNull < fuel"
  shows "fst (loopE fuel (aggregate_round env coll flt) (JNull, plan) w) \<noteq> Inr None"
proof (rule loopE_ends [where rank = "rank \<circ> fst"])
  fix s s' :: "json \<times> plan" and w w'
  assume run: "aggregate_round env coll flt s w = (Inr (Inl s'), w')"
  obtain offset plan where s: "s = (offset, plan)" by (cases s)
  define r :: "json \<times> plan + plan" where "r = Inl s'"
  obtain c rep plan' where "w_trace w' = w_trace w @ [(c, rep)]" "rep = env_qdrant env (w_trace w) c" "call_offset c = offset"
      "page_plan env (reply_points rep) plan = Inr plan'"
      "if is_null (next_offset (reply_result rep)) then r = Inr plan' else r = Inl (next_offset (reply_result rep), plan')"
    using run [unfolded s, folded r_def] by (rule aggregate_round_sent)
  then show "(rank \<circ> fst) s' < (rank \<circ> fst) s"
    using assms(1) unfolding scroll_advances_def s r_def by (auto split: if_split_asm)
qed (use assms(2) in simp)

text \<open>C26: The counts of a terms aggregation are exact: after observing any documents without an error,
  the count of a key is the number of documents in which some value of the field has that key (each
  document counted once), and every bucket is labelled with a value of its key.\<close>

theorem terms_counts_exact:
  assumes "foldR (observe_terms env f) sources [] = Inr counts"
  shows "bucket_count counts key = of_nat (docs_with_key env f sources key) \<and> buckets_ok env counts"
  using terms_stream [OF assms, of key] by (simp add: buckets_ok_def bt_ok_def bucket_count_def)

text \<open>The page of a terms aggregation is its largest buckets: as many as requested or as there are,
  none of them smaller than a bucket left out, and the shown counts with \<open>sum_other_doc_count\<close> add up
  to all the counts.\<close>

theorem terms_page_top:
  assumes "terms_result to_text sz counts = (shown, others)"
  shows "length shown = min sz (length counts) \<and> mset shown \<subseteq># mset (map snd counts)
    \<and> (\<forall>b\<in>set shown. \<forall>c\<in># mset (map snd counts) - mset shown. snd c \<le> snd b)
    \<and> sum_list (map snd shown) + others = sum_list (map (snd \<circ> snd) counts)"
  using terms_result_props [OF assms] by blast

text \<open>A metric over the numbers of one document is their minimum or maximum, and absent when there
  are none.\<close>

theorem metric_is_extreme:
  assumes "observe_metric f minimum source None = Inr v"
  shows "\<exists>qs. traverseR (\<lambda>c. ok_or (agg_bad ''numeric metric field contains a nonnumeric value'') (as_f64 c)) (field_values source f) = Inr qs
    \<and> v = (if qs = [] then None else Some ((if minimum then Min else Max) (set qs)))"
  using observe_metric_fold [OF assms] by (auto simp: metric_fold_extreme)

section \<open>Examples\<close>

definition tag_source :: "string list \<Rightarrow> json" where
  "tag_source tags = JObj [(''tags'', JArr (map JStr tags))]"

definition tag_env :: env where
  "tag_env = sample_env\<lparr>json_text := (\<lambda>v. unwrap_or [] (as_str v))\<rparr>"

lemma tag_values: "field_values (tag_source tags) ''tags'' = map JStr tags"
  by (simp add: field_values_def tag_source_def source_field_def agg_values_def filter_id_conv)

lemma tag_stream:
  "foldR (observe_terms tag_env ''tags'') [tag_source [''a'', ''b'', ''a''], tag_source [''b'']] [] =
    Inr [(''a'', JStr ''a'', 1), (''b'', JStr ''b'', 2)]"
  by (simp add: observe_terms_def tag_values count_term_def Let_def terms_key_def tag_env_def bounded_buckets_def max_buckets_def)

lemma terms_counts_exact_witness:
  "(2 :: u64) = of_nat (docs_with_key tag_env ''tags'' [tag_source [''a'', ''b'', ''a''], tag_source [''b'']] ''b'')"
  using terms_counts_exact [OF tag_stream, of "''b''"] by (simp only: bucket_count_def) simp

lemma terms_page_top_witness:
  "\<exists>others. terms_result (\<lambda>_. []) 1 [(''a'', JStr ''a'', 1), (''b'', JStr ''b'', 2)] = ([(JStr ''b'', 2)], others) \<and> others = 1"
proof -
  have r: "terms_result (\<lambda>_. []) 1 [(''a'', JStr ''a'', 1), (''b'', JStr ''b'', 2)] = ([(JStr ''b'', 2)], 1)"
    by (simp add: terms_result_def bucket_cmp_def cmp_of_def)
  have "length [(JStr ''b'', 2 :: u64)] = min 1 (length [(''a'', JStr ''a'', 1 :: u64), (''b'', JStr ''b'', 2)])"
    using terms_page_top [OF r] by blast
  then show ?thesis using r by simp
qed

lemma metric_is_extreme_witness:
  "\<exists>qs. traverseR (\<lambda>c. ok_or (agg_bad ''numeric metric field contains a nonnumeric value'') (as_f64 c))
     (field_values (JObj [(''n'', JArr [JNum (Float 3), JNull, JNum (Float 1)])]) ''n'') = Inr qs \<and> Some (1 :: rat) = Some (Min (set qs)) \<and> qs \<noteq> []"
proof -
  have "observe_metric ''n'' True (JObj [(''n'', JArr [JNum (Float 3), JNull, JNum (Float 1)])]) None = Inr (Some 1)"
    by (simp add: observe_metric_def field_values_def source_field_def agg_values_def metric_value_def)
  from metric_is_extreme [OF this] show ?thesis by (auto split: if_splits)
qed

text \<open>A Qdrant whose scrolls have one page.\<close>

definition one_page :: "trace \<Rightarrow> call \<Rightarrow> reply" where
  "one_page _ _ = Reply 200 (Inr (jobj [(''status'', JStr ''ok''), (''result'', jobj [(''points'', JArr [])])]))"

definition one_page_env :: env where
  "one_page_env = sample_env\<lparr>env_qdrant := one_page\<rparr>"

lemma one_page_result [simp]: "reply_result (one_page tr c) = jobj [(''points'', JArr [])]"
  by (simp add: one_page_def reply_result_def reply_json_def get_jobj)

lemma one_page_next [simp]: "next_offset (jobj [(''points'', JArr [])]) = JNull"
  by (simp add: next_offset_def get_jobj)

lemma aggregate_scan_ends_witness:
  "fst (loopE 1 (aggregate_round one_page_env (collection ''shoes'') None) (JNull, [(''n'', FilterCount (JObj []) 0)]) empty_world) \<noteq> Inr None"
  by (rule aggregate_scan_ends [where rank = "\<lambda>_. 0"]) (simp_all add: scroll_advances_def one_page_env_def)

lemma one_page_request:
  "request one_page_env POST (points_path (collection ''shoes'') ''/points/scroll'') body empty_world =
    (Inr (jobj [(''status'', JStr ''ok''), (''result'', jobj [(''points'', JArr [])])]),
     empty_world\<lparr>w_trace := [(make_call POST (points_path (collection ''shoes'') ''/points/scroll'') body, one_page [] undefined)]\<rparr>)"
  by (simp add: request_def raw_request_def send_request_def bindE_def one_page_env_def sample_env_def one_page_def
      empty_world_def mark_admin_def Let_def failed_reply_def is_success_def get_str_def get_jobj reply_json_def returnE_def)

lemma aggregate_scan_complete_witness:
  "\<exists>w' sent. loopE 1 (aggregate_round one_page_env (collection ''shoes'') None) (JNull, []) empty_world = (Inr (Some []), w')
    \<and> w_trace w' = w_trace empty_world @ sent
    \<and> scroll_pages (aggregate_call one_page_env (collection ''shoes'') None) JNull sent"
proof -
  obtain w' where run: "loopE 1 (aggregate_round one_page_env (collection ''shoes'') None) (JNull, []) empty_world = (Inr (Some []), w')"
    by (simp add: bindE_def aggregate_round_def one_page_request liftE_def returnE_def get_jobj get_array_def page_plan_def Let_def)
  from aggregate_scan_complete [OF run] show ?thesis
    using run by blast
qed

end
