(* ===== verification/Documents.thy ===== *)
theory Documents
  imports Catalog
begin

text \<open>
  The document handlers of \<open>src/main.rs\<close>: reading sources back, indexing, creating, fetching,
  deleting and partially updating documents, with and without the separate document collection
  (\<open>document_projection\<close>).
\<close>

section \<open>Reading documents back\<close>

definition collect_sources :: "json \<Rightarrow> string \<Rightarrow> json option" where
  "collect_sources result =
     fold (\<lambda>point m. case get ''payload'' point of
         None \<Rightarrow> m
       | Some payload \<Rightarrow>
           (case get_str ''_es_id'' payload of
              None \<Rightarrow> m
            | Some ident \<Rightarrow> m(ident \<mapsto> unwrap_or (JObj []) (get ''_source'' payload))))
       (unwrap_or [] (get_array ''result'' result)) Map.empty"

definition retrieve_body :: "string list \<Rightarrow> string list \<Rightarrow> json" where
  "retrieve_body ids members =
     jobj [(''ids'', JArr (map JStr ids)), (''with_payload'', JArr (map JStr members)),
           (''with_vector'', JBool False)]"

definition retrieve_sources :: "env \<Rightarrow> string \<Rightarrow> string list \<Rightarrow> (string \<Rightarrow> json option) act" where
  "retrieve_sources env index ids =
     (if ids = [] then returnE Map.empty
      else bindE (request env POST (points_path (document_collection index) ''/points'')
                   (Some (retrieve_body ids [''_es_id'', ''_source'']))) (\<lambda>result.
           returnE (collect_sources result)))"

definition first_source :: "json \<Rightarrow> json option" where
  "first_source response =
     Option.bind (get_array ''result'' response) (\<lambda>points.
       case points of [] \<Rightarrow> None | point # _ \<Rightarrow>
         Option.bind (get ''payload'' point) (get ''_source''))"

definition retrieve_source :: "env \<Rightarrow> string \<Rightarrow> string \<Rightarrow> string \<Rightarrow> json option act" where
  "retrieve_source env index coll ident =
     (if document_projection (cfg env) then
        bindE (retrieve_sources env index [point_id (sha256 env) index ident]) (\<lambda>sources.
          returnE (sources ident))
      else
        bindE (request env POST (points_path coll ''/points'')
                 (Some (retrieve_body [point_id (sha256 env) index ident] [''_source'']))) (\<lambda>response.
          returnE (first_source response)))"

definition payload_ids :: "json \<Rightarrow> string list" where
  "payload_ids result =
     List.map_filter (\<lambda>point. Option.bind (get ''payload'' point) (get_str ''_es_id''))
       (unwrap_or [] (get_array ''result'' result))"

definition retrieve_existing_ids :: "env \<Rightarrow> string \<Rightarrow> string \<Rightarrow> string list \<Rightarrow> string set act" where
  "retrieve_existing_ids env index coll ids =
     (if ids = [] then returnE {}
      else bindE (request env POST
                   (points_path (if document_projection (cfg env) then document_collection index else coll) ''/points'')
                   (Some (retrieve_body (map (point_id (sha256 env) index) ids) [''_es_id'']))) (\<lambda>result.
           returnE (set (payload_ids result))))"

definition document_exists :: "env \<Rightarrow> string \<Rightarrow> string \<Rightarrow> string \<Rightarrow> bool act" where
  "document_exists env index coll ident =
     (if document_projection (cfg env) then
        bindE (retrieve_existing_ids env index coll [ident]) (\<lambda>found. returnE (ident \<in> found))
      else
        bindE (request_optional_point env
                 (points_path coll (''/points/'' @ point_id (sha256 env) index ident @ ''?with_payload=false''))) (\<lambda>point.
          returnE (is_some_and (Option.bind point (get ''result'')) (\<lambda>r. \<not> is_null r))))"

section \<open>Writing\<close>

definition text_value :: "string \<Rightarrow> json" where
  "text_value text = jobj [(''text'', JStr text), (''model'', JStr ''qdrant/bm25'')]"

definition document_point :: "env \<Rightarrow> index_info \<Rightarrow> string \<times> json \<Rightarrow> json outcome" where
  "document_point env = (\<lambda>(index, coll, mapping, vectors) (ident, source).
     bindR (sparse_document source mapping) (\<lambda>sparse.
       let vector = fold (\<lambda>(name, text). obj_insert name (text_value text)) (flatten_text source vectors) sparse;
           payload = (if document_projection (cfg env) then projected_search_payload source ident index mapping
                      else qdrant_payload source ident index mapping)
       in Inr (jobj [(''id'', JStr (point_id (sha256 env) index ident)), (''vector'', JObj vector),
                     (''payload'', JObj payload)])))"

definition points_body :: "json list \<Rightarrow> bool \<Rightarrow> json" where
  "points_body points wait = jobj [(''points'', JArr points), (''wait'', JBool wait)]"

definition one_shard :: "string \<times> json" where
  "one_shard = (''_shards'', jobj [(''total'', jint 1), (''successful'', jint 1), (''failed'', jint 0)])"

definition write_result :: "string \<Rightarrow> string \<Rightarrow> string \<Rightarrow> (string \<times> json) list \<Rightarrow> json" where
  "write_result index ident result more_members =
     jobj ([(''_index'', JStr index), (''_id'', JStr ident), (''_version'', jint 1), (''result'', JStr result),
            one_shard] @ more_members)"

definition sequence_members :: "(string \<times> json) list" where
  "sequence_members = [(''_seq_no'', jint 0), (''_primary_term'', jint 1)]"

definition write_docs :: "env \<Rightarrow> string \<Rightarrow> (string \<times> json) list \<Rightarrow> response act" where
  "write_docs env name docs =
     bindE (get_index env name) (\<lambda>(index, coll, mapping, vectors).
     bindE (liftE (traverseR (document_point env (index, coll, mapping, vectors)) docs)) (\<lambda>points.
     bindE (if document_projection (cfg env)
            then bindE (mutation env PUT (points_path (document_collection index) ''/points'')
                   (Some (points_body (map (\<lambda>(ident, source). source_point (sha256 env) source ident index) docs) True)))
                   (\<lambda>_. returnE ())
            else returnE ()) (\<lambda>_.
     bindE (mutation env PUT (points_path coll ''/points'')
              (Some (points_body points (\<not> async_search_projection (cfg env))))) (\<lambda>_.
       returnE (es_ok (write_result index (case docs of [] \<Rightarrow> [] | (ident, _) # _ \<Rightarrow> ident) ''created'' sequence_members))))))"

definition write_doc :: "env \<Rightarrow> string \<Rightarrow> string \<Rightarrow> json \<Rightarrow> response act" where
  "write_doc env name ident source =
     bindE (get_index env name) (\<lambda>(index, coll, _, _).
     bindE (retrieve_source env index coll ident) (\<lambda>current.
     bindE (write_docs env index [(ident, source)]) (\<lambda>_.
       returnE (es_response (if current \<noteq> None then 200 else 201)
         (write_result index ident (if current \<noteq> None then ''updated'' else ''created'') sequence_members)))))"

definition create_doc :: "env \<Rightarrow> string \<Rightarrow> string \<Rightarrow> json \<Rightarrow> response act" where
  "create_doc env name ident source =
     bindE (get_index env name) (\<lambda>(index, coll, _, _).
     bindE (retrieve_source env index coll ident) (\<lambda>current.
       if current \<noteq> None then throwE (VersionConflict index ident)
       else bindE (write_docs env index [(ident, source)]) (\<lambda>response.
         returnE (response\<lparr>resp_status := 201\<rparr>))))"

definition get_doc :: "env \<Rightarrow> string \<Rightarrow> string \<Rightarrow> response act" where
  "get_doc env name ident =
     bindE (resolve_index env name) (\<lambda>(index, coll).
     bindE (retrieve_source env index coll ident) (\<lambda>current. returnE (case current of
         Some source \<Rightarrow> es_ok (jobj [(''_index'', JStr index), (''_id'', JStr ident), (''found'', JBool True),
           (''_source'', source), (''_version'', jint 1)])
       | None \<Rightarrow> es_response 404 (jobj [(''_index'', JStr index), (''_id'', JStr ident), (''found'', JBool False)]))))"

text \<open>A HEAD request never fails: errors become its status.\<close>

definition head_doc :: "env \<Rightarrow> string \<Rightarrow> string \<Rightarrow> response act" where
  "head_doc env name ident =
     bindE (tryE (bindE (resolve_index env name) (\<lambda>(index, coll). document_exists env index coll ident))) (\<lambda>r.
       returnE (es_empty_response (case r of
         Inl e \<Rightarrow> error_status e | Inr found \<Rightarrow> if found then 200 else 404)))"

definition delete_doc :: "env \<Rightarrow> string \<Rightarrow> string \<Rightarrow> response act" where
  "delete_doc env name ident =
     bindE (get_index env name) (\<lambda>(index, coll, _, _).
     bindE (retrieve_source env index coll ident) (\<lambda>current.
       if current = None then returnE (es_response 404 (write_result index ident ''not_found'' []))
       else
         let point = JStr (point_id (sha256 env) index ident) in
         bindE (if document_projection (cfg env)
                then bindE (mutation env POST (points_path (document_collection index) ''/points/delete'')
                       (Some (points_body [point] True))) (\<lambda>_. returnE ())
                else returnE ()) (\<lambda>_.
         bindE (mutation env POST (points_path coll ''/points/delete'')
                  (Some (points_body [point]
                    (\<not> async_search_projection (cfg env) \<and> \<not> async_payload_writes (cfg env))))) (\<lambda>_.
           returnE (es_ok (write_result index ident ''deleted'' []))))))"

section \<open>Partial updates\<close>

record update_request =
  ur_doc :: object
  ur_upsert :: "json option"
  ur_doc_as_upsert :: bool
  ur_detect_noop :: bool

definition parse_detect_noop :: "json \<Rightarrow> bool outcome" where
  "parse_detect_noop body = (case get ''detect_noop'' body of
     None \<Rightarrow> Inr True
   | Some (JBool b) \<Rightarrow> Inr b
   | Some _ \<Rightarrow> bad ''body.detect_noop'' ''detect_noop must be a boolean'')"

definition parse_update :: "json \<Rightarrow> update_request outcome" where
  "parse_update body =
     (if get ''script'' body \<noteq> None
      then bad ''body.script'' ''scripted updates are not supported; send a partial doc instead''
      else bindR (ok_or (Bad ''body.doc'' ''_update requires a doc object'') (get ''doc'' body)) (\<lambda>doc.
           bindR (ok_or (Bad ''body.doc'' ''doc must be an object'') (as_object doc)) (\<lambda>ob.
           if is_some_and (get ''upsert'' body) (\<lambda>u. \<not> is_object u)
           then bad ''body.upsert'' ''upsert must be an object''
           else bindR (parse_detect_noop body) (\<lambda>noop.
             Inr \<lparr>ur_doc = ob, ur_upsert = get ''upsert'' body,
                  ur_doc_as_upsert = unwrap_or False (Option.bind (get ''doc_as_upsert'' body) as_bool),
                  ur_detect_noop = noop\<rparr>))))"

definition touches_vectors :: "string list \<Rightarrow> object \<Rightarrow> bool" where
  "touches_vectors vectors doc =
     list_ex (\<lambda>field. field = ''_all'' \<or> text_vector field \<in> set vectors \<or> sparse_name field \<in> set vectors) (keys doc)"

definition touches_mapped_payload :: "json \<Rightarrow> object \<Rightarrow> bool" where
  "touches_mapped_payload mapping doc =
     list_ex (\<lambda>field. is_some_and (Option.bind (Option.bind (properties mapping) (obj_get field)) field_type)
       (\<lambda>kind. kind \<noteq> ''text'')) (keys doc)"

definition payload_body :: "object \<Rightarrow> string \<Rightarrow> bool \<Rightarrow> json" where
  "payload_body payload point wait =
     jobj [(''payload'', JObj payload), (''points'', JArr [JStr point]), (''wait'', JBool wait)]"

definition update_missing :: "env \<Rightarrow> string \<Rightarrow> string \<Rightarrow> update_request \<Rightarrow> response act" where
  "update_missing env index ident u =
     (case (if ur_doc_as_upsert u then Some (JObj (ur_doc u)) else ur_upsert u) of
        None \<Rightarrow> throwE (DocumentNotFound index ident)
      | Some source \<Rightarrow>
          bindE (write_docs env index [(ident, source)]) (\<lambda>_.
            returnE (es_response 201 (write_result index ident ''created'' sequence_members))))"

definition update_projected :: "env \<Rightarrow> index_info \<Rightarrow> string \<Rightarrow> object \<Rightarrow> json \<Rightarrow> response act" where
  "update_projected env = (\<lambda>(index, coll, mapping, vectors) ident doc merged.
     if touches_vectors vectors doc then write_doc env index ident merged
     else
       bindE (mutation env PUT (points_path (document_collection index) ''/points'')
                (Some (points_body [source_point (sha256 env) merged ident index] True))) (\<lambda>_.
       bindE (if touches_mapped_payload mapping doc
              then bindE (mutation env POST (points_path coll ''/points/payload'')
                     (Some (payload_body (projected_search_payload merged ident index mapping)
                              (point_id (sha256 env) index ident) (\<not> async_search_projection (cfg env)))))
                     (\<lambda>_. returnE ())
              else returnE ()) (\<lambda>_.
         returnE (es_ok (write_result index ident ''updated'' [])))))"

definition update_payload :: "env \<Rightarrow> index_info \<Rightarrow> string \<Rightarrow> object \<Rightarrow> json \<Rightarrow> response act" where
  "update_payload env = (\<lambda>(index, coll, mapping, vectors) ident doc merged.
     if touches_vectors vectors doc then write_doc env index ident merged
     else
       let path = points_path coll ''/points/payload'';
           body = payload_body (qdrant_payload merged ident index mapping)
             (point_id (sha256 env) index ident) (\<not> async_payload_writes (cfg env)) in
       bindE (if async_payload_writes (cfg env) then spawn_request env POST path body
              else bindE (mutation env POST path (Some body)) (\<lambda>_. returnE ())) (\<lambda>_.
         returnE (es_ok (write_result index ident ''updated'' []))))"

definition update_doc :: "env \<Rightarrow> string \<Rightarrow> string \<Rightarrow> json \<Rightarrow> response act" where
  "update_doc env name ident body =
     bindE (liftE (parse_update body)) (\<lambda>u.
     bindE (get_index env name) (\<lambda>(index, coll, mapping, vectors).
     bindE (retrieve_source env index coll ident) (\<lambda>current. case current of
         None \<Rightarrow> update_missing env index ident u
       | Some source \<Rightarrow>
           (case merge_partial_document source (JObj (ur_doc u)) of (merged, changed) \<Rightarrow>
              if ur_detect_noop u \<and> \<not> changed
              then returnE (es_ok (write_result index ident ''noop'' []))
              else if document_projection (cfg env)
              then update_projected env (index, coll, mapping, vectors) ident (ur_doc u) merged
              else update_payload env (index, coll, mapping, vectors) ident (ur_doc u) merged))))"


section \<open>Invariants\<close>

lemma yields_bind: "(\<And>x. yields Q (k x)) \<Longrightarrow> yields Q (bindE m k)"
  by (auto simp: yields_def bindE_def split: prod.splits sum.splits)

lemma yields_lift: "(\<And>x. r = Inr x \<Longrightarrow> Q x) \<Longrightarrow> yields Q (liftE r)"
  by (simp add: yields_def liftE_def)

lemma yields_get_index: "yields (\<lambda>(index, coll, mapping, vectors). coll = collection index) (get_index env name)"
proof -
  have "yields (\<lambda>(index, coll, mapping, vectors). coll = collection index) (liftE (view_get_index v name))" for v
    by (rule yields_lift) (auto simp: view_get_index_def split: option.splits)
  moreover have "yields (\<lambda>(index, coll, mapping, vectors). coll = collection index) (liftE (sql_get_index env t name))" for t
    by (rule yields_lift) (auto simp: sql_get_index_def split: option.splits sum.splits)
  ultimately show ?thesis
    unfolding get_index_def by (auto intro!: yields_bind split: option.splits)
qed

lemma yields_resolve_index: "yields (\<lambda>(index, coll). coll = collection index) (resolve_index env name)"
proof -
  have "yields (\<lambda>(index, coll). coll = collection index) (liftE (view_resolve_index v name))" for v
    by (rule yields_lift) (auto simp: view_resolve_index_def split: option.splits)
  moreover have "yields (\<lambda>(index, coll). coll = collection index) (liftE (sql_resolve_index t name))" for t
    by (rule yields_lift) (auto simp: sql_resolve_index_def split: option.splits)
  ultimately show ?thesis
    unfolding resolve_index_def by (auto intro!: yields_bind split: option.splits)
qed

context read_invariant
begin

lemma read_retrieve_sources: "preserves I (retrieve_sources env index ids)"
  unfolding retrieve_sources_def by (intro preserve read_request is_read_paths path_segment_collection)

lemma read_retrieve_source: "preserves I (retrieve_source env index (collection index) ident)"
  unfolding retrieve_source_def
  by (intro preserve read_retrieve_sources read_request is_read_paths path_segment_collection)

lemma read_existing_ids: "preserves I (retrieve_existing_ids env index (collection index) ids)"
  unfolding retrieve_existing_ids_def
  by (cases "document_projection (cfg env)")
     (simp_all add: preserve read_request is_read_paths path_segment_collection)

lemma read_document_exists: "preserves I (document_exists env index (collection index) ident)"
  unfolding document_exists_def by (intro preserve read_existing_ids read_optional)

lemma read_get_doc: "preserves I (get_doc env name ident)"
  unfolding get_doc_def
  by (rule preserves_bind_yields [OF preserves_resolve_index yields_resolve_index])
     (auto intro!: preserve read_retrieve_source)

lemma read_head_doc: "preserves I (head_doc env name ident)"
  unfolding head_doc_def
  by (rule preserves_bind, rule preserves_try,
      rule preserves_bind_yields [OF preserves_resolve_index yields_resolve_index])
     (auto intro!: preserve read_document_exists)

end

context client_invariant
begin

lemma inv_retrieve_source: "preserves I (retrieve_source env index coll ident)"
  unfolding retrieve_source_def retrieve_sources_def by (intro preserve inv_request)

lemma inv_write_docs: "preserves I (write_docs env name docs)"
  unfolding write_docs_def by (intro preserve inv_mutation)

lemma inv_write_doc: "preserves I (write_doc env name ident source)"
  unfolding write_doc_def by (intro preserve inv_retrieve_source inv_write_docs)

lemma inv_create_doc: "preserves I (create_doc env name ident source)"
  unfolding create_doc_def by (intro preserve inv_retrieve_source inv_write_docs)

lemma inv_delete_doc: "preserves I (delete_doc env name ident)"
  unfolding delete_doc_def by (intro preserve inv_retrieve_source inv_mutation)

lemma inv_update_doc: "preserves I (update_doc env name ident body)"
  unfolding update_doc_def update_missing_def update_projected_def update_payload_def prod.case
  by (intro preserve inv_retrieve_source inv_write_docs inv_write_doc inv_mutation inv_spawn)

end


section \<open>Reading a write back\<close>

text \<open>What the gateway relies on of Qdrant's point store: once an upsert with \<open>wait=true\<close> has been
  acknowledged, a point of it that is retrieved right after has, if Qdrant answers, the upserted payload,
  restricted to the requested members.\<close>

definition acknowledged :: "reply \<Rightarrow> bool" where
  "acknowledged r \<longleftrightarrow> (case r of Unreachable _ \<Rightarrow> False | Reply status b \<Rightarrow> \<not> failed_reply (status, reply_json b))"

definition stored_reply :: "string \<Rightarrow> string list \<Rightarrow> object \<Rightarrow> reply" where
  "stored_reply pid members payload = Reply 200 (Inr (jobj [(''status'', JStr ''ok''),
     (''result'', JArr [jobj [(''id'', JStr pid),
        (''payload'', JObj (filter (\<lambda>(k, v). k \<in> set members) payload))]])]))"

definition retrieve_call :: "string \<Rightarrow> string \<Rightarrow> string list \<Rightarrow> call" where
  "retrieve_call coll pid members = make_call POST (points_path coll ''/points'') (Some (retrieve_body [pid] members))"

definition reads_latest_write :: "(trace \<Rightarrow> call \<Rightarrow> reply) \<Rightarrow> bool" where
  "reads_latest_write q \<longleftrightarrow> (\<forall>tr coll points r pid payload members point.
     find (\<lambda>p. get ''id'' p = Some (JStr pid)) points = Some point \<and> get ''payload'' point = Some (JObj payload) \<and> acknowledged r \<longrightarrow>
     (let after = tr @ [(make_call PUT (points_path coll ''/points'') (Some (points_body points True)), r)] in
      acknowledged (q after (retrieve_call coll pid members)) \<longrightarrow>
      q after (retrieve_call coll pid members) = stored_reply pid members payload))"

lemma get_write_body: "get ''points'' (points_body points wait) = Some (JArr points)"
  by (simp add: points_body_def get_jobj)

lemma request_acknowledged:
  assumes "\<not> tracked env"
  obtains r w' where "r = env_qdrant env (w_trace w) (make_call m path body)"
    "w_trace (snd (request env m path body w)) = w_trace w @ [(make_call m path body, r)]"
    "if acknowledged r then \<exists>status b. r = Reply status b \<and> fst (request env m path body w) = Inr (reply_json b)
     else \<exists>e. fst (request env m path body w) = Inl e"
proof -
  let ?r = "env_qdrant env (w_trace w) (make_call m path body)"
  have "raw_request env m path body = send_request env m path body" using assms by (simp add: raw_request_def)
  then have "w_trace (snd (request env m path body w)) = w_trace w @ [(make_call m path body, ?r)]
    \<and> (if acknowledged ?r then \<exists>status b. ?r = Reply status b \<and> fst (request env m path body w) = Inr (reply_json b)
       else \<exists>e. fst (request env m path body w) = Inl e)"
    by (cases ?r) (auto simp: request_def send_request_def bindE_def acknowledged_def throwE_def liftE_def returnE_def
        mark_admin_def Let_def)
  with that show thesis by blast
qed

lemma request_untracked_trace:
  assumes "\<not> tracked env" "request env m path body w = (Inr v, w')"
  shows "\<exists>r. acknowledged r \<and> w_trace w' = w_trace w @ [(make_call m path body, r)]"
  by (rule request_acknowledged [OF assms(1), of w m path body]) (use assms(2) in \<open>auto split: if_split_asm\<close>)

lemma tables_after: "preserves (\<lambda>w. w_tables w = t) m \<Longrightarrow> m w = (r, w') \<Longrightarrow> w_tables w = t \<Longrightarrow> w_tables w' = t"
  unfolding preserves_def by (metis snd_conv)

lemma stored_source:
  assumes "reads_latest_write (env_qdrant env)" "\<not> tracked env" "\<not> document_projection (cfg env)"
    and tr: "w_trace w = tr @ [(make_call PUT (points_path coll ''/points'') (Some (points_body [point] True)), r)]" "acknowledged r"
    and point: "get ''id'' point = Some (JStr (point_id (sha256 env) index ident))"
      "get ''payload'' point = Some (JObj payload)" "obj_get ''_source'' payload = Some source"
  shows "if acknowledged (snd (last (w_trace (snd (retrieve_source env index coll ident w)))))
    then fst (retrieve_source env index coll ident w) = Inr (Some source)
    else \<exists>e. fst (retrieve_source env index coll ident w) = Inl e"
proof -
  let ?pid = "point_id (sha256 env) index ident"
  let ?body = "retrieve_body [?pid] [''_source'']"
  obtain r' where r': "r' = env_qdrant env (w_trace w) (retrieve_call coll ?pid [''_source''])"
      "w_trace (snd (request env POST (points_path coll ''/points'') (Some ?body) w)) = w_trace w @ [(retrieve_call coll ?pid [''_source''], r')]"
    and out: "if acknowledged r' then \<exists>status b. r' = Reply status b \<and> fst (request env POST (points_path coll ''/points'') (Some ?body) w) = Inr (reply_json b)
     else \<exists>e. fst (request env POST (points_path coll ''/points'') (Some ?body) w) = Inl e"
    using request_acknowledged [OF assms(2), of w POST "points_path coll ''/points''" "Some ?body"]
    unfolding retrieve_call_def by metis
  have run: "snd (retrieve_source env index coll ident w) = snd (request env POST (points_path coll ''/points'') (Some ?body) w)"
    "fst (retrieve_source env index coll ident w) = map_ok first_source (fst (request env POST (points_path coll ''/points'') (Some ?body) w))"
    using assms(3) by (cases "request env POST (points_path coll ''/points'') (Some ?body) w";
        auto simp: retrieve_source_def bindE_def returnE_def split: sum.splits)+
  have stored: "r' = stored_reply ?pid [''_source''] payload" if "acknowledged r'"
    using assms(1) tr(2) point(1,2) that unfolding reads_latest_write_def r'(1) tr(1) Let_def by simp
  have "obj_get ''_source'' (filter (\<lambda>(k, v). k \<in> set [''_source'']) payload) = Some source"
    using point(3) by (induction payload) (auto split: if_splits)
  then have "first_source (reply_json b) = Some source" if "stored_reply ?pid [''_source''] payload = Reply status b" for status b
    using that by (auto simp: stored_reply_def reply_json_def get_array_def get_jobj first_source_def)
  with out stored show ?thesis
    by (auto simp: run r'(2) split: if_split_asm)
qed

lemma bindE_Inr:
  "bindE m k w = (Inr y, w') \<longleftrightarrow> (\<exists>x w1. m w = (Inr x, w1) \<and> k x w1 = (Inr y, w'))"
  by (auto simp: bindE_def split: prod.splits sum.splits)

lemma get_index_tables: "read_catalog env = None \<Longrightarrow> get_index env name w = (sql_get_index env (w_tables w) name, w)"
  by (simp add: get_index_def bindE_def getE_def liftE_def)

lemma resolve_index_tables: "read_catalog env = None \<Longrightarrow> resolve_index env name w = (sql_resolve_index (w_tables w) name, w)"
  by (simp add: resolve_index_def bindE_def getE_def liftE_def)

lemma sql_get_resolves: "sql_get_index env t name = Inr (index, coll, m, vs) \<Longrightarrow> sql_resolve_index t name = Inr (index, coll)"
  by (auto simp: sql_get_index_def sql_resolve_index_def split: option.splits sum.splits)

lemma sql_get_again: "sql_get_index env t name = Inr (index, coll, m, vs) \<Longrightarrow> sql_get_index env t index = Inr (index, coll, m, vs)"
  by (auto simp: sql_get_index_def split: option.splits sum.splits dest: sql.resolve_idem)

lemma write_docs_last:
  assumes "\<not> tracked env" "\<not> document_projection (cfg env)" "read_catalog env = None"
    and "write_docs env name [(ident, source)] w = (Inr response, w')"
  shows "\<exists>index coll m vs point tr r. acknowledged r \<and> sql_get_index env (w_tables w) name = Inr (index, coll, m, vs)
    \<and> document_point env (index, coll, m, vs) (ident, source) = Inr point
    \<and> w_trace w' = tr @ [(make_call PUT (points_path coll ''/points'')
         (Some (points_body [point] (\<not> async_search_projection (cfg env)))), r)]"
  using assms(4)
  by (auto simp: write_docs_def bindE_Inr get_index_tables [OF assms(3)] liftE_def returnE_def assms(1,2) mutation_def
      dest!: request_untracked_trace [OF assms(1)])

lemma document_point_parts:
  "\<not> document_projection (cfg env) \<Longrightarrow> document_point env (index, coll, m, vs) (ident, source) = Inr point \<Longrightarrow>
   get ''id'' point = Some (JStr (point_id (sha256 env) index ident))
   \<and> get ''payload'' point = Some (JObj (qdrant_payload source ident index m))"
  by (auto simp: document_point_def Let_def get_jobj)

lemma write_doc_last:
  assumes "\<not> tracked env" "\<not> document_projection (cfg env)" "read_catalog env = None"
    and "write_doc env name ident source w = (Inr response, w')"
  shows "\<exists>index coll m vs point tr r. acknowledged r \<and> sql_get_index env (w_tables w) name = Inr (index, coll, m, vs)
    \<and> document_point env (index, coll, m, vs) (ident, source) = Inr point
    \<and> w_trace w' = tr @ [(make_call PUT (points_path coll ''/points'')
         (Some (points_body [point] (\<not> async_search_projection (cfg env)))), r)]
    \<and> w_tables w' = w_tables w"
proof -
  obtain index coll m vs current w1 r1 where
    i: "sql_get_index env (w_tables w) name = Inr (index, coll, m, vs)"
    and rd: "retrieve_source env index coll ident w = (Inr current, w1)"
    and wr: "write_docs env index [(ident, source)] w1 = (Inr r1, w')"
    using assms(4) by (auto simp: write_doc_def bindE_Inr get_index_tables [OF assms(3)] returnE_def)
  have t1: "w_tables w1 = w_tables w"
    by (rule tables_after [OF tables_kept.inv_retrieve_source rd refl])
  have t2: "w_tables w' = w_tables w"
    by (rule tables_after [OF tables_kept.inv_write_docs wr t1])
  from write_docs_last [OF assms(1-3) wr] t1 sql_get_again [OF i] t2 i show ?thesis by auto
qed

section \<open>Properties\<close>

text \<open>C16: A document just indexed is returned by the next GET with the source that was sent, under the alias
  or the index name it was written through, or the GET fails because Qdrant does not answer it; it is never
  missing and never older. This is over a Qdrant that returns, when it answers, what an acknowledged upsert
  with \<open>wait=true\<close> has written; for a gateway whose search projection is not written asynchronously, without a
  collection of documents of its own (no document projection), with the catalog in its own database and outside
  the completion ledger (no read cache); and with no other writer in between.\<close>

theorem write_then_get:
  assumes "reads_latest_write (env_qdrant env)" "\<not> async_search_projection (cfg env)"
    and "\<not> document_projection (cfg env)" "\<not> tracked env"
    and "read_catalog env = None" "write_doc env name ident source w = (Inr response, w')"
  shows "\<exists>index e. fst (get_doc env name ident w') =
    (if acknowledged (snd (last (w_trace (snd (get_doc env name ident w')))))
     then Inr (es_ok (jobj [(''_index'', JStr index), (''_id'', JStr ident), (''found'', JBool True),
       (''_source'', source), (''_version'', jint 1)]))
     else Inl e)"
proof -
  obtain index coll m vs point tr r where
    ack: "acknowledged r" and i: "sql_get_index env (w_tables w) name = Inr (index, coll, m, vs)"
    and p: "document_point env (index, coll, m, vs) (ident, source) = Inr point"
    and tr: "w_trace w' = tr @ [(make_call PUT (points_path coll ''/points'')
         (Some (points_body [point] (\<not> async_search_projection (cfg env)))), r)]"
    and t: "w_tables w' = w_tables w"
    using write_doc_last [OF assms(4,3,5,6)] by auto
  have index: "resolve_index env name w' = (Inr (index, coll), w')"
    using sql_get_resolves [OF i] by (simp add: resolve_index_tables [OF assms(5)] t)
  have "w_trace w' = tr @ [(make_call PUT (points_path coll ''/points'') (Some (points_body [point] True)), r)]"
    using tr assms(2) by simp
  from stored_source [OF assms(1,4,3) this ack, where index = index and ident = ident and source = source]
  have "if acknowledged (snd (last (w_trace (snd (retrieve_source env index coll ident w')))))
    then fst (retrieve_source env index coll ident w') = Inr (Some source)
    else \<exists>e. fst (retrieve_source env index coll ident w') = Inl e"
    using document_point_parts [OF assms(3) p] by (auto simp: qdrant_payload_def obj_get_insert)
  then show ?thesis
    by (cases "retrieve_source env index coll ident w'")
       (auto simp: get_doc_def bindE_def returnE_def index split: if_splits)
qed

definition ok_reply :: reply where
  "ok_reply = Reply 200 (Inr (jobj [(''status'', JStr ''ok''), (''result'', JArr [])]))"

definition upserted_payload :: "json \<Rightarrow> string \<Rightarrow> object option" where
  "upserted_payload body pid =
     Option.bind (get_array ''points'' body) (\<lambda>points.
     Option.bind (find (\<lambda>p. get ''id'' p = Some (JStr pid)) points) (get_object ''payload''))"

text \<open>A point store that remembers the last upsert only.\<close>

definition echo_qdrant :: "trace \<Rightarrow> call \<Rightarrow> reply" where
  "echo_qdrant tr c =
     (case (if tr = [] then None else call_body (fst (last tr)), call_body c) of
        (Some body, Some query) \<Rightarrow>
          (case (get_array ''ids'' query, get_array ''with_payload'' query) of
             (Some [JStr pid], Some members) \<Rightarrow>
               (case upserted_payload body pid of
                  Some payload \<Rightarrow> stored_reply pid (List.map_filter as_str members) payload
                | None \<Rightarrow> ok_reply)
           | _ \<Rightarrow> ok_reply)
      | _ \<Rightarrow> ok_reply)"

lemma put_body: "call_body (make_call PUT path (Some (points_body points wait))) = Some (JObj [(''points'', JArr points)])"
  by (simp add: make_call_def take_wait_def points_body_def jobj_def obj_of_def)

lemma retrieve_body_call: "call_body (make_call POST path (Some (retrieve_body ids members))) = Some (retrieve_body ids members)"
  by (simp add: make_call_def take_wait_def retrieve_body_def jobj_def obj_of_def)

lemma map_filter_strings: "List.map_filter as_str (map JStr ss) = ss"
  by (induction ss) (simp_all add: List.map_filter_def)

lemma retrieve_members:
  "get_array ''ids'' (retrieve_body ids members) = Some (map JStr ids)"
  "get_array ''with_payload'' (retrieve_body ids members) = Some (map JStr members)"
  by (simp_all add: retrieve_body_def get_array_def get_jobj)

lemma upserted_points:
  "find (\<lambda>p. get ''id'' p = Some (JStr pid)) points = Some point \<Longrightarrow> get ''payload'' point = Some (JObj payload) \<Longrightarrow>
   upserted_payload (JObj [(''points'', JArr points)]) pid = Some payload"
  by (simp add: upserted_payload_def get_array_def get_object_def)

lemma echo_reads_latest_write: "reads_latest_write echo_qdrant"
  unfolding reads_latest_write_def
  by (auto simp: echo_qdrant_def put_body retrieve_call_def retrieve_body_call retrieve_members map_filter_strings upserted_points Let_def)

lemma echo_acknowledged: "acknowledged (echo_qdrant tr c)"
proof -
  have "acknowledged ok_reply" "acknowledged (stored_reply pid members payload)" for pid members payload
    by (simp_all add: acknowledged_def ok_reply_def stored_reply_def failed_reply_def reply_json_def is_success_def get_str_def get_jobj)
  then show ?thesis unfolding echo_qdrant_def by (auto split: option.split list.split json.split)
qed

definition echo_env :: env where
  "echo_env = sample_env\<lparr>env_qdrant := echo_qdrant, parse_json := sample_parse\<rparr>"

definition echo_world :: world where
  "echo_world = empty_world\<lparr>w_tables := sample_tables\<rparr>"

lemma echo_index: "sql_get_index echo_env sample_tables ''products'' = Inr (''shoes'', collection ''shoes'', JObj [], [''text_all''])"
  "sql_get_index echo_env sample_tables ''shoes'' = Inr (''shoes'', collection ''shoes'', JObj [], [''text_all''])"
  by (simp_all add: sql_get_index_def sql_resolve_def coalesce_name_def table_index_def table_alias_def
      sample_tables_def echo_env_def parse_strings_def sample_parse_def List.map_filter_def)

lemma echo_simps:
  "read_catalog echo_env = None" "\<not> tracked echo_env" "\<not> document_projection (cfg echo_env)"
  "env_qdrant echo_env = echo_qdrant" "\<not> admin_tracked echo_env" "\<not> async_search_projection (cfg echo_env)"
  by (simp_all add: echo_env_def sample_env_def sample_config_def)

lemma ok_reply_request:
  "\<not> tracked env \<Longrightarrow> env_qdrant env (w_trace w) (make_call m path body) = ok_reply \<Longrightarrow>
   fst (request env m path body w) = Inr (jobj [(''status'', JStr ''ok''), (''result'', JArr [])])"
  by (simp add: request_def raw_request_def send_request_def bindE_def returnE_def Let_def ok_reply_def
      reply_json_def failed_reply_def is_success_def get_str_def get_jobj)

lemma echo_write: "\<exists>response w'. write_doc echo_env ''products'' ident source echo_world = (Inr response, w')"
proof -
  let ?v = "jobj [(''status'', JStr ''ok''), (''result'', JArr [])]"
  let ?get = "request echo_env POST (points_path (collection ''shoes'') ''/points'')
      (Some (retrieve_body [point_id (sha256 echo_env) ''shoes'' ident] [''_source'']))"
  obtain w1 where w1: "?get echo_world = (Inr ?v, w1)" and tr: "\<exists>r. w_trace w1 = [(make_call POST (points_path (collection ''shoes'') ''/points'')
      (Some (retrieve_body [point_id (sha256 echo_env) ''shoes'' ident] [''_source''])), r)]"
  proof -
    have "fst (?get echo_world) = Inr ?v"
      by (rule ok_reply_request) (simp_all add: echo_simps echo_qdrant_def echo_world_def empty_world_def)
    then obtain w1 where "?get echo_world = (Inr ?v, w1)" by (cases "?get echo_world") auto
    then show ?thesis
      using request_untracked_trace [OF echo_simps(2)] that by (fastforce simp: echo_world_def empty_world_def)
  qed
  have t1: "w_tables w1 = sample_tables"
    by (rule tables_after [OF tables_kept.inv_request w1]) (simp add: echo_world_def)
  obtain point where p: "document_point echo_env (''shoes'', collection ''shoes'', JObj [], [''text_all'']) (ident, source) = Inr point"
    by (auto simp: document_point_def sparse_document_def properties_def get_object_def Let_def)
  let ?put = "request echo_env PUT (points_path (collection ''shoes'') ''/points'') (Some (points_body [point] True))"
  have "fst (?put w1) = Inr ?v"
  proof (rule ok_reply_request [OF echo_simps(2)])
    have "get_array ''ids'' (JObj [(''points'', JArr [point])]) = None" by (simp add: get_array_def)
    then show "env_qdrant echo_env (w_trace w1) (make_call PUT (points_path (collection ''shoes'') ''/points'')
        (Some (points_body [point] True))) = ok_reply"
      using tr by (auto simp: echo_simps echo_qdrant_def put_body retrieve_body_call)
  qed
  then obtain w2 where w2: "?put w1 = (Inr ?v, w2)" by (cases "?put w1") auto
  show ?thesis
    using w1 w2 p
    by (simp add: write_doc_def write_docs_def bindE_def get_index_tables echo_simps echo_index echo_world_def
        retrieve_source_def returnE_def liftE_def mutation_def t1 first_source_def get_array_def get_jobj)
qed

lemma retrieved_reply:
  assumes "\<not> tracked env" "\<not> document_projection (cfg env)"
  shows "snd (last (w_trace (snd (retrieve_source env index coll ident w)))) =
    env_qdrant env (w_trace w) (retrieve_call coll (point_id (sha256 env) index ident) [''_source''])"
proof -
  let ?body = "Some (retrieve_body [point_id (sha256 env) index ident] [''_source''])"
  have "snd (retrieve_source env index coll ident w) = snd (request env POST (points_path coll ''/points'') ?body w)"
    using assms(2) by (cases "request env POST (points_path coll ''/points'') ?body w")
      (auto simp: retrieve_source_def bindE_def returnE_def split: sum.splits)
  then show ?thesis
    using request_acknowledged [OF assms(1), of w POST "points_path coll ''/points''" ?body]
    unfolding retrieve_call_def by (metis last_snoc snd_conv)
qed

lemma write_then_get_witness:
  "\<exists>index w'. fst (get_doc echo_env ''products'' ''1'' w') = Inr (es_ok (jobj [(''_index'', JStr index), (''_id'', JStr ''1''),
    (''found'', JBool True), (''_source'', JObj [(''price'', jint 7)]), (''_version'', jint 1)]))"
proof -
  obtain response w' where w: "write_doc echo_env ''products'' ''1'' (JObj [(''price'', jint 7)]) echo_world = (Inr response, w')"
    using echo_write by blast
  have "w_tables w' = sample_tables" using write_doc_last [OF echo_simps(2,3,1) w] by (auto simp: echo_world_def)
  then have "resolve_index echo_env ''products'' w' = (Inr (''shoes'', collection ''shoes''), w')"
    using sql_get_resolves [OF echo_index(1)] by (simp add: resolve_index_tables echo_simps)
  then have "snd (get_doc echo_env ''products'' ''1'' w') = snd (retrieve_source echo_env ''shoes'' (collection ''shoes'') ''1'' w')"
    by (cases "retrieve_source echo_env ''shoes'' (collection ''shoes'') ''1'' w'") (auto simp: get_doc_def bindE_def returnE_def split: sum.splits)
  then have "acknowledged (snd (last (w_trace (snd (get_doc echo_env ''products'' ''1'' w')))))"
    using retrieved_reply [OF echo_simps(2,3)] by (simp add: echo_simps echo_acknowledged)
  moreover have "reads_latest_write (env_qdrant echo_env)" by (simp add: echo_simps echo_reads_latest_write)
  ultimately show ?thesis
    using write_then_get [OF _ echo_simps(6,3,2,1) w] by auto
qed

lemma get_index_world: "get_index env name w = (r, w') \<Longrightarrow> w' = w"
  by (auto simp: get_index_def bindE_def getE_def liftE_def split: option.splits)

lemma get_index_coll:
  assumes "get_index env name w = (Inr (index, coll, mapping, vectors), w')"
  shows "coll = collection index"
proof -
  have "case (index, coll, mapping, vectors) of (index, coll, mapping, vectors) \<Rightarrow> coll = collection index"
    using yields_get_index [of env name, unfolded yields_def, rule_format, of w "(index, coll, mapping, vectors)"] assms
    by simp
  then show ?thesis by simp
qed

lemma only_reads_after: "preserves (only_reads (w_trace w)) m \<Longrightarrow> m w = (r, w') \<Longrightarrow> only_reads (w_trace w) w'"
  unfolding preserves_def using only_reads_start by (metis snd_conv)

text \<open>C17: Creating a document that already exists is a version conflict and only reads were sent
  to Qdrant: nothing is overwritten.\<close>

theorem create_doc_conflict:
  assumes "get_index env name w = (Inr (index, coll, mapping, vectors), w)"
    and "retrieve_source env index coll ident w = (Inr (Some current), w')"
  shows "create_doc env name ident source w = (Inl (VersionConflict index ident), w')
    \<and> only_reads (w_trace w) w'"
proof
  show "create_doc env name ident source w = (Inl (VersionConflict index ident), w')"
    using assms by (simp add: create_doc_def bindE_def throwE_def liftE_def)
  have "coll = collection index"
    using get_index_coll assms(1) by blast
  then show "only_reads (w_trace w) w'"
    using only_reads_after [OF reading.read_retrieve_source] assms(2) by blast
qed

lemma create_doc_conflict_witness:
  "\<exists>w w'. create_doc echo_env ''shoes'' ''1'' (JObj []) w = (Inl (VersionConflict ''shoes'' ''1''), w')
    \<and> only_reads (w_trace w) w'"
proof -
  obtain response w where w: "write_doc echo_env ''products'' ''1'' (JObj [(''price'', jint 7)]) echo_world = (Inr response, w)"
    using echo_write by blast
  obtain index coll m vs point tr r where ack: "acknowledged r"
    and i: "sql_get_index echo_env (w_tables echo_world) ''products'' = Inr (index, coll, m, vs)"
    and p: "document_point echo_env (index, coll, m, vs) (''1'', JObj [(''price'', jint 7)]) = Inr point"
    and tr: "w_trace w = tr @ [(make_call PUT (points_path coll ''/points'')
         (Some (points_body [point] (\<not> async_search_projection (cfg echo_env)))), r)]"
    and t: "w_tables w = w_tables echo_world"
    using write_doc_last [OF echo_simps(2,3,1) w] by auto
  have parts: "index = ''shoes''" "coll = collection ''shoes''" "m = JObj []" "vs = [''text_all'']"
    using i by (auto simp: echo_world_def echo_index)
  have "acknowledged (snd (last (w_trace (snd (retrieve_source echo_env index coll ''1'' w)))))"
    using retrieved_reply [OF echo_simps(2,3)] by (simp add: echo_simps echo_acknowledged)
  moreover have "reads_latest_write (env_qdrant echo_env)" by (simp add: echo_simps echo_reads_latest_write)
  moreover have "w_trace w = tr @ [(make_call PUT (points_path coll ''/points'') (Some (points_body [point] True)), r)]"
    using tr by (simp add: echo_simps)
  ultimately have src: "fst (retrieve_source echo_env index coll ''1'' w) = Inr (Some (JObj [(''price'', jint 7)]))"
    using stored_source [OF _ echo_simps(2,3) _ ack, where index = index and ident = "''1''" and source = "JObj [(''price'', jint 7)]"]
      document_point_parts [OF echo_simps(3) p] by (auto simp: qdrant_payload_def obj_get_insert)
  then obtain w' where "retrieve_source echo_env index coll ''1'' w = (Inr (Some (JObj [(''price'', jint 7)])), w')"
    by (cases "retrieve_source echo_env index coll ''1'' w") auto
  moreover have "get_index echo_env ''shoes'' w = (Inr (index, coll, m, vs), w)"
    using t by (simp add: get_index_tables echo_simps parts echo_world_def echo_index)
  ultimately show ?thesis
    using create_doc_conflict [of echo_env "''shoes''" w index coll m vs "''1''"] parts by blast
qed

text \<open>Fetching a document, or asking whether it exists, sends Qdrant nothing but reads and
  leaves the metadata alone, whatever Qdrant answers.\<close>

theorem document_reads_only:
  "only_reads (w_trace w) (snd (get_doc env name ident w))
   \<and> only_reads (w_trace w) (snd (head_doc env name ident w))
   \<and> w_tables (snd (get_doc env name ident w)) = w_tables w
   \<and> w_tables (snd (head_doc env name ident w)) = w_tables w"
  using reading.read_get_doc reading.read_head_doc only_reads_start
    tables_kept.read_get_doc [where P = "\<lambda>t. t = w_tables w"] tables_kept.read_head_doc [where P = "\<lambda>t. t = w_tables w"]
  by (simp add: preserves_def)

end
