(* ===== verification/Search.thy ===== *)
theory Search
  imports Aggregations Documents SearchRequest SourceFilter
begin

text \<open>
  The search handler of \<open>src/main.rs\<close> (\<open>search_with_total_format\<close>, \<open>expand_more_like_this\<close>,
  \<open>ordered_numeric_hits\<close>, \<open>msearch\<close>, \<open>count\<close>), split at the places where the function changes
  phase: the request is parsed, the scope resolved, the hits collected by one of five scans,
  deduplicated and hydrated, ordered, collapsed, cut and rendered. A scan that pages through Qdrant
  takes the number of rounds to follow it for; \<open>None\<close> is a scan not finished by then.
\<close>

section \<open>The request\<close>

record search_params =
  p_from :: u64
  p_size :: u64
  p_sorts :: sort_specs
  p_track :: track_total_hits
  p_source :: "source_filter option"
  p_collapse :: "collapse_spec option"
  p_cursor :: "json list option"
  p_post_filter :: "json option"

definition parse_search :: "config \<Rightarrow> json \<Rightarrow> bool \<Rightarrow> search_params outcome" where
  "parse_search conf body as_int =
     bindR (validate_search_execution_controls body) (\<lambda>_.
     if get ''pit'' body \<noteq> None
     then bad ''pit'' ''point-in-time snapshots are unsupported; a cursor does not freeze the dataset''
     else
       bindR (case get ''post_filter'' body of None \<Rightarrow> Inr () | Some q \<Rightarrow> validate_post_filter q) (\<lambda>_.
       bindR (parse_search_window body (max_page_size conf)) (\<lambda>(start, psize).
       bindR (parse_sort_specs (get ''sort'' body)) (\<lambda>sorts.
       bindR (validate_search_after body sorts start) (\<lambda>_.
       bindR (parse_track_total_hits body) (\<lambda>track.
       if as_int \<and> (case track of Threshold _ \<Rightarrow> True | _ \<Rightarrow> False)
       then bad ''rest_total_hits_as_int'' ''rest_total_hits_as_int cannot be combined with a numeric track_total_hits threshold''
       else
         bindR (parse_source_filter (get ''_source'' body) ''_source'') (\<lambda>flt.
         bindR (parse_collapse_spec (get ''collapse'' body) (max_page_size conf)) (\<lambda>collapse.
           Inr \<lparr>p_from = start, p_size = psize, p_sorts = sorts, p_track = track, p_source = flt,
                p_collapse = collapse, p_cursor = get_array ''search_after'' body,
                p_post_filter = get ''post_filter'' body\<rparr>))))))))"

definition window :: "search_params \<Rightarrow> u64" where
  "window p = p_from p + p_size p"

definition candidate_limit :: "config \<Rightarrow> search_params \<Rightarrow> u64" where
  "candidate_limit conf p =
     (if p_sorts p = [] \<or> p_size p = 0 then max (window p) 1
      else max (max (window p) (max_page_size conf)) 1)"

text \<open>The document a \<open>more_like_this\<close> query refers to.\<close>

definition like_id :: "json \<Rightarrow> string option" where
  "like_id mlt = Option.bind (get_array ''like'' mlt) (\<lambda>items.
     case items of [] \<Rightarrow> None | item # _ \<Rightarrow> get_str ''_id'' item)"

definition like_fields :: "json \<Rightarrow> string list" where
  "like_fields mlt = List.map_filter as_str (unwrap_or [] (get_array ''fields'' mlt))"

definition like_source :: "env \<Rightarrow> string \<Rightarrow> string \<Rightarrow> string \<Rightarrow> json act" where
  "like_source env index coll ident =
     (if document_projection (cfg env)
      then bindE (retrieve_sources env index [point_id (sha256 env) index ident]) (\<lambda>sources.
             returnE (unwrap_or (JObj []) (sources ident)))
      else bindE (request env GET (points_path coll (''/points/'' @ point_id (sha256 env) index ident @ ''?with_payload=true'')) None) (\<lambda>point.
             returnE (unwrap_or (JObj [])
               (Option.bind (Option.bind (get ''result'' point) (get ''payload'')) (get ''_source'')))))"

definition expand_more_like_this :: "env \<Rightarrow> string \<Rightarrow> json \<Rightarrow> json act" where
  "expand_more_like_this env name query = (case get ''more_like_this'' query of
     None \<Rightarrow> returnE query
   | Some mlt \<Rightarrow>
       bindE (liftE (ok_or (Bad ''more_like_this.like'' ''expected a document reference with _id'') (like_id mlt))) (\<lambda>ident.
       bindE (get_index env name) (\<lambda>(index, coll, _, _).
       bindE (like_source env index coll ident) (\<lambda>source.
         returnE (jobj [(''multi_match'', jobj
           [(''query'', JStr (join_with '' '' (List.map_filter (\<lambda>f. Option.bind (source_field source f) as_str) (like_fields mlt)))),
            (''fields'', JArr (map JStr (like_fields mlt)))])])))))"

section \<open>The scope\<close>

record search_scope =
  s_index :: string
  s_coll :: string
  s_mapping :: json
  s_vectors :: "string list"
  s_query :: json
  s_patterns :: "gateway_pattern list"
  s_sparse :: "(string \<times> json) option"
  s_aggs :: "plan option"
  s_filter :: "json option"
  s_text :: "text_fields option"
  s_like :: "string option"

definition sparse_conflicts :: "string list" where
  "sparse_conflicts = [''aggs'', ''aggregations'', ''post_filter'', ''collapse'', ''sort'', ''search_after'', ''min_score'']"

definition match_all :: json where
  "match_all = jobj [(''match_all'', JObj [])]"

definition plan_scope :: "env \<Rightarrow> json \<Rightarrow> index_info \<Rightarrow> json \<Rightarrow> search_scope outcome" where
  "plan_scope env body = (\<lambda>(index, coll, mapping, vectors) query.
     bindR (collect_patterns (regex_new env) query []) (\<lambda>patterns.
     bindR (sparse_query query mapping) (\<lambda>sparse.
     if sparse \<noteq> None \<and> list_ex (\<lambda>k. get k body \<noteq> None) sparse_conflicts
     then bad ''neural_sparse'' ''aggregations, post_filter, collapse, sort, search_after and min_score are unsupported for explicit sparse queries''
     else
       bindR (parse_plan (chrono env) (or_else (get ''aggs'' body) (get ''aggregations'' body))) (\<lambda>aggs.
       if aggs \<noteq> None \<and> \<not> is_ok (validate_post_filter query)
       then bad ''aggs'' ''aggregations require a filter-only query; ranked and pattern query membership cannot be aggregated exactly''
       else
         bindR (if sparse \<noteq> None then Inr None else query_filter query) (\<lambda>flt.
         bindR (case aggs of None \<Rightarrow> Inr () | Some plan \<Rightarrow> plan_validate_mapping plan mapping (document_projection (cfg env))) (\<lambda>_.
           Inr \<lparr>s_index = index, s_coll = coll, s_mapping = mapping, s_vectors = vectors, s_query = query,
                s_patterns = patterns, s_sparse = sparse, s_aggs = aggs, s_filter = flt,
                s_text = pick_text (parse_float env) query,
                s_like = Option.bind (Option.bind (get ''query'' body) (get ''more_like_this'')) like_id\<rparr>))))))"

definition resolve_scope :: "env \<Rightarrow> string \<Rightarrow> json \<Rightarrow> search_scope act" where
  "resolve_scope env name body =
     bindE (get_index env name) (\<lambda>(index, coll, mapping, vectors).
     bindE (liftE (sparse_validate_request body mapping)) (\<lambda>_.
     bindE (expand_more_like_this env index (unwrap_or match_all (get ''query'' body))) (\<lambda>query.
       liftE (plan_scope env body (index, coll, mapping, vectors) query))))"

definition has_text :: "search_scope \<Rightarrow> bool" where
  "has_text s \<longleftrightarrow> s_text s \<noteq> None \<or> s_sparse s \<noteq> None"

definition filter_only :: "search_params \<Rightarrow> search_scope \<Rightarrow> bool" where
  "filter_only p s \<longleftrightarrow> \<not> has_text s \<and> s_patterns s = [] \<and> p_post_filter p = None"

section \<open>Reads that precede the hits\<close>

definition qdrant_exact_count :: "env \<Rightarrow> string \<Rightarrow> json option \<Rightarrow> u64 act" where
  "qdrant_exact_count env coll flt =
     bindE (request env POST (points_path coll ''/points/count'')
              (Some (jobj ((''exact'', JBool True) # optional_member ''filter'' flt)))) (\<lambda>response.
     liftE (ok_or (Upstream ''Qdrant count response did not contain result.count'')
       (Option.bind (Option.bind (get ''result'' response) (get ''count'')) as_u64)))"

definition include_payload :: "string list \<Rightarrow> json" where
  "include_payload members = jobj [(''include'', JArr (map JStr members))]"

definition search_hit :: "string \<Rightarrow> json \<Rightarrow> json \<Rightarrow> json \<Rightarrow> json" where
  "search_hit index ident score source =
     jobj [(''_index'', JStr index), (''_id'', ident), (''_score'', score), (''_source'', source)]"

definition ordered_eligible :: "env \<Rightarrow> search_params \<Rightarrow> json \<Rightarrow> json \<Rightarrow> bool" where
  "ordered_eligible env p body mapping \<longleftrightarrow>
     \<not> document_projection (cfg env) \<and> is_ok (validate_fast_field_namespace mapping)
     \<and> length (p_sorts p) = 1 \<and> window p \<noteq> 0 \<and> p_post_filter p = None \<and> get ''collapse'' body = None
     \<and> (case p_sorts p of
          (field, _) # _ \<Rightarrow> \<not> list_ex (\<lambda>c. c \<in> {CHR ''.'', CHR ''['', CHR '']''}) field
            \<and> is_some_and (mapped_type mapping field) (\<lambda>k. k \<in> set numeric_kinds)
        | [] \<Rightarrow> False)
     \<and> is_none_or (Option.bind (p_cursor p) (\<lambda>c. case c of [] \<Rightarrow> None | v # _ \<Rightarrow> Some v)) sort_safe_number"

definition cursor_clause :: "search_params \<Rightarrow> string \<Rightarrow> string \<Rightarrow> json list" where
  "cursor_clause p field direction = (case p_cursor p of
     Some (v # _) \<Rightarrow> [jobj [(''key'', JStr field), (''range'', jobj [(if direction = ''desc'' then ''lt'' else ''gt'', v)])]]
   | _ \<Rightarrow> [])"

definition ordered_request :: "search_params \<Rightarrow> json option \<Rightarrow> string \<Rightarrow> string \<Rightarrow> json" where
  "ordered_request p flt field direction =
     (let clauses = (case flt of None \<Rightarrow> [] | Some f \<Rightarrow> [f]) @ cursor_clause p field direction in
      jobj ([(''limit'', jint (window p + 1)),
             (''order_by'', jobj [(''key'', JStr field), (''direction'', JStr direction)]),
             (''with_payload'', include_payload [''_es_id'', ''_source'']), (''with_vector'', JBool False)]
            @ (if clauses = [] then [] else [(''filter'', jobj [(''must'', JArr clauses)])])))"

definition point_hit :: "string \<Rightarrow> json \<Rightarrow> json" where
  "point_hit index point = (let payload = index_key ''payload'' point in
     search_hit index (index_key ''_es_id'' payload) JNull (index_key ''_source'' payload))"

text \<open>The candidate hits in order, or \<open>None\<close> when the page cannot be trusted to them.\<close>

definition accept_ordered :: "(json \<Rightarrow> string) \<Rightarrow> sort_specs \<Rightarrow> string \<Rightarrow> nat \<Rightarrow> json list \<Rightarrow> json list option" where
  "accept_ordered to_text sorts field n hits =
     (if list_ex (\<lambda>h. \<not> sort_safe_number (hit_sort_value h field)) hits then None
      else
        let hits = sort_hits to_text sorts hits in
        if n < length hits
           \<and> value_cmp to_text (hit_sort_value (hits ! (n - 1)) field) (hit_sort_value (hits ! n) field) = Equal
        then None
        else Some (take n hits))"

definition ordered_numeric_hits :: "env \<Rightarrow> search_params \<Rightarrow> json \<Rightarrow> search_scope \<Rightarrow> json list option act" where
  "ordered_numeric_hits env p body s =
     (case p_sorts p of
        [] \<Rightarrow> returnE None
      | (field, direction) # _ \<Rightarrow>
          if \<not> ordered_eligible env p body (s_mapping s) then returnE None
          else
            let path = points_path (s_coll s) ''/points/scroll'' in
            bindE (tryE (request env POST path (Some (jobj
                    [(''filter'', coverage_filter (s_filter s) (''v1:number:'' @ field)), (''limit'', jint 1),
                     (''with_payload'', JBool False), (''with_vector'', JBool False)])))) (\<lambda>coverage.
            bindE (tryE (request env POST path (Some (ordered_request p (s_filter s) field direction)))) (\<lambda>response.
            bindE (liftE coverage) (\<lambda>coverage.
            case Option.bind (pointer [''result'', ''points''] coverage) as_array of
              None \<Rightarrow> throwE (Bad ''search'' ''invalid ordered-scroll eligibility response'')
            | Some uncovered \<Rightarrow>
                if uncovered \<noteq> [] then returnE None
                else bindE (liftE response) (\<lambda>response.
                  case Option.bind (pointer [''result'', ''points''] response) as_array of
                    None \<Rightarrow> throwE (Bad ''search'' ''invalid ordered Qdrant scroll points'')
                  | Some points \<Rightarrow>
                      returnE (accept_ordered (json_text env) (p_sorts p) field (unat (window p))
                        (map (point_hit (s_index s)) points)))))))"

section \<open>Collecting hits\<close>

definition count_only :: "env \<Rightarrow> search_params \<Rightarrow> search_scope \<Rightarrow> u64 option \<Rightarrow> bool" where
  "count_only env p s exact_total \<longleftrightarrow>
     p_size p = 0 \<and> (\<not> document_projection (cfg env) \<or> p_sorts p = []) \<and> \<not> has_text s \<and> s_patterns s = []
     \<and> p_post_filter p = None \<and> p_collapse p = None \<and> (exact_total \<noteq> None \<or> p_track p = Disabled)"

definition complete_scan :: "search_params \<Rightarrow> search_scope \<Rightarrow> bool \<Rightarrow> bool \<Rightarrow> bool" where
  "complete_scan p s counted ordered \<longleftrightarrow>
     \<not> counted \<and> \<not> ordered \<and> \<not> has_text s \<and> s_patterns s = [] \<and> (p_sorts p \<noteq> [] \<or> p_post_filter p \<noteq> None)"

subsection \<open>Sparse and ranked queries\<close>

definition sparse_hit :: "string \<Rightarrow> json \<Rightarrow> json" where
  "sparse_hit index point = (let payload = index_key ''payload'' point in
     search_hit index (index_key ''_es_id'' payload) (index_key ''score'' point)
       (unwrap_or (JObj []) (get ''_source'' payload)))"

definition sparse_hits :: "env \<Rightarrow> search_params \<Rightarrow> search_scope \<Rightarrow> string \<times> json \<Rightarrow> json list act" where
  "sparse_hits env p s = (\<lambda>(using_vector, vector).
     bindE (request env POST (points_path (s_coll s) ''/points/query'') (Some (jobj
       [(''query'', vector), (''using'', JStr using_vector), (''limit'', jint (max (window p) 1)),
        (''with_payload'', include_payload [''_es_id'', ''_source''])]))) (\<lambda>response.
     returnE (map (sparse_hit (s_index s)) (unwrap_or [] (Option.bind (pointer [''result'', ''points''] response) as_array)))))"

definition json_f64 :: "rat option \<Rightarrow> json" where
  "json_f64 q = (case q of None \<Rightarrow> JNull | Some r \<Rightarrow> JNum (Float r))"

definition boosted_score :: "rat \<Rightarrow> f32 \<Rightarrow> json" where
  "boosted_score score boost = json_f64 (Option.bind boost (\<lambda>b. f64_round (score * b)))"

definition payload_hit :: "string \<Rightarrow> (json \<Rightarrow> json) \<Rightarrow> json \<Rightarrow> json" where
  "payload_hit index score point = (let payload = unwrap_or (JObj []) (get ''payload'' point) in
     search_hit index (unwrap_or (JStr []) (get ''_es_id'' payload)) (score point)
       (unwrap_or (JObj []) (get ''_source'' payload)))"

definition result_points :: "json \<Rightarrow> json list option" where
  "result_points response = Option.bind (get ''result'' response) (get_array ''points'')"

definition point_score :: "json \<Rightarrow> rat" where
  "point_score point = unwrap_or 0 (Option.bind (get ''score'' point) as_f64)"

definition text_request :: "env \<Rightarrow> search_params \<Rightarrow> search_scope \<Rightarrow> string \<Rightarrow> string \<Rightarrow> json" where
  "text_request env p s text vector =
     jobj ([(''query'', jobj [(''text'', JStr text), (''model'', JStr ''qdrant/bm25'')]), (''using'', JStr vector),
            (''limit'', jint (candidate_limit (cfg env) p)),
            (''with_payload'', include_payload
               (if document_projection (cfg env) \<and> s_patterns s = [] then [''_es_id''] else [''_es_id'', ''_source'']))]
           @ optional_member ''filter'' (s_filter s))"

definition text_hits :: "env \<Rightarrow> search_params \<Rightarrow> search_scope \<Rightarrow> string \<times> (string \<times> f32) list \<Rightarrow> json list act" where
  "text_hits env p s = (\<lambda>(text, text_fields).
     bindE (mapE (\<lambda>(vector, boost).
         bindE (request env POST (points_path (s_coll s) ''/points/query'') (Some (text_request env p s text vector))) (\<lambda>response.
           returnE (map (payload_hit (s_index s) (\<lambda>point. boosted_score (point_score point) boost))
             (unwrap_or [] (result_points response)))))
       (List.map_filter (\<lambda>(field, boost).
          map_option (\<lambda>v. (v, boost)) (search_vector_for_field (s_mapping s) (s_vectors s) field)) text_fields))
       (\<lambda>found. returnE (concat found)))"

subsection \<open>The approximate-text scan\<close>

text \<open>It reads the whole collection of sources; nothing stops it but the absence of a next page.\<close>

definition approximate_body :: "env \<Rightarrow> search_scope \<Rightarrow> json \<Rightarrow> json" where
  "approximate_body env s offset =
     jobj ([(''limit'', jint (max_page_size (cfg env))), (''with_payload'', include_payload [''_es_id'', ''_source''])]
           @ optional_member ''filter'' (s_filter s) @ offset_member offset)"

definition scan_next :: "json \<Rightarrow> json" where
  "scan_next response = unwrap_or JNull (Option.bind (get ''result'' response) (get ''next_page_offset''))"

definition approximate_round :: "env \<Rightarrow> search_scope \<Rightarrow> json \<times> json list \<Rightarrow> (json \<times> json list + json list) act" where
  "approximate_round env s = (\<lambda>(offset, hits).
     bindE (request env POST (points_path
         (if document_projection (cfg env) then document_collection (s_index s) else s_coll s) ''/points/scroll'')
       (Some (approximate_body env s offset))) (\<lambda>response.
     let found = filter (\<lambda>h. text_query_matches (lower env) (json_text env) (index_key ''_source'' h) (s_query s))
           (map (payload_hit (s_index s) (\<lambda>_. JNum (Float 1))) (unwrap_or [] (result_points response)));
         next = scan_next response
     in returnE (if is_null next then Inr (hits @ found) else Inl (next, hits @ found))))"

subsection \<open>The filter scan\<close>

record scan_state =
  sc_offset :: json
  sc_hits :: "json list"
  sc_total :: u64

definition scan_limit :: "env \<Rightarrow> search_params \<Rightarrow> search_scope \<Rightarrow> bool \<Rightarrow> u64" where
  "scan_limit env p s full =
     (if s_patterns s = [] \<and> \<not> full then candidate_limit (cfg env) p else max (max_page_size (cfg env)) 1)"

definition scan_body :: "env \<Rightarrow> search_params \<Rightarrow> search_scope \<Rightarrow> bool \<Rightarrow> json \<Rightarrow> json" where
  "scan_body env p s full offset =
     jobj ([(''limit'', jint (scan_limit env p s full)),
            (''with_payload'', include_payload
               (if document_projection (cfg env) \<and> s_patterns s = [] \<and> \<not> full then [''_es_id''] else [''_es_id'', ''_source'']))]
           @ optional_member ''filter'' (s_filter s) @ offset_member offset)"

definition point_es_id :: "json \<Rightarrow> string option" where
  "point_es_id point = Option.bind (pointer [''payload'', ''_es_id''] point) as_str"

definition matches_patterns :: "env \<Rightarrow> search_scope \<Rightarrow> json \<Rightarrow> bool" where
  "matches_patterns env s source = list_all (pattern_matches (regex_new env) (regex_escape env) source) (s_patterns s)"

definition scan_source :: "(string \<Rightarrow> json option) \<Rightarrow> json \<Rightarrow> json" where
  "scan_source sources payload =
     unwrap_or (JObj []) (or_else (sources (unwrap_or [] (get_str ''_es_id'' payload))) (get ''_source'' payload))"

definition past_cursor :: "env \<Rightarrow> search_params \<Rightarrow> json \<Rightarrow> bool" where
  "past_cursor env p hit \<longleftrightarrow> (case p_cursor p of
     None \<Rightarrow> True | Some cursor \<Rightarrow> hit_is_after (json_text env) hit cursor (p_sorts p))"

definition scan_point :: "env \<Rightarrow> search_params \<Rightarrow> search_scope \<Rightarrow> bool \<Rightarrow> (string \<Rightarrow> json option) \<Rightarrow> json \<Rightarrow> json list \<times> u64 \<Rightarrow> json list \<times> u64" where
  "scan_point env p s full sources point = (\<lambda>(hits, found).
     let payload = unwrap_or (JObj []) (get ''payload'' point);
         source = scan_source sources payload;
         hit = search_hit (s_index s) (unwrap_or (JStr []) (get ''_es_id'' payload)) JNull source
     in if full \<and> document_projection (cfg env) \<and> sources (unwrap_or [] (get_str ''_es_id'' payload)) = None
        then (hits, found)
        else if full \<and> is_some_and (p_post_filter p) (\<lambda>q. \<not> source_matches_query source q)
        then (hits, found)
        else
          let found = (if full then found + 1 else found) in
          if \<not> matches_patterns env s source then (hits, found)
          else if full \<and> p_collapse p = None \<and> \<not> past_cursor env p hit then (hits, found)
          else (hits @ [hit], found))"

definition keep_page :: "env \<Rightarrow> search_params \<Rightarrow> bool \<Rightarrow> json list \<Rightarrow> json list" where
  "keep_page env p full hits =
     (if full \<and> p_collapse p = None
      then take (unat (window p)) (sort_hits (json_text env) (p_sorts p) hits) else hits)"

definition scan_round :: "env \<Rightarrow> search_params \<Rightarrow> search_scope \<Rightarrow> bool \<Rightarrow> scan_state \<Rightarrow> (scan_state + json list \<times> u64) act" where
  "scan_round env p s full st =
     bindE (request env POST (points_path (s_coll s) ''/points/scroll'')
       (Some (scan_body env p s full (sc_offset st)))) (\<lambda>response.
     case result_points response of
       None \<Rightarrow> throwE (Bad ''search'' ''invalid Qdrant scroll points'')
     | Some points \<Rightarrow>
         bindE (if full \<and> document_projection (cfg env)
                then retrieve_sources env (s_index s) (map (point_id (sha256 env) (s_index s)) (List.map_filter point_es_id points))
                else returnE Map.empty) (\<lambda>sources.
         case fold (scan_point env p s full sources) points (sc_hits st, sc_total st) of (hits, found) \<Rightarrow>
         let hits = keep_page env p full hits; next = scan_next response in
         if is_null next \<or> (s_patterns s = [] \<and> \<not> full) then returnE (Inr (hits, found))
         else if next = sc_offset st \<or> points = [] then throwE (Bad ''search'' ''Qdrant scroll did not advance'')
         else returnE (Inl \<lparr>sc_offset = next, sc_hits = hits, sc_total = found\<rparr>)))"

text \<open>The hits and the number of documents a complete scan saw.\<close>

definition collect_hits :: "env \<Rightarrow> nat \<Rightarrow> search_params \<Rightarrow> search_scope \<Rightarrow> bool \<Rightarrow> json list option \<Rightarrow> bool \<Rightarrow> (json list \<times> u64) option act" where
  "collect_hits env fuel p s counted ordered full =
     (if counted then doneE (returnE ([], 0))
      else case ordered of
        Some hits \<Rightarrow> doneE (returnE (hits, 0))
      | None \<Rightarrow>
          (case s_sparse s of
             Some q \<Rightarrow> doneE (bindE (sparse_hits env p s q) (\<lambda>hits. returnE (hits, 0)))
           | None \<Rightarrow>
               if contains_approx_text_query (s_query s)
               then bindO (loopE fuel (approximate_round env s) (JNull, [])) (\<lambda>hits. doneE (returnE (hits, 0)))
               else case s_text s of
                 Some tf \<Rightarrow> doneE (bindE (text_hits env p s tf) (\<lambda>hits. returnE (hits, 0)))
               | None \<Rightarrow> loopE fuel (scan_round env p s full) \<lparr>sc_offset = JNull, sc_hits = [], sc_total = 0\<rparr>))"

section \<open>From hits to the response\<close>

definition hit_id :: "json \<Rightarrow> string" where
  "hit_id hit = unwrap_or [] (get_str ''_id'' hit)"

definition hit_score :: "json \<Rightarrow> rat" where
  "hit_score hit = unwrap_or 0 (Option.bind (get ''_score'' hit) as_f64)"

text \<open>One hit per id: the first of those with the highest score.\<close>

definition add_unique :: "json \<Rightarrow> (string \<times> json) list \<Rightarrow> (string \<times> json) list" where
  "add_unique hit unique = (case map_of unique (hit_id hit) of
     None \<Rightarrow> unique @ [(hit_id hit, hit)]
   | Some old \<Rightarrow> if hit_score old < hit_score hit then row_update (hit_id hit) hit unique else unique)"

definition unique_hits :: "json list \<Rightarrow> (string \<times> json) list" where
  "unique_hits hits = fold add_unique hits []"

definition dedupe_hits :: "env \<Rightarrow> json list \<Rightarrow> json list" where
  "dedupe_hits env hits = (let unique = unique_hits hits in
     List.map_filter (map_of unique) (hash_order env (map fst unique)))"

definition set_member :: "string \<Rightarrow> json \<Rightarrow> json \<Rightarrow> json" where
  "set_member k v hit = (case hit of
     JObj ob \<Rightarrow> JObj (obj_insert k v ob) | JNull \<Rightarrow> JObj [(k, v)] | other \<Rightarrow> other)"

definition hydrate :: "env \<Rightarrow> search_scope \<Rightarrow> json list \<Rightarrow> json list act" where
  "hydrate env s hits =
     bindE (retrieve_sources env (s_index s)
         (map (point_id (sha256 env) (s_index s)) (List.map_filter (get_str ''_id'') hits))) (\<lambda>sources.
       returnE (List.map_filter (\<lambda>hit. map_option (\<lambda>source. set_member ''_source'' source hit) (sources (hit_id hit))) hits))"

definition retained :: "env \<Rightarrow> search_params \<Rightarrow> search_scope \<Rightarrow> json \<Rightarrow> bool" where
  "retained env p s hit \<longleftrightarrow>
     matches_patterns env s (unwrap_or (JObj []) (get ''_source'' hit))
     \<and> (s_like s = None \<or> get_str ''_id'' hit \<noteq> s_like s)
     \<and> (case p_post_filter p of None \<Rightarrow> True | Some q \<Rightarrow> is_some_and (get ''_source'' hit) (\<lambda>source. source_matches_query source q))"

definition order_hits :: "env \<Rightarrow> search_params \<Rightarrow> search_scope \<Rightarrow> json list \<Rightarrow> json list" where
  "order_hits env p s hits =
     (if p_sorts p \<noteq> []
      then fold (\<lambda>(field, direction). sort_by (\<lambda>a b.
             directed direction (value_cmp (json_text env) (hit_sort_value a field) (hit_sort_value b field))))
           (rev (p_sorts p)) hits
      else if has_text s then sort_by (\<lambda>a b. cmp_of (hit_score b) (hit_score a)) hits
      else hits)"

subsection \<open>Collapsing\<close>

definition collapse_key :: "env \<Rightarrow> string \<Rightarrow> json \<Rightarrow> string" where
  "collapse_key env field hit =
     (case Option.bind (get ''_source'' hit) (\<lambda>source. source_field source field) of
        None \<Rightarrow> ''null'' | Some v \<Rightarrow> json_text env v)"

definition add_to_group :: "env \<Rightarrow> string \<Rightarrow> json \<Rightarrow> (string \<times> json list) list \<Rightarrow> (string \<times> json list) list" where
  "add_to_group env field hit groups = (let key = collapse_key env field hit in
     case map_of groups key of
       None \<Rightarrow> groups @ [(key, [hit])]
     | Some found \<Rightarrow> row_update key (found @ [hit]) groups)"

definition project_hit :: "source_filter option \<Rightarrow> json \<Rightarrow> json" where
  "project_hit flt hit = (case hit of JObj ob \<Rightarrow> JObj (apply_source_projection ob flt) | other \<Rightarrow> other)"

definition max_score :: "json list \<Rightarrow> json" where
  "max_score hits = JNum (Float (fold max (List.map_filter (\<lambda>h. Option.bind (get ''_score'' h) as_f64) hits) 0))"

definition collapse_group :: "collapse_spec \<Rightarrow> json list \<Rightarrow> json" where
  "collapse_group spec members = (case cs_inner spec of
     None \<Rightarrow> hd members
   | Some inner \<Rightarrow>
       let selected = map (project_hit (ih_source inner)) (take (unat (ih_size inner)) members) in
       set_member ''inner_hits'' (jobj [(ih_name inner, jobj [(''hits'', jobj
         [(''total'', jobj [(''value'', jint (of_nat (length members))), (''relation'', JStr ''eq'')]),
          (''max_score'', max_score selected), (''hits'', JArr selected)])])]) (hd members))"

definition collapse_hits :: "env \<Rightarrow> collapse_spec option \<Rightarrow> json list \<Rightarrow> json list" where
  "collapse_hits env spec hits = (case spec of
     None \<Rightarrow> hits
   | Some c \<Rightarrow> map (\<lambda>(_, members). collapse_group c members) (fold (add_to_group env (cs_field c)) hits []))"

subsection \<open>The page\<close>

text \<open>Everything from the first hit after the cursor on.\<close>

definition after_cursor :: "env \<Rightarrow> search_params \<Rightarrow> json list \<Rightarrow> json list" where
  "after_cursor env p hits = (case p_cursor p of
     None \<Rightarrow> hits
   | Some cursor \<Rightarrow> dropWhile (\<lambda>hit. \<not> hit_is_after (json_text env) hit cursor (p_sorts p)) hits)"

definition render_hit :: "search_params \<Rightarrow> json \<Rightarrow> json" where
  "render_hit p hit =
     project_hit (p_source p)
       (if p_sorts p = [] then hit
        else set_member ''sort'' (JArr (map (\<lambda>(field, _). hit_sort_value hit field) (p_sorts p))) hit)"

definition search_page :: "env \<Rightarrow> search_params \<Rightarrow> search_scope \<Rightarrow> json list \<Rightarrow> json list" where
  "search_page env p s hits =
     map (render_hit p) (take (unat (p_size p)) (drop (unat (p_from p))
       (after_cursor env p (collapse_hits env (p_collapse p) (order_hits env p s hits)))))"

definition search_response :: "env \<Rightarrow> search_params \<Rightarrow> json list \<Rightarrow> json option \<Rightarrow> json option \<Rightarrow> response" where
  "search_response env p page hit_total aggs =
     es_ok (jobj ([(''took'', jint (elapsed_ms env)), (''timed_out'', JBool False),
       (''_shards'', jobj [(''total'', jint 1), (''successful'', jint 1), (''skipped'', jint 0), (''failed'', jint 0)]),
       (''hits'', jobj ([(''max_score'', max_score page), (''hits'', JArr page)] @ optional_member ''total'' hit_total))]
       @ optional_member ''aggregations'' aggs))"

definition count_supported :: "env \<Rightarrow> unit act" where
  "count_supported env = whenE (analytics_on (cfg env)) (modifyE (\<lambda>w.
     w\<lparr>w_analytics := (w_analytics w)\<lparr>an_requests := an_requests (w_analytics w) + 1,
       an_supported := an_supported (w_analytics w) + 1\<rparr>\<rparr>))"

section \<open>The handler\<close>

text \<open>The three reads of the join, in order.\<close>

definition search_aggregations :: "env \<Rightarrow> nat \<Rightarrow> search_scope \<Rightarrow> json option option act" where
  "search_aggregations env fuel s = (case s_aggs s of
     None \<Rightarrow> doneE (returnE None)
   | Some plan \<Rightarrow> bindO (execute_plan env fuel plan (s_coll s) (s_filter s) (s_mapping s)) (\<lambda>v. doneE (returnE (Some v))))"

definition search_total :: "env \<Rightarrow> search_params \<Rightarrow> search_scope \<Rightarrow> u64 option act" where
  "search_total env p s =
     (if p_track p \<noteq> Disabled \<and> filter_only p s
      then bindE (qdrant_exact_count env (s_coll s) (s_filter s)) (\<lambda>n. returnE (Some n)) else returnE None)"

definition search_ordered :: "env \<Rightarrow> search_params \<Rightarrow> json \<Rightarrow> search_scope \<Rightarrow> json list option act" where
  "search_ordered env p body s =
     (if filter_only p s \<and> p_size p > 0 then ordered_numeric_hits env p body s else returnE None)"

definition finish_search :: "env \<Rightarrow> search_params \<Rightarrow> search_scope \<Rightarrow> bool \<Rightarrow> u64 option \<Rightarrow> bool \<Rightarrow> json option \<Rightarrow> json list \<times> u64 \<Rightarrow> response act" where
  "finish_search env p s full exact_total as_int aggs = (\<lambda>(found, scanned).
     bindE (let hits = dedupe_hits env found in
            if document_projection (cfg env) \<and> \<not> full then hydrate env s hits else returnE hits) (\<lambda>hits.
     let hits = filter (retained env p s) hits;
         hit_total = (if full then scanned else unwrap_or (of_nat (length hits)) exact_total);
         exact = (full \<or> exact_total \<noteq> None \<or> contains_approx_text_query (s_query s) \<or> s_patterns s \<noteq> [])
     in bindE (count_supported env) (\<lambda>_.
          returnE (search_response env p (search_page env p s hits) (total_hits_value (p_track p) hit_total exact as_int) aggs))))"

definition search_with_total_format :: "env \<Rightarrow> nat \<Rightarrow> string \<Rightarrow> json \<Rightarrow> bool \<Rightarrow> response option act" where
  "search_with_total_format env fuel name body as_int =
     bindE (liftE (parse_search (cfg env) body as_int)) (\<lambda>p.
     bindE (resolve_scope env name body) (\<lambda>s.
     bindO (search_aggregations env fuel s) (\<lambda>aggs.
     bindE (search_total env p s) (\<lambda>exact_total.
     bindE (search_ordered env p body s) (\<lambda>ordered.
     let counted = count_only env p s exact_total;
         full = complete_scan p s counted (ordered \<noteq> None)
     in bindO (collect_hits env fuel p s counted ordered full) (\<lambda>found.
          doneE (finish_search env p s full exact_total as_int aggs found)))))))"

definition search :: "env \<Rightarrow> nat \<Rightarrow> string \<Rightarrow> json \<Rightarrow> response option act" where
  "search env fuel name body = search_with_total_format env fuel name body False"

section \<open>Multi-search and count\<close>

fun pairs_of :: "'a list \<Rightarrow> ('a \<times> 'a) list" where
  "pairs_of (a # b # xs) = (a, b) # pairs_of xs"
| "pairs_of _ = []"

text \<open>An error of one search is its entry in the responses; one of the lines fails the request.\<close>

definition msearch_entry :: "env \<Rightarrow> response \<Rightarrow> json outcome" where
  "msearch_entry env r = (case resp_body r of
     None \<Rightarrow> Inl (Internal ''EOF while parsing a value at line 1 column 0'')
   | Some v \<Rightarrow>
       if max_body_bytes (cfg env) < length (json_text env v) then Inl (Internal ''length limit exceeded'')
       else Inr (if \<not> is_success (resp_status r) \<and> \<not> is_object v then jobj [(''error'', v)] else v))"

definition msearch_one :: "env \<Rightarrow> nat \<Rightarrow> string option \<Rightarrow> bool \<Rightarrow> string \<times> string \<Rightarrow> json option act" where
  "msearch_one env fuel default_index as_int = (\<lambda>(header_line, query_line).
     case parse_json env header_line of
       Inl e \<Rightarrow> throwE (Bad ''_msearch.header'' e)
     | Inr header \<Rightarrow>
         (case parse_json env query_line of
            Inl e \<Rightarrow> throwE (Bad ''_msearch.query'' e)
          | Inr query \<Rightarrow>
              bindE (liftE (ok_or (Bad ''_msearch.header.index'' ''an index is required'')
                       (or_else (get_str ''index'' header) default_index))) (\<lambda>name.
              bindE (tryE (search_with_total_format env fuel name query as_int)) (\<lambda>result. case result of
                Inr None \<Rightarrow> returnE None
              | Inr (Some r) \<Rightarrow> doneE (liftE (msearch_entry env r))
              | Inl e \<Rightarrow> doneE (liftE (msearch_entry env (error_response e)))))))"

fun msearch_all :: "env \<Rightarrow> nat \<Rightarrow> string option \<Rightarrow> bool \<Rightarrow> (string \<times> string) list \<Rightarrow> json list option act" where
  "msearch_all env fuel d as_int [] = doneE (returnE [])"
| "msearch_all env fuel d as_int (pair # pairs) =
     bindO (msearch_one env fuel d as_int pair) (\<lambda>v.
     bindO (msearch_all env fuel d as_int pairs) (\<lambda>vs. doneE (returnE (v # vs))))"

definition msearch :: "env \<Rightarrow> nat \<Rightarrow> string option \<Rightarrow> string \<Rightarrow> bool \<Rightarrow> response option act" where
  "msearch env fuel default_index body as_int =
     (let lines = filter (\<lambda>l. \<not> trim_is_empty l) (body_lines body) in
      if odd (length lines)
      then throwE (Bad ''_msearch'' ''NDJSON must contain alternating header and query lines'')
      else bindO (msearch_all env fuel default_index as_int (pairs_of lines)) (\<lambda>responses.
             doneE (returnE (es_ok (jobj [(''responses'', JArr responses)])))))"

definition count_response :: "json \<Rightarrow> response" where
  "count_response n = es_ok (jobj [(''count'', n),
     (''_shards'', jobj [(''total'', jint 1), (''successful'', jint 1), (''skipped'', jint 0), (''failed'', jint 0)])])"

definition reported_total :: "response \<Rightarrow> json" where
  "reported_total r = unwrap_or (jint 0)
     (Option.bind (resp_body r) (\<lambda>v. Option.bind (Option.bind (get ''hits'' v) (get ''total'')) (get ''value'')))"

definition count_docs :: "env \<Rightarrow> nat \<Rightarrow> string \<Rightarrow> json \<Rightarrow> response option act" where
  "count_docs env fuel name body =
     bindE (get_index env name) (\<lambda>(_, coll, mapping, _).
     bindE (liftE (sparse_validate_request body mapping)) (\<lambda>_.
     let query = unwrap_or match_all (get ''query'' body) in
     bindE (liftE (collect_patterns (regex_new env) query [])) (\<lambda>patterns.
       if pick_text (parse_float env) query = None \<and> patterns = []
       then doneE (bindE (liftE (query_filter query)) (\<lambda>flt.
              bindE (qdrant_exact_count env coll flt) (\<lambda>n. returnE (count_response (jint n)))))
       else bindO (search env fuel name (set_member ''size'' (jint 0) (set_member ''from'' (jint 0) body))) (\<lambda>r.
              doneE (returnE (count_response (reported_total r)))))))"

section \<open>Searching only reads\<close>

lemma preserves_count_supported:
  "(\<And>w a. I w \<Longrightarrow> I (w\<lparr>w_analytics := a\<rparr>)) \<Longrightarrow> preserves I (count_supported env)"
  unfolding count_supported_def by (intro preserve) (simp add: preserves_def modifyE_def)

context read_invariant
begin

lemma read_like: "preserves I (like_source env index coll ident)"
  unfolding like_source_def by (intro preserve read_retrieve_sources read_request is_read_get)

lemma read_expand: "preserves I (expand_more_like_this env name query)"
  unfolding expand_more_like_this_def by (intro preserve read_like)

lemma read_exact_count: "path_segment coll \<Longrightarrow> preserves I (qdrant_exact_count env coll flt)"
  unfolding qdrant_exact_count_def by (intro preserve read_request is_read_paths)

lemma read_ordered: "path_segment (s_coll s) \<Longrightarrow> preserves I (ordered_numeric_hits env p body s)"
  unfolding ordered_numeric_hits_def Let_def
  by (cases "p_sorts p"; clarsimp simp: split_beta simp del: preserves_if)
     (auto intro!: preserve read_request is_read_paths)

lemma read_collect_hits:
  assumes c: "path_segment (s_coll s)"
  shows "preserves I (collect_hits env fuel p s counted ordered full)"
proof -
  have a: "preserves I (approximate_round env s st)" for st
    unfolding approximate_round_def Let_def
    by (auto intro!: preserve read_request is_read_paths c path_segment_collection)
  have b: "preserves I (scan_round env p s full st)" for st
    unfolding scan_round_def Let_def by (intro preserve read_request is_read_paths c read_retrieve_sources)
  show ?thesis
    unfolding collect_hits_def sparse_hits_def text_hits_def
    by (intro preserve read_request is_read_paths c a b)
qed

lemma read_hydrate: "preserves I (hydrate env s hits)"
  unfolding hydrate_def by (intro preserve read_retrieve_sources)

end

lemma plan_scope_coll: "plan_scope env body (index, coll, mapping, vectors) query = Inr s \<Longrightarrow> s_coll s = coll"
  by (auto simp: plan_scope_def split: if_splits)

lemma yields_bind_yields: "yields P m \<Longrightarrow> (\<And>x. P x \<Longrightarrow> yields Q (k x)) \<Longrightarrow> yields Q (bindE m k)"
  unfolding yields_def
proof (intro allI impI)
  fix w y
  assume m: "\<forall>w x. fst (m w) = Inr x \<longrightarrow> P x" and k: "\<And>x. P x \<Longrightarrow> \<forall>w y. fst (k x w) = Inr y \<longrightarrow> Q y"
    and run: "fst (bindE m k w) = Inr y"
  obtain r w1 where r: "m w = (r, w1)" by (cases "m w")
  with run obtain x where x: "r = Inr x" "fst (k x w1) = Inr y" by (cases r) (auto simp: bindE_def)
  then have "P x" using m r by (metis fst_conv)
  then show "Q y" using k x(2) by blast
qed

lemma yields_resolve_scope: "yields (\<lambda>s. path_segment (s_coll s)) (resolve_scope env name body)"
  unfolding resolve_scope_def
proof (rule yields_bind_yields [OF yields_get_index])
  fix info :: index_info
  obtain index coll mapping vectors where info: "info = (index, coll, mapping, vectors)" by (cases info)
  assume "case info of (index, coll, mapping, vectors) \<Rightarrow> coll = collection index"
  then have coll: "path_segment coll" by (simp add: info path_segment_collection)
  have "path_segment (s_coll s)" if "plan_scope env body (index, coll, mapping, vectors) query = Inr s" for query s
    using plan_scope_coll [OF that] coll by simp
  then show "yields (\<lambda>s. path_segment (s_coll s)) (case info of (index, coll, mapping, vectors) \<Rightarrow>
      bindE (liftE (sparse_validate_request body mapping)) (\<lambda>_.
      bindE (expand_more_like_this env index (unwrap_or match_all (get ''query'' body))) (\<lambda>query.
        liftE (plan_scope env body (index, coll, mapping, vectors) query))))"
    unfolding info prod.case by (intro yields_bind yields_lift)
qed

locale search_invariant = read_invariant +
  assumes inv_statistics: "I w \<Longrightarrow> I (w\<lparr>w_analytics := a\<rparr>)"
begin

lemma read_search: "preserves I (search_with_total_format env fuel name body as_int)"
proof -
  have scope: "preserves I (resolve_scope env name body)"
    unfolding resolve_scope_def by (intro preserve read_expand)
  show ?thesis
    unfolding search_with_total_format_def search_aggregations_def search_total_def search_ordered_def
      finish_search_def Let_def prod.case
    by (intro preserves_bind_yields [OF scope yields_resolve_scope] preserve read_execute_plan read_exact_count
        read_ordered read_collect_hits read_hydrate preserves_count_supported inv_statistics)
qed

lemma read_msearch: "preserves I (msearch env fuel d body as_int)"
proof -
  have one: "preserves I (msearch_one env fuel d as_int pair)" for pair
    unfolding msearch_one_def by (intro preserve read_search)
  have all: "preserves I (msearch_all env fuel d as_int pairs)" for pairs
    by (induction pairs) (auto intro!: preserve one)
  show ?thesis unfolding msearch_def Let_def by (intro preserve all)
qed

lemma read_count: "preserves I (count_docs env fuel name body)"
  unfolding count_docs_def search_def Let_def
  by (rule preserves_bind_yields [OF preserves_get_index yields_get_index], clarsimp simp del: preserves_if)
     (intro preserve read_exact_count read_search path_segment_collection)

end

sublocale client_invariant \<subseteq> search_invariant
  by unfold_locales (rule inv_analytics)

interpretation searching: search_invariant env "only_reads base"
  by unfold_locales (simp_all add: reading.inv_read only_reads_def)

end
