(* ===== verification/IndexAdmin.thy ===== *)
theory IndexAdmin
  imports Catalog
begin

text \<open>
  Index administration of \<open>src/main.rs\<close>: creating an index with its collections and payload
  indexes (and the clean-up of a failed creation), deleting it, reading and updating its mapping,
  and the service information routes. The guard \<open>index_admin\<close> serialises these handlers, so
  each is one action on the state. The section on the catalog states what the metadata tables
  satisfy between requests; every handler keeps it.
\<close>

section \<open>Service information\<close>

definition service_root :: "env \<Rightarrow> response act" where
  "service_root env = returnE (es_ok (jobj
     [(''name'', JStr ''qdrant-es-gateway''), (''cluster_name'', JStr ''qdrant''), (''cluster_uuid'', JStr ''qdrant''),
      (''version'', jobj [(''number'', JStr (compat_version (cfg env))), (''build_flavor'', JStr ''default''),
         (''build_type'', JStr ''gateway''), (''lucene_version'', JStr ''qdrant'')]),
      (''tagline'', JStr ''You Know, for Search'')]))"

definition cluster_health :: "env \<Rightarrow> response act" where
  "cluster_health env = bindE (tryE (backend_health env)) (\<lambda>r. returnE (case r of
     Inr _ \<Rightarrow> es_ok (jobj [(''cluster_name'', JStr ''qdrant''), (''status'', JStr ''green''),
                (''number_of_nodes'', jint 1), (''active_shards'', jint 1)])
   | Inl e \<Rightarrow> error_response e))"

definition healthz :: "response act" where
  "healthz = returnE (json_response 200 (jobj [(''status'', JStr ''ok'')]))"

definition readyz :: "env \<Rightarrow> response act" where
  "readyz env = bindE (tryE (backend_health env)) (\<lambda>r. returnE (case r of
     Inr _ \<Rightarrow> json_response 200 (jobj [(''status'', JStr ''ready'')])
   | Inl e \<Rightarrow> json_response 503 (error_body e)))"

definition compatibility_percent :: "nat \<Rightarrow> nat \<Rightarrow> rat" where
  "compatibility_percent requests supported =
     (if requests = 0 then 100
      else unwrap_or 0 (f64_round (unwrap_or 0 (f64_round (f64_of_int (int supported) * 100)) / f64_of_int (int requests))))"

definition compatibility :: "response act" where
  "compatibility = bindE (getE w_analytics) (\<lambda>a. returnE (json_response 200 (jobj
     [(''requests'', jint (of_nat (an_requests a))),
      (''fully_supported'', jint (of_nat (an_supported a))),
      (''compatibility_percent'', JNum (Float (compatibility_percent (an_requests a) (an_supported a)))),
      (''unsupported'', jobj (map (\<lambda>(k, n). (k, jint (of_nat n))) (an_unsupported a)))])))"

section \<open>Creating an index\<close>

definition replication_members :: "env \<Rightarrow> (string \<times> json) list" where
  "replication_members env = (case replication_factor (cfg env) of
     None \<Rightarrow> []
   | Some n \<Rightarrow> [(''replication_factor'', jint n), (''shard_number'', jint n)])"

definition collection_config :: "env \<Rightarrow> string list \<Rightarrow> json" where
  "collection_config env vectors =
     jobj ((''sparse_vectors'', jobj (map (\<lambda>v. (v, JObj [])) vectors)) # replication_members env)"

definition document_config :: "env \<Rightarrow> json" where
  "document_config env =
     jobj ([(''vectors'', jobj [(''size'', jint 1), (''distance'', JStr ''Dot''), (''on_disk'', JBool True)]),
            (''hnsw_config'', jobj [(''m'', jint 0)]),
            (''optimizers_config'', jobj [(''indexing_threshold'', jint 0)])] @ replication_members env)"

definition cleanup_failed_index_creation :: "env \<Rightarrow> string \<Rightarrow> bool \<Rightarrow> unit act" where
  "cleanup_failed_index_creation env index document_created =
     bindE (mapE (\<lambda>coll. tryE (mutation env DELETE (points_path coll []) None))
              (collection index # (if document_created then [document_collection index] else [])))
       (\<lambda>_. returnE ())"

text \<open>A step whose failure first removes the collections created so far.\<close>

definition cleaning_up :: "env \<Rightarrow> string \<Rightarrow> bool \<Rightarrow> json act \<Rightarrow> unit act" where
  "cleaning_up env index document_created m =
     bindE (tryE m) (\<lambda>r. case r of
       Inl e \<Rightarrow> bindE (cleanup_failed_index_creation env index document_created) (\<lambda>_. throwE e)
     | Inr _ \<Rightarrow> returnE ())"

definition field_index :: "env \<Rightarrow> string \<Rightarrow> string \<Rightarrow> string \<Rightarrow> json act" where
  "field_index env coll field schema =
     mutation env PUT (points_path coll ''/index'')
       (Some (jobj [(''field_name'', JStr field), (''field_schema'', JStr schema), (''wait'', JBool True)]))"

definition payload_indexes :: "json \<Rightarrow> (string \<times> string) list" where
  "payload_indexes mapping = (case properties mapping of
     None \<Rightarrow> []
   | Some props \<Rightarrow> List.map_filter (\<lambda>(field, spec). map_option (Pair field) (payload_field_schema spec)) props)"

definition store_index :: "env \<Rightarrow> string \<Rightarrow> json \<Rightarrow> string list \<Rightarrow> tables \<Rightarrow> tables" where
  "store_index env index mapping vectors t =
     t\<lparr>indices := row_replace index (json_text env mapping, vectors_text env vectors) (indices t)\<rparr>"

definition modify_tables :: "(tables \<Rightarrow> tables) \<Rightarrow> unit act" where
  "modify_tables f = modifyE (\<lambda>w. w\<lparr>w_tables := f (w_tables w)\<rparr>)"

definition provision_index :: "env \<Rightarrow> string \<Rightarrow> json \<Rightarrow> string list \<Rightarrow> unit act" where
  "provision_index env index mapping vectors =
     bindE (mutation env PUT (points_path (collection index) []) (Some (collection_config env vectors))) (\<lambda>_.
     bindE (whenE (document_projection (cfg env))
              (cleaning_up env index False
                (mutation env PUT (points_path (document_collection index) []) (Some (document_config env))))) (\<lambda>_.
     bindE (mapE (\<lambda>(field, schema). cleaning_up env index (document_projection (cfg env))
                    (field_index env (collection index) field schema)) (payload_indexes mapping)) (\<lambda>_.
     cleaning_up env index (document_projection (cfg env))
       (field_index env (collection index) ''_qeg_fast_fields'' ''keyword''))))"

definition acknowledged :: response where
  "acknowledged = es_ok (jobj [(''acknowledged'', JBool True)])"

definition create_index :: "env \<Rightarrow> string \<Rightarrow> json \<Rightarrow> response act" where
  "create_index env index body =
     bindE (liftE (validate_index_name (lower env) index)) (\<lambda>_.
     bindE (getE w_tables) (\<lambda>t.
     bindE (liftE (ensure_collection_namespace_available t index)) (\<lambda>_.
     case mapping_vectors body of (mapping, vectors) \<Rightarrow>
     bindE (liftE (sparse_validate_mapping mapping)) (\<lambda>_.
     bindE (liftE (validate_fast_field_namespace mapping)) (\<lambda>_.
     bindE (liftE (validate_index_capacity env t index mapping vectors)) (\<lambda>_.
     bindE (provision_index env index mapping vectors) (\<lambda>_.
     bindE (modify_tables (store_index env index mapping vectors)) (\<lambda>_.
       returnE (es_ok (jobj [(''acknowledged'', JBool True), (''shards_acknowledged'', JBool True),
         (''index'', JStr index)]))))))))))"

section \<open>Deleting and reading an index\<close>

definition drop_index :: "string \<Rightarrow> tables \<Rightarrow> tables" where
  "drop_index index t =
     t\<lparr>aliases := row_delete (\<lambda>(_, target). target = index) (aliases t),
       indices := row_delete (\<lambda>(name, _). name = index) (indices t)\<rparr>"

definition delete_index :: "env \<Rightarrow> string \<Rightarrow> response act" where
  "delete_index env index =
     bindE (get_index env index) (\<lambda>(concrete_index, _, _, _).
       if concrete_index \<noteq> index
       then throwE (Bad ''index.name'' ''index deletion requires a concrete index name, not an alias'')
       else
         bindE (mutation env DELETE (points_path (collection index) []) None) (\<lambda>_.
         bindE (if document_projection (cfg env)
                then bindE (mutation env DELETE (points_path (document_collection index) []) None) (\<lambda>_. returnE ())
                else returnE ()) (\<lambda>_.
         bindE (modify_tables (drop_index index)) (\<lambda>_. returnE acknowledged))))"

definition get_index_info :: "env \<Rightarrow> string \<Rightarrow> response act" where
  "get_index_info env name =
     bindE (get_index env name) (\<lambda>(index, _, mapping, _).
       returnE (es_ok (jobj [(index, jobj [(''mappings'', mapping)])])))"

definition head_index :: "env \<Rightarrow> string \<Rightarrow> response act" where
  "head_index env name =
     bindE (tryE (get_index env name)) (\<lambda>r. returnE (es_empty_response (if is_ok r then 200 else 404)))"

definition index_control :: "env \<Rightarrow> string \<Rightarrow> string \<Rightarrow> response act" where
  "index_control env index action =
     bindE (get_index env index) (\<lambda>_.
       returnE (es_ok (jobj [(''acknowledged'', JBool True), (''shards_acknowledged'', JBool True),
         (''index'', JStr index), (''action'', JStr action)])))"

section \<open>Updating a mapping\<close>

definition property_path :: "string \<Rightarrow> string" where
  "property_path field = ''_mapping.properties.'' @ field"

definition add_property :: "string \<times> json \<Rightarrow> object \<times> (string \<times> string) list \<Rightarrow> (object \<times> (string \<times> string) list) outcome" where
  "add_property = (\<lambda>(field, spec) (existing, indexes).
     case Option.bind (get ''type'' spec) as_str of
       None \<Rightarrow> bad (property_path field) ''mapping properties require a string type''
     | Some kind \<Rightarrow>
         (case obj_get field existing of
            Some old \<Rightarrow>
              if old \<noteq> spec then bad (property_path field) ''changing an existing field mapping is not supported''
              else Inr (existing, indexes)
          | None \<Rightarrow>
              if kind = ''text'' \<or> kind = ''sparse_vector''
              then bad (property_path field) ''adding text or sparse_vector fields requires a new index to provision the required named sparse vector''
              else Inr (obj_insert field spec existing,
                (case payload_field_schema spec of None \<Rightarrow> indexes | Some schema \<Rightarrow> indexes @ [(field, schema)]))))"

definition stored_properties :: "json \<Rightarrow> (object \<times> object) outcome" where
  "stored_properties m = (case m of
     JObj ms \<Rightarrow> (case unwrap_or (JObj []) (obj_get ''properties'' ms) of
        JObj props \<Rightarrow> Inr (ms, props)
      | _ \<Rightarrow> Inl (Internal ''stored mapping properties are not an object''))
   | _ \<Rightarrow> Inl (Internal ''stored mapping is not an object''))"

text \<open>The properties an update request adds, or \<open>None\<close> when it has none.\<close>

definition parse_mapping_update :: "json \<Rightarrow> object option outcome" where
  "parse_mapping_update body =
     (let update = unwrap_or body (get ''mappings'' body) in
      bindR (validate_fast_field_namespace update) (\<lambda>_.
      bindR (ok_or (Bad ''_mapping'' ''mapping update body must be an object'') (as_object update)) (\<lambda>members.
      if list_ex (\<lambda>key. key \<noteq> ''properties'') (keys members)
      then bad ''_mapping'' ''only properties are supported in mapping updates''
      else case obj_get ''properties'' members of
        None \<Rightarrow> Inr None
      | Some v \<Rightarrow> map_ok Some (ok_or (Bad ''_mapping.properties'' ''properties must be an object'') (as_object v)))))"

text \<open>The new mapping and the payload indexes it needs.\<close>

definition merge_mapping :: "json \<Rightarrow> object \<Rightarrow> (json \<times> (string \<times> string) list) outcome" where
  "merge_mapping m new =
     bindR (stored_properties m) (\<lambda>(ms, props).
     bindR (foldR add_property new (props, [])) (\<lambda>(props', indexes).
       Inr (JObj (obj_insert ''properties'' (JObj props') ms), indexes)))"

definition update_row :: "env \<Rightarrow> string \<Rightarrow> json \<Rightarrow> string list \<Rightarrow> tables \<Rightarrow> tables" where
  "update_row env index mapping vectors t =
     t\<lparr>indices := row_update index (json_text env mapping, vectors_text env vectors) (indices t)\<rparr>"

definition put_mapping :: "env \<Rightarrow> index_info \<Rightarrow> json option \<Rightarrow> response act" where
  "put_mapping env = (\<lambda>(index, coll, m, vectors) body.
     bindE (liftE (parse_mapping_update (unwrap_or (JObj []) body))) (\<lambda>update. case update of
       None \<Rightarrow> returnE acknowledged
     | Some new \<Rightarrow>
         bindE (liftE (merge_mapping m new)) (\<lambda>(m', indexes).
         bindE (getE w_tables) (\<lambda>t.
         bindE (liftE (validate_index_capacity env t index m' vectors)) (\<lambda>_.
         bindE (mapE (\<lambda>(field, schema). field_index env coll field schema) indexes) (\<lambda>_.
         bindE (if is_ok (validate_fast_field_namespace m')
                then bindE (field_index env coll ''_qeg_fast_fields'' ''keyword'') (\<lambda>_. returnE ())
                else returnE ()) (\<lambda>_.
         bindE (modify_tables (update_row env index m' vectors)) (\<lambda>_.
           returnE acknowledged))))))))"

definition mapping_route :: "env \<Rightarrow> string \<Rightarrow> http_method \<Rightarrow> json option \<Rightarrow> response act" where
  "mapping_route env name m body =
     bindE (get_index env name) (\<lambda>(index, coll, mapping, vectors).
       if m = PUT then put_mapping env (index, coll, mapping, vectors) body
       else returnE (es_ok (jobj [(index, jobj [(''mappings'', mapping)])])))"


section \<open>Invariants of the handlers\<close>

text \<open>What a property of the state must withstand to survive administration as well.\<close>

locale admin_invariant = client_invariant +
  assumes inv_tables: "I w \<Longrightarrow> I (w\<lparr>w_tables := t\<rparr>)"

context read_invariant
begin

lemma read_cluster_health: "preserves I (cluster_health env)" "preserves I (readyz env)"
  unfolding cluster_health_def readyz_def by (intro preserve read_health)+

lemma read_index_routes: "preserves I (get_index_info env name)" "preserves I (head_index env name)"
  "preserves I (index_control env name action)"
  unfolding get_index_info_def head_index_def index_control_def by (intro preserve preserves_get_index)+

end

context client_invariant
begin

lemma inv_field_index: "preserves I (field_index env coll field schema)"
  unfolding field_index_def by (rule inv_mutation)

lemma inv_cleaning_up: "preserves I m \<Longrightarrow> preserves I (cleaning_up env index created m)"
  unfolding cleaning_up_def cleanup_failed_index_creation_def by (intro preserve inv_mutation)

lemma inv_provision_index: "preserves I (provision_index env index mapping vectors)"
  unfolding provision_index_def by (intro preserve inv_cleaning_up inv_mutation inv_field_index)

end

context admin_invariant
begin

lemma inv_modify_tables: "preserves I (modify_tables f)"
  by (simp add: preserves_def modify_tables_def modifyE_def inv_tables)

lemma inv_create_index: "preserves I (create_index env index body)"
  unfolding create_index_def by (intro preserve inv_provision_index inv_modify_tables)

lemma inv_delete_index: "preserves I (delete_index env index)"
  unfolding delete_index_def by (intro preserve preserves_get_index inv_mutation inv_modify_tables)

lemma inv_mapping_route: "preserves I (mapping_route env name m body)"
  unfolding mapping_route_def put_mapping_def prod.case
  by (intro preserve preserves_get_index inv_field_index inv_modify_tables)

end

interpretation fenced_admin: admin_invariant "env\<lparr>tracked := True\<rparr>" ledger
  by unfold_locales (simp add: ledger_def)

section \<open>The catalog between requests\<close>

definition index_names :: "tables \<Rightarrow> string set" where
  "index_names t = fst ` set (indices t)"

text \<open>Names and aliases are unique, an alias points to an index and is not one, and no two
  indices share a collection.\<close>

definition catalog_ok :: "tables \<Rightarrow> bool" where
  "catalog_ok t \<longleftrightarrow> distinct (map fst (indices t)) \<and> distinct (map fst (aliases t))
     \<and> (\<forall>(a, target)\<in>set (aliases t). target \<in> index_names t \<and> a \<notin> index_names t)
     \<and> (\<forall>i\<in>index_names t. \<forall>j\<in>index_names t. i \<noteq> j \<longrightarrow> set (reserved_names i) \<inter> set (reserved_names j) = {})"

text \<open>What an action makes of given tables.\<close>

definition leaves :: "(tables \<Rightarrow> bool) \<Rightarrow> tables \<Rightarrow> 'a act \<Rightarrow> bool" where
  "leaves Q t m \<longleftrightarrow> (\<forall>w. w_tables w = t \<longrightarrow> Q (w_tables (snd (m w))))"

named_theorems leaving

lemma leaves_same: "preserves (\<lambda>w. w_tables w = t) m \<Longrightarrow> Q t \<Longrightarrow> leaves Q t m"
  by (auto simp: leaves_def preserves_def)

lemma leaves_return [leaving]: "Q t \<Longrightarrow> leaves Q t (returnE x)" "Q t \<Longrightarrow> leaves Q t (throwE e)"
  "Q t \<Longrightarrow> leaves Q t (liftE r)"
  by (simp_all add: leaves_def returnE_def throwE_def liftE_def)

lemma leaves_bind:
  "preserves (\<lambda>w. w_tables w = t) m \<Longrightarrow> Q t \<Longrightarrow> (\<And>x. leaves Q t (k x)) \<Longrightarrow> leaves Q t (bindE m k)"
  by (fastforce simp: leaves_def preserves_def bindE_def split: prod.splits sum.splits)

lemma leaves_lift: "Q t \<Longrightarrow> (\<And>x. r = Inr x \<Longrightarrow> leaves Q t (k x)) \<Longrightarrow> leaves Q t (bindE (liftE r) k)"
  by (auto simp: leaves_def bindE_def liftE_def split: sum.splits)

lemma leaves_tables [leaving]: "leaves Q t (k t) \<Longrightarrow> leaves Q t (bindE (getE w_tables) k)"
  by (auto simp: leaves_def bindE_def getE_def)

lemma leaves_modify [leaving]: "leaves Q (f t) (k ()) \<Longrightarrow> leaves Q t (bindE (modify_tables f) k)"
  by (auto simp: leaves_def bindE_def modify_tables_def modifyE_def)

lemma leaves_cases [leaving]:
  "leaves Q t a \<Longrightarrow> leaves Q t b \<Longrightarrow> leaves Q t (if c then a else b)"
  "leaves Q t a \<Longrightarrow> (\<And>x. leaves Q t (f x)) \<Longrightarrow> leaves Q t (case x of None \<Rightarrow> a | Some x \<Rightarrow> f x)"
  "(\<And>x y. leaves Q t (g x y)) \<Longrightarrow> leaves Q t (case p of (x, y) \<Rightarrow> g x y)"
  by (simp_all split: option.splits prod.splits)

interpretation kept: client_invariant env "\<lambda>w. w_tables w = t"
  by (rule tables_kept.client_invariant_axioms)

subsection \<open>Row operations\<close>

lemma keys_row_replace [simp]: "fst ` set (row_replace k v rows) = insert k (fst ` set rows)"
  by (auto simp: row_replace_def)

lemma distinct_row_replace: "distinct (map fst rows) \<Longrightarrow> distinct (map fst (row_replace k v rows))"
  by (auto simp: row_replace_def distinct_map_filter)

lemma map_of_row_replace: "map_of (row_replace k v rows) = (map_of rows)(k \<mapsto> v)"
proof
  show "map_of (row_replace k v rows) a = ((map_of rows)(k \<mapsto> v)) a" for a
    by (induction rows) (auto simp: row_replace_def map_add_def split: option.splits)
qed

lemma keys_row_update [simp]: "map fst (row_update k v rows) = map fst rows"
  by (induction rows) (auto simp: row_update_def)

lemma set_row_delete: "set (row_delete p rows) = {r \<in> set rows. \<not> p r}"
  by (simp add: row_delete_def)

lemma distinct_row_delete: "distinct (map fst rows) \<Longrightarrow> distinct (map fst (row_delete p rows))"
  by (simp add: row_delete_def distinct_map_filter)

lemma table_alias_None: "table_alias t a = None \<longleftrightarrow> a \<notin> fst ` set (aliases t)"
  by (simp add: table_alias_def map_of_eq_None_iff)

lemma table_index_mem: "table_index t n \<noteq> None \<longleftrightarrow> n \<in> index_names t"
  by (metis index_names_def map_of_eq_None_iff table_index_def)

subsection \<open>Each handler keeps the catalog\<close>

lemma ensure_available_iff:
  "ensure_collection_namespace_available t index = Inr u \<longleftrightarrow>
     index \<notin> fst ` set (aliases t) \<and> index \<notin> index_names t
     \<and> (\<forall>i\<in>index_names t. set (reserved_names index) \<inter> set (reserved_names i) = {})"
  by (auto simp: ensure_collection_namespace_available_def table_alias_None bad_def check_existing_def
      namespace_conflict_def list_ex_iff index_names_def split: if_splits)

lemma index_names_store [simp]: "index_names (store_index env index mapping vectors t) = insert index (index_names t)"
  by (simp add: index_names_def store_index_def)

lemma catalog_ok_store:
  assumes ok: "catalog_ok t" and free: "ensure_collection_namespace_available t index = Inr u"
  shows "catalog_ok (store_index env index mapping vectors t)"
  unfolding catalog_ok_def index_names_store
proof (intro conjI ballI)
  have alias_free: "index \<notin> fst ` set (aliases t)"
    using free by (simp add: ensure_available_iff)
  fix p
  assume p: "p \<in> set (aliases (store_index env index mapping vectors t))"
  then have "fst p \<noteq> index"
    using alias_free by (auto simp: store_index_def)
  then show "case p of (a, target) \<Rightarrow> target \<in> insert index (index_names t) \<and> a \<notin> insert index (index_names t)"
    using p ok by (auto simp: catalog_ok_def store_index_def)
next
  have disjoint: "i \<in> index_names t \<Longrightarrow> set (reserved_names index) \<inter> set (reserved_names i) = {}" for i
    using free by (simp add: ensure_available_iff)
  fix i j
  assume "i \<in> insert index (index_names t)" "j \<in> insert index (index_names t)"
  then show "i \<noteq> j \<longrightarrow> set (reserved_names i) \<inter> set (reserved_names j) = {}"
    using ok disjoint [of i] disjoint [of j] unfolding catalog_ok_def by (elim insertE) auto
qed (use ok in \<open>simp_all add: catalog_ok_def store_index_def distinct_row_replace\<close>)

lemma catalog_ok_drop: "catalog_ok t \<Longrightarrow> catalog_ok (drop_index index t)"
proof -
  have names: "index_names (drop_index index t) = index_names t - {index}"
    by (auto simp: index_names_def drop_index_def set_row_delete)
  show "catalog_ok t \<Longrightarrow> catalog_ok (drop_index index t)"
    unfolding catalog_ok_def names
    by (auto simp: drop_index_def set_row_delete distinct_row_delete)
qed

lemma catalog_ok_update_row: "catalog_ok t \<Longrightarrow> catalog_ok (update_row env index mapping vectors t)"
proof -
  have names: "index_names (update_row env index mapping vectors t) = index_names t"
    unfolding index_names_def update_row_def
    by (simp del: set_map add: set_map [symmetric])
  show "catalog_ok t \<Longrightarrow> catalog_ok (update_row env index mapping vectors t)"
    unfolding catalog_ok_def names by (simp add: update_row_def)
qed

lemma create_index_leaves: "catalog_ok t \<Longrightarrow> leaves catalog_ok t (create_index env index body)"
  unfolding create_index_def
  by (rule leaves_lift, assumption, rule leaves_tables, rule leaves_lift, assumption)
     (auto intro!: leaves_cases leaves_lift leaves_modify leaves_return catalog_ok_store
       leaves_bind [OF kept.inv_provision_index])

lemma delete_index_leaves: "catalog_ok t \<Longrightarrow> leaves catalog_ok t (delete_index env index)"
  unfolding delete_index_def
  by (auto intro!: leaves_cases leaves_modify leaves_return catalog_ok_drop preserve
      leaves_bind [OF preserves_get_index] leaves_bind kept.inv_mutation)

lemma mapping_route_leaves: "catalog_ok t \<Longrightarrow> leaves catalog_ok t (mapping_route env name m body)"
  unfolding mapping_route_def put_mapping_def prod.case
  by (intro leaves_bind [OF preserves_get_index] leaves_cases leaves_lift leaves_tables leaves_modify
      leaves_bind leaves_return catalog_ok_update_row preserve kept.inv_field_index) simp_all

end
