(* ===== verification/Aliases.thy ===== *)
theory Aliases
  imports IndexAdmin
begin

text \<open>
  Aliases of \<open>src/main.rs\<close> (\<open>aliases\<close>, \<open>alias_get\<close>, \<open>alias_head\<close>). A batch of actions is
  validated, replayed on the sets of targets its aliases have, and only the resulting topology
  is written, in one transaction. The iteration order of the hash maps is the parameter
  \<open>hash_order\<close>.
\<close>

section \<open>The actions of a batch\<close>

datatype alias_action =
    AddAlias (action_alias: string) (action_index: string)
  | RemoveAlias (action_alias: string) (action_index: string)

definition no_action :: gateway_error where
  "no_action = IllegalArgument ''No action specified''"

definition request_actions :: "json \<Rightarrow> json list outcome" where
  "request_actions body =
     bindR (ok_or no_action (get ''actions'' body)) (\<lambda>v.
     bindR (ok_or (Bad ''_aliases'' ''actions must be an array'') (as_array v)) (\<lambda>xs.
       if xs = [] then Inl no_action else Inr xs))"

text \<open>Kind, alias and requested index of an action.\<close>

definition parse_action :: "json \<Rightarrow> (string \<times> string \<times> string) outcome" where
  "parse_action action = (case action of
     JObj [(kind, v)] \<Rightarrow>
       if kind \<noteq> ''add'' \<and> kind \<noteq> ''remove''
       then bad ''_aliases.action'' (''unsupported alias action ['' @ kind @ '']'')
       else
         bindR (ok_or (Bad (''_aliases.'' @ kind) ''alias action metadata must be an object'') (as_object v)) (\<lambda>metadata.
           case sort (filter (\<lambda>key. key \<noteq> ''index'' \<and> key \<noteq> ''alias'') (keys metadata)) of
             option # _ \<Rightarrow>
               bad (''_aliases.'' @ kind @ ''.'' @ option)
                 (''alias action option ['' @ option @ ''] is not supported; only unfiltered, unrouted, single-target aliases are supported'')
           | [] \<Rightarrow>
               bindR (ok_or (Bad (''_aliases.'' @ kind @ ''.alias'') ''missing string alias'') (get_str ''alias'' v)) (\<lambda>alias_name.
               bindR (ok_or (Bad (''_aliases.'' @ kind @ ''.index'') ''missing string index'') (get_str ''index'' v)) (\<lambda>index.
                 Inr (kind, alias_name, index))))
   | _ \<Rightarrow> bad ''_aliases.action'' ''each alias action must contain exactly one action'')"

definition resolve_action :: "env \<Rightarrow> json \<Rightarrow> alias_action act" where
  "resolve_action env action =
     bindE (liftE (parse_action action)) (\<lambda>(kind, alias_name, requested_index).
     bindE (get_index env requested_index) (\<lambda>(index, _, _, _).
       if kind = ''add''
       then bindE (getE w_tables) (\<lambda>t.
         if table_index t alias_name \<noteq> None
         then throwE (Bad ''_aliases.add.alias'' (''alias ['' @ alias_name @ ''] conflicts with an existing index''))
         else returnE (AddAlias alias_name index))
       else returnE (RemoveAlias alias_name index)))"

section \<open>The resulting topology\<close>

text \<open>Every affected alias with the set of its targets, a list without duplicates.\<close>

type_synonym topology = "(string \<times> string list) list"

definition initial_targets :: "tables \<Rightarrow> alias_action list \<Rightarrow> topology" where
  "initial_targets t actions =
     map (\<lambda>a. (a, case table_alias t a of None \<Rightarrow> [] | Some target \<Rightarrow> [target]))
       (remdups (map action_alias actions))"

definition at_alias :: "string \<Rightarrow> (string list \<Rightarrow> string list) \<Rightarrow> topology \<Rightarrow> topology" where
  "at_alias a f targets = map (\<lambda>(b, ts). (b, if b = a then f ts else ts)) targets"

record replay =
  final_targets :: topology
  successful_action :: bool
  missing_aliases :: "string list"

definition replay_action :: "alias_action \<Rightarrow> replay \<Rightarrow> replay" where
  "replay_action action r = (case action of
     AddAlias a index \<Rightarrow>
       r\<lparr>final_targets := at_alias a (List.insert index) (final_targets r), successful_action := True\<rparr>
   | RemoveAlias a index \<Rightarrow>
       if is_some_and (map_of (final_targets r) a) (\<lambda>ts. index \<in> set ts)
       then r\<lparr>final_targets := at_alias a (removeAll index) (final_targets r), successful_action := True\<rparr>
       else r\<lparr>missing_aliases := List.insert a (missing_aliases r)\<rparr>)"

definition replay_actions :: "tables \<Rightarrow> alias_action list \<Rightarrow> replay" where
  "replay_actions t actions = fold replay_action actions
     \<lparr>final_targets = initial_targets t actions, successful_action = False, missing_aliases = []\<rparr>"

definition in_hash_order :: "env \<Rightarrow> topology \<Rightarrow> topology" where
  "in_hash_order env targets =
     List.map_filter (\<lambda>a. map_option (Pair a) (map_of targets a)) (hash_order env (map fst targets))"

definition apply_target :: "string \<times> string list \<Rightarrow> tables \<Rightarrow> tables" where
  "apply_target = (\<lambda>(a, ts) t. case ts of
     index # _ \<Rightarrow> t\<lparr>aliases := row_replace a index (aliases t)\<rparr>
   | [] \<Rightarrow> t\<lparr>aliases := row_delete (\<lambda>(b, _). b = a) (aliases t)\<rparr>)"

definition apply_topology :: "topology \<Rightarrow> tables \<Rightarrow> tables" where
  "apply_topology targets t = fold apply_target targets t"

text \<open>The tables a validated batch commits.\<close>

definition commit_batch :: "env \<Rightarrow> tables \<Rightarrow> alias_action list \<Rightarrow> tables outcome" where
  "commit_batch env t actions =
     (let r = replay_actions t actions; targets = in_hash_order env (final_targets r) in
      case filter (\<lambda>(_, ts). 1 < length ts) targets of
        (a, _) # _ \<Rightarrow>
          bad ''_aliases.add.alias'' (''multi-index alias ['' @ a @ ''] is unsupported; remove its current index and add the replacement in the same request'')
      | [] \<Rightarrow>
          if actions \<noteq> [] \<and> \<not> successful_action r then Inl (AliasesNotFound (sort (missing_aliases r)))
          else let t' = apply_topology targets t in
            bindR (validate_catalog_capacity env t') (\<lambda>_. Inr t'))"

definition alias_batch :: "env \<Rightarrow> json \<Rightarrow> response act" where
  "alias_batch env body =
     bindE (liftE (request_actions body)) (\<lambda>requested.
     bindE (mapE (resolve_action env) requested) (\<lambda>actions.
     bindE (getE w_tables) (\<lambda>t.
     bindE (liftE (commit_batch env t actions)) (\<lambda>t'.
     bindE (modify_tables (\<lambda>_. t')) (\<lambda>_. returnE acknowledged)))))"

definition alias_get :: "string \<Rightarrow> response act" where
  "alias_get a =
     bindE (getE w_tables) (\<lambda>t. case table_alias t a of
       None \<Rightarrow> throwE (NotFound (''no such alias ['' @ a @ '']''))
     | Some index \<Rightarrow> returnE (es_ok (jobj [(index, jobj [(''aliases'', jobj [(a, JObj [])])])])))"

definition alias_head :: "string \<Rightarrow> response act" where
  "alias_head a = bindE (tryE (alias_get a)) (\<lambda>r. returnE (es_empty_response (if is_ok r then 200 else 404)))"

section \<open>Batches as sets of targets\<close>

text \<open>The abstract catalog of aliases: the set of targets of every alias, and what an action does
  to it.\<close>

type_synonym alias_map = "string \<Rightarrow> string set"

definition alias_map :: "tables \<Rightarrow> alias_map" where
  "alias_map t a = set_option (table_alias t a)"

definition act_on :: "alias_action \<Rightarrow> alias_map \<Rightarrow> alias_map" where
  "act_on action s = (case action of
     AddAlias a index \<Rightarrow> s(a := insert index (s a))
   | RemoveAlias a index \<Rightarrow> s(a := s a - {index}))"

definition hash_is_permutation :: "env \<Rightarrow> bool" where
  "hash_is_permutation env \<longleftrightarrow> (\<forall>xs. mset (hash_order env xs) = mset xs)"

text \<open>The topology agrees with the abstract map on the aliases it lists.\<close>

definition represents :: "topology \<Rightarrow> alias_map \<Rightarrow> bool" where
  "represents targets s \<longleftrightarrow> (\<forall>a ts. map_of targets a = Some ts \<longrightarrow> set ts = s a \<and> distinct ts)"

lemma at_alias_simps [simp]:
  "map fst (at_alias a f targets) = map fst targets"
  "map_of (at_alias a f targets) b = map_option (\<lambda>ts. if b = a then f ts else ts) (map_of targets b)"
  by (induction targets) (auto simp: at_alias_def split_beta)

lemma replay_keys: "map fst (final_targets (fold replay_action actions r)) = map fst (final_targets r)"
  by (induction actions arbitrary: r) (auto simp: replay_action_def split: alias_action.splits)

lemma represents_at_alias:
  assumes r: "represents targets s" and f: "\<And>ts. distinct ts \<Longrightarrow> set ts = s a \<Longrightarrow> set (f ts) = x \<and> distinct (f ts)"
  shows "represents (at_alias a f targets) (s(a := x))"
  unfolding represents_def
proof (intro allI impI)
  fix b ts
  assume "map_of (at_alias a f targets) b = Some ts"
  then obtain us where us: "map_of targets b = Some us" and ts: "ts = (if b = a then f us else us)"
    unfolding at_alias_simps by blast
  have "set us = s b" "distinct us" using r us unfolding represents_def by blast+
  then show "set ts = (s(a := x)) b \<and> distinct ts" using ts f [of us] by simp
qed

lemma replay_action_represents:
  assumes rep: "represents (final_targets r) s"
  shows "represents (final_targets (replay_action action r)) (act_on action s)"
proof (cases action)
  case (AddAlias a index)
  have "represents (at_alias a (List.insert index) (final_targets r)) (s(a := insert index (s a)))"
    by (rule represents_at_alias [OF rep]) simp
  then show ?thesis
    by (cases r) (simp only: AddAlias replay_action_def act_on_def alias_action.case replay.simps)
next
  case (RemoveAlias a index)
  let ?present = "is_some_and (map_of (final_targets r) a) (\<lambda>ts. index \<in> set ts)"
  have "represents (final_targets r) (s(a := s a - {index}))" if absent: "\<not> ?present"
    unfolding represents_def
  proof (intro allI impI)
    fix b ts
    assume ts: "map_of (final_targets r) b = Some ts"
    then have "set ts = s b" "distinct ts" using rep unfolding represents_def by blast+
    then show "set ts = (s(a := s a - {index})) b \<and> distinct ts"
      using absent ts by (auto simp: is_some_and_def)
  qed
  moreover have "represents (at_alias a (removeAll index) (final_targets r)) (s(a := s a - {index}))"
    by (rule represents_at_alias [OF rep]) (simp add: distinct_removeAll)
  ultimately show ?thesis
    by (simp add: RemoveAlias replay_action_def act_on_def del: is_some_and_def)
qed

lemma replay_represents:
  "represents (final_targets r) s \<Longrightarrow>
   represents (final_targets (fold replay_action actions r)) (fold act_on actions s)"
  by (induction actions arbitrary: r s) (auto intro: replay_action_represents)

lemma initial_targets_lookup:
  "map_of (initial_targets t actions) a =
     (if a \<in> set (map action_alias actions)
      then Some (case table_alias t a of None \<Rightarrow> [] | Some target \<Rightarrow> [target]) else None)"
proof -
  have "map_of (map (\<lambda>a. (a, f a)) xs) a = (if a \<in> set xs then Some (f a) else None)" for f :: "string \<Rightarrow> string list" and xs
    by (induction xs) auto
  then show ?thesis by (simp add: initial_targets_def)
qed

lemma initial_represents: "represents (initial_targets t actions) (alias_map t)"
  by (auto simp: represents_def initial_targets_lookup alias_map_def split: if_splits option.splits)

lemma act_on_other: "a \<notin> set (map action_alias actions) \<Longrightarrow> fold act_on actions s a = s a"
  by (induction actions arbitrary: s) (auto simp: act_on_def split: alias_action.splits)

lemma fold_act_on_mem:
  "target \<in> fold act_on actions s a \<Longrightarrow> target \<in> s a \<or> AddAlias a target \<in> set actions"
  by (induction actions arbitrary: s) (fastforce simp: act_on_def split: alias_action.splits if_splits)+

subsection \<open>Writing the topology\<close>

lemma map_of_row_delete_key: "map_of (row_delete (\<lambda>(b, _). b = a) rows) c = (if c = a then None else map_of rows c)"
  by (induction rows) (auto simp: row_delete_def)

lemma apply_target_alias:
  "table_alias (apply_target (a, ts) t) c =
     (if c = a then (case ts of [] \<Rightarrow> None | i # _ \<Rightarrow> Some i) else table_alias t c)"
  by (simp add: apply_target_def table_alias_def map_of_row_replace map_of_row_delete_key split: list.splits)

lemma apply_topology_alias:
  "distinct (map fst targets) \<Longrightarrow> table_alias (apply_topology targets t) a =
     (case map_of targets a of None \<Rightarrow> table_alias t a | Some [] \<Rightarrow> None | Some (i # _) \<Rightarrow> Some i)"
proof (induction targets arbitrary: t)
  case (Cons p targets)
  obtain b ts where p: "p = (b, ts)" by (cases p)
  have "map_of targets a = None" if "a = b"
    using Cons.prems that p by (simp add: map_of_eq_None_iff)
  then show ?case
    using Cons p by (auto simp: apply_topology_def apply_target_alias split: option.splits list.splits)
qed (simp add: apply_topology_def)

lemma apply_topology_indices [simp]: "indices (apply_topology targets t) = indices t"
proof (induction targets arbitrary: t)
  case (Cons p targets)
  have "indices (apply_target p t) = indices t"
    by (cases p) (simp add: apply_target_def split: list.splits)
  then show ?case using Cons by (simp add: apply_topology_def)
qed (simp add: apply_topology_def)

lemma apply_topology_distinct:
  "distinct (map fst (aliases t)) \<Longrightarrow> distinct (map fst (aliases (apply_topology targets t)))"
proof (induction targets arbitrary: t)
  case (Cons p targets)
  have "distinct (map fst (aliases (apply_target p t)))"
    using Cons.prems by (cases p) (simp add: apply_target_def distinct_row_replace distinct_row_delete split: list.splits)
  then show ?case using Cons by (simp add: apply_topology_def)
qed (simp add: apply_topology_def)

lemma in_hash_order_props:
  assumes h: "hash_is_permutation env" and d: "distinct (map fst targets)"
  shows "map_of (in_hash_order env targets) = map_of targets" "distinct (map fst (in_hash_order env targets))"
proof -
  let ?ks = "hash_order env (map fst targets)"
  have m: "mset ?ks = mset (map fst targets)" using h by (simp add: hash_is_permutation_def)
  then have ks: "set ?ks = fst ` set targets" "distinct ?ks"
    using mset_eq_setD [OF m] mset_eq_imp_distinct_iff [OF m] d by simp_all
  have all: "\<forall>k\<in>set ?ks. map_of targets k \<noteq> None" by (simp add: ks map_of_eq_None_iff)
  have lookup: "map_of (List.map_filter (\<lambda>a. map_option (Pair a) (map_of targets a)) ks) a =
      (if a \<in> set ks then map_of targets a else None)" for ks a
    by (induction ks) (auto simp: map_filter_simps split: option.splits)
  have keys: "\<forall>k\<in>set ks. map_of targets k \<noteq> None \<Longrightarrow>
      map fst (List.map_filter (\<lambda>a. map_option (Pair a) (map_of targets a)) ks) = ks" for ks
    by (induction ks) (auto simp: map_filter_simps)
  show "map_of (in_hash_order env targets) = map_of targets"
  proof
    fix a
    show "map_of (in_hash_order env targets) a = map_of targets a"
    proof (cases "a \<in> fst ` set targets")
      case False
      then have "map_of targets a = None" by (simp only: map_of_eq_None_iff simp_thms)
      then show ?thesis using False by (simp add: in_hash_order_def lookup ks(1))
    qed (simp add: in_hash_order_def lookup ks(1))
  qed
  show "distinct (map fst (in_hash_order env targets))"
    by (simp add: in_hash_order_def keys [OF all] ks(2))
qed

lemma replay_result:
  "distinct (map fst (final_targets (replay_actions t actions)))"
  "represents (final_targets (replay_actions t actions)) (fold act_on actions (alias_map t))"
  "map_of (final_targets (replay_actions t actions)) a = None \<longleftrightarrow> a \<notin> set (map action_alias actions)"
proof -
  have keys: "map fst (final_targets (replay_actions t actions)) = remdups (map action_alias actions)"
    by (simp add: replay_actions_def replay_keys initial_targets_def comp_def)
  show "distinct (map fst (final_targets (replay_actions t actions)))" by (simp add: keys)
  show "map_of (final_targets (replay_actions t actions)) a = None \<longleftrightarrow> a \<notin> set (map action_alias actions)"
    by (metis keys map_of_eq_None_iff set_map set_remdups)
  show "represents (final_targets (replay_actions t actions)) (fold act_on actions (alias_map t))"
    unfolding replay_actions_def by (rule replay_represents) (simp add: initial_represents)
qed

lemma commit_batch_parts:
  assumes "commit_batch env t actions = Inr t'"
  defines "targets \<equiv> in_hash_order env (final_targets (replay_actions t actions))"
  shows "filter (\<lambda>(_, ts). 1 < length ts) targets = []" "t' = apply_topology targets t"
  using assms(1) unfolding commit_batch_def Let_def targets_def [symmetric]
  by (auto simp: bad_def split: list.split_asm if_split_asm prod.split_asm)

lemma commit_batch_map:
  assumes h: "hash_is_permutation env" and c: "commit_batch env t actions = Inr t'"
  shows "alias_map t' = fold act_on actions (alias_map t)"
proof
  let ?fin = "final_targets (replay_actions t actions)" let ?targets = "in_hash_order env ?fin"
  note res = replay_result [of t actions]
  note ord = in_hash_order_props [OF h res(1)]
  note parts = commit_batch_parts [OF c]
  fix a
  have here: "alias_map t' a = (case map_of ?fin a of None \<Rightarrow> alias_map t a | Some ts \<Rightarrow> set (take 1 ts))"
    unfolding alias_map_def parts(2) apply_topology_alias [OF ord(2)] ord(1)
    by (simp split: option.splits list.splits)
  show "alias_map t' a = fold act_on actions (alias_map t) a"
  proof (cases "map_of ?fin a")
    case None
    then have "a \<notin> set (map action_alias actions)" by (rule res(3) [THEN iffD1])
    then show ?thesis unfolding here None by (simp add: act_on_other)
  next
    case (Some ts)
    then have "(a, ts) \<in> set ?targets" by (simp only: ord(1) [symmetric] map_of_SomeD)
    then have "length ts \<le> 1" using parts(1) by (auto simp only: filter_empty_conv prod.case not_less)
    moreover have "set ts = fold act_on actions (alias_map t) a"
      using res(2) Some unfolding represents_def by blast
    ultimately show ?thesis by (simp only: here Some option.case take_all)
  qed
qed

lemma commit_batch_rows:
  assumes "commit_batch env t actions = Inr t'"
  shows "indices t' = indices t" "distinct (map fst (aliases t)) \<Longrightarrow> distinct (map fst (aliases t'))"
  unfolding commit_batch_parts(2) [OF assms] by (simp_all add: apply_topology_distinct)

section \<open>The handler\<close>

lemma preserves_resolve_action [preserve]: "preserves I (resolve_action env action)"
  unfolding resolve_action_def by (intro preserve)

context admin_invariant
begin

lemma inv_alias_batch: "preserves I (alias_batch env body)"
  unfolding alias_batch_def by (intro preserve inv_modify_tables)

end

lemma preserves_alias_reads [preserve]: "preserves I (alias_get a)" "preserves I (alias_head a)"
  unfolding alias_head_def alias_get_def by (intro preserve)+

text \<open>What an action returns from given tables.\<close>

definition returns :: "('a \<Rightarrow> bool) \<Rightarrow> tables \<Rightarrow> 'a act \<Rightarrow> bool" where
  "returns P t m \<longleftrightarrow> (\<forall>w x. w_tables w = t \<longrightarrow> fst (m w) = Inr x \<longrightarrow> P x)"

lemma leaves_bind_returns:
  assumes m: "preserves (\<lambda>w. w_tables w = t) m" and r: "returns P t m" and t: "Q t"
    and k: "\<And>x. P x \<Longrightarrow> leaves Q t (k x)"
  shows "leaves Q t (bindE m k)"
  unfolding leaves_def
proof (intro allI impI)
  fix w :: world
  assume w: "w_tables w = t"
  obtain res w1 where res: "m w = (res, w1)" by (cases "m w")
  have w1: "w_tables w1 = t" using m w res by (fastforce simp: preserves_def)
  show "Q (w_tables (snd (bindE m k w)))"
  proof (cases res)
    case (Inr x)
    then have "P x" using r w res by (simp add: returns_def)
    then show ?thesis using k w1 by (simp add: leaves_def bindE_def res Inr)
  qed (simp add: bindE_def res w1 t)
qed

lemma returns_mapE:
  assumes f: "\<And>x. returns P t (f x)" and s: "\<And>x. preserves (\<lambda>w. w_tables w = t) (f x)"
  shows "returns (\<lambda>ys. \<forall>y\<in>set ys. P y) t (mapE f xs)"
proof (induction xs)
  case (Cons x xs)
  show ?case
    unfolding returns_def
  proof (intro allI impI)
    fix w ys
    assume w: "w_tables w = t" and r: "fst (mapE f (x # xs) w) = Inr ys"
    obtain res w1 where res: "f x w = (res, w1)" by (cases "f x w")
    obtain rest w2 where rest: "mapE f xs w1 = (rest, w2)" by (cases "mapE f xs w1")
    have w1: "w_tables w1 = t" using s [of x] w res by (fastforce simp: preserves_def)
    obtain y ys' where "res = Inr y" "rest = Inr ys'" "ys = y # ys'"
      using r by (auto simp: bindE_def res rest returnE_def split: sum.splits)
    then show "\<forall>y\<in>set ys. P y"
      using f [of x] w res Cons.IH w1 rest by (auto simp: returns_def)
  qed
qed (simp add: returns_def returnE_def)

definition action_ok :: "tables \<Rightarrow> alias_action \<Rightarrow> bool" where
  "action_ok t action = (case action of
     AddAlias a index \<Rightarrow> index \<in> index_names t \<and> a \<notin> index_names t
   | RemoveAlias _ _ \<Rightarrow> True)"

lemma sql_get_index_row: "sql_get_index env t name = Inr (index, r) \<Longrightarrow> index \<in> index_names t"
  using sql.resolve_row by (fastforce simp: sql_get_index_def table_index_mem [symmetric] split: option.splits sum.splits)

lemma resolve_action_ok: "read_catalog env = None \<Longrightarrow> returns (action_ok t) t (resolve_action env action)"
  unfolding returns_def
proof (intro allI impI)
  fix w x
  assume env: "read_catalog env = None" and w: "w_tables w = t" and r: "fst (resolve_action env action w) = Inr x"
  show "action_ok t x"
    using r table_index_mem sql_get_index_row
    by (fastforce simp: resolve_action_def bindE_def liftE_def get_index_def env getE_def w action_ok_def
        throwE_def returnE_def split: sum.split_asm prod.split_asm if_split_asm)
qed

lemma catalog_ok_commit:
  assumes h: "hash_is_permutation env" and c: "commit_batch env t actions = Inr t'"
    and ok: "catalog_ok t" and good: "\<forall>action\<in>set actions. action_ok t action"
  shows "catalog_ok t'"
proof -
  note rows = commit_batch_rows [OF c]
  have names: "index_names t' = index_names t" by (simp add: index_names_def rows(1))
  have distinct: "distinct (map fst (aliases t'))" "distinct (map fst (aliases t))"
    using rows(2) ok by (simp_all add: catalog_ok_def)
  have "target \<in> index_names t \<and> a \<notin> index_names t" if row: "(a, target) \<in> set (aliases t')" for a target
  proof -
    have "target \<in> alias_map t' a"
      using row distinct(1) by (simp add: alias_map_def table_alias_def)
    then have "target \<in> alias_map t a \<or> AddAlias a target \<in> set actions"
      unfolding commit_batch_map [OF h c] by (rule fold_act_on_mem)
    then show ?thesis
    proof
      assume "target \<in> alias_map t a"
      then have "(a, target) \<in> set (aliases t)" by (auto simp: alias_map_def table_alias_def dest: map_of_SomeD)
      then show ?thesis using ok by (auto simp: catalog_ok_def)
    qed (use good in \<open>auto simp: action_ok_def\<close>)
  qed
  then show ?thesis
    using ok distinct unfolding catalog_ok_def names rows(1) by blast
qed

lemma alias_batch_leaves:
  assumes env: "read_catalog env = None" "hash_is_permutation env" and ok: "catalog_ok t"
  shows "leaves catalog_ok t (alias_batch env body)"
  unfolding alias_batch_def
proof (rule leaves_lift, rule ok, rule leaves_bind_returns)
  show "preserves (\<lambda>w. w_tables w = t) (mapE (resolve_action env) requested)" for requested
    by (intro preserve)
  show "returns (\<lambda>ys. \<forall>y\<in>set ys. action_ok t y) t (mapE (resolve_action env) requested)" for requested
    by (intro returns_mapE resolve_action_ok preserve env(1))
  fix requested and actions :: "alias_action list"
  assume "\<forall>action\<in>set actions. action_ok t action"
  then show "leaves catalog_ok t (bindE (getE w_tables) (\<lambda>t. bindE (liftE (commit_batch env t actions))
      (\<lambda>t'. bindE (modify_tables (\<lambda>_. t')) (\<lambda>_. returnE acknowledged))))"
    by (intro leaves_tables leaves_lift leaves_modify leaves_return ok) (rule catalog_ok_commit [OF env(2) _ ok])
qed (rule ok)

section \<open>Properties\<close>

text \<open>C22: A batch of alias actions is atomic and means what its actions mean in sequence: when it
  fails the metadata is unchanged, and when it succeeds the indices are unchanged and every alias,
  affected or not, has exactly the targets obtained by adding and removing targets action by action,
  whatever the iteration order of the hash maps.\<close>

theorem alias_batch_refines:
  assumes h: "hash_is_permutation env" and run: "alias_batch env body w = (result, w')"
  shows "case result of
      Inl e \<Rightarrow> w_tables w' = w_tables w
    | Inr response \<Rightarrow> \<exists>requested actions. request_actions body = Inr requested
        \<and> fst (mapE (resolve_action env) requested w) = Inr actions
        \<and> indices (w_tables w') = indices (w_tables w)
        \<and> alias_map (w_tables w') = fold act_on actions (alias_map (w_tables w))"
proof -
  have same: "snd (mapE (resolve_action env) requested w) = w" for requested
  proof -
    have "preserves (\<lambda>w'. w' = w) (mapE (resolve_action env) requested)" by (intro preserve)
    then show ?thesis by (simp add: preserves_def)
  qed
  show ?thesis
  proof (cases "request_actions body")
    case (Inr requested)
    obtain res where res: "mapE (resolve_action env) requested w = (res, w)"
      using same by (metis prod.collapse)
    show ?thesis
    proof (cases res)
      case (Inr actions)
      show ?thesis
      proof (cases "commit_batch env (w_tables w) actions")
        case (Inr t')
        then show ?thesis
          using run commit_batch_map [OF h Inr] commit_batch_rows(1) [OF Inr] res \<open>res = Inr actions\<close>
            \<open>request_actions body = Inr requested\<close>
          by (auto simp: alias_batch_def bindE_def liftE_def getE_def modify_tables_def modifyE_def returnE_def)
      qed (use run res Inr \<open>request_actions body = Inr requested\<close> in
          \<open>auto simp: alias_batch_def bindE_def liftE_def getE_def\<close>)
    qed (use run res Inr in \<open>auto simp: alias_batch_def bindE_def liftE_def\<close>)
  qed (use run in \<open>auto simp: alias_batch_def bindE_def liftE_def\<close>)
qed

definition alias_env :: env where
  "alias_env = sample_env\<lparr>parse_json := sample_parse\<rparr>"

definition alias_tables :: tables where
  "alias_tables = \<lparr>indices = [(''shoes'', ''m'', ''v''), (''boots'', ''m'', ''v'')], aliases = [(''products'', ''shoes'')]\<rparr>"

definition alias_world :: world where
  "alias_world = empty_world\<lparr>w_tables := alias_tables\<rparr>"

definition alias_request :: "string \<Rightarrow> string \<Rightarrow> string \<Rightarrow> json" where
  "alias_request kind a index = jobj [(kind, jobj [(''alias'', JStr a), (''index'', JStr index)])]"

text \<open>Moving an alias: the added target is removed from nowhere, the old one from the same batch.\<close>

definition move_alias :: json where
  "move_alias = jobj [(''actions'', JArr [alias_request ''add'' ''products'' ''boots'',
     alias_request ''remove'' ''products'' ''shoes''])]"

lemma move_requested:
  "request_actions move_alias = Inr [alias_request ''add'' ''products'' ''boots'', alias_request ''remove'' ''products'' ''shoes'']"
  by (simp add: request_actions_def move_alias_def get_jobj)

lemma resolve_alias_request:
  assumes "kind = ''add'' \<or> kind = ''remove''" "sql_get_index env alias_tables index = Inr (index, r)"
    "a \<notin> {''shoes'', ''boots''}" and w: "w_tables w = alias_tables" "read_catalog env = None"
  shows "resolve_action env (alias_request kind a index) w =
    (Inr (if kind = ''add'' then AddAlias a index else RemoveAlias a index), w)"
proof -
  have "parse_action (alias_request kind a index) = Inr (kind, a, index)"
    using assms(1) by (auto simp: alias_request_def parse_action_def jobj_def obj_of_def get_str_def get_def keys_def)
  moreover have "get_index env index w = (Inr (index, r), w)"
    using assms(2) by (simp add: get_index_def bindE_def getE_def liftE_def w)
  moreover have "table_index (w_tables w) a = None"
    using assms(3) by (simp add: w alias_tables_def table_index_def)
  ultimately show ?thesis
    by (cases r) (auto simp: resolve_action_def bindE_def liftE_def getE_def returnE_def)
qed

lemma alias_indices:
  assumes "parse_json env ''m'' = sample_parse ''m''" "parse_json env ''v'' = sample_parse ''v''"
  shows "\<exists>r. sql_get_index env alias_tables ''shoes'' = Inr (''shoes'', r)"
    "\<exists>r. sql_get_index env alias_tables ''boots'' = Inr (''boots'', r)"
  using assms by (simp_all add: sql_get_index_def sql_resolve_def coalesce_name_def table_index_def table_alias_def
      alias_tables_def parse_strings_def sample_parse_def List.map_filter_def)

lemma move_resolved:
  assumes "parse_json env ''m'' = sample_parse ''m''" "parse_json env ''v'' = sample_parse ''v''"
    and w: "w_tables w = alias_tables" "read_catalog env = None"
  shows "mapE (resolve_action env) [alias_request ''add'' ''products'' ''boots'', alias_request ''remove'' ''products'' ''shoes''] w
     = (Inr [AddAlias ''products'' ''boots'', RemoveAlias ''products'' ''shoes''], w)"
proof -
  have "resolve_action env (alias_request ''add'' ''products'' ''boots'') w = (Inr (AddAlias ''products'' ''boots''), w)"
    "resolve_action env (alias_request ''remove'' ''products'' ''shoes'') w = (Inr (RemoveAlias ''products'' ''shoes''), w)"
    using alias_indices [OF assms(1,2)] w by (auto simp: resolve_alias_request)
  then show ?thesis by (simp add: bindE_def returnE_def)
qed

definition moved_tables :: tables where
  "moved_tables = alias_tables\<lparr>aliases := [(''products'', ''boots'')]\<rparr>"

lemma move_commits:
  assumes "hash_order env = id" "validate_catalog_capacity env moved_tables = Inr ()"
  shows "commit_batch env alias_tables [AddAlias ''products'' ''boots'', RemoveAlias ''products'' ''shoes''] = Inr moved_tables"
  using assms
  by (simp add: commit_batch_def replay_actions_def replay_action_def initial_targets_def at_alias_def Let_def
      table_alias_def alias_tables_def in_hash_order_def List.map_filter_def row_replace_def apply_topology_def
      apply_target_def moved_tables_def)

lemma move_runs:
  assumes "parse_json env ''m'' = sample_parse ''m''" "parse_json env ''v'' = sample_parse ''v''"
    and "w_tables w = alias_tables" "read_catalog env = None"
    and "hash_order env = id" "validate_catalog_capacity env moved_tables = Inr ()"
  shows "alias_batch env move_alias w = (Inr acknowledged, w\<lparr>w_tables := moved_tables\<rparr>)"
  unfolding alias_batch_def move_requested
  by (simp only: bindE_def liftE_def move_resolved [OF assms(1-4)] getE_def assms(3) move_commits [OF assms(5,6)]
      modify_tables_def modifyE_def returnE_def prod.case sum.case)

lemma alias_env_fields:
  "parse_json alias_env ''m'' = sample_parse ''m''" "parse_json alias_env ''v'' = sample_parse ''v''"
  "w_tables alias_world = alias_tables" "read_catalog alias_env = None" "hash_order alias_env = id"
  "validate_catalog_capacity alias_env moved_tables = Inr ()"
  by (simp_all add: alias_env_def alias_world_def sample_env_def validate_catalog_capacity_def)

lemma alias_batch_refines_witness:
  "alias_map (w_tables (snd (alias_batch alias_env move_alias alias_world))) ''products'' = {''boots''}"
proof -
  note run = move_runs [OF alias_env_fields(1-4) alias_env_fields(5,6)]
  have h: "hash_is_permutation alias_env"
    by (simp add: hash_is_permutation_def alias_env_def sample_env_def)
  show ?thesis
    using alias_batch_refines [OF h run]
    by (simp del: mapE.simps add: move_requested move_resolved [OF alias_env_fields(1-4)] run alias_env_fields act_on_def)
      (auto simp: alias_map_def table_alias_def alias_tables_def)
qed

end
