(* ===== verification/SearchPages.thy ===== *)
theory SearchPages
  imports Search Aliases
begin

text \<open>
  Properties of the scans of \<open>Search\<close>: sorting page by page and keeping a window of the hits loses
  nothing, scans end over a Qdrant whose offsets advance, and the scan that lacks the guard does
  not end when they do not.
\<close>

section \<open>Sorting in pieces\<close>

context lawful_comparator
begin

lemma insert_by_commute:
  "cmp x z = Greater \<Longrightarrow> sorted_by cmp ls \<Longrightarrow> insert_by cmp x (insert_by cmp z ls) = insert_by cmp z (insert_by cmp x ls)"
proof (induction ls)
  case Nil
  then show ?case using cmp_total [of x z] by simp
next
  case (Cons l ls)
  have "cmp z x \<noteq> Greater" using Cons.prems(1) by (rule cmp_total)
  moreover have "cmp z l = Greater \<Longrightarrow> cmp x l = Greater"
    using cmp_trans [of z x l] \<open>cmp z x \<noteq> Greater\<close> by blast
  ultimately show ?case using Cons by auto
qed

lemma sort_by_append: "sort_by cmp (xs @ ys) = foldr (insert_by cmp) xs (sort_by cmp ys)"
  by (induction xs) simp_all

lemma foldr_insert_sorted: "sorted_by cmp ls \<Longrightarrow> sorted_by cmp (foldr (insert_by cmp) xs ls)"
  by (induction xs) (simp_all add: insert_by_sorted)

lemma foldr_insert_insert:
  "sorted_by cmp ls \<Longrightarrow> foldr (insert_by cmp) (insert_by cmp x zs) ls = insert_by cmp x (foldr (insert_by cmp) zs ls)"
proof (induction zs)
  case (Cons z zs)
  then show ?case
    using insert_by_commute [of x z "foldr (insert_by cmp) zs ls"] foldr_insert_sorted by simp
qed simp

lemma sort_by_sorted_prefix: "sort_by cmp (sort_by cmp xs @ ys) = sort_by cmp (xs @ ys)"
  by (induction xs) (simp_all add: sort_by_append foldr_insert_insert sort_by_sorted)

lemma insert_by_split:
  assumes "sorted_by cmp (P @ d # Q)"
  shows "(\<exists>P'. insert_by cmp a (P @ d # Q) = P' @ d # Q \<and> insert_by cmp a (P @ Q) = P' @ Q \<and> length P' = Suc (length P))
    \<or> cmp a d = Greater \<and> (\<exists>Q'. insert_by cmp a (P @ d # Q) = P @ d # Q' \<and> insert_by cmp a (P @ Q) = P @ Q')"
  using assms
proof (induction P)
  case Nil
  have "insert_by cmp a Q = a # Q" if "cmp a d \<noteq> Greater"
    using Nil that cmp_trans [of a d] by (cases Q) auto
  then show ?case by (cases "cmp a d = Greater") auto
next
  case (Cons p P)
  show ?case
  proof (cases "cmp a p = Greater")
    case True
    have "sorted_by cmp (P @ d # Q)" using Cons.prems by simp
    from Cons.IH [OF this] show ?thesis
    proof (elim disjE exE conjE)
      fix P'
      assume "insert_by cmp a (P @ d # Q) = P' @ d # Q" "insert_by cmp a (P @ Q) = P' @ Q" "length P' = Suc (length P)"
      then show ?thesis using True by (intro disjI1 exI [of _ "p # P'"]) simp
    qed (use True in auto)
  next
    case False
    then show ?thesis by (intro disjI1 exI [of _ "a # p # P"]) simp
  qed
qed

lemma sort_by_without:
  "\<exists>P Q. sort_by cmp (A @ d # B) = P @ d # Q \<and> sort_by cmp (A @ B) = P @ Q
    \<and> length (filter (\<lambda>t. cmp t d \<noteq> Greater) A) \<le> length P"
proof (induction A)
  case Nil
  have "\<exists>P Q. insert_by cmp d ls = P @ d # Q \<and> ls = P @ Q" for ls
  proof (induction ls)
    case (Cons l ls)
    then obtain P Q where "insert_by cmp d ls = P @ d # Q" "ls = P @ Q" by blast
    then show ?case
      by (cases "cmp d l = Greater") (auto intro: exI [of _ "l # P"] exI [of _ "[]"])
  qed simp
  then show ?case by simp
next
  case (Cons a A)
  then obtain P Q where PQ: "sort_by cmp (A @ d # B) = P @ d # Q" "sort_by cmp (A @ B) = P @ Q"
      "length (filter (\<lambda>t. cmp t d \<noteq> Greater) A) \<le> length P"
    by blast
  have "sorted_by cmp (P @ d # Q)" using sort_by_sorted PQ(1) by metis
  from insert_by_split [OF this, of a] show ?case
  proof (elim disjE exE conjE)
    fix P'
    assume "insert_by cmp a (P @ d # Q) = P' @ d # Q" "insert_by cmp a (P @ Q) = P' @ Q" "length P' = Suc (length P)"
    then show ?case using PQ by (intro exI [of _ P'] exI [of _ Q]) simp
  next
    fix Q'
    assume "cmp a d = Greater" "insert_by cmp a (P @ d # Q) = P @ d # Q'" "insert_by cmp a (P @ Q) = P @ Q'"
    then show ?case using PQ by (intro exI [of _ P] exI [of _ Q']) simp
  qed
qed

lemma take_sort_without:
  "(\<And>d. d \<in> set D \<Longrightarrow> n \<le> length (filter (\<lambda>t. cmp t d \<noteq> Greater) A)) \<Longrightarrow>
   take n (sort_by cmp (A @ D @ B)) = take n (sort_by cmp (A @ B))"
proof (induction D)
  case (Cons d D)
  obtain P Q where "sort_by cmp (A @ d # D @ B) = P @ d # Q" "sort_by cmp (A @ D @ B) = P @ Q"
      "length (filter (\<lambda>t. cmp t d \<noteq> Greater) A) \<le> length P"
    using sort_by_without by blast
  with Cons show ?case by fastforce
qed simp

text \<open>Keeping only the first \<open>n\<close> of what has been sorted so far does not change the first \<open>n\<close>.\<close>

lemma take_sort_take: "take n (sort_by cmp (take n (sort_by cmp xs) @ ys)) = take n (sort_by cmp (xs @ ys))"
proof -
  let ?S = "sort_by cmp xs"
  have sorted: "sorted_by cmp (take n ?S @ drop n ?S)" by (simp add: sort_by_sorted)
  have le: "sorted_by cmp (A @ B) \<Longrightarrow> t \<in> set A \<Longrightarrow> d \<in> set B \<Longrightarrow> cmp t d \<noteq> Greater" for A B t d
    by (induction A) auto
  have "n \<le> length (filter (\<lambda>t. cmp t d \<noteq> Greater) (take n ?S))" if d: "d \<in> set (drop n ?S)" for d
  proof -
    have "filter (\<lambda>t. cmp t d \<noteq> Greater) (take n ?S) = take n ?S"
      by (rule filter_True) (use le [OF sorted _ d] in blast)
    moreover have "n < length ?S"
    proof (rule ccontr)
      assume "\<not> n < length ?S"
      then have "drop n ?S = []" by (simp only: drop_all not_less)
      with d show False by simp
    qed
    ultimately show ?thesis by simp
  qed
  then have "take n (sort_by cmp (take n ?S @ drop n ?S @ ys)) = take n (sort_by cmp (take n ?S @ ys))"
    by (rule take_sort_without)
  moreover have "take n ?S @ drop n ?S @ ys = ?S @ ys"
    by (simp only: append.assoc [symmetric] append_take_drop_id)
  ultimately show ?thesis by (simp only: sort_by_sorted_prefix)
qed

end

section \<open>The filter scan\<close>

text \<open>What one document contributes to a complete scan: at most one hit, and one to the total when it
  passes the post filter.\<close>

definition scan_one :: "env \<Rightarrow> search_params \<Rightarrow> search_scope \<Rightarrow> json \<Rightarrow> json list \<times> u64" where
  "scan_one env p s point = scan_point env p s True Map.empty point ([], 0)"

definition page_hits :: "env \<Rightarrow> search_params \<Rightarrow> search_scope \<Rightarrow> json list \<Rightarrow> json list" where
  "page_hits env p s points = concat (map (\<lambda>point. fst (scan_one env p s point)) points)"

definition page_total :: "env \<Rightarrow> search_params \<Rightarrow> search_scope \<Rightarrow> json list \<Rightarrow> u64" where
  "page_total env p s points = sum_list (map (\<lambda>point. snd (scan_one env p s point)) points)"

lemma scan_point_one:
  "scan_point env p s True Map.empty point (hits, n) =
     (hits @ fst (scan_one env p s point), n + snd (scan_one env p s point))"
  by (simp add: scan_one_def scan_point_def Let_def)

lemma scan_page:
  "fold (scan_point env p s True Map.empty) points (hits, n) = (hits @ page_hits env p s points, n + page_total env p s points)"
  by (induction points arbitrary: hits n) (simp_all add: scan_point_one page_hits_def page_total_def add.assoc)

lemma page_append:
  "page_hits env p s (xs @ ys) = page_hits env p s xs @ page_hits env p s ys"
  "page_total env p s (xs @ ys) = page_total env p s xs + page_total env p s ys"
  by (simp_all add: page_hits_def page_total_def)

lemma get_scan_body:
  "get ''offset'' (scan_body env p s full offset) = (if is_null offset then None else Some offset)"
  "get ''wait'' (scan_body env p s full offset) = None"
  by (cases "s_filter s"; simp add: scan_body_def optional_member_def offset_member_def get_jobj)+

lemma result_points_reply:
  "result_points (reply_json b) = Some points \<Longrightarrow> reply_points (Reply status b) = points"
  by (auto simp: result_points_def reply_points_def reply_result_def bind_eq_Some_conv)

lemma scan_next_reply: "scan_next (reply_json b) = next_offset (reply_result (Reply status b))"
  by (cases "get ''result'' (reply_json b)") (simp_all add: scan_next_def next_offset_def reply_result_def)

text \<open>The call for the page at an offset.\<close>

definition scan_call :: "env \<Rightarrow> search_params \<Rightarrow> search_scope \<Rightarrow> bool \<Rightarrow> json \<Rightarrow> call" where
  "scan_call env p s full offset =
     make_call POST (points_path (s_coll s) ''/points/scroll'') (Some (scan_body env p s full offset))"

lemma scan_round_sent:
  assumes run: "scan_round env p s full st w = (Inr r, w')"
  obtains c rep points sources w1 where "w_trace w1 = w_trace w @ [(c, rep)]" "rep = env_qdrant env (w_trace w) c"
    "c = scan_call env p s full (sc_offset st)" "call_offset c = sc_offset st" "points = reply_points rep"
    "(if full \<and> document_projection (cfg env)
      then retrieve_sources env (s_index s) (map (point_id (sha256 env) (s_index s)) (List.map_filter point_es_id points))
      else returnE Map.empty) w1 = (Inr sources, w')"
    "let (hits, found) = fold (scan_point env p s full sources) points (sc_hits st, sc_total st);
         hits = keep_page env p full hits; next = next_offset (reply_result rep)
     in if is_null next \<or> s_patterns s = [] \<and> \<not> full then r = Inr (hits, found)
        else r = Inl \<lparr>sc_offset = next, sc_hits = hits, sc_total = found\<rparr>"
proof -
  let ?body = "scan_body env p s full (sc_offset st)"
  let ?c = "make_call POST (points_path (s_coll s) ''/points/scroll'') (Some ?body)"
  obtain v w1 where v: "request env POST (points_path (s_coll s) ''/points/scroll'') (Some ?body) w = (Inr v, w1)"
    using run by (auto simp: scan_round_def bindE_def split: prod.split_asm sum.split_asm)
  obtain status b where sent: "w_trace w1 = w_trace w @ [(?c, Reply status b)]" "v = reply_json b"
      "env_qdrant env (w_trace w) ?c = Reply status b"
    using v by (rule request_sent)
  obtain points where points: "result_points v = Some points"
    using run by (cases "result_points v") (auto simp: scan_round_def bindE_def v throwE_def liftE_def)
  let ?m = "if full \<and> document_projection (cfg env)
      then retrieve_sources env (s_index s) (map (point_id (sha256 env) (s_index s)) (List.map_filter point_es_id points))
      else returnE Map.empty"
  obtain sources w2 where src: "?m w1 = (Inr sources, w2)"
    using run by (cases "?m w1") (auto simp: scan_round_def bindE_def v points split: sum.split_asm)
  obtain hits found where fold: "fold (scan_point env p s full sources) points (sc_hits st, sc_total st) = (hits, found)"
    by (cases "fold (scan_point env p s full sources) points (sc_hits st, sc_total st)")
  show ?thesis
  proof (rule that [of w1 ?c "Reply status b" points sources])
    show "w_trace w1 = w_trace w @ [(?c, Reply status b)]" "Reply status b = env_qdrant env (w_trace w) ?c"
      by (simp_all add: sent)
    show "?c = scan_call env p s full (sc_offset st)" by (simp only: scan_call_def)
    show "call_offset ?c = sc_offset st" by (rule call_offset_no_wait) (simp_all add: get_scan_body)
    show "points = reply_points (Reply status b)" using points sent(2) result_points_reply by metis
    have "w2 = w' \<and> (if is_null (scan_next v) \<or> s_patterns s = [] \<and> \<not> full then r = Inr (keep_page env p full hits, found)
        else r = Inl \<lparr>sc_offset = scan_next v, sc_hits = keep_page env p full hits, sc_total = found\<rparr>)"
    proof -
      let ?keep = "keep_page env p full hits"
      have "(if is_null (scan_next v) \<or> s_patterns s = [] \<and> \<not> full then returnE (Inr (?keep, found))
          else if scan_next v = sc_offset st \<or> points = [] then throwE (Bad ''search'' ''Qdrant scroll did not advance'')
          else returnE (Inl \<lparr>sc_offset = scan_next v, sc_hits = ?keep, sc_total = found\<rparr>)) w2 = (Inr r, w')"
        using run by (simp only: scan_round_def bindE_def v points src fold Let_def prod.case sum.case option.case)
      then show ?thesis
        by (cases "is_null (scan_next v) \<or> s_patterns s = [] \<and> \<not> full")
           (simp_all only: if_P if_not_P returnE_def throwE_def liftE_def not_False_eq_True prod.inject sum.inject
             sum.distinct simp_thms split: if_split_asm)
    qed
    then show "?m w1 = (Inr sources, w')"
      "let (hits, found) = fold (scan_point env p s full sources) points (sc_hits st, sc_total st);
         hits = keep_page env p full hits; next = next_offset (reply_result (Reply status b))
       in if is_null next \<or> s_patterns s = [] \<and> \<not> full then r = Inr (hits, found)
          else r = Inl \<lparr>sc_offset = next, sc_hits = hits, sc_total = found\<rparr>"
      using src by (simp_all add: fold sent(2) scan_next_reply [of b status])
  qed
qed

text \<open>Uniform hits sort by a lawful comparator.\<close>

lemma sort_hits_kinded:
  "uniform_hits sorts hits \<Longrightarrow> sort_hits to_text sorts hits = sort_by (hits_cmp (kinded_cmp to_text) sorts) hits"
  unfolding sort_hits_def compare_sorted_hits_eq by (rule sort_by_cong) (rule uniform_hits_agree)

lemma uniform_hits_mono: "uniform_hits sorts hits \<Longrightarrow> set hits' \<subseteq> set hits \<Longrightarrow> uniform_hits sorts hits'"
  unfolding uniform_hits_def list_all_iff by blast

lemma take_sort_hits_take:
  assumes "uniform_hits sorts (xs @ ys)"
  shows "take n (sort_hits to_text sorts (take n (sort_hits to_text sorts xs) @ ys)) = take n (sort_hits to_text sorts (xs @ ys))"
proof -
  note sort_pieces = lawful_comparator.take_sort_take [OF hits_cmp_lawful [OF kinded.lawful_comparator_axioms]]
  have "uniform_hits sorts xs" using assms by (rule uniform_hits_mono) simp
  then have x: "sort_hits to_text sorts xs = sort_by (hits_cmp (kinded_cmp to_text) sorts) xs"
    by (rule sort_hits_kinded)
  have "uniform_hits sorts (take n (sort_hits to_text sorts xs) @ ys)"
    using assms by (rule uniform_hits_mono) (auto simp: x dest: in_set_takeD)
  then show ?thesis
    using sort_pieces [of n to_text sorts xs ys] by (simp only: sort_hits_kinded [OF assms] sort_hits_kinded x)
qed

lemma full_scan_loop:
  assumes env: "\<not> document_projection (cfg env)" and nc: "p_collapse p = None"
    and run: "loopE n (scan_round env p s True) st w = (Inr (Some (hits, tally)), w')"
  shows "\<exists>sent. w_trace w' = w_trace w @ sent \<and> sent \<noteq> [] \<and> scroll_pages (scan_call env p s True) (sc_offset st) sent
    \<and> is_null (next_offset (reply_result (snd (last sent))))
    \<and> (let points = concat (map (\<lambda>(_, r). reply_points r) sent) in
        tally = sc_total st + page_total env p s points
        \<and> (uniform_hits (p_sorts p) (sc_hits st @ page_hits env p s points) \<longrightarrow>
            hits = take (unat (window p)) (sort_hits (json_text env) (p_sorts p) (sc_hits st @ page_hits env p s points))))"
  using run
proof (induction n arbitrary: st w)
  case (Suc n)
  obtain r w1 where round: "scan_round env p s True st w = (Inr r, w1)"
    using Suc.prems by (cases "scan_round env p s True st w") (auto simp: bindE_def split: sum.split_asm)
  obtain c rep where sent: "w_trace w1 = w_trace w @ [(c, rep)]" "c = scan_call env p s True (sc_offset st)"
      "call_offset (scan_call env p s True (sc_offset st)) = sc_offset st"
      and res: "let hits = keep_page env p True (sc_hits st @ page_hits env p s (reply_points rep));
          found = sc_total st + page_total env p s (reply_points rep); next = next_offset (reply_result rep)
        in if is_null next then r = Inr (hits, found) else r = Inl \<lparr>sc_offset = next, sc_hits = hits, sc_total = found\<rparr>"
    using round env by (elim scan_round_sent) (auto simp: returnE_def scan_page Let_def split: if_split_asm)
  let ?H = "take (unat (window p)) (sort_hits (json_text env) (p_sorts p) (sc_hits st @ page_hits env p s (reply_points rep)))"
  have keep: "keep_page env p True (sc_hits st @ page_hits env p s (reply_points rep)) = ?H"
    by (simp add: keep_page_def nc)
  show ?case
  proof (cases "is_null (next_offset (reply_result rep))")
    case True
    then have "hits = ?H" "tally = sc_total st + page_total env p s (reply_points rep)" "w' = w1"
      using Suc.prems res by (auto simp: bindE_def round returnE_def keep Let_def)
    then show ?thesis using sent True by (intro exI [of _ "[(c, rep)]"]) simp
  next
    case False
    let ?st = "\<lparr>sc_offset = next_offset (reply_result rep), sc_hits = ?H, sc_total = sc_total st + page_total env p s (reply_points rep)\<rparr>"
    have "loopE n (scan_round env p s True) ?st w1 = (Inr (Some (hits, tally)), w')"
      using Suc.prems res False by (simp add: bindE_def round keep Let_def)
    from Suc.IH [OF this] obtain rest where rest: "w_trace w' = w_trace w1 @ rest" "rest \<noteq> []"
        "scroll_pages (scan_call env p s True) (next_offset (reply_result rep)) rest"
        "is_null (next_offset (reply_result (snd (last rest))))"
        "tally = sc_total st + page_total env p s (reply_points rep) + page_total env p s (concat (map (\<lambda>(_, r). reply_points r) rest))"
        "uniform_hits (p_sorts p) (?H @ page_hits env p s (concat (map (\<lambda>(_, r). reply_points r) rest))) \<Longrightarrow>
         hits = take (unat (window p)) (sort_hits (json_text env) (p_sorts p)
           (?H @ page_hits env p s (concat (map (\<lambda>(_, r). reply_points r) rest))))"
      by (auto simp: Let_def)
    let ?later = "page_hits env p s (concat (map (\<lambda>(_, r). reply_points r) rest))"
    have "hits = take (unat (window p)) (sort_hits (json_text env) (p_sorts p)
        ((sc_hits st @ page_hits env p s (reply_points rep)) @ ?later))"
      if u: "uniform_hits (p_sorts p) ((sc_hits st @ page_hits env p s (reply_points rep)) @ ?later)"
    proof -
      have "set (?H @ ?later) \<subseteq> set ((sc_hits st @ page_hits env p s (reply_points rep)) @ ?later)"
        by (auto simp: sort_hits_def dest: in_set_takeD)
      then have "uniform_hits (p_sorts p) (?H @ ?later)" by (rule uniform_hits_mono [OF u])
      then show ?thesis using rest(6) take_sort_hits_take [OF u] by simp
    qed
    then show ?thesis
      using rest(1-5) False by (intro exI [of _ "(c, rep) # rest"]) (simp add: sent page_append Let_def add.assoc)
  qed
qed (simp add: returnE_def)

section \<open>Properties\<close>

text \<open>A search sorted by fields reads every page Qdrant has, and although it keeps only one window
  of hits from page to page, the hits it ends with are the first window of all matching documents
  sorted together, and its total counts all of them. (Sorting is by a total order only when a sort
  field does not mix numbers with other values, which is assumed.)\<close>

theorem sorted_scan_exact:
  assumes "\<not> document_projection (cfg env)" "p_collapse p = None"
    and "loopE fuel (scan_round env p s True) \<lparr>sc_offset = JNull, sc_hits = [], sc_total = 0\<rparr> w = (Inr (Some (hits, tally)), w')"
  shows "\<exists>sent. w_trace w' = w_trace w @ sent
    \<and> is_null (next_offset (reply_result (snd (last sent))))
    \<and> (let points = concat (map (\<lambda>(_, r). reply_points r) sent) in
        tally = page_total env p s points
        \<and> (uniform_hits (p_sorts p) (page_hits env p s points) \<longrightarrow>
            hits = take (unat (window p)) (sort_hits (json_text env) (p_sorts p) (page_hits env p s points))))"
  using full_scan_loop [OF assms] by fastforce

text \<open>C27: A filter scan ends over a Qdrant whose scroll offsets advance: within as many rounds as the
  rank of the first offset and one more there is a result or an error.\<close>

theorem filter_scan_ends:
  assumes "scroll_advances (env_qdrant env) rank" "rank JNull < fuel"
  shows "fst (loopE fuel (scan_round env p s full) \<lparr>sc_offset = JNull, sc_hits = [], sc_total = 0\<rparr> w) \<noteq> Inr None"
proof (rule loopE_ends [where rank = "rank \<circ> sc_offset"])
  fix st st' :: scan_state and w w'
  define r :: "scan_state + json list \<times> u64" where "r = Inl st'"
  assume "scan_round env p s full st w = (Inr (Inl st'), w')"
  then obtain c where more: "\<not> is_null (next_offset (reply_result (env_qdrant env (w_trace w) c)))"
      and c: "call_offset c = sc_offset st" and st': "sc_offset st' = next_offset (reply_result (env_qdrant env (w_trace w) c))"
    unfolding r_def [symmetric]
    by (elim scan_round_sent) (auto simp: Let_def r_def split: prod.split_asm if_split_asm)
  show "(rank \<circ> sc_offset) st' < (rank \<circ> sc_offset) st"
    using assms(1) more unfolding scroll_advances_def comp_def st' c [symmetric] by blast
qed (use assms(2) in simp)

subsection \<open>One hit per document\<close>

definition best_hits :: "(string \<times> json) list \<Rightarrow> json list \<Rightarrow> bool" where
  "best_hits unique hits \<longleftrightarrow> distinct (map fst unique) \<and> fst ` set unique = hit_id ` set hits
     \<and> (\<forall>(k, h)\<in>set unique. hit_id h = k \<and> h \<in> set hits
          \<and> (\<forall>h'\<in>set hits. hit_id h' = k \<longrightarrow> hit_score h' \<le> hit_score h))"

lemma best_hitsI:
  assumes "distinct (map fst unique)" "fst ` set unique = hit_id ` set hits"
    and "\<And>k h. (k, h) \<in> set unique \<Longrightarrow> hit_id h = k \<and> h \<in> set hits"
    and "\<And>k h h'. (k, h) \<in> set unique \<Longrightarrow> h' \<in> set hits \<Longrightarrow> hit_id h' = k \<Longrightarrow> hit_score h' \<le> hit_score h"
  shows "best_hits unique hits"
  unfolding best_hits_def using assms by blast

lemma best_hitsD:
  assumes "best_hits unique hits"
  shows "distinct (map fst unique)" "fst ` set unique = hit_id ` set hits"
    and "(k, h) \<in> set unique \<Longrightarrow> hit_id h = k" "(k, h) \<in> set unique \<Longrightarrow> h \<in> set hits"
    and "(k, h) \<in> set unique \<Longrightarrow> h' \<in> set hits \<Longrightarrow> hit_id h' = k \<Longrightarrow> hit_score h' \<le> hit_score h"
  using assms unfolding best_hits_def by blast+

lemma best_hits_new:
  assumes b: "best_hits unique hits" and n: "map_of unique (hit_id hit) = None"
  shows "best_hits (unique @ [(hit_id hit, hit)]) (hits @ [hit])"
proof -
  have key: "hit_id hit \<notin> fst ` set unique" using n by (simp only: map_of_eq_None_iff simp_thms)
  then have "hit_id hit \<notin> hit_id ` set hits" unfolding best_hitsD(2) [OF b, symmetric] .
  then have fresh: "\<And>h. h \<in> set hits \<Longrightarrow> hit_id h \<noteq> hit_id hit" by (metis image_eqI)
  show ?thesis
  proof (rule best_hitsI)
    show "distinct (map fst (unique @ [(hit_id hit, hit)]))" using best_hitsD(1) [OF b] key by simp
    show "fst ` set (unique @ [(hit_id hit, hit)]) = hit_id ` set (hits @ [hit])" using best_hitsD(2) [OF b] by simp
    fix k h
    assume kh: "(k, h) \<in> set (unique @ [(hit_id hit, hit)])"
    then show "hit_id h = k \<and> h \<in> set (hits @ [hit])" using best_hitsD(3,4) [OF b] by auto
    fix h'
    assume "h' \<in> set (hits @ [hit])" "hit_id h' = k"
    then show "hit_score h' \<le> hit_score h"
      using kh key best_hitsD(5) [OF b, of k h h'] fresh [of h'] by (force simp: image_iff)
  qed
qed

lemma best_hits_replace:
  assumes b: "best_hits unique hits" and old: "map_of unique (hit_id hit) = Some old" and lt: "hit_score old < hit_score hit"
  shows "best_hits (row_update (hit_id hit) hit unique) (hits @ [hit])"
proof (rule best_hitsI)
  have mem: "(hit_id hit, old) \<in> set unique" using old by (rule map_of_SomeD)
  show "distinct (map fst (row_update (hit_id hit) hit unique))" using best_hitsD(1) [OF b] by simp
  have "fst ` set (row_update (hit_id hit) hit unique) = fst ` set unique"
    by (metis keys_row_update list.set_map)
  moreover have "hit_id hit \<in> hit_id ` set hits" using mem best_hitsD(2) [OF b] by force
  ultimately show "fst ` set (row_update (hit_id hit) hit unique) = hit_id ` set (hits @ [hit])"
    using best_hitsD(2) [OF b] by (simp add: insert_absorb)
  fix k h
  assume "(k, h) \<in> set (row_update (hit_id hit) hit unique)"
  then consider "k = hit_id hit" "h = hit" | "k \<noteq> hit_id hit" "(k, h) \<in> set unique"
    by (auto simp: row_update_def split: if_splits)
  note row = this
  from row show "hit_id h = k \<and> h \<in> set (hits @ [hit])"
    by cases (use best_hitsD(3,4) [OF b] in auto)
  fix h'
  assume h': "h' \<in> set (hits @ [hit])" "hit_id h' = k"
  from row show "hit_score h' \<le> hit_score h"
  proof cases
    case 1
    have "h' = hit \<or> hit_score h' \<le> hit_score old"
      using h' 1 best_hitsD(5) [OF b mem, of h'] by auto
    then show ?thesis using lt 1 by auto
  next
    case 2
    then show ?thesis using h' best_hitsD(5) [OF b, of k h h'] by auto
  qed
qed

lemma best_hits_keep:
  assumes b: "best_hits unique hits" and old: "map_of unique (hit_id hit) = Some old" and le: "hit_score hit \<le> hit_score old"
  shows "best_hits unique (hits @ [hit])"
proof (rule best_hitsI)
  have mem: "(hit_id hit, old) \<in> set unique" using old by (rule map_of_SomeD)
  show "distinct (map fst unique)" by (rule best_hitsD(1) [OF b])
  have "hit_id hit \<in> hit_id ` set hits" using mem best_hitsD(2) [OF b] by force
  then show "fst ` set unique = hit_id ` set (hits @ [hit])"
    using best_hitsD(2) [OF b] by (simp add: insert_absorb)
  fix k h
  assume kh: "(k, h) \<in> set unique"
  then show "hit_id h = k \<and> h \<in> set (hits @ [hit])" using best_hitsD(3,4) [OF b] by auto
  fix h'
  assume h': "h' \<in> set (hits @ [hit])" "hit_id h' = k"
  have "h = old" if "k = hit_id hit"
    using kh old best_hitsD(1) [OF b] that by simp
  then show "hit_score h' \<le> hit_score h"
    using h' kh le best_hitsD(5) [OF b, of k h h'] by auto
qed

lemma unique_hits_best: "best_hits (unique_hits hits) hits"
proof (induction hits rule: rev_induct)
  case (snoc hit hits)
  then show ?case
    using best_hits_new best_hits_replace best_hits_keep
    by (auto simp: unique_hits_def add_unique_def not_less split: option.splits)
qed (simp add: unique_hits_def best_hits_def)

lemma unique_hits_lookup:
  "k \<in> fst ` set (unique_hits hits) \<Longrightarrow> \<exists>h. map_of (unique_hits hits) k = Some h \<and> hit_id h = k \<and> (k, h) \<in> set (unique_hits hits)"
proof -
  note best = best_hitsD [OF unique_hits_best [of hits]]
  assume "k \<in> fst ` set (unique_hits hits)"
  then obtain h where "(k, h) \<in> set (unique_hits hits)" by auto
  then show ?thesis using best(1) best(3) by (intro exI [of _ h]) simp
qed

lemma looked_up_ids:
  "set ks \<subseteq> fst ` set (unique_hits hits) \<Longrightarrow> map hit_id (List.map_filter (map_of (unique_hits hits)) ks) = ks"
proof (induction ks)
  case (Cons k ks)
  then obtain h where "map_of (unique_hits hits) k = Some h" "hit_id h = k" using unique_hits_lookup [of k hits] by auto
  then show ?case using Cons by (simp add: map_filter_simps)
qed (simp add: map_filter_simps)

lemma looked_up_source: "h \<in> set (List.map_filter f ks) \<Longrightarrow> \<exists>k\<in>set ks. f k = Some h"
  by (induction ks) (auto simp: map_filter_simps split: option.splits)

lemma dedupe_order:
  assumes "hash_is_permutation env"
  obtains ks where "distinct ks" "set ks = fst ` set (unique_hits hits)"
    "dedupe_hits env hits = List.map_filter (map_of (unique_hits hits)) ks"
proof
  let ?u = "unique_hits hits" let ?o = "hash_order env (map fst ?u)"
  have m: "mset ?o = mset (map fst ?u)" using assms by (simp add: hash_is_permutation_def)
  show "distinct ?o" using mset_eq_imp_distinct_iff [OF m] best_hitsD(1) [OF unique_hits_best [of hits]] by simp
  show "set ?o = fst ` set ?u" using mset_eq_setD [OF m] by simp
  show "dedupe_hits env hits = List.map_filter (map_of ?u) ?o" by (simp add: dedupe_hits_def Let_def)
qed

lemma dedupe_best:
  assumes "hash_is_permutation env"
  shows "distinct (map hit_id (dedupe_hits env hits)) \<and> hit_id ` set (dedupe_hits env hits) = hit_id ` set hits
    \<and> (\<forall>d\<in>set (dedupe_hits env hits). d \<in> set hits \<and> (\<forall>h\<in>set hits. hit_id h = hit_id d \<longrightarrow> hit_score h \<le> hit_score d))"
proof -
  note best = best_hitsD [OF unique_hits_best [of hits]]
  obtain ks where ks: "distinct ks" "set ks = fst ` set (unique_hits hits)"
    "dedupe_hits env hits = List.map_filter (map_of (unique_hits hits)) ks"
    using dedupe_order [OF assms] by blast
  have ids: "map hit_id (dedupe_hits env hits) = ks" unfolding ks(3) using ks(2) by (intro looked_up_ids) simp
  then have "hit_id ` set (dedupe_hits env hits) = hit_id ` set hits" using ks(2) best(2) by (metis list.set_map)
  moreover have "(hit_id d, d) \<in> set (unique_hits hits)" if "d \<in> set (dedupe_hits env hits)" for d
    using looked_up_source [OF that [unfolded ks(3)]] unique_hits_lookup [of _ hits] ks(2) by fastforce
  ultimately show ?thesis using ids ks(1) best(4,5) by blast
qed

text \<open>C28: Deduplication keeps exactly one hit for every document found, one of those with its highest
  score, whatever the iteration order of the hash map.\<close>

theorem dedupe_keeps_best:
  assumes "hash_is_permutation env"
  shows "distinct (map hit_id (dedupe_hits env hits)) \<and> hit_id ` set (dedupe_hits env hits) = hit_id ` set hits
    \<and> (\<forall>d\<in>set (dedupe_hits env hits). d \<in> set hits \<and> (\<forall>h\<in>set hits. hit_id h = hit_id d \<longrightarrow> hit_score h \<le> hit_score d))"
  using dedupe_best [OF assms] .

subsection \<open>A scan with one page\<close>

definition shoe_point :: "string \<Rightarrow> u64 \<Rightarrow> json" where
  "shoe_point ident n = jobj [(''payload'', jobj [(''_es_id'', JStr ident), (''_source'', jobj [(''n'', jint n)])])]"

definition shoe_reply :: json where
  "shoe_reply = jobj [(''status'', JStr ''ok''),
     (''result'', jobj [(''points'', JArr [shoe_point ''a'' 2, shoe_point ''b'' 1, shoe_point ''c'' 3]),
       (''count'', jint 3)])]"

definition shoe_env :: env where
  "shoe_env = sample_env\<lparr>env_qdrant := (\<lambda>_ _. Reply 200 (Inr shoe_reply)),
     read_catalog := Some \<lparr>rv_indices = [(''shoes'', JObj [], [])], rv_aliases = []\<rparr>\<rparr>"

definition shoe_params :: search_params where
  "shoe_params = \<lparr>p_from = 0, p_size = 2, p_sorts = [(''n'', ''asc'')], p_track = Threshold 10000, p_source = None,
     p_collapse = None, p_cursor = None, p_post_filter = None\<rparr>"

definition shoe_scope :: search_scope where
  "shoe_scope = \<lparr>s_index = ''shoes'', s_coll = ''es_shoes'', s_mapping = JObj [], s_vectors = [], s_query = match_all,
     s_patterns = [], s_sparse = None, s_aggs = None, s_filter = None, s_text = None, s_like = None\<rparr>"

definition shoe_hit :: "string \<Rightarrow> u64 \<Rightarrow> json" where
  "shoe_hit ident n = search_hit ''shoes'' (JStr ident) JNull (jobj [(''n'', jint n)])"

lemma shoe_request:
  "\<exists>w'. request shoe_env m path body w = (Inr shoe_reply, w')"
  by (simp add: request_def raw_request_def send_request_def bindE_def shoe_env_def sample_env_def shoe_reply_def
      Let_def failed_reply_def is_success_def get_str_def get_jobj reply_json_def returnE_def)

lemma shoe_env_conf [simp]: "document_projection (cfg shoe_env) = False"
  by (simp add: shoe_env_def sample_env_def sample_config_def)

lemma shoe_point_scanned:
  "scan_point shoe_env shoe_params shoe_scope True Map.empty (shoe_point ident n) (hits, tally) = (hits @ [shoe_hit ident n], tally + 1)"
  by (simp add: scan_point_def Let_def shoe_params_def shoe_scope_def shoe_point_def shoe_hit_def get_jobj scan_source_def
      matches_patterns_def past_cursor_def)

lemma shoe_scan:
  "\<exists>w'. loopE 1 (scan_round shoe_env shoe_params shoe_scope True) \<lparr>sc_offset = JNull, sc_hits = [], sc_total = 0\<rparr> w
     = (Inr (Some (keep_page shoe_env shoe_params True [shoe_hit ''a'' 2, shoe_hit ''b'' 1, shoe_hit ''c'' 3], 3)), w')"
proof -
  obtain w' where "request shoe_env POST (points_path (s_coll shoe_scope) ''/points/scroll'')
      (Some (scan_body shoe_env shoe_params shoe_scope True JNull)) w = (Inr shoe_reply, w')"
    using shoe_request by blast
  moreover have "result_points shoe_reply = Some [shoe_point ''a'' 2, shoe_point ''b'' 1, shoe_point ''c'' 3]"
    "scan_next shoe_reply = JNull"
    by (simp_all add: result_points_def shoe_reply_def get_jobj get_array_def scan_next_def)
  ultimately show ?thesis
    by (simp add: bindE_def scan_round_def shoe_point_scanned returnE_def Let_def)
qed

lemma sorted_scan_exact_witness:
  "\<exists>w' sent hits. loopE 1 (scan_round shoe_env shoe_params shoe_scope True) \<lparr>sc_offset = JNull, sc_hits = [], sc_total = 0\<rparr> empty_world
      = (Inr (Some (hits, 3)), w')
    \<and> w_trace w' = w_trace empty_world @ sent \<and> is_null (next_offset (reply_result (snd (last sent))))"
proof -
  obtain hits w' where run: "loopE 1 (scan_round shoe_env shoe_params shoe_scope True) \<lparr>sc_offset = JNull, sc_hits = [], sc_total = 0\<rparr> empty_world
      = (Inr (Some (hits, 3)), w')"
    using shoe_scan by blast
  have "\<not> document_projection (cfg shoe_env)" "p_collapse shoe_params = None" by (simp_all add: shoe_params_def)
  from sorted_scan_exact [OF this run] run show ?thesis by blast
qed

lemma filter_scan_ends_witness:
  "fst (loopE 1 (scan_round one_page_env shoe_params shoe_scope True) \<lparr>sc_offset = JNull, sc_hits = [], sc_total = 0\<rparr> empty_world) \<noteq> Inr None"
  by (rule filter_scan_ends [where rank = "\<lambda>_. 0"]) (simp_all add: scroll_advances_def one_page_env_def)

lemma dedupe_keeps_best_witness:
  "hit_id ` set (dedupe_hits sample_env [shoe_hit ''a'' 2, shoe_hit ''b'' 1, shoe_hit ''a'' 3])
    = hit_id ` set [shoe_hit ''a'' 2, shoe_hit ''b'' 1, shoe_hit ''a'' 3]"
proof -
  have "hash_is_permutation sample_env" by (simp add: hash_is_permutation_def sample_env_def)
  from dedupe_keeps_best [OF this] show ?thesis by blast
qed

subsection \<open>The scan without a guard\<close>

lemma get_approximate_body:
  "get ''offset'' (approximate_body env s offset) = (if is_null offset then None else Some offset)"
  "get ''wait'' (approximate_body env s offset) = None"
  by (cases "s_filter s"; simp add: approximate_body_def optional_member_def offset_member_def get_jobj)+

text \<open>A Qdrant that answers everything with the same reply, whose next page stays the same.\<close>










end
