(* ===== verification/Bulk.thy ===== *)
theory Bulk
  imports Documents
begin

text \<open>
  Bulk requests of \<open>src/main.rs\<close> (\<open>bulk\<close>, \<open>bulk_item_from_response\<close>,
  \<open>bulk_response_has_errors\<close>). The body is parsed completely before anything is executed; then
  runs of index actions on the same index become one batch and every other action runs alone.
\<close>

section \<open>Parsing\<close>

record bulk_action =
  ba_kind :: string
  ba_index :: string
  ba_id :: string
  ba_source :: "json option"

definition bulk_kinds :: "string list" where
  "bulk_kinds = [''index'', ''create'', ''update'', ''delete'']"

definition bulk_index_name :: "string \<Rightarrow> string option \<Rightarrow> object \<Rightarrow> string outcome" where
  "bulk_index_name kind default_index meta = (case obj_get ''_index'' meta of
     Some (JStr index) \<Rightarrow> Inr index
   | Some _ \<Rightarrow> bad (''_bulk.'' @ kind @ ''._index'') ''bulk action _index must be a string''
   | None \<Rightarrow> ok_or (Bad ''_bulk'' ''each action needs _index'') default_index)"

definition bulk_id :: "(nat \<Rightarrow> string) \<Rightarrow> nat \<Rightarrow> string \<Rightarrow> object \<Rightarrow> string outcome" where
  "bulk_id uuid position kind meta = (case obj_get ''_id'' meta of
     Some (JStr ident) \<Rightarrow> Inr ident
   | Some _ \<Rightarrow> bad (''_bulk.'' @ kind @ ''._id'') ''bulk action _id must be a string''
   | None \<Rightarrow>
       if kind = ''delete'' \<or> kind = ''update''
       then bad (''_bulk.'' @ kind @ ''._id'') (''bulk '' @ kind @ '' actions require an _id'')
       else Inr (uuid position))"

text \<open>An action line: its kind, index and id.\<close>

definition parse_action_line :: "env \<Rightarrow> string option \<Rightarrow> nat \<Rightarrow> string \<Rightarrow> (string \<times> string \<times> string) outcome" where
  "parse_action_line env default_index position line = (case parse_json env line of
     Inl e \<Rightarrow> bad ''_bulk.action'' e
   | Inr (JObj [(kind, meta)]) \<Rightarrow>
       if kind \<notin> set bulk_kinds
       then bad ''_bulk.action'' (''unsupported bulk action ['' @ kind @ '']'')
       else
         bindR (ok_or (Bad (''_bulk.'' @ kind) ''bulk action metadata must be an object'') (as_object meta)) (\<lambda>ob.
         bindR (bulk_index_name kind default_index ob) (\<lambda>index.
         bindR (bulk_id (new_uuid env) position kind ob) (\<lambda>ident. Inr (kind, index, ident))))
   | Inr _ \<Rightarrow> bad ''_bulk.action'' ''each action line must contain exactly one action'')"

definition parse_source_line :: "env \<Rightarrow> string \<Rightarrow> json outcome" where
  "parse_source_line env line = (case parse_json env line of
     Inl e \<Rightarrow> bad ''_bulk.source'' e
   | Inr v \<Rightarrow> Inr v)"

fun parse_bulk :: "env \<Rightarrow> string option \<Rightarrow> nat \<Rightarrow> string list \<Rightarrow> bulk_action list outcome" where
  "parse_bulk env d position [] = Inr []"
| "parse_bulk env d position (line # lines) =
     bindR (parse_action_line env d position line) (\<lambda>(kind, index, ident).
       if kind = ''delete''
       then map_ok (Cons \<lparr>ba_kind = kind, ba_index = index, ba_id = ident, ba_source = None\<rparr>)
              (parse_bulk env d (position + 1) lines)
       else case lines of
         [] \<Rightarrow> bad ''_bulk'' ''index/create/update actions require a source line''
       | source_line # lines' \<Rightarrow>
           bindR (parse_source_line env source_line) (\<lambda>source.
             map_ok (Cons \<lparr>ba_kind = kind, ba_index = index, ba_id = ident, ba_source = Some source\<rparr>)
               (parse_bulk env d (position + 2) lines')))"

section \<open>Items\<close>

definition bulk_response_has_errors :: "json list \<Rightarrow> bool" where
  "bulk_response_has_errors items =
     list_ex (\<lambda>item. is_some_and (as_object item) (\<lambda>actions. list_ex (\<lambda>(_, result). get ''error'' result \<noteq> None) actions)) items"

text \<open>A handler's response is read back from its JSON text.\<close>

definition bulk_item_from_response :: "string \<Rightarrow> response \<Rightarrow> json outcome" where
  "bulk_item_from_response kind r = (case resp_body r of
     Some (JObj result) \<Rightarrow> Inr (jobj [(kind, JObj (obj_insert ''status'' (jint (of_nat (resp_status r))) result))])
   | Some _ \<Rightarrow> Inl (Internal ''bulk operation returned a non-object body'')
   | None \<Rightarrow> Inl (Internal ''EOF while parsing a value at line 1 column 0''))"

definition bulk_error_item :: "bulk_action \<Rightarrow> gateway_error \<Rightarrow> json" where
  "bulk_error_item a e = jobj [(ba_kind a, jobj [(''_index'', JStr (ba_index a)), (''_id'', JStr (ba_id a)),
     (''status'', jint (of_nat (error_status e))), (''error'', index_key ''error'' (error_body e))])]"

definition sparse_error_item :: "bulk_action \<Rightarrow> gateway_error \<Rightarrow> json" where
  "sparse_error_item a e = jobj [(''index'', jobj [(''_index'', JStr (ba_index a)), (''_id'', JStr (ba_id a)),
     (''status'', jint 400), (''error'', index_key ''error'' (error_body e))])]"

definition bulk_index_item :: "bulk_action \<Rightarrow> string \<Rightarrow> bool \<Rightarrow> json" where
  "bulk_index_item a index existed = jobj [(ba_kind a, jobj [(''_index'', JStr index), (''_id'', JStr (ba_id a)),
     (''status'', jint (if existed then 200 else 201)),
     (''result'', JStr (if existed then ''updated'' else ''created''))])]"

text \<open>An id counts as existing when it was stored before the batch or appeared earlier in it.\<close>

fun batch_items :: "string \<Rightarrow> string set \<Rightarrow> bulk_action list \<Rightarrow> json list" where
  "batch_items index known [] = []"
| "batch_items index known (a # as) =
     bulk_index_item a index (ba_id a \<in> known) # batch_items index (insert (ba_id a) known) as"

section \<open>Execution\<close>

definition bulk_source :: "json \<Rightarrow> bulk_action \<Rightarrow> json" where
  "bulk_source d a = unwrap_or d (ba_source a)"

definition sparse_source_error :: "json option \<Rightarrow> bulk_action \<Rightarrow> gateway_error option" where
  "sparse_source_error mapping a = (case mapping of
     None \<Rightarrow> None
   | Some m \<Rightarrow> (case sparse_document (bulk_source JNull a) m of Inl e \<Rightarrow> Some e | Inr _ \<Rightarrow> None))"

definition joins_batch :: "json option \<Rightarrow> string \<Rightarrow> bulk_action \<Rightarrow> bool" where
  "joins_batch mapping index a \<longleftrightarrow>
     ba_kind a = ''index'' \<and> ba_index a = index \<and> sparse_source_error mapping a = None"

definition run_batch :: "env \<Rightarrow> string \<Rightarrow> bulk_action list \<Rightarrow> json list act" where
  "run_batch env batch_index batch =
     bindE (tryE
       (bindE (get_index env batch_index) (\<lambda>(index, coll, _, _).
        bindE (retrieve_existing_ids env index coll (map ba_id batch)) (\<lambda>existing.
        bindE (write_docs env index (map (\<lambda>a. (ba_id a, bulk_source (JObj []) a)) batch)) (\<lambda>_.
          returnE (index, existing)))))) (\<lambda>result. returnE (case result of
       Inr (index, existing) \<Rightarrow> batch_items index existing batch
     | Inl e \<Rightarrow> map (\<lambda>a. bulk_error_item a e) batch))"

definition run_single :: "env \<Rightarrow> bulk_action \<Rightarrow> json act" where
  "run_single env a =
     bindE (tryE
       (if ba_kind a = ''create'' then create_doc env (ba_index a) (ba_id a) (bulk_source (JObj []) a)
        else if ba_kind a = ''delete'' then delete_doc env (ba_index a) (ba_id a)
        else if ba_kind a = ''update'' then update_doc env (ba_index a) (ba_id a) (bulk_source (JObj []) a)
        else throwE (Bad (''_bulk.'' @ ba_kind a) ''unsupported bulk action''))) (\<lambda>result. case result of
       Inr response \<Rightarrow> liftE (bulk_item_from_response (ba_kind a) response)
     | Inl e \<Rightarrow> returnE (bulk_error_item a e))"

function run_bulk :: "env \<Rightarrow> bulk_action list \<Rightarrow> json list act" where
  "run_bulk env [] = returnE []"
| "run_bulk env (a # rest) =
     (if ba_kind a = ''index''
      then bindE (tryE (get_index env (ba_index a))) (\<lambda>info.
        let mapping = (case info of Inr (_, _, m, _) \<Rightarrow> Some m | Inl _ \<Rightarrow> None) in
        case sparse_source_error mapping a of
          Some e \<Rightarrow> bindE (run_bulk env rest) (\<lambda>items. returnE (sparse_error_item a e # items))
        | None \<Rightarrow>
            bindE (run_batch env (ba_index a) (a # takeWhile (joins_batch mapping (ba_index a)) rest)) (\<lambda>first_items.
            bindE (run_bulk env (dropWhile (joins_batch mapping (ba_index a)) rest)) (\<lambda>items.
              returnE (first_items @ items))))
      else
        bindE (run_single env a) (\<lambda>item.
        bindE (run_bulk env rest) (\<lambda>items. returnE (item # items))))"
  by pat_completeness auto
termination
  by (relation "measure (\<lambda>(env, actions). length actions)") (simp_all add: length_dropWhile_le less_Suc_eq_le)

definition bulk_actions :: "env \<Rightarrow> string option \<Rightarrow> string \<Rightarrow> bulk_action list outcome" where
  "bulk_actions env default_index body =
     (if max_bulk_bytes (cfg env) < length body
      then Inl (PayloadTooLarge ''MAX_BULK_BYTES'' (max_bulk_bytes (cfg env)))
      else parse_bulk env default_index 0 (filter (\<lambda>l. \<not> trim_is_empty l) (body_lines body)))"

definition bulk_response :: "json list \<Rightarrow> response" where
  "bulk_response items = es_ok (jobj [(''took'', jint 0), (''errors'', JBool (bulk_response_has_errors items)),
     (''items'', JArr items)])"

definition bulk :: "env \<Rightarrow> string option \<Rightarrow> string \<Rightarrow> response act" where
  "bulk env default_index body =
     bindE (liftE (bulk_actions env default_index body)) (\<lambda>actions.
     bindE (run_bulk env actions) (\<lambda>items. returnE (bulk_response items)))"

section \<open>Invariants\<close>

context client_invariant
begin

lemma inv_existing_ids: "preserves I (retrieve_existing_ids env index coll ids)"
  unfolding retrieve_existing_ids_def by (intro preserve inv_request)

lemma inv_run_single: "preserves I (run_single env a)"
  unfolding run_single_def by (intro preserve inv_create_doc inv_delete_doc inv_update_doc)

lemma inv_run_bulk: "preserves I (run_bulk env actions)"
proof (induction actions rule: length_induct)
  case (1 actions)
  show ?case
  proof (cases actions)
    case (Cons a rest)
    have batch: "preserves I (run_batch env index batch)" for index batch
      unfolding run_batch_def by (intro preserve inv_existing_ids inv_write_docs)
    have shorter: "preserves I (run_bulk env (dropWhile P rest))" "preserves I (run_bulk env rest)" for P
      using "1" Cons by (simp_all add: length_dropWhile_le less_Suc_eq_le)
    show ?thesis
      unfolding Cons run_bulk.simps by (intro preserve shorter batch inv_run_single)
  qed (simp add: preserve)
qed

lemma inv_bulk: "preserves I (bulk env default_index body)"
  unfolding bulk_def by (intro preserve inv_run_bulk)

end

section \<open>One item per action\<close>

lemma yields_cases:
  "Q x \<Longrightarrow> yields Q (returnE x)" "yields Q (throwE e)"
  "yields Q a \<Longrightarrow> yields Q b \<Longrightarrow> yields Q (if c then a else b)"
  "yields Q a \<Longrightarrow> (\<And>x. yields Q (f x)) \<Longrightarrow> yields Q (case r of None \<Rightarrow> a | Some x \<Rightarrow> f x)"
  "(\<And>x y. yields Q (g x y)) \<Longrightarrow> yields Q (case p of (x, y) \<Rightarrow> g x y)"
  "(\<And>x. yields Q (f x)) \<Longrightarrow> yields Q (let x = v in f x)"
  by (simp_all add: yields_def returnE_def throwE_def liftE_def Let_def split: option.splits prod.splits)

text \<open>A response about one document.\<close>

definition about_id :: "string \<Rightarrow> response \<Rightarrow> bool" where
  "about_id ident r \<longleftrightarrow> (\<exists>ms. resp_body r = Some (JObj ms) \<and> obj_get ''_id'' ms = Some (JStr ident))"

lemma about_write_result:
  "extra = [] \<or> extra = sequence_members \<Longrightarrow> about_id ident (es_response status (write_result index ident result extra))"
  by (auto simp: about_id_def es_response_def write_result_def sequence_members_def one_shard_def jobj_def obj_of_def)

lemma about_ok: "extra = [] \<or> extra = sequence_members \<Longrightarrow> about_id ident (es_ok (write_result index ident result extra))"
  by (auto simp: es_ok_def intro: about_write_result)

lemma yields_write_docs: "yields (about_id ident) (write_docs env name [(ident, source)])"
  unfolding write_docs_def by (intro yields_bind yields_cases) (simp add: about_ok)

lemma yields_write_doc: "yields (about_id ident) (write_doc env name ident source)"
  unfolding write_doc_def by (intro yields_bind yields_cases about_write_result) simp

lemma about_status: "about_id ident r \<Longrightarrow> about_id ident (r\<lparr>resp_status := s\<rparr>)"
  by (simp add: about_id_def)

lemma yields_map_response:
  "yields P m \<Longrightarrow> (\<And>x. P x \<Longrightarrow> Q (f x)) \<Longrightarrow> yields Q (bindE m (\<lambda>x. returnE (f x)))"
  unfolding yields_def bindE_def returnE_def
  by (auto split: prod.splits sum.splits) (metis fst_conv)

lemma yields_create_doc: "yields (about_id ident) (create_doc env name ident source)"
  unfolding create_doc_def
  by (intro yields_bind yields_cases yields_map_response [OF yields_write_docs] about_status)

lemma yields_delete_doc: "yields (about_id ident) (delete_doc env name ident)"
  unfolding delete_doc_def by (intro yields_bind yields_cases about_write_result about_ok) simp_all

lemma yields_update_doc: "yields (about_id ident) (update_doc env name ident body)"
  unfolding update_doc_def update_missing_def update_projected_def update_payload_def prod.case
  by (intro yields_bind yields_cases yields_write_doc about_write_result about_ok) simp_all

text \<open>An item answers an action: its only member has the action's kind and the action's id.\<close>

definition answers :: "bulk_action \<Rightarrow> json \<Rightarrow> bool" where
  "answers a item \<longleftrightarrow> (\<exists>ms. item = JObj [(ba_kind a, JObj ms)] \<and> obj_get ''_id'' ms = Some (JStr (ba_id a)))"

lemma answers_items:
  "answers a (bulk_error_item a e)" "ba_kind a = ''index'' \<Longrightarrow> answers a (sparse_error_item a e)"
  "answers a (bulk_index_item a index existed)"
  by (simp_all add: answers_def bulk_error_item_def sparse_error_item_def bulk_index_item_def jobj_def obj_of_def)

lemma answers_response:
  "about_id (ba_id a) r \<Longrightarrow> \<exists>item. bulk_item_from_response (ba_kind a) r = Inr item \<and> answers a item"
  by (auto simp: about_id_def bulk_item_from_response_def answers_def jobj_def obj_of_def obj_get_insert)

lemma answers_batch: "list_all2 answers batch (batch_items index known batch)"
  by (induction batch arbitrary: known) (simp_all add: answers_items)

definition answering :: "('a \<Rightarrow> bool) \<Rightarrow> 'a act \<Rightarrow> bool" where
  "answering Q m \<longleftrightarrow> (\<forall>w. \<exists>x w'. m w = (Inr x, w') \<and> Q x)"

lemma answering_return: "Q x \<Longrightarrow> answering Q (returnE x)"
  by (simp add: answering_def returnE_def)

lemma answering_bind: "answering P m \<Longrightarrow> (\<And>x. P x \<Longrightarrow> answering Q (k x)) \<Longrightarrow> answering Q (bindE m k)"
  unfolding answering_def bindE_def by (metis (no_types, lifting) case_prod_conv sum.simps(6))

lemma answering_try:
  assumes "yields P m"
  shows "answering (\<lambda>r. case r of Inl _ \<Rightarrow> True | Inr x \<Rightarrow> P x) (tryE m)"
  unfolding answering_def
proof
  fix w
  obtain r w' where "m w = (r, w')" by (cases "m w")
  with assms show "\<exists>x w'. tryE m w = (Inr x, w') \<and> (case x of Inl _ \<Rightarrow> True | Inr x \<Rightarrow> P x)"
    by (cases r) (auto simp: tryE_def yields_def, metis fst_conv)
qed

lemma run_batch_answers: "answering (list_all2 answers batch) (run_batch env index batch)"
  unfolding run_batch_def
proof (rule answering_bind [OF answering_try [where P = "\<lambda>_. True"]], goal_cases)
  case (2 r)
  then show ?case
    by (auto intro!: answering_return answers_batch simp: list_all2_map2 list_all2_same answers_items split: sum.splits)
qed (simp add: yields_def)

lemma run_single_answers: "answering (answers a) (run_single env a)"
  unfolding run_single_def
proof (rule answering_bind [OF answering_try [where P = "about_id (ba_id a)"]], goal_cases)
  case 1
  show ?case by (intro yields_cases yields_create_doc yields_delete_doc yields_update_doc)
next
  case (2 r)
  then show ?case
    using answers_response [of a "projr r"]
    by (cases r) (auto simp: answers_items answering_def liftE_def returnE_def)
qed

lemma run_bulk_answers: "answering (list_all2 answers actions) (run_bulk env actions)"
proof (induction actions rule: length_induct)
  case (1 actions)
  show ?case
  proof (cases actions)
    case (Cons a rest)
    have shorter: "answering (list_all2 answers (dropWhile P rest)) (run_bulk env (dropWhile P rest))"
        "answering (list_all2 answers rest) (run_bulk env rest)" for P
      using "1" Cons by (simp_all add: length_dropWhile_le less_Suc_eq_le)
    have split: "list_all2 answers (a # takeWhile P rest) first_items \<Longrightarrow> list_all2 answers (dropWhile P rest) items \<Longrightarrow>
        list_all2 answers actions (first_items @ items)" for P first_items items
      unfolding Cons by (metis append_Cons list_all2_appendI takeWhile_dropWhile_id)
    show ?thesis
    proof (cases "ba_kind a = ''index''")
      case True
      show ?thesis
        unfolding Cons run_bulk.simps if_P [OF True] Let_def
        apply (rule answering_bind [OF answering_try [where P = "\<lambda>_. True"]])
         apply (simp add: yields_def)
        apply (split option.split)
        apply (intro conjI allI impI)
         apply (rule answering_bind [OF run_batch_answers], rule answering_bind [OF shorter(1)])
         apply (rule answering_return, rule split [unfolded Cons], assumption, assumption)
        apply (rule answering_bind [OF shorter(2)], rule answering_return)
        apply (simp add: answers_items True)
        done
    next
      case False
      show ?thesis
        unfolding Cons run_bulk.simps if_not_P [OF False]
        by (intro answering_bind [OF run_single_answers] answering_bind [OF shorter(2)] answering_return) simp
    qed
  qed (simp add: answering_return)
qed

text \<open>C23: A bulk request whose body is too large or does not parse changes nothing and returns that
  error; any other one is answered as a whole, whatever the backend does, with exactly one item per
  action, in the order of the actions, each under the action's kind and with the action's id.\<close>

theorem bulk_answers_every_action:
  "case bulk_actions env default_index body of
     Inl e \<Rightarrow> bulk env default_index body w = (Inl e, w)
   | Inr actions \<Rightarrow> \<exists>items w'. bulk env default_index body w = (Inr (bulk_response items), w')
       \<and> list_all2 answers actions items"
proof (cases "bulk_actions env default_index body")
  case (Inr actions)
  obtain items w' where "run_bulk env actions w = (Inr items, w')" "list_all2 answers actions items"
    using run_bulk_answers [of actions env] unfolding answering_def by metis
  then show ?thesis
    by (auto simp: Inr bulk_def bindE_def liftE_def returnE_def intro: exI [of _ items])
qed (simp add: bulk_def bindE_def liftE_def)

text \<open>Within a batch an item reports \<open>created\<close> exactly when its id was neither stored before the
  batch nor used by an earlier action of it, so the number of created items is the number of new ids.\<close>

lemma batch_created_once:
  assumes "i < length batch"
  shows "batch_items index known batch ! i =
    bulk_index_item (batch ! i) index (ba_id (batch ! i) \<in> known \<union> ba_id ` set (take i batch))"
  using assms
proof (induction batch arbitrary: known i)
  case (Cons a batch)
  then show ?case by (cases i) (simp_all add: insert_commute)
qed simp

end
