(* ===== verification/Routing.thy ===== *)
theory Routing
  imports SearchPages Bulk Aliases IndexAdmin
begin

text \<open>
  The request path of \<open>src/main.rs\<close> (\<open>gateway_router\<close>, \<open>dispatch_inner\<close>) and the three
  classifications of a request made outside it: \<open>is_admin\<close> and \<open>uses_read_view\<close> of
  \<open>src/shared_catalog.rs\<close> and \<open>mutating\<close> of \<open>src/cache_runtime.rs\<close>. The properties relate them: what
  is classified as reading only reads, and what is not administrative leaves the metadata alone.
\<close>

section \<open>Requests\<close>

record http_request =
  rq_method :: http_method
  rq_path :: string
  rq_query :: "string option"
  rq_body :: string

definition method_text :: "http_method \<Rightarrow> string" where
  "method_text m = (case m of
     GET \<Rightarrow> ''GET'' | HEAD \<Rightarrow> ''HEAD'' | OPTIONS \<Rightarrow> ''OPTIONS'' | POST \<Rightarrow> ''POST'' | PUT \<Rightarrow> ''PUT''
   | DELETE \<Rightarrow> ''DELETE'' | PATCH \<Rightarrow> ''PATCH'' | Method s \<Rightarrow> s)"

definition is_bulk_request :: "http_method \<Rightarrow> string \<Rightarrow> bool" where
  "is_bulk_request m path \<longleftrightarrow> (m = POST \<or> m = PUT) \<and> (path = ''/_bulk'' \<or> ends_with ''/_bulk'' path)"

definition request_body_limit :: "config \<Rightarrow> http_method \<Rightarrow> string \<Rightarrow> nat" where
  "request_body_limit conf m path =
     (if is_bulk_request m path then max_bulk_bytes conf else max_body_bytes conf)"

definition request_body_limit_setting :: "http_method \<Rightarrow> string \<Rightarrow> string" where
  "request_body_limit_setting m path =
     (if is_bulk_request m path then ''MAX_BULK_BYTES'' else ''MAX_BODY_BYTES'')"

definition decode_path_segments :: "env \<Rightarrow> string \<Rightarrow> string list outcome" where
  "decode_path_segments env path =
     traverseR (\<lambda>segment. ok_or (Bad ''request.path'' ''path is not valid UTF-8'') (percent_utf8 env segment))
       (split_on CHR ''/'' (trim_matches CHR ''/'' path))"

definition rejected_parameters :: "string list" where
  "rejected_parameters = [''if_seq_no'', ''if_primary_term'', ''version'', ''version_type'', ''retry_on_conflict'',
     ''op_type'', ''routing'', ''scroll'']"

definition validate_request_parameters :: "env \<Rightarrow> string option \<Rightarrow> unit outcome" where
  "validate_request_parameters env query =
     eachR (\<lambda>pair.
       bindR (ok_or (Bad ''request.query'' ''query parameter is not valid UTF-8'')
                (percent_utf8 env (hd (split_on CHR ''='' pair)))) (\<lambda>name.
         if name = ''docvalue_fields''
         then bad ''request.query'' ''unsupported query parameter docvalue_fields; the gateway cannot return Elasticsearch or OpenSearch doc values in each hit's fields object''
         else if name \<in> set rejected_parameters
         then bad ''request.query'' (''unsupported query parameter '' @ name @ ''; the requested consistency or routing guarantee cannot be honored'')
         else Inr ()))
       (split_on CHR ''&'' (unwrap_or [] query))"

section \<open>Classifications\<close>

definition is_admin :: "env \<Rightarrow> http_method \<Rightarrow> string \<Rightarrow> bool outcome" where
  "is_admin env m path =
     (if is_bulk_request m path then Inr False
      else bindR (decode_path_segments env path) (\<lambda>parts. Inr (
        (length parts = 1 \<and> (m = PUT \<or> m = DELETE))
        \<or> (path = ''/_aliases'' \<and> m = POST)
        \<or> (length parts = 2 \<and> parts ! 1 = ''_mapping'' \<and> m = PUT))))"

definition uses_read_view :: "env \<Rightarrow> http_method \<Rightarrow> string \<Rightarrow> bool" where
  "uses_read_view env m path = (case decode_path_segments env path of
     Inl _ \<Rightarrow> False
   | Inr parts \<Rightarrow> (case parts of
       [_, endpoint, _] \<Rightarrow> m = GET \<and> endpoint = ''_doc''
     | [index, endpoint] \<Rightarrow>
         endpoint = ''_search'' \<and> (m = GET \<or> m = POST) \<and> \<not> (m = GET \<and> index = ''_alias'')
     | _ \<Rightarrow> False))"

definition mutating :: "env \<Rightarrow> http_method \<Rightarrow> string \<Rightarrow> bool" where
  "mutating env m path =
     (if m = GET \<or> m = HEAD \<or> m = OPTIONS then False
      else if m \<noteq> POST then True
      else case decode_path_segments env path of
        Inl _ \<Rightarrow> True
      | Inr parts \<Rightarrow>
          parts \<noteq> [''_msearch''] \<and>
          \<not> (length parts = 2 \<and> parts ! 1 \<in> set [''_search'', ''_msearch'', ''_count'']))"

definition search_route :: "env \<Rightarrow> string \<Rightarrow> bool" where
  "search_route env path = (case decode_path_segments env path of
     Inl _ \<Rightarrow> False | Inr parts \<Rightarrow> length parts = 2 \<and> parts ! 1 = ''_search'')"

section \<open>Dispatch\<close>

text \<open>An error becomes its response.\<close>

definition respond :: "response act \<Rightarrow> response act" where
  "respond m = bindE (tryE m) (\<lambda>r. returnE (case r of Inl e \<Rightarrow> error_response e | Inr v \<Rightarrow> v))"

definition answer :: "response act \<Rightarrow> response option act" where
  "answer m = doneE (respond m)"

definition answer_paged :: "response option act \<Rightarrow> response option act" where
  "answer_paged m = bindE (tryE m) (\<lambda>r. returnE (case r of Inl e \<Rightarrow> Some (error_response e) | Inr v \<Rightarrow> v))"

definition json_body :: "env \<Rightarrow> string \<Rightarrow> json outcome" where
  "json_body env body =
     (if trim_is_empty body then Inr (JObj [])
      else case parse_json env body of Inl e \<Rightarrow> bad ''request.body'' e | Inr v \<Rightarrow> Inr v)"

definition unsupported_endpoint :: "http_method \<Rightarrow> string \<Rightarrow> gateway_error" where
  "unsupported_endpoint m path = Bad ''endpoint'' (''unsupported endpoint '' @ method_text m @ '' '' @ path)"

text \<open>The routes whose path has one segment.\<close>

definition index_routes :: "env \<Rightarrow> http_method \<Rightarrow> string \<Rightarrow> json \<Rightarrow> response act option" where
  "index_routes env m index body =
     (if m = PUT then Some (create_index env index body)
      else if m = DELETE then Some (delete_index env index)
      else if m = HEAD then Some (head_index env index)
      else if m = GET then Some (get_index_info env index)
      else None)"

text \<open>The routes whose path has two segments, search and count apart.\<close>

definition control_routes :: "env \<Rightarrow> http_method \<Rightarrow> string \<Rightarrow> string \<Rightarrow> json \<Rightarrow> response act option" where
  "control_routes env m index endpoint body =
     (if index = ''_alias'' \<and> m = GET then Some (alias_get endpoint)
      else if index = ''_alias'' \<and> m = HEAD then Some (alias_head endpoint)
      else if endpoint = ''_refresh'' \<and> m = POST then Some (index_control env index ''refresh'')
      else if endpoint = ''_open'' \<and> m = POST then Some (index_control env index ''open'')
      else if endpoint = ''_close'' \<and> m = POST then Some (index_control env index ''close'')
      else if endpoint = ''_settings'' \<and> (m = GET \<or> m = PUT) then Some (index_control env index ''settings'')
      else if endpoint = ''_mapping'' \<and> (m = GET \<or> m = PUT) then Some (mapping_route env index m (Some body))
      else if endpoint = ''_doc'' \<and> m = POST then Some (write_doc env index (new_uuid env 0) body)
      else None)"

definition document_routes :: "env \<Rightarrow> http_method \<Rightarrow> string \<Rightarrow> string \<Rightarrow> string \<Rightarrow> json \<Rightarrow> response act option" where
  "document_routes env m index endpoint ident body =
     (if endpoint = ''_doc'' \<and> m = PUT then Some (write_doc env index ident body)
      else if endpoint = ''_create'' \<and> (m = PUT \<or> m = POST) then Some (create_doc env index ident body)
      else if endpoint = ''_doc'' \<and> m = GET then Some (get_doc env index ident)
      else if endpoint = ''_doc'' \<and> m = HEAD then Some (head_doc env index ident)
      else if endpoint = ''_doc'' \<and> m = DELETE then Some (delete_doc env index ident)
      else if endpoint = ''_update'' \<and> m = POST then Some (update_doc env index ident body)
      else None)"

definition search_routes :: "env \<Rightarrow> nat \<Rightarrow> http_request \<Rightarrow> string \<Rightarrow> string \<Rightarrow> json \<Rightarrow> response option act option" where
  "search_routes env fuel rq index endpoint body =
     (let m = rq_method rq in
      if endpoint = ''_bulk'' \<and> m = POST then Some (answer (bulk env (Some index) (rq_body rq)))
      else if endpoint = ''_search'' \<and> (m = GET \<or> m = POST)
      then Some (case parse_rest_total_hits_as_int (percent_utf8 env) (rq_query rq) of
        Inl e \<Rightarrow> doneE (returnE (error_response e))
      | Inr as_int \<Rightarrow> answer_paged (search_with_total_format env fuel index body as_int))
      else if endpoint = ''_count'' \<and> (m = GET \<or> m = POST)
      then Some (answer_paged (count_docs env fuel index body))
      else None)"

definition fixed_routes :: "env \<Rightarrow> http_method \<Rightarrow> string \<Rightarrow> json \<Rightarrow> response act option" where
  "fixed_routes env m path body =
     (if path = ''/'' \<and> m = GET then Some (service_root env)
      else if path = ''/_cluster/health'' \<and> m = GET then Some (cluster_health env)
      else if path = ''/healthz'' \<and> m = GET then Some healthz
      else if path = ''/readyz'' \<and> m = GET then Some (readyz env)
      else if path = ''/_qdrant_gateway/compatibility'' then Some compatibility
      else if path = ''/_aliases'' \<and> m = POST then Some (alias_batch env body)
      else None)"

text \<open>The first route that fits, in the order of the code.\<close>

definition route :: "env \<Rightarrow> nat \<Rightarrow> http_request \<Rightarrow> string list \<Rightarrow> json \<Rightarrow> response option act" where
  "route env fuel rq parts body =
     (let m = rq_method rq; unsupported = doneE (returnE (error_response (unsupported_endpoint m (rq_path rq)))) in
      case fixed_routes env m (rq_path rq) body of
        Some h \<Rightarrow> answer h
      | None \<Rightarrow>
          (case parts of
             [index] \<Rightarrow> (case index_routes env m index body of Some h \<Rightarrow> answer h | None \<Rightarrow> unsupported)
           | [index, endpoint] \<Rightarrow>
               (case control_routes env m index endpoint body of
                  Some h \<Rightarrow> answer h
                | None \<Rightarrow> unwrap_or unsupported (search_routes env fuel rq index endpoint body))
           | [index, endpoint, ident] \<Rightarrow>
               (case document_routes env m index endpoint ident body of Some h \<Rightarrow> answer h | None \<Rightarrow> unsupported)
           | _ \<Rightarrow> unsupported))"

definition msearch_request :: "http_request \<Rightarrow> bool" where
  "msearch_request rq \<longleftrightarrow> rq_method rq = POST \<and> (rq_path rq = ''/_msearch'' \<or> ends_with ''/_msearch'' (rq_path rq))"

definition default_index :: "string \<Rightarrow> string \<Rightarrow> string option" where
  "default_index suffix path = Option.bind (strip_prefix ''/'' path) (strip_suffix suffix)"

definition dispatch_inner :: "env \<Rightarrow> nat \<Rightarrow> http_request \<Rightarrow> response option act" where
  "dispatch_inner env fuel rq =
     (let m = rq_method rq; path = rq_path rq; body = rq_body rq; limit = request_body_limit (cfg env) m path;
          fail = (\<lambda>e. doneE (returnE (error_response e))) in
      if limit < length body then fail (PayloadTooLarge (request_body_limit_setting m path) limit)
      else if is_bulk_request m path then answer (bulk env (default_index ''/_bulk'' path) body)
      else if msearch_request rq
      then (case parse_rest_total_hits_as_int (percent_utf8 env) (rq_query rq) of
          Inl e \<Rightarrow> fail e
        | Inr as_int \<Rightarrow>
            answer_paged (msearch env fuel
              (case default_index ''/_msearch'' path of Some p \<Rightarrow> if p = [] then None else Some p | None \<Rightarrow> None)
              body as_int))
      else case json_body env body of
        Inl e \<Rightarrow> fail e
      | Inr v \<Rightarrow>
          (case decode_path_segments env path of
             Inl e \<Rightarrow> fail e
           | Inr parts \<Rightarrow> route env fuel rq parts v))"

section \<open>Classified requests\<close>

lemma preserves_respond [preserve]: "preserves I m \<Longrightarrow> preserves I (respond m)"
  unfolding respond_def by (intro preserve)

lemma preserves_answer [preserve]:
  "preserves I m \<Longrightarrow> preserves I (answer m)" "preserves I p \<Longrightarrow> preserves I (answer_paged p)"
  unfolding answer_def answer_paged_def by (intro preserve; assumption)+

lemma preserves_service [preserve]: "preserves I (service_root env)" "preserves I healthz" "preserves I compatibility"
  unfolding service_root_def healthz_def compatibility_def by (intro preserve)+

lemma preserves_mapping_get: "m \<noteq> PUT \<Longrightarrow> preserves I (mapping_route env name m body)"
  unfolding mapping_route_def by (simp, intro preserve preserves_get_index)

text \<open>The decoder of \<open>percent_encoding\<close> leaves plain ASCII text as it is.\<close>

definition plain_decoding :: "env \<Rightarrow> bool" where
  "plain_decoding env \<longleftrightarrow> (\<forall>s. list_all (\<lambda>c. is_ascii c \<and> c \<noteq> CHR ''%'') s \<longrightarrow> percent_utf8 env s = Some s)"

lemma split_on_tail: "\<exists>pre. split_on c (y @ c # s) = pre @ split_on c s"
proof -
  have "\<exists>p pre. split_on c (y @ c # s) = p # pre @ split_on c s"
  proof (induction y)
    case (Cons a y)
    then obtain p pre where "split_on c (y @ c # s) = p # pre @ split_on c s" by blast
    then show ?case by (cases "a = c") (auto intro: exI [of _ "p # pre"])
  qed simp
  then show ?thesis by (metis append_Cons)
qed

text \<open>A route is one of the five groups.\<close>

lemma route_cases:
  assumes fixed: "\<And>h. fixed_routes env (rq_method rq) (rq_path rq) body = Some h \<Longrightarrow> R (answer h)"
    and index: "\<And>index h. parts = [index] \<Longrightarrow> index_routes env (rq_method rq) index body = Some h \<Longrightarrow> R (answer h)"
    and control: "\<And>index e h. parts = [index, e] \<Longrightarrow> control_routes env (rq_method rq) index e body = Some h \<Longrightarrow> R (answer h)"
    and search: "\<And>index e h. parts = [index, e] \<Longrightarrow> search_routes env fuel rq index e body = Some h \<Longrightarrow> R h"
    and document: "\<And>index e i h. parts = [index, e, i] \<Longrightarrow> document_routes env (rq_method rq) index e i body = Some h \<Longrightarrow> R (answer h)"
    and other: "\<And>r. R (doneE (returnE r))"
  shows "R (route env fuel rq parts body)"
proof (cases "fixed_routes env (rq_method rq) (rq_path rq) body")
  case None
  consider i where "parts = [i]" | i e where "parts = [i, e]" | i e d where "parts = [i, e, d]"
    | "\<nexists>i. parts = [i]" "\<nexists>i e. parts = [i, e]" "\<nexists>i e d. parts = [i, e, d]"
    by blast
  then show ?thesis
  proof cases
    case (1 i)
    then show ?thesis
      by (cases "index_routes env (rq_method rq) i body") (simp_all add: route_def None other index)
  next
    case (2 i e)
    then show ?thesis
      by (cases "control_routes env (rq_method rq) i e body"; cases "search_routes env fuel rq i e body")
         (simp_all add: route_def None other control search)
  next
    case (3 i e d)
    then show ?thesis
      by (cases "document_routes env (rq_method rq) i e d body") (simp_all add: route_def None other document)
  next
    case 4
    then show ?thesis by (auto simp: route_def None Let_def other split: list.splits)
  qed
qed (simp add: route_def fixed)

text \<open>And a request is answered by one of five.\<close>

lemma dispatch_cases:
  assumes "\<And>d. is_bulk_request (rq_method rq) (rq_path rq) \<Longrightarrow> R (answer (bulk env d (rq_body rq)))"
    and "\<And>d as_int. msearch_request rq \<Longrightarrow> R (answer_paged (msearch env fuel d (rq_body rq) as_int))"
    and "\<And>parts body. \<not> is_bulk_request (rq_method rq) (rq_path rq) \<Longrightarrow>
      decode_path_segments env (rq_path rq) = Inr parts \<Longrightarrow> R (route env fuel rq parts body)"
    and "\<And>r. R (doneE (returnE r))"
  shows "R (dispatch_inner env fuel rq)"
  using assms unfolding dispatch_inner_def Let_def by (auto split: sum.splits)

definition plain_segment :: "string \<Rightarrow> bool" where
  "plain_segment s \<longleftrightarrow> s \<noteq> [] \<and> list_all (\<lambda>c. is_ascii c \<and> c \<noteq> CHR ''%'' \<and> c \<noteq> CHR ''/'') s"

lemma trim_segment:
  assumes s: "plain_segment s"
  obtains y where "trim_matches CHR ''/'' (x @ CHR ''/'' # s) = y @ s" "y = [] \<or> last y = CHR ''/''"
proof -
  have no: "s \<noteq> []" "\<forall>c\<in>set s. c \<noteq> CHR ''/''" using s by (auto simp: plain_segment_def list_all_iff)
  then have keep: "dropWhile (\<lambda>c. c = CHR ''/'') (s @ z) = s @ z" "dropWhile (\<lambda>c. c = CHR ''/'') (rev s @ z) = rev s @ z" for z
    by (cases s; simp add: dropWhile_eq_self_iff hd_append hd_rev)+
  show ?thesis
  proof (cases "dropWhile (\<lambda>c. c = CHR ''/'') x")
    case Nil
    then have "\<forall>c\<in>set x. c = CHR ''/''" by (simp only: dropWhile_eq_Nil_conv)
    then show ?thesis using that [of "[]"] keep [of "[]"] by (simp add: trim_matches_def dropWhile_append)
  next
    case (Cons c y)
    then obtain d where d: "d \<in> set x" "\<not> d = CHR ''/''"
      using dropWhile_eq_Nil_conv [of "\<lambda>c. c = CHR ''/''" x] by auto
    then have "dropWhile (\<lambda>c. c = CHR ''/'') (x @ CHR ''/'' # s) = (c # y @ ''/'') @ s"
      by (simp add: dropWhile_append1 [where P = "\<lambda>c. c = CHR ''/''", OF d] Cons)
    then show ?thesis
      using that [of "c # y @ ''/''"] by (simp only: trim_matches_def rev_append keep) simp
  qed
qed

text \<open>A path that ends in a plain segment decodes to segments that end in it.\<close>

lemma decode_suffix:
  assumes "ends_with (CHR ''/'' # s) path" "plain_segment s" "plain_decoding env" "decode_path_segments env path = Inr parts"
  shows "last parts = s"
proof -
  obtain x where path: "path = x @ CHR ''/'' # s" using assms(1) by (auto simp: ends_with_iff)
  obtain y where y: "trim_matches CHR ''/'' path = y @ s" "y = [] \<or> last y = CHR ''/''"
    using trim_segment [OF assms(2)] unfolding path by blast
  have whole: "split_on CHR ''/'' s = [s]"
    using assms(2) by (intro split_on_id) (auto simp: plain_segment_def list_all_iff)
  have last: "last (split_on CHR ''/'' (y @ s)) = s"
  proof (cases "y = []")
    case False
    then have "y = butlast y @ ''/''" using y(2) by (metis append_butlast_last_id)
    then obtain pre where "split_on CHR ''/'' (y @ s) = pre @ split_on CHR ''/'' s"
      using split_on_tail [of "CHR ''/''" "butlast y" s] by (metis append.assoc append_Cons append_Nil)
    then show ?thesis by (simp add: whole)
  qed (simp add: whole)
  have traverse: "traverseR f xs = Inr ys \<Longrightarrow> xs \<noteq> [] \<Longrightarrow> f (last xs) = Inr (last ys)" for f :: "string \<Rightarrow> string outcome" and xs ys
    by (induction xs arbitrary: ys) (fastforce simp: bindR_Inr_iff dest: traverseR_length split: if_splits)+
  have "list_all (\<lambda>c. is_ascii c \<and> c \<noteq> CHR ''%'') s" using assms(2) by (auto simp: plain_segment_def list_all_iff)
  then have "percent_utf8 env s = Some s" using assms(3) by (simp add: plain_decoding_def)
  then show ?thesis
    using traverse [OF assms(4) [unfolded decode_path_segments_def]] by (simp add: y(1) last)
qed

lemma decode_bulk:
  assumes "is_bulk_request m path" "plain_decoding env" "decode_path_segments env path = Inr parts"
  shows "last parts = ''_bulk''"
  using assms(1) decode_suffix [of "''_bulk''", OF _ _ assms(2,3)]
  by (auto simp: is_bulk_request_def ends_with_def plain_segment_def is_ascii_def)

lemma decode_msearch:
  assumes "msearch_request rq" "plain_decoding env" "decode_path_segments env (rq_path rq) = Inr parts"
  shows "last parts = ''_msearch''"
  using assms(1) decode_suffix [of "''_msearch''", OF _ _ assms(2,3)]
  by (auto simp: msearch_request_def ends_with_def plain_segment_def is_ascii_def)

lemma decode_aliases: "plain_decoding env \<Longrightarrow> decode_path_segments env ''/_aliases'' = Inr [''_aliases'']"
  by (simp add: decode_path_segments_def trim_matches_def plain_decoding_def is_ascii_def)

context search_invariant
begin

lemma read_routes:
  assumes reads: "m = GET \<or> m = HEAD \<or> m = OPTIONS \<or> m = POST"
  shows "m \<noteq> POST \<Longrightarrow> index_routes env m index body = Some h \<Longrightarrow> preserves I h"
    "endpoint \<in> set [''_search'', ''_msearch'', ''_count''] \<or> m \<noteq> POST \<Longrightarrow>
      control_routes env m index endpoint body = Some h \<Longrightarrow> preserves I h"
    "m \<noteq> POST \<Longrightarrow> document_routes env m index endpoint ident body = Some h \<Longrightarrow> preserves I h"
    "path \<noteq> ''/_aliases'' \<or> m \<noteq> POST \<Longrightarrow> fixed_routes env m path body = Some h \<Longrightarrow> preserves I h"
  using reads
  by (auto simp: index_routes_def control_routes_def document_routes_def fixed_routes_def preserve read_index_routes
      read_cluster_health read_get_doc read_head_doc preserves_mapping_get preserves_alias_reads split: if_split_asm)

lemma read_search_routes:
  assumes "endpoint \<noteq> ''_bulk'' \<or> rq_method rq \<noteq> POST" "search_routes env fuel rq index endpoint body = Some h"
  shows "preserves I h"
  using assms
  by (auto simp: search_routes_def Let_def intro!: preserve read_search read_count split: if_split_asm)

lemma read_dispatch:
  assumes reads: "\<not> mutating env (rq_method rq) (rq_path rq)" and dec: "plain_decoding env"
  shows "preserves I (dispatch_inner env fuel rq)"
proof -
  let ?m = "rq_method rq" and ?path = "rq_path rq"
  have verbs: "?m = GET \<or> ?m = HEAD \<or> ?m = OPTIONS \<or> ?m = POST"
    using reads by (auto simp: mutating_def split: if_split_asm)
  have post: "\<exists>parts. decode_path_segments env ?path = Inr parts
      \<and> (parts = [''_msearch''] \<or> length parts = 2 \<and> parts ! 1 \<in> set [''_search'', ''_msearch'', ''_count''])" if "?m = POST"
    using reads that by (auto simp: mutating_def split: sum.splits)
  have bulk: "\<not> is_bulk_request ?m ?path"
  proof
    assume b: "is_bulk_request ?m ?path"
    then have m: "?m = POST" using verbs by (auto simp: is_bulk_request_def)
    with post [OF m] decode_bulk [OF b dec] obtain parts
      where "last parts = ''_bulk''" "parts = [''_msearch''] \<or> length parts = 2 \<and> parts ! 1 \<in> set [''_search'', ''_msearch'', ''_count'']"
      by blast
    then show False by (auto simp: last_conv_nth numeral_2_eq_2 length_Suc_conv)
  qed
  have aliases: "?path \<noteq> ''/_aliases'' \<or> ?m \<noteq> POST"
    using post decode_aliases [OF dec] by auto
  have route: "preserves I (route env fuel rq parts body)" if parts: "decode_path_segments env ?path = Inr parts" for parts body
  proof -
    have allowed: "?m \<noteq> POST \<or> parts = [''_msearch''] \<or> length parts = 2 \<and> parts ! 1 \<in> set [''_search'', ''_msearch'', ''_count'']"
      using post parts by auto
    note routes = read_routes [OF verbs]
    have fixed: "fixed_routes env ?m ?path body = Some h \<Longrightarrow> preserves I h" for h
      by (rule routes(4) [OF aliases])
    have one: "parts = [index] \<Longrightarrow> index_routes env ?m index body = Some h \<Longrightarrow> preserves I h" for index h
      using routes(1) by (cases "?m = POST") (simp add: index_routes_def, blast)
    have two: "parts = [index, endpoint] \<Longrightarrow> control_routes env ?m index endpoint body = Some h \<Longrightarrow> preserves I h" for index endpoint h
      using allowed routes(2) [of endpoint] by auto
    have search: "parts = [index, endpoint] \<Longrightarrow> search_routes env fuel rq index endpoint body = Some h \<Longrightarrow> preserves I h" for index endpoint h
      using allowed read_search_routes [of endpoint rq] by auto
    have three: "parts = [index, endpoint, ident] \<Longrightarrow> document_routes env ?m index endpoint ident body = Some h \<Longrightarrow> preserves I h" for index endpoint ident h
      using allowed routes(3) by auto
    show ?thesis
      by (rule route_cases) (auto intro!: preserve dest: fixed one two search three)
  qed
  show ?thesis
    by (rule dispatch_cases) (use bulk in \<open>auto intro!: preserve read_msearch route\<close>)
qed

end

text \<open>Requests that are not administrative, for a property that every client call keeps.\<close>

context client_invariant
begin

lemma inv_document_routes: "document_routes env m index endpoint ident body = Some h \<Longrightarrow> preserves I h"
  by (auto simp: document_routes_def inv_write_doc inv_create_doc inv_delete_doc inv_update_doc
      read_get_doc read_head_doc split: if_split_asm)

lemma inv_control_routes:
  "endpoint \<noteq> ''_mapping'' \<or> m \<noteq> PUT \<Longrightarrow> control_routes env m index endpoint body = Some h \<Longrightarrow> preserves I h"
  by (auto simp: control_routes_def inv_write_doc read_index_routes preserves_mapping_get preserves_alias_reads
      split: if_split_asm)

lemma inv_search_routes: "search_routes env fuel rq index endpoint body = Some h \<Longrightarrow> preserves I h"
  by (auto simp: search_routes_def Let_def intro!: preserve read_search read_count inv_bulk split: if_split_asm)

lemma inv_fixed_routes:
  "path \<noteq> ''/_aliases'' \<or> m \<noteq> POST \<Longrightarrow> fixed_routes env m path body = Some h \<Longrightarrow> preserves I h"
  by (auto simp: fixed_routes_def preserve read_cluster_health split: if_split_asm)

lemma inv_index_routes:
  "m \<noteq> PUT \<Longrightarrow> m \<noteq> DELETE \<Longrightarrow> index_routes env m index body = Some h \<Longrightarrow> preserves I h"
  by (auto simp: index_routes_def read_index_routes split: if_split_asm)

lemma inv_msearch: "preserves I (answer_paged (msearch env fuel d body as_int))"
  by (intro preserve read_msearch)

lemma inv_bulk_answer: "preserves I (answer (bulk env d body))"
  by (intro preserve inv_bulk)

lemma inv_dispatch:
  assumes "is_admin env (rq_method rq) (rq_path rq) = Inr False"
  shows "preserves I (dispatch_inner env fuel rq)"
proof (cases "is_bulk_request (rq_method rq) (rq_path rq)")
  case True
  then show ?thesis unfolding dispatch_inner_def Let_def by (auto intro!: preserve inv_bulk)
next
  case False
  then obtain parts where parts: "decode_path_segments env (rq_path rq) = Inr parts"
      and plain: "rq_path rq \<noteq> ''/_aliases'' \<or> rq_method rq \<noteq> POST"
        "length parts = 1 \<Longrightarrow> rq_method rq \<noteq> PUT \<and> rq_method rq \<noteq> DELETE"
        "length parts = 2 \<Longrightarrow> parts ! 1 \<noteq> ''_mapping'' \<or> rq_method rq \<noteq> PUT"
    using assms by (auto simp: is_admin_def bindR_Inr_iff)
  have route: "preserves I (route env fuel rq parts body)" for body
  proof (rule route_cases)
    show "fixed_routes env (rq_method rq) (rq_path rq) body = Some h \<Longrightarrow> preserves I (answer h)" for h
      by (intro preserve inv_fixed_routes [OF plain(1)])
    show "parts = [i] \<Longrightarrow> index_routes env (rq_method rq) i body = Some h \<Longrightarrow> preserves I (answer h)" for i h
      by (rule preserves_answer, rule inv_index_routes) (use plain(2) in auto)
    show "parts = [i, e] \<Longrightarrow> control_routes env (rq_method rq) i e body = Some h \<Longrightarrow> preserves I (answer h)" for i e h
      by (rule preserves_answer, rule inv_control_routes) (use plain(3) in auto)
  qed (intro preserve inv_search_routes inv_document_routes; assumption)+
  show ?thesis
    by (rule dispatch_cases) (use False parts route in \<open>auto intro!: preserve read_msearch\<close>)
qed

end

subsection \<open>The catalog after a request\<close>

lemma leaves_respond [leaving]: "leaves Q t m \<Longrightarrow> leaves Q t (answer m)"
  by (auto simp: leaves_def answer_def respond_def doneE_def bindE_def tryE_def returnE_def split: prod.splits sum.splits)

lemmas kept_routes = client_invariant.inv_document_routes [OF kept.client_invariant_axioms]
  client_invariant.inv_control_routes [OF kept.client_invariant_axioms]
  client_invariant.inv_search_routes [OF kept.client_invariant_axioms]
  client_invariant.inv_fixed_routes [OF kept.client_invariant_axioms]
  client_invariant.inv_index_routes [OF kept.client_invariant_axioms]

lemma leaves_routes:
  assumes env: "read_catalog env = None" "hash_is_permutation env" and ok: "catalog_ok t"
  shows "index_routes env m index body = Some h \<Longrightarrow> leaves catalog_ok t h"
    "control_routes env m index endpoint body = Some h \<Longrightarrow> leaves catalog_ok t h"
    "fixed_routes env m path body = Some h \<Longrightarrow> leaves catalog_ok t h"
proof -
  show "index_routes env m index body = Some h \<Longrightarrow> leaves catalog_ok t h"
    using leaves_same [where Q = catalog_ok, OF kept_routes(5) ok] create_index_leaves [OF ok] delete_index_leaves [OF ok]
    by (cases "m = PUT"; cases "m = DELETE") (auto simp: index_routes_def)
  show "control_routes env m index endpoint body = Some h \<Longrightarrow> leaves catalog_ok t h"
    using leaves_same [where Q = catalog_ok, OF kept_routes(2) ok] mapping_route_leaves [OF ok]
    by (cases "endpoint = ''_mapping'' \<and> m = PUT") (auto simp: control_routes_def split: if_split_asm)
  show "fixed_routes env m path body = Some h \<Longrightarrow> leaves catalog_ok t h"
    using leaves_same [where Q = catalog_ok, OF kept_routes(4) ok] alias_batch_leaves [OF env ok]
    by (cases "path = ''/_aliases'' \<and> m = POST") (auto simp: fixed_routes_def)
qed

lemma dispatch_leaves:
  assumes "read_catalog env = None" "hash_is_permutation env" "catalog_ok t"
  shows "leaves catalog_ok t (dispatch_inner env fuel rq)"
proof (rule dispatch_cases)
  show "leaves catalog_ok t (answer (bulk env d (rq_body rq)))" for d
    by (rule leaves_same [where Q = catalog_ok, OF client_invariant.inv_bulk_answer [OF kept.client_invariant_axioms] assms(3)])
  show "leaves catalog_ok t (answer_paged (msearch env fuel d (rq_body rq) as_int))" for d as_int
    by (rule leaves_same [where Q = catalog_ok, OF client_invariant.inv_msearch [OF kept.client_invariant_axioms] assms(3)])
  show ended: "leaves catalog_ok t (doneE (returnE r))" for r :: response
    by (rule leaves_same) (intro preserve, rule assms)
  fix parts body
  show "leaves catalog_ok t (route env fuel rq parts body)"
  proof (rule route_cases)
    show "search_routes env fuel rq i e body = Some h \<Longrightarrow> leaves catalog_ok t h" for i e h
      by (rule leaves_same [where Q = catalog_ok, OF kept_routes(3) assms(3)])
    show "document_routes env (rq_method rq) i e d body = Some h \<Longrightarrow> leaves catalog_ok t (answer h)" for i e d h
      by (rule leaves_respond, rule leaves_same [where Q = catalog_ok, OF kept_routes(1) assms(3)])
  qed (auto intro: leaves_respond leaves_routes [OF assms] ended)
qed

section \<open>Properties\<close>

text \<open>C30: Between requests the metadata stays well formed: whatever the request, when the tables have unique
  names, aliases that point to indices and never shadow one, and indices with disjoint collection
  names, so have the tables it leaves, whether it succeeds or fails.\<close>

theorem dispatch_keeps_catalog:
  assumes "read_catalog env = None" "hash_is_permutation env" "catalog_ok (w_tables w)"
  shows "catalog_ok (w_tables (snd (dispatch_inner env fuel rq w)))"
  using dispatch_leaves [OF assms] by (simp add: leaves_def)

text \<open>C31: A request that the shared catalog does not classify as administrative leaves the metadata
  tables as they are, so nothing is lost when its private copy of them is dropped.\<close>

theorem non_admin_keeps_tables:
  assumes "is_admin env (rq_method rq) (rq_path rq) = Inr False"
  shows "w_tables (snd (dispatch_inner env fuel rq w)) = w_tables w"
  using kept.inv_dispatch [OF assms] by (simp add: preserves_def)

text \<open>A request that the cache does not fence as mutating sends Qdrant nothing but reads: the
  classification by method and decoded path covers every route that writes.\<close>

theorem unfenced_only_reads:
  assumes "\<not> mutating env (rq_method rq) (rq_path rq)" "plain_decoding env"
  shows "\<exists>sent. w_trace (snd (dispatch_inner env fuel rq w)) = w_trace w @ sent
    \<and> (\<forall>(c, r)\<in>set sent. is_read (call_method c) (call_path c))"
  using searching.read_dispatch [OF assms] only_reads_start
  unfolding preserves_def only_reads_def list_all_iff by blast

subsection \<open>Concrete requests\<close>

definition sample_request :: "http_method \<Rightarrow> string \<Rightarrow> http_request" where
  "sample_request m path = \<lparr>rq_method = m, rq_path = path, rq_query = None, rq_body = []\<rparr>"

lemma sample_decoding: "plain_decoding sample_env"
  by (simp add: plain_decoding_def sample_env_def)

lemma sample_segments:
  "decode_path_segments sample_env ''/shoes/_search'' = Inr [''shoes'', ''_search'']"
  "decode_path_segments sample_env ''/shoes/_count'' = Inr [''shoes'', ''_count'']"
  "decode_path_segments sample_env ''/shoes'' = Inr [''shoes'']"
  by (simp_all add: decode_path_segments_def trim_matches_def sample_env_def)

lemma dispatch_keeps_catalog_witness:
  "catalog_ok (w_tables (snd (dispatch_inner sample_env 1 (sample_request PUT ''/shoes'') empty_world)))"
  by (rule dispatch_keeps_catalog)
     (simp_all add: sample_env_def hash_is_permutation_def empty_world_def catalog_ok_def index_names_def)

lemma non_admin_keeps_tables_witness:
  "w_tables (snd (dispatch_inner sample_env 1 (sample_request POST ''/shoes/_search'') empty_world)) = w_tables empty_world"
  by (rule non_admin_keeps_tables)
     (simp add: sample_request_def is_admin_def is_bulk_request_def ends_with_def sample_segments)

lemma unfenced_only_reads_witness:
  "\<exists>sent. w_trace (snd (dispatch_inner sample_env 1 (sample_request POST ''/shoes/_count'') empty_world)) = w_trace empty_world @ sent
    \<and> (\<forall>(c, r)\<in>set sent. is_read (call_method c) (call_path c))"
  by (rule unfenced_only_reads)
     (simp_all add: sample_request_def mutating_def sample_segments sample_decoding)

end
