(* ===== verification/ReadViews.thy ===== *)
theory ReadViews
  imports Routing
begin

text \<open>
  Requests answered from a read view. With a shared catalog, \<open>dispatch_catalog\<close> of \<open>src/main.rs\<close>
  gives the handlers that \<open>uses_read_view\<close> names an immutable \<open>ReadView\<close> instead of the SQLite
  tables. Both runs of such a handler are followed side by side.
\<close>

section \<open>Two runs side by side\<close>

text \<open>The second run starts from the tables \<open>t\<close>, the first from any; they give the same result, and
  states that differ in the tables only.\<close>

definition mirrors :: "tables \<Rightarrow> 'a act \<Rightarrow> 'a act \<Rightarrow> bool" where
  "mirrors t m m' \<longleftrightarrow> (\<forall>w. m' (w\<lparr>w_tables := t\<rparr>) = (fst (m w), (snd (m w))\<lparr>w_tables := t\<rparr>))"

named_theorems mirror

lemma mirrors_return [mirror]: "mirrors t (returnE x) (returnE x)" "mirrors t (liftE r) (liftE r)"
  "mirrors t (throwE e) (throwE e)"
  by (simp_all add: mirrors_def returnE_def liftE_def throwE_def)

lemma mirrors_bind [mirror]:
  assumes "mirrors t m m'" "\<And>x. mirrors t (k x) (k' x)"
  shows "mirrors t (bindE m k) (bindE m' k')"
  unfolding mirrors_def
proof
  fix w
  obtain r w1 where "m w = (r, w1)" by (cases "m w")
  with assms show "bindE m' k' (w\<lparr>w_tables := t\<rparr>) = (fst (bindE m k w), (snd (bindE m k w))\<lparr>w_tables := t\<rparr>)"
    by (cases r) (simp_all add: mirrors_def bindE_def)
qed

lemma mirrors_try [mirror]: "mirrors t m m' \<Longrightarrow> mirrors t (tryE m) (tryE m')"
  by (simp add: mirrors_def tryE_def split_beta)

lemma mirrors_modify [mirror]: "(\<And>w. f (w\<lparr>w_tables := t\<rparr>) = (f w)\<lparr>w_tables := t\<rparr>) \<Longrightarrow> mirrors t (modifyE f) (modifyE f)"
  by (simp add: mirrors_def modifyE_def)

lemma mirrors_if [mirror]:
  "mirrors t a a' \<Longrightarrow> mirrors t b b' \<Longrightarrow> mirrors t (if c then a else b) (if c then a' else b')"
  by simp

lemma mirrors_if_fun:
  "mirrors t (f x) (f' x) \<Longrightarrow> mirrors t (g x) (g' x) \<Longrightarrow> mirrors t ((if c then f else g) x) ((if c then f' else g') x)"
  by simp

lemma mirrors_option [mirror]:
  "mirrors t a a' \<Longrightarrow> (\<And>x. mirrors t (b x) (b' x)) \<Longrightarrow>
    mirrors t (case c of None \<Rightarrow> a | Some x \<Rightarrow> b x) (case c of None \<Rightarrow> a' | Some x \<Rightarrow> b' x)"
  by (cases c) simp_all

lemma mirrors_prod [mirror]:
  "(\<And>x y. mirrors t (b x y) (b' x y)) \<Longrightarrow> mirrors t (case c of (x, y) \<Rightarrow> b x y) (case c of (x, y) \<Rightarrow> b' x y)"
  by (cases c) simp

lemma mirrors_sum [mirror]:
  "(\<And>x. mirrors t (a x) (a' x)) \<Longrightarrow> (\<And>x. mirrors t (b x) (b' x)) \<Longrightarrow>
    mirrors t (case c of Inl x \<Rightarrow> a x | Inr x \<Rightarrow> b x) (case c of Inl x \<Rightarrow> a' x | Inr x \<Rightarrow> b' x)"
  by (cases c) simp_all

lemma mirrors_let [mirror]: "(\<And>x. mirrors t (b x) (b' x)) \<Longrightarrow> mirrors t (let x = c in b x) (let x = c in b' x)"
  by (simp add: Let_def)

lemma mirrors_when [mirror]: "mirrors t m m' \<Longrightarrow> mirrors t (whenE b m) (whenE b m')"
  by (simp add: whenE_def mirrors_return)

lemma mirrors_map [mirror]: "(\<And>x. mirrors t (f x) (f' x)) \<Longrightarrow> mirrors t (mapE f xs) (mapE f' xs)"
  by (induction xs) (auto intro!: mirror)

lemma mirrors_loop [mirror]: "(\<And>s. mirrors t (f s) (f' s)) \<Longrightarrow> mirrors t (loopE n f s) (loopE n f' s)"
  by (induction n arbitrary: s) (auto intro!: mirror)

lemma mirrors_bindO [mirror]:
  "mirrors t m m' \<Longrightarrow> (\<And>x. mirrors t (k x) (k' x)) \<Longrightarrow> mirrors t (bindO m k) (bindO m' k')"
  unfolding bindO_def by (intro mirror)

lemma mirrors_done [mirror]: "mirrors t m m' \<Longrightarrow> mirrors t (doneE m) (doneE m')"
  unfolding doneE_def by (intro mirror)

section \<open>What does not depend on the catalog\<close>

lemma env_fields:
  "cfg (env\<lparr>read_catalog := v\<rparr>) = cfg env"
  "env_qdrant (env\<lparr>read_catalog := v\<rparr>) = env_qdrant env"
  "tracked (env\<lparr>read_catalog := v\<rparr>) = tracked env"
  "admin_tracked (env\<lparr>read_catalog := v\<rparr>) = admin_tracked env"
  "sha256 (env\<lparr>read_catalog := v\<rparr>) = sha256 env"
  "lower (env\<lparr>read_catalog := v\<rparr>) = lower env"
  "json_text (env\<lparr>read_catalog := v\<rparr>) = json_text env"
  "parse_json (env\<lparr>read_catalog := v\<rparr>) = parse_json env"
  "parse_float (env\<lparr>read_catalog := v\<rparr>) = parse_float env"
  "percent_utf8 (env\<lparr>read_catalog := v\<rparr>) = percent_utf8 env"
  "regex_new (env\<lparr>read_catalog := v\<rparr>) = regex_new env"
  "regex_escape (env\<lparr>read_catalog := v\<rparr>) = regex_escape env"
  "status_text (env\<lparr>read_catalog := v\<rparr>) = status_text env"
  "snapshot_text (env\<lparr>read_catalog := v\<rparr>) = snapshot_text env"
  "parse_snapshot_text (env\<lparr>read_catalog := v\<rparr>) = parse_snapshot_text env"
  "hash_order (env\<lparr>read_catalog := v\<rparr>) = hash_order env"
  "new_uuid (env\<lparr>read_catalog := v\<rparr>) = new_uuid env"
  "elapsed_ms (env\<lparr>read_catalog := v\<rparr>) = elapsed_ms env"
  "float_text (env\<lparr>read_catalog := v\<rparr>) = float_text env"
  "chrono (env\<lparr>read_catalog := v\<rparr>) = chrono env"
  "shared_catalog (env\<lparr>read_catalog := v\<rparr>) = shared_catalog env"
  by simp_all

lemma keys_without_catalog:
  "terms_key (env\<lparr>read_catalog := v\<rparr>) = terms_key env"
  "count_bucket (env\<lparr>read_catalog := v\<rparr>) = count_bucket env"
  unfolding terms_key_def count_bucket_def env_fields  by (rule refl)+

lemma terms_without_catalog:
  "count_term (env\<lparr>read_catalog := v\<rparr>) = count_term env"
  "observe_histogram (env\<lparr>read_catalog := v\<rparr>) = observe_histogram env"
  unfolding count_term_def observe_histogram_def env_fields keys_without_catalog by (rule refl)+

lemma observe_terms_without_catalog:
  "observe_terms (env\<lparr>read_catalog := v\<rparr>) = observe_terms env"
  unfolding observe_terms_def env_fields terms_without_catalog by (rule refl)+

lemma observe_without_catalog:
  "observe (env\<lparr>read_catalog := v\<rparr>) = observe env" "finish (env\<lparr>read_catalog := v\<rparr>) = finish env"
proof -
  show "observe (env\<lparr>read_catalog := v\<rparr>) = observe env"
  proof (intro ext)
    show "observe (env\<lparr>read_catalog := v\<rparr>) source r = observe env source r" for source r
      by (cases r) (simp_all add: terms_without_catalog observe_terms_without_catalog)
  qed
  show "finish (env\<lparr>read_catalog := v\<rparr>) = finish env"
  proof (intro ext)
    show "finish (env\<lparr>read_catalog := v\<rparr>) r = finish env r" for r
      by (cases r) simp_all
  qed
qed

lemma plan_step_without_catalog:
  "observe_plan (env\<lparr>read_catalog := v\<rparr>) = observe_plan env"
  unfolding observe_plan_def env_fields observe_without_catalog by (rule refl)+

lemma plans_without_catalog:
  "page_plan (env\<lparr>read_catalog := v\<rparr>) = page_plan env"
  "plan_results (env\<lparr>read_catalog := v\<rparr>) = plan_results env"
  "aggregate_body (env\<lparr>read_catalog := v\<rparr>) = aggregate_body env"
  "facet_counts (env\<lparr>read_catalog := v\<rparr>) = facet_counts env"
  "reply_error (env\<lparr>read_catalog := v\<rparr>) = reply_error env"
  unfolding page_plan_def plan_results_def aggregate_body_def facet_counts_def reply_error_def env_fields observe_without_catalog plan_step_without_catalog by (rule refl)+

lemma patterns_without_catalog:
  "matches_patterns (env\<lparr>read_catalog := v\<rparr>) = matches_patterns env"
  "past_cursor (env\<lparr>read_catalog := v\<rparr>) = past_cursor env"
  "scan_limit (env\<lparr>read_catalog := v\<rparr>) = scan_limit env"
  "collapse_key (env\<lparr>read_catalog := v\<rparr>) = collapse_key env"
  unfolding matches_patterns_def past_cursor_def scan_limit_def collapse_key_def env_fields  by (rule refl)+

lemma grouping_without_catalog:
  "add_to_group (env\<lparr>read_catalog := v\<rparr>) = add_to_group env"
  unfolding add_to_group_def env_fields patterns_without_catalog by (rule refl)+

lemma collapse_without_catalog:
  "collapse_hits (env\<lparr>read_catalog := v\<rparr>) = collapse_hits env"
  "order_hits (env\<lparr>read_catalog := v\<rparr>) = order_hits env"
  "after_cursor (env\<lparr>read_catalog := v\<rparr>) = after_cursor env"
  unfolding collapse_hits_def order_hits_def after_cursor_def env_fields grouping_without_catalog by (rule refl)+

lemma search_without_catalog:
  "plan_scope (env\<lparr>read_catalog := v\<rparr>) = plan_scope env"
  "ordered_eligible (env\<lparr>read_catalog := v\<rparr>) = ordered_eligible env"
  "count_only (env\<lparr>read_catalog := v\<rparr>) = count_only env"
  "text_request (env\<lparr>read_catalog := v\<rparr>) = text_request env"
  "approximate_body (env\<lparr>read_catalog := v\<rparr>) = approximate_body env"
  "scan_body (env\<lparr>read_catalog := v\<rparr>) = scan_body env"
  "scan_point (env\<lparr>read_catalog := v\<rparr>) = scan_point env"
  "keep_page (env\<lparr>read_catalog := v\<rparr>) = keep_page env"
  "dedupe_hits (env\<lparr>read_catalog := v\<rparr>) = dedupe_hits env"
  "retained (env\<lparr>read_catalog := v\<rparr>) = retained env"
  "search_page (env\<lparr>read_catalog := v\<rparr>) = search_page env"
  "search_response (env\<lparr>read_catalog := v\<rparr>) = search_response env"
  unfolding plan_scope_def ordered_eligible_def count_only_def text_request_def approximate_body_def scan_body_def scan_point_def keep_page_def dedupe_hits_def retained_def search_page_def search_response_def env_fields patterns_without_catalog collapse_without_catalog by (rule refl)+

lemma routes_without_catalog:
  "decode_path_segments (env\<lparr>read_catalog := v\<rparr>) = decode_path_segments env"
  "json_body (env\<lparr>read_catalog := v\<rparr>) = json_body env"
  unfolding decode_path_segments_def json_body_def env_fields  by (rule refl)+

lemmas without_catalog = env_fields observe_without_catalog plans_without_catalog patterns_without_catalog
  search_without_catalog routes_without_catalog

section \<open>Handlers\<close>

lemma mirrors_send: "mirrors t (send_request (env\<lparr>read_catalog := a\<rparr>) m path body) (send_request (env\<lparr>read_catalog := b\<rparr>) m path body)"
  by (auto simp: mirrors_def send_request_def mark_admin_def Let_def split: reply.splits)

lemma mirrors_request [mirror]:
  "mirrors t (request (env\<lparr>read_catalog := a\<rparr>) m path body) (request (env\<lparr>read_catalog := b\<rparr>) m path body)"
  unfolding request_def raw_request_def without_catalog by (intro mirror mirrors_send)

lemma mirrors_sources [mirror]:
  "mirrors t (retrieve_sources (env\<lparr>read_catalog := a\<rparr>) index ids) (retrieve_sources (env\<lparr>read_catalog := b\<rparr>) index ids)"
  unfolding retrieve_sources_def by (intro mirror)

lemma mirrors_source [mirror]:
  "mirrors t (retrieve_source (env\<lparr>read_catalog := a\<rparr>) index coll ident) (retrieve_source (env\<lparr>read_catalog := b\<rparr>) index coll ident)"
  unfolding retrieve_source_def without_catalog by (intro mirror)

lemma mirrors_execute [mirror]:
  "mirrors t (execute_plan (env\<lparr>read_catalog := a\<rparr>) fuel plan coll flt mapping) (execute_plan (env\<lparr>read_catalog := b\<rparr>) fuel plan coll flt mapping)"
proof -
  have covered: "mirrors t r r' \<Longrightarrow> mirrors t (if_covered (env\<lparr>read_catalog := a\<rparr>) coll flt marker r k) (if_covered (env\<lparr>read_catalog := b\<rparr>) coll flt marker r' k)"
    for marker r r' and k :: "json \<Rightarrow> 'x outcome"
    unfolding if_covered_def marker_covered_def by (intro mirror)
  have counts: "mirrors t (filter_fast (env\<lparr>read_catalog := a\<rparr>) coll flt mapping nr) (filter_fast (env\<lparr>read_catalog := b\<rparr>) coll flt mapping nr)" for nr
    by (cases nr; cases "snd nr") (auto simp: filter_fast_def intro!: mirror covered)
  have terms: "mirrors t (terms_fast (env\<lparr>read_catalog := a\<rparr>) coll flt mapping nr) (terms_fast (env\<lparr>read_catalog := b\<rparr>) coll flt mapping nr)" for nr
    by (cases nr; cases "snd nr") (auto simp: terms_fast_def without_catalog intro!: mirror covered)
  have round: "mirrors t (aggregate_round (env\<lparr>read_catalog := a\<rparr>) coll flt s) (aggregate_round (env\<lparr>read_catalog := b\<rparr>) coll flt s)" for s
    unfolding aggregate_round_def without_catalog by (intro mirror)
  show ?thesis
    unfolding execute_plan_def try_fast_def without_catalog Let_def
    by (intro mirror counts terms round mirrors_if_fun)
qed

lemma mirrors_ordered [mirror]:
  "mirrors t (ordered_numeric_hits (env\<lparr>read_catalog := a\<rparr>) p body s) (ordered_numeric_hits (env\<lparr>read_catalog := b\<rparr>) p body s)"
  unfolding ordered_numeric_hits_def without_catalog Let_def
  by (cases "p_sorts p") (auto intro!: mirror split: prod.splits)

lemma mirrors_collect [mirror]:
  "mirrors t (collect_hits (env\<lparr>read_catalog := a\<rparr>) fuel p s counted ordered full) (collect_hits (env\<lparr>read_catalog := b\<rparr>) fuel p s counted ordered full)"
proof -
  have approximate: "mirrors t (approximate_round (env\<lparr>read_catalog := a\<rparr>) s st) (approximate_round (env\<lparr>read_catalog := b\<rparr>) s st)" for st
    unfolding approximate_round_def without_catalog Let_def by (intro mirror)
  have scan: "mirrors t (scan_round (env\<lparr>read_catalog := a\<rparr>) p s full st) (scan_round (env\<lparr>read_catalog := b\<rparr>) p s full st)" for st
    unfolding scan_round_def without_catalog Let_def by (intro mirror)
  show ?thesis
    unfolding collect_hits_def sparse_hits_def text_hits_def without_catalog
    by (intro mirror approximate scan)
qed

section \<open>Requests of the read view\<close>

text \<open>A published snapshot gives both or neither.\<close>

lemma view_of_db:
  "into_db env s = Inr t \<Longrightarrow> \<exists>view. into_read_view env s = Inr view"
  "into_db env s = Inl e \<Longrightarrow> into_read_view env s = Inl e"
proof -
  have rows: "eachR (\<lambda>row. map_ok (\<lambda>_. ()) (view_row env row)) rs = map_ok (\<lambda>_. ()) (traverseR (view_row env) rs)" for rs
  proof (induction rs)
    case (Cons r rs)
    then show ?case by (cases "view_row env r"; cases "traverseR (view_row env) rs") simp_all
  qed simp
  show "into_db env s = Inr t \<Longrightarrow> \<exists>view. into_read_view env s = Inr view"
    by (cases "traverseR (view_row env) (sn_indices s)")
       (auto simp: into_db_def into_read_view_def rows view_rows_names split: if_splits)
  show "into_db env s = Inl e \<Longrightarrow> into_read_view env s = Inl e"
    by (cases "traverseR (view_row env) (sn_indices s)")
       (auto simp: into_db_def into_read_view_def rows view_rows_names split: if_splits)
qed

lemma db_agrees:
  assumes "into_db env s = Inr t" "into_read_view env s = Inr view"
  shows "view_get_index view name = sql_get_index env t name" "view_resolve_index view name = sql_resolve_index t name"
proof -
  have "t = \<lparr>indices = sn_indices s, aliases = sn_aliases s\<rparr>"
    using assms(1) by (auto simp: into_db_def bindR_Inr_iff split: if_splits)
  then show "view_get_index view name = sql_get_index env t name" "view_resolve_index view name = sql_resolve_index t name"
    using view_agrees [OF assms(2), of t] by simp_all
qed

locale published =
  fixes env :: env and view :: read_view and t :: tables
  assumes same_index: "view_get_index view name = sql_get_index env t name"
    and same_name: "view_resolve_index view name = sql_resolve_index t name"
begin

abbreviation "from_view \<equiv> env\<lparr>read_catalog := Some view\<rparr>"
abbreviation "from_tables \<equiv> env\<lparr>read_catalog := None\<rparr>"

lemma mirrors_get_index: "mirrors t (get_index from_view name) (get_index from_tables name)"
proof -
  have "sql_get_index from_tables t name = sql_get_index env t name"
    by (simp add: sql_get_index_def parse_strings_def cong: option.case_cong sum.case_cong)
  then show ?thesis
    by (simp add: mirrors_def get_index_def same_index bindE_def getE_def liftE_def)
qed

lemma mirrors_resolve_index: "mirrors t (resolve_index from_view name) (resolve_index from_tables name)"
  by (simp add: mirrors_def resolve_index_def same_name bindE_def getE_def liftE_def)

lemma mirrors_get_doc: "mirrors t (get_doc from_view name ident) (get_doc from_tables name ident)"
  unfolding get_doc_def by (intro mirror mirrors_resolve_index)

lemma mirrors_search:
  "mirrors t (search_with_total_format from_view fuel name body as_int) (search_with_total_format from_tables fuel name body as_int)"
proof -
  have expand: "mirrors t (expand_more_like_this from_view n q) (expand_more_like_this from_tables n q)" for n q
    unfolding expand_more_like_this_def like_source_def without_catalog by (intro mirror mirrors_get_index)
  have scope: "mirrors t (resolve_scope from_view name body) (resolve_scope from_tables name body)"
    unfolding resolve_scope_def without_catalog by (intro mirror mirrors_get_index expand)
  show ?thesis
    unfolding search_with_total_format_def search_aggregations_def search_total_def search_ordered_def qdrant_exact_count_def
      finish_search_def hydrate_def count_supported_def without_catalog Let_def
    by (intro mirror scope) simp
qed

lemma mirrors_answers:
  "mirrors t m m' \<Longrightarrow> mirrors t (answer m) (answer m')" "mirrors t p p' \<Longrightarrow> mirrors t (answer_paged p) (answer_paged p')"
  unfolding answer_def answer_paged_def respond_def by (intro mirror; assumption)+

lemma mirrors_fixed:
  assumes "path \<noteq> ''/_aliases'' \<or> m \<noteq> POST"
  shows "rel_option (mirrors t) (fixed_routes from_view m path body) (fixed_routes from_tables m path body)"
proof -
  have "mirrors t (backend_health from_view) (backend_health from_tables)"
    unfolding backend_health_def by (intro mirror)
  then have health: "mirrors t (cluster_health from_view) (cluster_health from_tables)"
      "mirrors t (readyz from_view) (readyz from_tables)"
    unfolding cluster_health_def readyz_def by (intro mirror; assumption)+
  have "mirrors t compatibility compatibility"
    by (simp add: mirrors_def compatibility_def bindE_def getE_def returnE_def)
  then show ?thesis
    using assms health by (auto simp: fixed_routes_def service_root_def healthz_def mirrors_return)
qed

lemma mirrors_route:
  assumes use: "uses_read_view env (rq_method rq) (rq_path rq)" and parts: "decode_path_segments env (rq_path rq) = Inr parts"
  shows "mirrors t (route from_view fuel rq parts body) (route from_tables fuel rq parts body)"
proof -
  have "decode_path_segments env ''/_aliases'' = Inr ps \<Longrightarrow> length ps = 1" for ps
    by (auto simp: decode_path_segments_def trim_matches_def bindR_Inr_iff)
  moreover have "length parts \<noteq> 1" using use parts by (auto simp: uses_read_view_def split: list.splits)
  ultimately have "rq_path rq \<noteq> ''/_aliases'' \<or> rq_method rq \<noteq> POST" using parts by auto
  note fixed = mirrors_fixed [OF this, of body]
  from use parts consider (doc) i d where "parts = [i, ''_doc'', d]" "rq_method rq = GET"
    | (search) i where "parts = [i, ''_search'']" "rq_method rq = GET \<or> rq_method rq = POST" "\<not> (rq_method rq = GET \<and> i = ''_alias'')"
    by (auto simp: uses_read_view_def split: list.splits)
  then show ?thesis
  proof cases
    case doc
    then show ?thesis
      using fixed mirrors_get_doc
      by (cases "fixed_routes from_view (rq_method rq) (rq_path rq) body"; cases "fixed_routes from_tables (rq_method rq) (rq_path rq) body")
         (auto simp: route_def document_routes_def intro!: mirrors_answers)
  next
    case search
    then have "control_routes e (rq_method rq) i ''_search'' body = None" for e
      by (auto simp: control_routes_def)
    then show ?thesis
      using fixed search
      by (cases "fixed_routes from_view (rq_method rq) (rq_path rq) body"; cases "fixed_routes from_tables (rq_method rq) (rq_path rq) body")
         (auto simp: route_def search_routes_def Let_def split: sum.split intro!: mirror mirrors_answers mirrors_search)
  qed
qed

lemma mirrors_dispatch:
  assumes use: "uses_read_view env (rq_method rq) (rq_path rq)" and dec: "plain_decoding env"
  shows "mirrors t (dispatch_inner from_view fuel rq) (dispatch_inner from_tables fuel rq)"
proof -
  obtain parts where parts: "decode_path_segments env (rq_path rq) = Inr parts"
      and last: "last parts \<noteq> ''_bulk'' \<or> rq_method rq = GET" "last parts \<noteq> ''_msearch'' \<or> rq_method rq = GET"
    using use by (auto simp: uses_read_view_def split: sum.splits list.splits)
  have other: "\<not> is_bulk_request (rq_method rq) (rq_path rq)" "\<not> msearch_request rq"
  proof -
    have "is_bulk_request (rq_method rq) (rq_path rq) \<Longrightarrow> rq_method rq \<noteq> GET" "msearch_request rq \<Longrightarrow> rq_method rq \<noteq> GET"
      by (auto simp: is_bulk_request_def msearch_request_def)
    then show "\<not> is_bulk_request (rq_method rq) (rq_path rq)" "\<not> msearch_request rq"
      using last decode_bulk [OF _ dec parts] decode_msearch [OF _ dec parts] by blast+
  qed
  show ?thesis
    unfolding dispatch_inner_def without_catalog Let_def parts if_not_P [OF other(1)] if_not_P [OF other(2)] sum.case
    by (rule mirrors_if, rule mirrors_done, rule mirrors_return, rule mirrors_sum, rule mirrors_done, rule mirrors_return)
       (rule mirrors_route [OF use parts])
qed

end

text \<open>Every published snapshot, one that does not parse standing for an empty catalog.\<close>

definition view_or_empty :: "env \<Rightarrow> snapshot \<Rightarrow> read_view" where
  "view_or_empty env s = (case into_read_view env s of Inl _ \<Rightarrow> \<lparr>rv_indices = [], rv_aliases = []\<rparr> | Inr view \<Rightarrow> view)"

definition db_or_empty :: "env \<Rightarrow> snapshot \<Rightarrow> tables" where
  "db_or_empty env s = (case into_db env s of Inl _ \<Rightarrow> \<lparr>indices = [], aliases = []\<rparr> | Inr t \<Rightarrow> t)"

interpretation snapshots: published env "view_or_empty env s" "db_or_empty env s"
proof unfold_locales
  fix name
  have empty: "view_resolve \<lparr>rv_indices = [], rv_aliases = []\<rparr> name = None" "sql_resolve \<lparr>indices = [], aliases = []\<rparr> name = None"
    by (simp_all add: view_resolve_def view_index_def view_alias_def sql_resolve_def coalesce_name_def table_index_def table_alias_def)
  show "view_get_index (view_or_empty env s) name = sql_get_index env (db_or_empty env s) name"
    "view_resolve_index (view_or_empty env s) name = sql_resolve_index (db_or_empty env s) name"
    using view_of_db [of env s] db_agrees [of env s] empty
    by (cases "into_db env s"; force simp: view_or_empty_def db_or_empty_def view_get_index_def sql_get_index_def
        view_resolve_index_def sql_resolve_index_def)+
qed

section \<open>Properties\<close>

text \<open>C32: The requests that read from a view of the shared catalog get exactly what the request-local
  database would give them: the snapshot is accepted by both or rejected by both with the same error,
  and the answer, the calls to Qdrant and every other effect are the same, whatever tables the
  process has besides.\<close>

theorem read_view_requests_exact:
  assumes "uses_read_view env (rq_method rq) (rq_path rq)" "plain_decoding env"
  shows "case snapshot_db env bytes of
      Inl e \<Rightarrow> snapshot_read_view env bytes = Inl e
    | Inr t \<Rightarrow> \<exists>view. snapshot_read_view env bytes = Inr view
        \<and> (\<forall>w. let r = dispatch_inner (env\<lparr>read_catalog := Some view\<rparr>) fuel rq w in
             dispatch_inner (env\<lparr>read_catalog := None\<rparr>) fuel rq (w\<lparr>w_tables := t\<rparr>) = (fst r, (snd r)\<lparr>w_tables := t\<rparr>))"
proof (cases "parse_snapshot env bytes")
  case (Inr s)
  show ?thesis
  proof (cases "into_db env s")
    case (Inl e)
    then show ?thesis using view_of_db(2) by (simp add: snapshot_db_def snapshot_read_view_def Inr)
  next
    case (Inr t)
    then obtain view where view: "into_read_view env s = Inr view" using view_of_db(1) by blast
    then have "mirrors t (dispatch_inner (env\<lparr>read_catalog := Some view\<rparr>) fuel rq) (dispatch_inner (env\<lparr>read_catalog := None\<rparr>) fuel rq)"
      using snapshots.mirrors_dispatch [OF assms, of s fuel] by (simp add: view_or_empty_def db_or_empty_def Inr)
    then show ?thesis
      using Inr view \<open>parse_snapshot env bytes = Inr s\<close>
      by (simp add: snapshot_db_def snapshot_read_view_def mirrors_def Let_def)
  qed
qed (simp add: snapshot_db_def snapshot_read_view_def)

definition published_env :: env where
  "published_env = sample_env\<lparr>parse_json := sample_parse,
     parse_snapshot_text := (\<lambda>_. Some \<lparr>sn_indices = indices sample_tables, sn_aliases = aliases sample_tables\<rparr>)\<rparr>"

lemma read_view_requests_exact_witness:
  "\<exists>view. snapshot_read_view published_env ''{}'' = Inr view
    \<and> fst (dispatch_inner (published_env\<lparr>read_catalog := None\<rparr>) 1 (sample_request GET ''/products/_doc/1'') (empty_world\<lparr>w_tables := sample_tables\<rparr>))
      = fst (dispatch_inner (published_env\<lparr>read_catalog := Some view\<rparr>) 1 (sample_request GET ''/products/_doc/1'') empty_world)"
proof -
  have "uses_read_view published_env (rq_method (sample_request GET ''/products/_doc/1'')) (rq_path (sample_request GET ''/products/_doc/1''))"
    by (simp add: uses_read_view_def sample_request_def decode_path_segments_def trim_matches_def published_env_def sample_env_def)
  moreover have "plain_decoding published_env" by (simp add: plain_decoding_def published_env_def sample_env_def)
  moreover have "snapshot_db published_env ''{}'' = Inr sample_tables"
    by (simp add: snapshot_db_def parse_snapshot_def into_db_def view_row_def parse_strings_def published_env_def sample_parse_def
        sample_tables_def max_catalog_bytes_def sample_env_def)
  ultimately show ?thesis
    using read_view_requests_exact [of published_env "sample_request GET ''/products/_doc/1''" "''{}''" 1]
    by (auto simp: Let_def)
qed

end
