(* ===== verification/Redis.thy ===== *)
theory Redis
  imports Strings
begin

text \<open>
  The part of Redis the gateway's scripts use (\<open>src/shared_catalog.rs\<close>, \<open>src/read_cache.rs\<close>): a store
  of strings and hashes with an optional time to live, and the delivery of a script over a
  connection that may fail before or after it has run. A script is atomic; an error inside it does
  not undo the writes before it.
\<close>

section \<open>The store\<close>

datatype redis_value = RString string | RHash "(string \<times> string) list"

type_synonym redis = "string \<Rightarrow> (redis_value \<times> nat option) option"

definition redis_type :: "redis \<Rightarrow> string \<Rightarrow> string" where
  "redis_type st k = (case st k of
     None \<Rightarrow> ''none'' | Some (RString _, _) \<Rightarrow> ''string'' | Some (RHash _, _) \<Rightarrow> ''hash'')"

text \<open>\<open>PTTL\<close>: -2 for a missing key, -1 for one without a time to live.\<close>

definition pttl :: "redis \<Rightarrow> string \<Rightarrow> int" where
  "pttl st k = (case st k of None \<Rightarrow> - 2 | Some (_, None) \<Rightarrow> - 1 | Some (_, Some ms) \<Rightarrow> int ms)"

definition redis_exists :: "redis \<Rightarrow> string \<Rightarrow> bool" where
  "redis_exists st k \<longleftrightarrow> st k \<noteq> None"

text \<open>\<open>GET\<close> and \<open>STRLEN\<close> fail on a key of another type.\<close>

datatype script_failure = ScriptError

definition redis_get :: "redis \<Rightarrow> string \<Rightarrow> script_failure + string option" where
  "redis_get st k = (case st k of
     None \<Rightarrow> Inr None | Some (RString v, _) \<Rightarrow> Inr (Some v) | Some (RHash _, _) \<Rightarrow> Inl ScriptError)"

definition redis_strlen :: "redis \<Rightarrow> string \<Rightarrow> script_failure + nat" where
  "redis_strlen st k = (case redis_get st k of
     Inl e \<Rightarrow> Inl e | Inr None \<Rightarrow> Inr 0 | Inr (Some v) \<Rightarrow> Inr (length v))"

definition redis_set :: "string \<Rightarrow> string \<Rightarrow> redis \<Rightarrow> redis" where
  "redis_set k v st = st(k \<mapsto> (RString v, None))"

definition redis_set_ex :: "string \<Rightarrow> string \<Rightarrow> nat \<Rightarrow> redis \<Rightarrow> redis" where
  "redis_set_ex k v seconds st = st(k \<mapsto> (RString v, Some (1000 * seconds)))"

definition redis_del :: "string \<Rightarrow> redis \<Rightarrow> redis" where
  "redis_del k st = st(k := None)"

definition hash_fields :: "redis \<Rightarrow> string \<Rightarrow> (string \<times> string) list" where
  "hash_fields st k = (case st k of Some (RHash fs, _) \<Rightarrow> fs | _ \<Rightarrow> [])"

definition hash_get :: "redis \<Rightarrow> string \<Rightarrow> string \<Rightarrow> string option" where
  "hash_get st k f = map_of (hash_fields st k) f"

definition hash_put :: "string \<Rightarrow> string \<Rightarrow> (string \<times> string) list \<Rightarrow> (string \<times> string) list" where
  "hash_put f v fs = (if f \<in> fst ` set fs then map (\<lambda>(g, u). (g, if g = f then v else u)) fs else fs @ [(f, v)])"

text \<open>\<open>HSET\<close> keeps the time to live of an existing hash.\<close>

definition hash_set :: "string \<Rightarrow> (string \<times> string) list \<Rightarrow> redis \<Rightarrow> redis" where
  "hash_set k pairs st =
     st(k \<mapsto> (RHash (fold (\<lambda>(f, v). hash_put f v) pairs (hash_fields st k)),
             case st k of None \<Rightarrow> None | Some (_, ttl) \<Rightarrow> ttl))"

definition hash_del :: "string \<Rightarrow> string \<Rightarrow> redis \<Rightarrow> redis" where
  "hash_del k f st = (case st k of
     Some (RHash fs, ttl) \<Rightarrow>
       (let rest = filter (\<lambda>(g, _). g \<noteq> f) fs
        in if rest = [] then st(k := None) else st(k \<mapsto> (RHash rest, ttl)))
   | _ \<Rightarrow> st)"

definition redis_persist :: "string \<Rightarrow> redis \<Rightarrow> redis" where
  "redis_persist k st = (case st k of None \<Rightarrow> st | Some (v, _) \<Rightarrow> st(k \<mapsto> (v, None)))"

lemma redis_get_simps [simp]:
  "redis_get (redis_set k v st) k = Inr (Some v)" "redis_get (redis_del k st) k = Inr None"
  "k \<noteq> k' \<Longrightarrow> redis_get (redis_set k v st) k' = redis_get st k'"
  "k \<noteq> k' \<Longrightarrow> redis_get (redis_del k st) k' = redis_get st k'"
  by (simp_all add: redis_get_def redis_set_def redis_del_def)

section \<open>Scripts and their delivery\<close>

type_synonym 'a script = "redis \<Rightarrow> (script_failure + 'a) \<times> redis"

datatype delivery = Delivered | ReplyLost | NotSent

text \<open>What the caller learns (\<open>None\<close>: a failure of the transport or the script) and what happened.\<close>

definition invoke :: "delivery \<Rightarrow> 'a script \<Rightarrow> redis \<Rightarrow> 'a option \<times> redis" where
  "invoke d script st = (case d of
     NotSent \<Rightarrow> (None, st)
   | ReplyLost \<Rightarrow> (None, snd (script st))
   | Delivered \<Rightarrow> (case script st of (Inl _, st') \<Rightarrow> (None, st') | (Inr v, st') \<Rightarrow> (Some v, st')))"

lemma invoke_cases:
  assumes "invoke d script st = (r, st')"
  obtains (answered) v where "r = Some v" "script st = (Inr v, st')"
    | (ran) "r = None" "st' = snd (script st)" | (unsent) "r = None" "st' = st"
  using assms by (auto simp: invoke_def split: delivery.splits prod.splits sum.splits)

end
