(* ===== verification/SharedCatalog.thy ===== *)
theory SharedCatalog
  imports ReadViews Redis
begin

text \<open>
  The catalog shared by several gateways (\<open>src/shared_catalog.rs\<close>): a snapshot under one Redis key
  and the claim of at most one administrative request under another, moved by three scripts, and
  \<open>dispatch_catalog\<close> of \<open>src/main.rs\<close>, which brackets a request with them. The connection is its
  delivery (\<open>Redis\<close>); the uuid of a claim and what other gateways do in between are parameters.
\<close>

section \<open>Scripts\<close>

definition admin_key :: "string \<Rightarrow> string" where
  "admin_key key = key @ '':admin''"

lemma admin_key_other [simp]: "admin_key key \<noteq> key" "key \<noteq> admin_key key"
  by (simp_all add: admin_key_def)

definition initialize_script :: "string \<Rightarrow> string \<Rightarrow> unit script" where
  "initialize_script key initial st = (Inr (), if redis_exists st key then st else redis_set key initial st)"

text \<open>A snapshot, and the claim when one is asked for; nothing while a claim is held.\<close>

definition begin_script :: "string \<Rightarrow> string \<Rightarrow> string list script" where
  "begin_script key claim st =
     (if redis_exists st (admin_key key) \<or> \<not> redis_exists st key then (Inr [''rejected'', []], st)
      else case redis_strlen st key of
        Inl e \<Rightarrow> (Inl e, st)
      | Inr n \<Rightarrow>
          if max_catalog_bytes < n then (Inr [''rejected'', []], st)
          else (case redis_get st key of
            Inr (Some snapshot) \<Rightarrow>
              (Inr [''ok'', snapshot], if claim = [] then st else redis_set (admin_key key) claim st)
          | _ \<Rightarrow> (Inl ScriptError, st)))"

definition publish_script :: "string \<Rightarrow> string \<Rightarrow> string \<Rightarrow> nat script" where
  "publish_script key claim payload st = (case redis_get st (admin_key key) of
     Inl e \<Rightarrow> (Inl e, st)
   | Inr held \<Rightarrow>
       if held \<noteq> Some claim then (Inr 0, st)
       else (Inr 1, redis_del (admin_key key) (redis_set key payload st)))"

definition release_script :: "string \<Rightarrow> string \<Rightarrow> nat script" where
  "release_script key claim st = (case redis_get st (admin_key key) of
     Inl e \<Rightarrow> (Inl e, st)
   | Inr held \<Rightarrow> if held \<noteq> Some claim then (Inr 0, st) else (Inr 1, redis_del (admin_key key) st))"

section \<open>The catalog client\<close>

text \<open>The error carries whether this call is known not to have acquired a claim.\<close>

definition begin_snapshot :: "env \<Rightarrow> string \<Rightarrow> bool \<Rightarrow> string \<Rightarrow> delivery \<Rightarrow> redis \<Rightarrow>
    ((gateway_error \<times> bool) + snapshot \<times> string option) \<times> redis" where
  "begin_snapshot env key admin uuid d st =
     (let claim = (if admin then Some uuid else None) in
      case invoke d (begin_script key (unwrap_or [] claim)) st of
        (None, st') \<Rightarrow> (Inl (unavailable, \<not> admin), st')
      | (Some result, st') \<Rightarrow>
          (if result \<noteq> [] \<and> hd result = ''rejected'' then Inl (unavailable, True)
           else case result of
             [tag, bytes] \<Rightarrow>
               if tag \<noteq> ''ok'' then Inl (unavailable, \<not> admin)
               else (case parse_snapshot env bytes of
                 Inl e \<Rightarrow> Inl (e, \<not> admin) | Inr s \<Rightarrow> Inr (s, claim))
           | _ \<Rightarrow> Inl (unavailable, \<not> admin), st'))"

definition begin_tracked :: "env \<Rightarrow> string \<Rightarrow> bool \<Rightarrow> string \<Rightarrow> delivery \<Rightarrow> redis \<Rightarrow>
    ((gateway_error \<times> bool) + tables \<times> string option) \<times> redis" where
  "begin_tracked env key admin uuid d st = (case begin_snapshot env key admin uuid d st of
     (Inl e, st') \<Rightarrow> (Inl e, st')
   | (Inr (s, claim), st') \<Rightarrow>
       (case into_db env s of Inl e \<Rightarrow> (Inl (e, \<not> admin), st') | Inr t \<Rightarrow> (Inr (t, claim), st')))"

definition read_view_of :: "env \<Rightarrow> string \<Rightarrow> delivery \<Rightarrow> redis \<Rightarrow> read_view outcome \<times> redis" where
  "read_view_of env key d st = (case begin_snapshot env key False [] d st of
     (Inl (e, _), st') \<Rightarrow> (Inl e, st')
   | (Inr (s, _), st') \<Rightarrow> (into_read_view env s, st'))"

text \<open>A script that answers 1 when it was this claim's.\<close>

definition claimed :: "delivery \<Rightarrow> nat script \<Rightarrow> redis \<Rightarrow> unit outcome \<times> redis" where
  "claimed d script st = (case invoke d script st of
     (Some n, st') \<Rightarrow> (if n = 1 then Inr () else Inl unavailable, st')
   | (None, st') \<Rightarrow> (Inl unavailable, st'))"

definition publish :: "string \<Rightarrow> string \<Rightarrow> string \<Rightarrow> delivery \<Rightarrow> redis \<Rightarrow> unit outcome \<times> redis" where
  "publish key claim payload d st =
     (if max_catalog_bytes < length payload then (Inl unavailable, st)
      else claimed d (publish_script key claim payload) st)"

definition commit :: "env \<Rightarrow> string \<Rightarrow> tables \<Rightarrow> string \<Rightarrow> delivery \<Rightarrow> redis \<Rightarrow> unit outcome \<times> redis" where
  "commit env key t claim d st = publish key claim (snapshot_text env (snapshot_read t)) d st"

definition release :: "string \<Rightarrow> string \<Rightarrow> delivery \<Rightarrow> redis \<Rightarrow> unit outcome \<times> redis" where
  "release key claim d st = claimed d (release_script key claim) st"

definition initial_catalog :: "env \<Rightarrow> string" where
  "initial_catalog env = snapshot_text env \<lparr>sn_indices = [], sn_aliases = []\<rparr>"

text \<open>Startup: the process environment, whether the client opens, and the two deliveries.\<close>

definition catalog_from_env :: "env \<Rightarrow> (string \<Rightarrow> string option) \<Rightarrow> (string \<Rightarrow> bool) \<Rightarrow> delivery \<Rightarrow> delivery \<Rightarrow> redis \<Rightarrow>
    (string + string option) \<times> redis" where
  "catalog_from_env env var opens d1 d2 st = (case var ''CATALOG_REDIS_URL'' of
     None \<Rightarrow> (Inr None, st)
   | Some url \<Rightarrow>
       if \<not> opens url then (Inl ''invalid CATALOG_REDIS_URL'', st)
       else
         let key = unwrap_or ''qeg:{catalog}:v1'' (var ''CATALOG_REDIS_KEY'');
             (initialized, st1) =
               (if var ''CATALOG_INITIALIZE'' = Some ''true'' then invoke d1 (initialize_script key (initial_catalog env)) st
                else (Some (), st))
         in if initialized = None then (Inl ''shared catalog initialization failed'', st1)
            else case begin_tracked env key False [] d2 st1 of
              (Inl _, st2) \<Rightarrow> (Inl ''shared catalog missing, unavailable, or awaiting recovery'', st2)
            | (Inr _, st2) \<Rightarrow> (Inr (Some key), st2))"

section \<open>Dispatch\<close>

record catalog_outcome =
  co_response :: response
  publication_complete :: bool

text \<open>Everything outside the request: the claim's uuid, the deliveries of the opening and the
  closing script, and what other gateways do to the store in between.\<close>

record surroundings =
  claim_uuid :: string
  on_open :: delivery
  on_close :: delivery
  meanwhile :: "redis \<Rightarrow> redis"

text \<open>The handlers answer every request; \<open>None\<close> is a scan not finished within the fuel.\<close>

definition serve :: "env \<Rightarrow> nat \<Rightarrow> http_request \<Rightarrow> world \<Rightarrow> response option \<times> world" where
  "serve env fuel rq w = (case dispatch_inner env fuel rq w of
     (Inl e, w') \<Rightarrow> (Some (error_response e), w') | (Inr r, w') \<Rightarrow> (r, w'))"

text \<open>A request over the catalog tables \<open>t\<close> it was given; the gateway's own tables are untouched.\<close>

definition serve_local :: "env \<Rightarrow> nat \<Rightarrow> http_request \<Rightarrow> tables \<Rightarrow> world \<Rightarrow> response option \<times> tables \<times> world" where
  "serve_local env fuel rq t w =
     (case serve env fuel rq (w\<lparr>w_tables := t, w_admin_started := False\<rparr>) of
        (r, w') \<Rightarrow> (r, w_tables w', w'\<lparr>w_tables := w_tables w\<rparr>))"

text \<open>The end of an administrative request.\<close>

definition finish_claim :: "env \<Rightarrow> string \<Rightarrow> surroundings \<Rightarrow> string \<Rightarrow> tables \<Rightarrow> bool \<Rightarrow> response \<Rightarrow> redis \<Rightarrow> catalog_outcome \<times> redis" where
  "finish_claim env key around claim t started r st =
     (if is_success (resp_status r)
      then (case commit env key t claim (on_close around) st of
        (Inl e, st') \<Rightarrow> (\<lparr>co_response = error_response e, publication_complete = False\<rparr>, st')
      | (Inr _, st') \<Rightarrow> (\<lparr>co_response = r, publication_complete = True\<rparr>, st'))
      else if \<not> started
      then (case release key claim (on_close around) st of
        (Inl e, st') \<Rightarrow> (\<lparr>co_response = error_response e, publication_complete = False\<rparr>, st')
      | (Inr _, st') \<Rightarrow> (\<lparr>co_response = r, publication_complete = True\<rparr>, st'))
      else (\<lparr>co_response = r, publication_complete = False\<rparr>, st))"

definition answered_at_once :: "response \<Rightarrow> bool \<Rightarrow> redis \<Rightarrow> world \<Rightarrow> catalog_outcome option \<times> redis \<times> world" where
  "answered_at_once r known st w = (Some \<lparr>co_response = r, publication_complete = known\<rparr>, st, w)"

text \<open>A request that needs no claim.\<close>

definition without_claim :: "env \<Rightarrow> nat \<Rightarrow> http_request \<Rightarrow> redis \<Rightarrow> world \<Rightarrow> catalog_outcome option \<times> redis \<times> world" where
  "without_claim env fuel rq st w = (case serve env fuel rq w of
     (Some r, w') \<Rightarrow> answered_at_once r True st w' | (None, w') \<Rightarrow> (None, st, w'))"

text \<open>A request over a catalog it has opened, under a claim when it is administrative.\<close>

definition with_catalog :: "env \<Rightarrow> string \<Rightarrow> surroundings \<Rightarrow> nat \<Rightarrow> http_request \<Rightarrow> tables \<Rightarrow> string option \<Rightarrow> redis \<Rightarrow> world \<Rightarrow>
    catalog_outcome option \<times> redis \<times> world" where
  "with_catalog env key around fuel rq t claim st w =
     (case serve_local (env\<lparr>read_catalog := None, admin_tracked := (claim \<noteq> None)\<rparr>) fuel rq t w of
        (None, _, w') \<Rightarrow> (None, meanwhile around st, w')
      | (Some r, t', w') \<Rightarrow>
          (case claim of
             None \<Rightarrow> answered_at_once r True (meanwhile around st) w'
           | Some c \<Rightarrow>
               (case finish_claim env key around c t' (w_admin_started w') r (meanwhile around st) of
                  (out, st') \<Rightarrow> (Some out, st', w'))))"

definition dispatch_catalog :: "env \<Rightarrow> string option \<Rightarrow> surroundings \<Rightarrow> nat \<Rightarrow> http_request \<Rightarrow> redis \<Rightarrow> world \<Rightarrow>
    catalog_outcome option \<times> redis \<times> world" where
  "dispatch_catalog env catalog around fuel rq st w = (case catalog of
     None \<Rightarrow> without_claim (env\<lparr>shared_catalog := False\<rparr>) fuel rq st w
   | Some key \<Rightarrow>
       let env = env\<lparr>shared_catalog := True\<rparr>; m = rq_method rq; path = rq_path rq in
       if path = ''/healthz'' \<and> m = GET then without_claim env fuel rq st w
       else case is_admin env m path of
         Inl e \<Rightarrow> answered_at_once (error_response e) True st w
       | Inr admin \<Rightarrow>
           if uses_read_view env m path
           then (case read_view_of env key (on_open around) st of
             (Inl e, st') \<Rightarrow> answered_at_once (error_response e) True st' w
           | (Inr view, st') \<Rightarrow> without_claim (env\<lparr>read_catalog := Some view\<rparr>) fuel rq st' w)
           else (case begin_tracked env key admin (claim_uuid around) (on_open around) st of
             (Inl (e, no_claim), st') \<Rightarrow> answered_at_once (error_response e) no_claim st' w
           | (Inr (t, claim), st') \<Rightarrow> with_catalog env key around fuel rq t claim st' w))"

section \<open>Claims\<close>

text \<open>The claim of a request is gone.\<close>

definition unclaimed :: "string \<Rightarrow> string \<Rightarrow> redis \<Rightarrow> bool" where
  "unclaimed key claim st \<longleftrightarrow> redis_get st (admin_key key) \<noteq> Inr (Some claim)"

lemma claimed_done:
  assumes "claimed d script st = (Inr u, st')"
  shows "script st = (Inr 1, st')"
  using assms by (auto simp: claimed_def split: prod.splits option.splits if_splits elim!: invoke_cases)

lemma publish_script_done: "publish_script key claim payload st = (Inr 1, st') \<Longrightarrow>
    redis_get st (admin_key key) = Inr (Some claim) \<and> redis_get st' key = Inr (Some payload) \<and> redis_get st' (admin_key key) = Inr None"
  by (auto simp: publish_script_def split: sum.splits if_splits)

lemma release_script_done: "release_script key claim st = (Inr 1, st') \<Longrightarrow>
    redis_get st (admin_key key) = Inr (Some claim) \<and> st' = redis_del (admin_key key) st"
  by (auto simp: release_script_def split: sum.splits if_splits)

lemma finish_claim_complete:
  assumes "finish_claim env key around claim t started r st = (out, st')" "publication_complete out"
  shows "redis_get st' (admin_key key) = Inr None"
  using assms publish_script_done release_script_done
  by (fastforce simp: finish_claim_def commit_def publish_def release_def dest!: claimed_done split: prod.splits sum.splits if_splits)

lemma begin_script_store:
  assumes "begin_script key claim st = (r, st')"
  shows "st' = st \<or> claim \<noteq> [] \<and> (\<exists>bytes. r = Inr [''ok'', bytes]) \<and> st' = redis_set (admin_key key) claim st"
  using assms by (auto simp: begin_script_def split: sum.splits option.splits if_splits)

lemma invoke_store: "snd (invoke d script st) = st \<or> snd (invoke d script st) = snd (script st)"
  by (auto simp: invoke_def split: delivery.splits prod.splits sum.splits)

definition opened :: "string \<Rightarrow> bool \<Rightarrow> string \<Rightarrow> delivery \<Rightarrow> redis \<Rightarrow> string list option \<times> redis" where
  "opened key admin uuid d st = invoke d (begin_script key (unwrap_or [] (if admin then Some uuid else None))) st"

lemma begin_snapshot_opened:
  "snd (begin_snapshot env key admin uuid d st) = snd (opened key admin uuid d st)"
  "fst (begin_snapshot env key admin uuid d st) = Inl (e, True) \<Longrightarrow> admin \<Longrightarrow>
     \<exists>result. fst (opened key admin uuid d st) = Some result \<and> result \<noteq> [] \<and> hd result = ''rejected''"
  "fst (begin_snapshot env key admin uuid d st) = Inr (s, claim) \<Longrightarrow>
     claim = (if admin then Some uuid else None) \<and>
     (\<exists>bytes. fst (opened key admin uuid d st) = Some [''ok'', bytes] \<and> parse_snapshot env bytes = Inr s)"
proof -
  obtain r st1 where o: "opened key admin uuid d st = (r, st1)" by (cases "opened key admin uuid d st")
  have unfold: "begin_snapshot env key admin uuid d st = (case r of
      None \<Rightarrow> (Inl (unavailable, \<not> admin), st1)
    | Some result \<Rightarrow> (if result \<noteq> [] \<and> hd result = ''rejected'' then Inl (unavailable, True)
           else case result of
             [tag, bytes] \<Rightarrow>
               if tag \<noteq> ''ok'' then Inl (unavailable, \<not> admin)
               else (case parse_snapshot env bytes of
                 Inl e \<Rightarrow> Inl (e, \<not> admin) | Inr s \<Rightarrow> Inr (s, if admin then Some uuid else None))
           | _ \<Rightarrow> Inl (unavailable, \<not> admin), st1))"
    using o by (simp add: begin_snapshot_def opened_def Let_def)
  show "snd (begin_snapshot env key admin uuid d st) = snd (opened key admin uuid d st)"
    unfolding unfold o by (simp split: option.splits)
  show "fst (begin_snapshot env key admin uuid d st) = Inl (e, True) \<Longrightarrow> admin \<Longrightarrow>
     \<exists>result. fst (opened key admin uuid d st) = Some result \<and> result \<noteq> [] \<and> hd result = ''rejected''"
    unfolding unfold o by (auto split: option.split_asm if_split_asm list.split_asm sum.split_asm)
  show "fst (begin_snapshot env key admin uuid d st) = Inr (s, claim) \<Longrightarrow> claim = (if admin then Some uuid else None) \<and>
     (\<exists>bytes. fst (opened key admin uuid d st) = Some [''ok'', bytes] \<and> parse_snapshot env bytes = Inr s)"
    unfolding unfold o by (auto split: option.split_asm if_split_asm list.split_asm sum.split_asm)
qed

lemma opened_store:
  "snd (opened key admin uuid d st) = st \<or> admin \<and> snd (opened key admin uuid d st) = redis_set (admin_key key) uuid st"
  "fst (opened key admin uuid d st) = Some result \<Longrightarrow> hd result = ''rejected'' \<Longrightarrow> result \<noteq> [] \<Longrightarrow> snd (opened key admin uuid d st) = st"
proof -
  define c where "c = unwrap_or [] (if admin then Some uuid else None)"
  obtain r st1 where b: "begin_script key c st = (r, st1)" by (cases "begin_script key c st")
  have o: "opened key admin uuid d st = invoke d (begin_script key c) st" by (simp add: opened_def c_def)
  have s: "st1 = st \<or> (\<exists>bytes. r = Inr [''ok'', bytes]) \<and> admin \<and> st1 = redis_set (admin_key key) uuid st"
    using begin_script_store [OF b] by (cases admin) (auto simp: c_def)
  show "snd (opened key admin uuid d st) = st \<or> admin \<and> snd (opened key admin uuid d st) = redis_set (admin_key key) uuid st"
    using s invoke_store [of d "begin_script key c" st] by (auto simp: o b)
  show "fst (opened key admin uuid d st) = Some result \<Longrightarrow> hd result = ''rejected'' \<Longrightarrow> result \<noteq> [] \<Longrightarrow> snd (opened key admin uuid d st) = st"
    using s by (auto simp: o invoke_def b split: delivery.split_asm sum.split_asm)
qed

lemma begin_tracked_store:
  assumes "begin_tracked env key admin uuid d st = (r, st')"
  shows "st' = st \<or> admin \<and> st' = redis_set (admin_key key) uuid st"
    and "r = Inl (e, True) \<Longrightarrow> st' = st"
    and "r = Inr (t, claim) \<Longrightarrow> claim = (if admin then Some uuid else None)"
proof -
  obtain b st1 where b: "begin_snapshot env key admin uuid d st = (b, st1)" by (cases "begin_snapshot env key admin uuid d st")
  have st': "st' = st1" using assms b by (auto simp: begin_tracked_def split: sum.splits)
  then show store: "st' = st \<or> admin \<and> st' = redis_set (admin_key key) uuid st"
    using opened_store(1) [of key admin uuid d st] begin_snapshot_opened(1) [of env key admin uuid d st] b by simp
  show "r = Inr (t, claim) \<Longrightarrow> claim = (if admin then Some uuid else None)"
    using assms b begin_snapshot_opened(3) [of env key admin uuid d st]
    by (auto simp: begin_tracked_def split: sum.splits)
  assume r: "r = Inl (e, True)"
  show "st' = st"
  proof (cases admin)
    case True
    then have "b = Inl (e, True)" using r assms b by (auto simp: begin_tracked_def split: sum.splits)
    then show ?thesis
      using begin_snapshot_opened(1,2) [of env key admin uuid d st] opened_store(2) [of key admin uuid d st] True b st' by force
  qed (use store in simp)
qed

lemma read_view_store: "read_view_of env key d st = (r, st') \<Longrightarrow> st' = st"
  using opened_store(1) [of key False "[]" d st] begin_snapshot_opened(1) [of env key False "[]" d st]
  by (auto simp: read_view_of_def split: prod.splits sum.splits)

lemma without_claim_store: "without_claim env fuel rq st w = (out, st', w') \<Longrightarrow> st' = st"
  by (auto simp: without_claim_def answered_at_once_def split: prod.splits option.splits)

lemma with_catalog_cases:
  assumes "with_catalog env key around fuel rq t claim st w = (Some out, st', w')"
  obtains (plain) "claim = None" "st' = meanwhile around st"
    | (claimed) c t' started r where "claim = Some c"
        "finish_claim env key around c t' started r (meanwhile around st) = (out, st')"
  using assms by (fastforce simp: with_catalog_def answered_at_once_def split: prod.splits option.splits)

text \<open>The ways a request can go.\<close>

lemma dispatch_catalog_cases:
  assumes run: "dispatch_catalog env (Some key) around fuel rq st w = (Some out, st', w')"
  obtains (untouched) "st' = st"
    | (refused) admin e no_claim where "begin_tracked (env\<lparr>shared_catalog := True\<rparr>) key admin (claim_uuid around) (on_open around) st
        = (Inl (e, no_claim), st')" "publication_complete out = no_claim"
        "is_admin (env\<lparr>shared_catalog := True\<rparr>) (rq_method rq) (rq_path rq) = Inr admin"
    | (opened) admin t claim st1 where "begin_tracked (env\<lparr>shared_catalog := True\<rparr>) key admin (claim_uuid around) (on_open around) st
        = (Inr (t, claim), st1)" "with_catalog (env\<lparr>shared_catalog := True\<rparr>) key around fuel rq t claim st1 w = (Some out, st', w')"
        "is_admin (env\<lparr>shared_catalog := True\<rparr>) (rq_method rq) (rq_path rq) = Inr admin"
proof -
  let ?env = "env\<lparr>shared_catalog := True\<rparr>"
  note unfolded = run [unfolded dispatch_catalog_def Let_def option.case]
  show thesis
  proof (cases "rq_path rq = ''/healthz'' \<and> rq_method rq = GET")
    case True
    then show thesis using unfolded without_claim_store untouched by (simp only: if_P)
  next
    case live: False
    show thesis
    proof (cases "is_admin ?env (rq_method rq) (rq_path rq)")
      case (Inl e)
      then show thesis using unfolded untouched by (simp only: if_not_P [OF live] sum.case answered_at_once_def) auto
    next
      case (Inr admin)
      show thesis
      proof (cases "uses_read_view ?env (rq_method rq) (rq_path rq)")
        case True
        obtain v st1 where v: "read_view_of ?env key (on_open around) st = (v, st1)" by (cases "read_view_of ?env key (on_open around) st")
        have "st1 = st" using v by (rule read_view_store)
        note rest = unfolded [unfolded if_not_P [OF live] Inr sum.case if_P [OF True] v prod.case]
        show thesis
        proof (cases v)
          case (Inl e)
          then show thesis using rest untouched \<open>st1 = st\<close> by (simp add: answered_at_once_def)
        next
          case (Inr view)
          then show thesis using rest untouched \<open>st1 = st\<close> without_claim_store by fastforce
        qed
      next
        case False
        obtain b st1 where b: "begin_tracked ?env key admin (claim_uuid around) (on_open around) st = (b, st1)"
          by (cases "begin_tracked ?env key admin (claim_uuid around) (on_open around) st")
        note rest = unfolded [unfolded if_not_P [OF live] Inr sum.case if_not_P [OF False] b prod.case]
        show thesis
        proof (cases b)
          case (Inl e)
          then show thesis using rest refused [of admin "fst e" "snd e"] b \<open>is_admin ?env _ _ = Inr admin\<close>
            by (cases e) (auto simp: answered_at_once_def)
        next
          case (Inr tc)
          then show thesis using rest opened [of admin "fst tc" "snd tc" st1] b \<open>is_admin ?env _ _ = Inr admin\<close>
            by (cases tc) simp
        qed
      qed
    qed
  qed
qed

text \<open>The three classes of requests do not overlap.\<close>

lemma aliases_one_segment: "decode_path_segments env ''/_aliases'' = Inr parts \<Longrightarrow> length parts = 1"
  by (auto simp: decode_path_segments_def trim_matches_def bindR_Inr_iff)

lemma read_view_not_admin: "uses_read_view env m path \<Longrightarrow> is_admin env m path = Inr False"
  using aliases_one_segment [of env] by (auto simp: uses_read_view_def is_admin_def split: sum.splits list.splits)

lemma admin_not_get: "is_admin env m path = Inr True \<Longrightarrow> m \<noteq> GET"
  by (auto simp: is_admin_def bindR_Inr_iff split: if_splits)

lemma dispatch_catalog_admin:
  assumes "is_admin (env\<lparr>shared_catalog := True\<rparr>) (rq_method rq) (rq_path rq) = Inr True"
  shows "dispatch_catalog env (Some key) around fuel rq st w =
    (case begin_tracked (env\<lparr>shared_catalog := True\<rparr>) key True (claim_uuid around) (on_open around) st of
       (Inl (e, no_claim), st') \<Rightarrow> answered_at_once (error_response e) no_claim st' w
     | (Inr (t, claim), st') \<Rightarrow> with_catalog (env\<lparr>shared_catalog := True\<rparr>) key around fuel rq t claim st' w)"
proof -
  have "\<not> (rq_path rq = ''/healthz'' \<and> rq_method rq = GET)" "\<not> uses_read_view (env\<lparr>shared_catalog := True\<rparr>) (rq_method rq) (rq_path rq)"
    using assms admin_not_get read_view_not_admin by fastforce+
  then show ?thesis by (simp only: dispatch_catalog_def Let_def option.case if_not_P assms sum.case not_False_eq_True if_True if_False simp_thms)
qed

lemma opened_snapshot:
  assumes "fst (opened key True uuid d st) = Some [''ok'', bytes]"
  shows "redis_get st key = Inr (Some bytes) \<and> snd (opened key True uuid d st) = (if uuid = [] then st else redis_set (admin_key key) uuid st)
    \<and> redis_get st (admin_key key) = Inr None"
proof -
  have "st (admin_key key) = None"
    using assms by (cases "st (admin_key key)")
      (auto simp: opened_def invoke_def begin_script_def redis_exists_def split: delivery.split_asm)
  then show ?thesis
    using assms
    by (auto simp: opened_def invoke_def begin_script_def redis_exists_def redis_get_def redis_strlen_def
        split: delivery.split_asm sum.split_asm option.split_asm if_split_asm prod.split_asm redis_value.split_asm)
qed

lemma begin_tracked_opened:
  assumes "begin_tracked env key True uuid d st = (Inr (t, claim), st')"
  shows "claim = Some uuid" "\<exists>bytes. redis_get st key = Inr (Some bytes) \<and> snapshot_db env bytes = Inr t"
proof -
  show "claim = Some uuid" using begin_tracked_store(3) [OF assms refl] by simp
  obtain s c where s: "fst (begin_snapshot env key True uuid d st) = Inr (s, c)" "into_db env s = Inr t"
    using assms by (auto simp: begin_tracked_def split: prod.split_asm sum.split_asm)
  show "\<exists>bytes. redis_get st key = Inr (Some bytes) \<and> snapshot_db env bytes = Inr t"
    using begin_snapshot_opened(3) [OF s(1)] opened_snapshot s(2) by (auto simp: snapshot_db_def)
qed

lemma snapshot_db_shared: "snapshot_db (env\<lparr>shared_catalog := b\<rparr>) = snapshot_db env"
proof -
  have fields: "parse_json (env\<lparr>shared_catalog := b\<rparr>) = parse_json env"
    "parse_snapshot_text (env\<lparr>shared_catalog := b\<rparr>) = parse_snapshot_text env" by simp_all
  show ?thesis
    unfolding fun_eq_iff snapshot_db_def parse_snapshot_def into_db_def view_row_def parse_strings_def fields by (intro allI refl)
qed

lemma finish_claim_published:
  assumes "finish_claim env key around claim t started r st = (out, st')" "publication_complete out"
    and "is_success (resp_status (co_response out))"
  shows "co_response out = r \<and> redis_get st' key = Inr (Some (snapshot_text env (snapshot_read t)))"
proof -
  have not: "\<not> is_success (resp_status (error_response e))" for e by (simp add: error_not_success)
  show ?thesis
    using assms publish_script_done
    by (fastforce simp: finish_claim_def commit_def publish_def dest!: claimed_done split: prod.splits sum.splits if_splits)
qed

lemma complete_publication_unclaimed:
  assumes run: "dispatch_catalog env (Some key) around fuel rq st w = (Some out, st', w')"
    and complete: "publication_complete out"
    and before: "unclaimed key (claim_uuid around) st"
    and others: "\<And>s. unclaimed key (claim_uuid around) s \<Longrightarrow> unclaimed key (claim_uuid around) (meanwhile around s)"
  shows "unclaimed key (claim_uuid around) st'"
  using run
proof (cases rule: dispatch_catalog_cases)
  case untouched
  then show ?thesis using before by simp
next
  case (refused admin e no_claim)
  then show ?thesis using complete before begin_tracked_store(2) [OF refused(1)] by simp
next
  case (opened admin t claim st1)
  from opened(2) show ?thesis
  proof (cases rule: with_catalog_cases)
    case plain
    have "\<not> admin" using begin_tracked_store(3) [OF opened(1) refl] plain by (auto split: if_splits)
    then have "st1 = st" using begin_tracked_store(1) [OF opened(1)] by simp
    then show ?thesis using plain others before by simp
  next
    case (claimed c t' started r)
    then show ?thesis using finish_claim_complete complete by (simp add: unclaimed_def)
  qed
qed

section \<open>Properties\<close>

text \<open>C33: When a request reports its publication as complete, its administrative claim is gone, whatever
  the connection lost: the claim was never acquired, or it was published or released under its own
  name. So a claim is left behind only by a request that says so.\<close>

theorem publication_complete_sound:
  assumes run: "dispatch_catalog env (Some key) around fuel rq st w = (Some out, st', w')"
    and complete: "publication_complete out"
    and before: "unclaimed key (claim_uuid around) st"
    and others: "\<And>s. unclaimed key (claim_uuid around) s \<Longrightarrow> unclaimed key (claim_uuid around) (meanwhile around s)"
  shows "unclaimed key (claim_uuid around) st'"
  using complete_publication_unclaimed [OF run complete before others] .

text \<open>C34: An administrative request that succeeds has published exactly its own effect: the catalog then
  holds the tables its handler left, started from the tables of the snapshot its claim read, and the
  response is the handler's.\<close>

theorem admin_success_published:
  assumes admin: "is_admin (env\<lparr>shared_catalog := True\<rparr>) (rq_method rq) (rq_path rq) = Inr True"
    and run: "dispatch_catalog env (Some key) around fuel rq st w = (Some out, st', w')"
    and complete: "publication_complete out" "is_success (resp_status (co_response out))"
  shows "\<exists>bytes t t' env'. redis_get st key = Inr (Some bytes) \<and> snapshot_db env bytes = Inr t
    \<and> env' = env\<lparr>shared_catalog := True, read_catalog := None, admin_tracked := True\<rparr>
    \<and> serve_local env' fuel rq t w = (Some (co_response out), t', w')
    \<and> redis_get st' key = Inr (Some (snapshot_text env (snapshot_read t')))"
proof -
  let ?env = "env\<lparr>shared_catalog := True\<rparr>"
  note unfolded = run [unfolded dispatch_catalog_admin [OF admin]]
  obtain b st1 where b: "begin_tracked ?env key True (claim_uuid around) (on_open around) st = (b, st1)"
    by (cases "begin_tracked ?env key True (claim_uuid around) (on_open around) st")
  have "\<not> is_success (resp_status (error_response e))" for e by (simp add: error_not_success)
  then obtain t claim where tc: "b = Inr (t, claim)"
    using unfolded complete(2) by (cases b) (auto simp: b answered_at_once_def)
  have claim: "claim = Some (claim_uuid around)" and "\<exists>bytes. redis_get st key = Inr (Some bytes) \<and> snapshot_db ?env bytes = Inr t"
    using begin_tracked_opened [OF b [unfolded tc]] by simp_all
  moreover have "snapshot_db ?env = snapshot_db env"
    by (rule snapshot_db_shared)
  moreover obtain r t' where s: "serve_local (?env\<lparr>read_catalog := None, admin_tracked := True\<rparr>) fuel rq t w = (Some r, t', w')"
      and f: "finish_claim ?env key around (claim_uuid around) t' (w_admin_started w') r (meanwhile around st1) = (out, st')"
    using unfolded by (auto simp: b tc claim with_catalog_def split: prod.splits option.splits)
  moreover have "co_response out = r" "redis_get st' key = Inr (Some (snapshot_text env (snapshot_read t')))"
    using finish_claim_published [OF f complete] by simp_all
  ultimately show ?thesis by auto
qed

section \<open>Concrete requests\<close>

definition shared_env :: env where
  "shared_env = sample_env\<lparr>parse_json := (\<lambda>text. if text = ''b'' then Inr move_alias else sample_parse text),
     parse_snapshot_text := (\<lambda>_. Some \<lparr>sn_indices = indices alias_tables, sn_aliases = aliases alias_tables\<rparr>),
     snapshot_text := (\<lambda>s. concat (map (\<lambda>(a, index). a @ '':'' @ index) (sn_aliases s)))\<rparr>"

definition quiet :: surroundings where
  "quiet = \<lparr>claim_uuid = ''c1'', on_open = Delivered, on_close = Delivered, meanwhile = id\<rparr>"

definition catalog_store :: redis where
  "catalog_store = [''cat'' \<mapsto> (RString ''{}'', None)]"

definition alias_post :: "string \<Rightarrow> http_request" where
  "alias_post body = \<lparr>rq_method = POST, rq_path = ''/_aliases'', rq_query = None, rq_body = body\<rparr>"

lemma alias_post_admin: "is_admin (shared_env\<lparr>shared_catalog := True\<rparr>) (rq_method (alias_post body)) (rq_path (alias_post body)) = Inr True"
  by (simp add: alias_post_def is_admin_def is_bulk_request_def ends_with_def decode_path_segments_def trim_matches_def
      shared_env_def sample_env_def)

lemma catalog_opens: "begin_tracked (shared_env\<lparr>shared_catalog := True\<rparr>) ''cat'' True ''c1'' Delivered catalog_store
    = (Inr (alias_tables, Some ''c1''), redis_set ''cat:admin'' ''c1'' catalog_store)"
  by (simp add: begin_tracked_def begin_snapshot_def invoke_def begin_script_def catalog_store_def redis_exists_def
      redis_get_def redis_strlen_def admin_key_def max_catalog_bytes_def shared_env_def parse_snapshot_def alias_tables_def
      into_db_def view_row_def parse_strings_def sample_parse_def List.map_filter_def)

lemma serve_alias_post:
  assumes "percent_utf8 env = Some" "length body \<le> request_body_limit (cfg env) POST ''/_aliases''" "json_body env body = Inr v"
  shows "serve_local env fuel (alias_post body) t w =
    (case alias_batch env v (w\<lparr>w_tables := t, w_admin_started := False\<rparr>) of
       (Inl e, w') \<Rightarrow> (Some (error_response e), w_tables w', w'\<lparr>w_tables := w_tables w\<rparr>)
     | (Inr r, w') \<Rightarrow> (Some r, w_tables w', w'\<lparr>w_tables := w_tables w\<rparr>))"
  using assms
  by (simp add: serve_local_def serve_def dispatch_inner_def alias_post_def is_bulk_request_def not_less
      ends_with_def msearch_request_def decode_path_segments_def trim_matches_def route_def fixed_routes_def
      answer_def respond_def doneE_def bindE_def tryE_def returnE_def split: sum.splits prod.splits)

definition serving_env :: env where
  "serving_env = shared_env\<lparr>shared_catalog := True, read_catalog := None, admin_tracked := True\<rparr>"

lemma serving_env_fields: "percent_utf8 serving_env = Some" "parse_json serving_env = parse_json shared_env"
  "cfg serving_env = sample_config" "shared_catalog serving_env" "read_catalog serving_env = None" "snapshot_text serving_env = snapshot_text shared_env"
  "hash_order serving_env = id"
  by (simp_all add: serving_env_def shared_env_def sample_env_def)

lemma refused_alias_post:
  "serve_local serving_env fuel (alias_post []) t w = (Some (error_response no_action), t, w\<lparr>w_admin_started := False\<rparr>)"
  by (simp add: serve_alias_post json_body_def trim_is_empty_def serving_env_fields alias_batch_def request_actions_def
      bindE_def liftE_def)

lemma served_alias_post:
  "serve_local serving_env fuel (alias_post ''b'') alias_tables w = (Some acknowledged, moved_tables, w\<lparr>w_admin_started := False\<rparr>)"
proof -
  let ?w = "w\<lparr>w_tables := alias_tables, w_admin_started := False\<rparr>"
  have "alias_batch serving_env move_alias ?w = (Inr acknowledged, ?w\<lparr>w_tables := moved_tables\<rparr>)"
    by (rule move_runs) (simp_all add: serving_env_fields shared_env_def validate_catalog_capacity_def
        validate_snapshot_capacity_def snapshot_read_def max_catalog_bytes_def moved_tables_def)
  moreover have "json_body serving_env ''b'' = Inr move_alias"
    by (simp add: json_body_def trim_is_empty_def is_whitespace_def serving_env_fields shared_env_def)
  moreover have "length ''b'' \<le> request_body_limit sample_config POST ''/_aliases''"
    by (simp add: request_body_limit_def sample_config_def is_bulk_request_def ends_with_def)
  ultimately show ?thesis by (simp add: serve_alias_post serving_env_fields)
qed

text \<open>A refused batch gives its claim back.\<close>

lemma publication_complete_sound_witness:
  "unclaimed ''cat'' ''c1'' (fst (snd (dispatch_catalog shared_env (Some ''cat'') quiet 1 (alias_post []) catalog_store empty_world)))"
proof -
  have "publication_complete (the (fst (dispatch_catalog shared_env (Some ''cat'') quiet 1 (alias_post []) catalog_store empty_world)))"
    "fst (dispatch_catalog shared_env (Some ''cat'') quiet 1 (alias_post []) catalog_store empty_world) \<noteq> None"
    by (simp_all add: dispatch_catalog_admin [OF alias_post_admin] quiet_def catalog_opens with_catalog_def
        refused_alias_post [unfolded serving_env_def] finish_claim_def release_def claimed_def invoke_def release_script_def
        admin_key_def error_not_success)
  moreover have "unclaimed ''cat'' (claim_uuid quiet) catalog_store"
    by (simp add: unclaimed_def catalog_store_def redis_get_def admin_key_def)
  ultimately show ?thesis
    using publication_complete_sound [of shared_env "''cat''" quiet 1 "alias_post []" catalog_store empty_world]
    by (cases "dispatch_catalog shared_env (Some ''cat'') quiet 1 (alias_post []) catalog_store empty_world")
      (auto simp: quiet_def)
qed

text \<open>A batch that moves an alias publishes the alias moved.\<close>

lemma moved_text: "snapshot_text shared_env (snapshot_read moved_tables) = ''products:boots''"
  by (simp add: shared_env_def snapshot_read_def moved_tables_def)

lemma admin_success_published_witness:
  "redis_get (fst (snd (dispatch_catalog shared_env (Some ''cat'') quiet 1 (alias_post ''b'') catalog_store empty_world))) ''cat''
    = Inr (Some ''products:boots'')"
proof -
  let ?run = "dispatch_catalog shared_env (Some ''cat'') quiet 1 (alias_post ''b'') catalog_store empty_world"
  obtain out st' w' where run: "?run = (Some out, st', w')" and "publication_complete out" "is_success (resp_status (co_response out))"
    by (simp add: dispatch_catalog_admin [OF alias_post_admin] quiet_def catalog_opens with_catalog_def
        served_alias_post [unfolded serving_env_def] finish_claim_def commit_def publish_def claimed_def invoke_def publish_script_def
        admin_key_def acknowledged_def es_ok_def es_response_def is_success_def moved_text max_catalog_bytes_def)
  from admin_success_published [OF alias_post_admin this]
  obtain bytes t t' where t: "redis_get catalog_store ''cat'' = Inr (Some bytes)" "snapshot_db shared_env bytes = Inr t"
      "serve_local serving_env 1 (alias_post ''b'') t empty_world = (Some (co_response out), t', w')"
      "redis_get st' ''cat'' = Inr (Some (snapshot_text shared_env (snapshot_read t')))"
    by (auto simp: serving_env_def)
  then have "t = alias_tables"
    by (auto simp: snapshot_db_def parse_snapshot_def into_db_def view_row_def parse_strings_def sample_parse_def
        shared_env_def alias_tables_def List.map_filter_def split: if_splits)
  then have "t' = moved_tables" using t(3) by (simp add: served_alias_post)
  then show ?thesis using t(4) unfolding run by (simp add: moved_text)
qed

end
