(* ===== verification/Epochs.thy ===== *)
theory Epochs
  imports Strings
begin

text \<open>
  The generation numbers of the read cache (\<open>src/read_cache.rs\<close>). They stay decimal strings, because
  Lua numbers are floating point: the script compares and increments them digit by digit. The
  lemmas give their values.
\<close>

text \<open>Lua's \<open><=\<close> on strings, in the C locale.\<close>

fun bytes_le :: "string \<Rightarrow> string \<Rightarrow> bool" where
  "bytes_le [] ys = True"
| "bytes_le (x # xs) [] = False"
| "bytes_le (x # xs) (y # ys) = (byte x < byte y \<or> x = y \<and> bytes_le xs ys)"

definition max_epoch :: string where
  "max_epoch = ''9223372036854775807''"

definition canonical :: "string \<Rightarrow> bool" where
  "canonical s \<longleftrightarrow> s = ''0'' \<or> (s \<noteq> [] \<and> hd s \<noteq> CHR ''0'' \<and> list_all is_digit s)"

definition decimal :: "string \<Rightarrow> bool" where
  "decimal s \<longleftrightarrow> canonical s \<and> (length s < 19 \<or> length s = 19 \<and> bytes_le s max_epoch)"

definition epoch_le :: "string \<Rightarrow> string \<Rightarrow> bool" where
  "epoch_le a b \<longleftrightarrow> length a < length b \<or> length a = length b \<and> bytes_le a b"

text \<open>The carry loop, from the last digit; the digits so far are in front.\<close>

fun carry_loop :: "string \<Rightarrow> nat \<Rightarrow> string \<Rightarrow> string \<times> nat" where
  "carry_loop [] carry chars = (chars, carry)"
| "carry_loop (c # cs) carry chars =
     (let digit = byte c - 48 + carry in
      if digit = 10 then carry_loop cs 1 (CHR ''0'' # chars)
      else carry_loop cs 0 (char_of (48 + digit) # chars))"

definition next_epoch :: "string \<Rightarrow> string" where
  "next_epoch e = (case carry_loop (rev e) 1 [] of (chars, carry) \<Rightarrow> if carry = 1 then CHR ''1'' # chars else chars)"

definition epoch_value :: "string \<Rightarrow> nat" where
  "epoch_value e = digits_value 0 e"

section \<open>Values\<close>

lemma epoch_value_show [simp]: "epoch_value (show_nat n) = n"
  by (simp add: epoch_value_def digits_value_show_nat)

lemma show_nat_inj [simp]: "show_nat m = show_nat n \<longleftrightarrow> m = n"
  by (metis epoch_value_show)

lemma show_nat_snoc: "n \<noteq> 0 \<Longrightarrow> d < 10 \<Longrightarrow> show_nat (n * 10 + d) = show_nat n @ [digit_char d]"
  by (subst show_nat.simps) simp

lemma digit_char_value: "is_digit c \<Longrightarrow> digit_char (digit_value c) = c"
  by (simp add: is_digit_def digit_char_def digit_value_def)

lemma digit_value_less: "is_digit c \<Longrightarrow> digit_value c < 10"
  unfolding is_digit_def digit_value_def by arith

lemma digit_char_zero: "d < 10 \<Longrightarrow> digit_char d = CHR ''0'' \<longleftrightarrow> d = 0"
  using of_char_eq_iff [of "digit_char d" "CHR ''0''", where ?'a = nat] by simp

lemma digits_value_positive: "s \<noteq> [] \<Longrightarrow> hd s \<noteq> CHR ''0'' \<Longrightarrow> list_all is_digit s \<Longrightarrow> 0 < digits_value 0 s"
proof (induction s rule: rev_induct)
  case (snoc c s)
  show ?case
  proof (cases s)
    case Nil
    with snoc have "is_digit c" "c \<noteq> CHR ''0''" by auto
    have "digit_value c \<noteq> 0"
    proof
      assume "digit_value c = 0"
      then have "c = digit_char 0" using digit_char_value [OF \<open>is_digit c\<close>] by simp
      then show False using \<open>c \<noteq> CHR ''0''\<close> digit_char_zero [of 0] by simp
    qed
    then show ?thesis by (simp add: Nil)
  next
    case (Cons a t)
    then have "0 < digits_value 0 s" using snoc by simp
    then show ?thesis by (simp add: digits_value_append)
  qed
qed simp

lemma show_nat_value: "canonical s \<Longrightarrow> show_nat (digits_value 0 s) = s"
proof (induction s rule: rev_induct)
  case (snoc c s)
  have c: "is_digit c" using snoc.prems by (auto simp: canonical_def is_digit_def)
  show ?case
  proof (cases s)
    case Nil
    then show ?thesis using c digit_value_less by (simp add: show_nat.simps [of "digit_value c"] digit_char_value)
  next
    case (Cons a t)
    then have s: "s \<noteq> []" "hd s \<noteq> CHR ''0''" "list_all is_digit s" using snoc.prems by (auto simp: canonical_def)
    then show ?thesis
      using snoc.IH digits_value_positive [OF s] c digit_value_less
      by (simp add: canonical_def digits_value_append show_nat_snoc digit_char_value)
  qed
qed (simp add: canonical_def)

lemma show_nat_zero: "show_nat n = ''0'' \<longleftrightarrow> n = 0"
  using show_nat_inj [of n 0] digit_char_zero [of 0] by (simp add: show_nat.simps [of 0])

lemma show_nat_canonical: "canonical (show_nat n)"
proof (induction n rule: show_nat.induct)
  case (1 n)
  show ?case
  proof (cases "n < 10")
    case True
    then show ?thesis by (auto simp: show_nat.simps [of n] canonical_def digit_char_zero)
  next
    case False
    then have "show_nat (n div 10) \<noteq> ''0''" by (simp add: show_nat_zero)
    then show ?thesis
      using False 1 show_nat_digits [of n] by (auto simp: show_nat.simps [of n] canonical_def)
  qed
qed

lemma canonical_iff: "canonical s \<longleftrightarrow> (\<exists>n. s = show_nat n)"
  using show_nat_value show_nat_canonical by metis

text \<open>The increment.\<close>

lemma rev_show_nat: "rev (show_nat n) = digit_char (n mod 10) # (if n < 10 then [] else rev (show_nat (n div 10)))"
  by (subst show_nat.simps) simp

lemma carry_step:
  assumes "d < 10"
  shows "carry_loop (digit_char d # cs) 0 acc = carry_loop cs 0 (digit_char d # acc)"
    "carry_loop (digit_char d # cs) 1 acc =
      (if d = 9 then carry_loop cs 1 (digit_char 0 # acc) else carry_loop cs 0 (digit_char (Suc d) # acc))"
  using assms digit_char_zero [of 0] by (auto simp: Let_def digit_char_def)

lemma carry_loop_0: "carry_loop (rev (show_nat n)) 0 acc = (show_nat n @ acc, 0)"
proof (induction n arbitrary: acc rule: show_nat.induct)
  case (1 n)
  show ?case
  proof (cases "n < 10")
    case True
    then show ?thesis
      by (subst rev_show_nat, subst carry_step) (simp_all add: show_nat.simps [of n])
  next
    case False
    then show ?thesis
      by (subst rev_show_nat, subst carry_step) (simp_all add: 1 show_nat.simps [of n])
  qed
qed

lemma carry_loop_1:
  "(case carry_loop (rev (show_nat n)) 1 acc of (chars, carry) \<Rightarrow> if carry = 1 then CHR ''1'' # chars else chars)
     = show_nat (Suc n) @ acc"
proof (induction n arbitrary: acc rule: show_nat.induct)
  case (1 n)
  have one: "CHR ''1'' = digit_char 1" using of_char_eq_iff [of "digit_char 1" "CHR ''1''", where ?'a = nat] by simp
  show ?case
  proof (cases "n < 10")
    case True
    then have "n = 9 \<or> n < 9" by linarith
    with True show ?thesis
      by (subst rev_show_nat, subst carry_step) (auto simp: show_nat.simps [of "Suc n"] show_nat.simps [of 10] show_nat.simps [of "Suc 0"] one)
  next
    case big: False
    show ?thesis
    proof (cases "n mod 10 = 9")
      case True
      then have "Suc n mod 10 = 0" "Suc n div 10 = Suc (n div 10)" by (simp_all add: mod_Suc div_Suc)
      then show ?thesis
        using big True 1 [OF big, of "digit_char 0 # acc"]
        by (subst rev_show_nat, subst carry_step) (simp_all add: show_nat.simps [of "Suc n"])
    next
      case False
      then have "Suc n mod 10 = Suc (n mod 10)" "Suc n div 10 = n div 10" by (simp_all add: mod_Suc div_Suc)
      then show ?thesis
        using big False
        by (subst rev_show_nat, subst carry_step) (simp_all add: show_nat.simps [of "Suc n"] carry_loop_0)
    qed
  qed
qed

lemma next_epoch_show: "next_epoch (show_nat n) = show_nat (Suc n)"
  using carry_loop_1 [of n "[]"] by (simp add: next_epoch_def)

text \<open>The comparison.\<close>

lemma digits_value_bound: "list_all is_digit s \<Longrightarrow> digits_value 0 s < 10 ^ length s"
proof (induction s rule: rev_induct)
  case (snoc c s)
  then show ?case using digit_value_less [of c] by (simp add: digits_value_append)
qed simp

lemma digits_value_shift: "digits_value acc s = acc * 10 ^ length s + digits_value 0 s"
proof (induction s arbitrary: acc)
  case (Cons c s)
  show ?case using Cons [of "acc * 10 + digit_value c"] Cons [of "digit_value c"] by (simp add: algebra_simps)
qed simp

lemma place_less:
  fixes p :: nat
  assumes "a < p" "d < d'"
  shows "d * p + a < d' * p + b"
proof -
  have "d * p + a < Suc d * p" using assms(1) by simp
  also have "\<dots> \<le> d' * p" using assms(2) by (intro mult_le_mono1) simp
  finally show ?thesis by simp
qed

lemma bytes_le_value:
  "length a = length b \<Longrightarrow> list_all is_digit a \<Longrightarrow> list_all is_digit b \<Longrightarrow> bytes_le a b \<longleftrightarrow> digits_value 0 a \<le> digits_value 0 b"
proof (induction a b rule: list_induct2)
  case (Cons x xs y ys)
  define p :: nat where "p = 10 ^ length ys"
  have v: "digits_value 0 (x # xs) = digit_value x * p + digits_value 0 xs"
    "digits_value 0 (y # ys) = digit_value y * p + digits_value 0 ys"
    using digits_value_shift [of "digit_value x" xs] digits_value_shift [of "digit_value y" ys] Cons.hyps by (simp_all add: p_def)
  have small: "digits_value 0 xs < p" "digits_value 0 ys < p"
    using digits_value_bound [of xs] digits_value_bound [of ys] Cons.prems Cons.hyps by (simp_all add: p_def)
  have digits: "is_digit x" "is_digit y" "list_all is_digit xs" "list_all is_digit ys" using Cons.prems by simp_all
  then have bytes: "byte x = 48 + digit_value x" "byte y = 48 + digit_value y"
    unfolding digit_value_def is_digit_def by simp_all
  consider "digit_value x < digit_value y" | "digit_value x = digit_value y" | "digit_value y < digit_value x" by linarith
  then show ?case
  proof cases
    case 1
    then show ?thesis using place_less [OF small(1) 1, of "digits_value 0 ys"] bytes unfolding v by simp
  next
    case 2
    then have "x = y" using digits digit_char_value by metis
    then show ?thesis unfolding v using Cons.IH [OF digits(3,4)] by simp
  next
    case 3
    then have "x \<noteq> y" by auto
    then show ?thesis using place_less [OF small(2) 3, of "digits_value 0 xs"] 3 bytes unfolding v by simp
  qed
qed simp

lemma length_show_mono: "length (show_nat m) < length (show_nat n) \<Longrightarrow> m < n"
proof -
  assume l: "length (show_nat m) < length (show_nat n)"
  obtain c s where s: "show_nat n = c # s" by (cases "show_nat n") auto
  have "n \<noteq> 0" using l show_nat_zero [of n] show_nat_nonempty [of m] by (cases "show_nat m") auto
  then have "c \<noteq> CHR ''0''" using show_nat_canonical [of n] show_nat_zero [of n] by (auto simp: canonical_def s)
  then have "1 \<le> digit_value c"
    using digits_value_positive [of "[c]"] show_nat_digits [of n] by (simp add: s)
  then have "10 ^ length s \<le> digit_value c * 10 ^ length s" by simp
  also have "\<dots> \<le> n"
    using digits_value_show_nat [of n] digits_value_shift [of "digit_value c" s] by (simp add: s)
  finally have "10 ^ length s \<le> n" .
  moreover have "m < 10 ^ length (show_nat m)"
    using digits_value_bound [OF show_nat_digits [of m]] by (simp add: digits_value_show_nat)
  moreover have "(10 :: nat) ^ length (show_nat m) \<le> 10 ^ length s"
    using l by (intro power_increasing) (auto simp: s)
  ultimately show "m < n" by linarith
qed

lemma epoch_le_show: "epoch_le (show_nat m) (show_nat n) \<longleftrightarrow> m \<le> n"
proof (cases "length (show_nat m) = length (show_nat n)")
  case True
  then show ?thesis
    using bytes_le_value [OF True show_nat_digits show_nat_digits] by (simp add: epoch_le_def digits_value_show_nat)
next
  case False
  then show ?thesis
    using length_show_mono [of m n] length_show_mono [of n m] unfolding epoch_le_def by linarith
qed

lemma max_epoch_show: "max_epoch = show_nat (2 ^ 63 - 1)"
proof -
  have "canonical max_epoch" by (simp add: canonical_def max_epoch_def is_digit_def)
  moreover have "digits_value 0 max_epoch = 2 ^ 63 - 1" by (simp add: max_epoch_def digit_value_def)
  ultimately show ?thesis using show_nat_value by metis
qed

text \<open>A generation is a decimal of a 63-bit number.\<close>

lemma decimal_iff: "decimal s \<longleftrightarrow> (\<exists>n < 2 ^ 63. s = show_nat n)"
proof -
  have "length max_epoch = 19" by (simp add: max_epoch_def)
  then have "decimal s \<longleftrightarrow> canonical s \<and> epoch_le s max_epoch"
    by (auto simp: decimal_def epoch_le_def)
  then show ?thesis
    unfolding canonical_iff max_epoch_show by (auto simp: epoch_le_show)
qed

lemma decimal_show: "decimal (show_nat n) \<longleftrightarrow> n < 2 ^ 63"
  by (simp add: decimal_iff)

text \<open>C38: A generation that is not the last one is followed by its successor: the digit-by-digit
  increment is exact, never wraps, and yields a generation again, in the canonical form that the
  validation demands; the comparison of generations is that of the numbers.\<close>

theorem next_epoch_exact:
  assumes "decimal e" "e \<noteq> max_epoch"
  shows "decimal (next_epoch e) \<and> epoch_value (next_epoch e) = Suc (epoch_value e)
    \<and> (\<forall>e'. decimal e' \<longrightarrow> (epoch_le e e' \<longleftrightarrow> epoch_value e \<le> epoch_value e'))"
proof -
  obtain n where n: "n < 2 ^ 63" "e = show_nat n" using assms(1) decimal_iff by blast
  moreover have "n \<noteq> 2 ^ 63 - 1" using assms(2) n max_epoch_show by auto
  ultimately have "decimal (next_epoch e)" "epoch_value (next_epoch e) = Suc (epoch_value e)"
    by (simp_all add: next_epoch_show decimal_show)
  moreover have "decimal e' \<Longrightarrow> epoch_le e e' \<longleftrightarrow> epoch_value e \<le> epoch_value e'" for e'
    using n by (auto simp: decimal_iff epoch_le_show)
  ultimately show ?thesis by blast
qed

lemma next_epoch_exact_witness: "decimal (next_epoch ''199'') \<and> epoch_value (next_epoch ''199'') = 200 \<and> epoch_le ''199'' ''1000''"
proof -
  have d: "decimal ''199''" "''199'' \<noteq> max_epoch" "decimal ''1000''"
    by (simp_all add: decimal_def canonical_def is_digit_def max_epoch_def)
  show ?thesis
    using next_epoch_exact [OF d(1,2)] d(3) by (simp add: epoch_value_def digit_value_def)
qed

end
