(* ===== verification/ReadCache.thy ===== *)
theory ReadCache
  imports SharedCatalog Epochs
begin

text \<open>
  Coordination of the shared read cache (\<open>src/read_cache.rs\<close>). A control hash holds the current
  generation (\<open>epoch\<close>) and a token for every writer that is not known to be done; entries carry the
  generation they were filled in. The Lua scripts are functions on the store of \<open>Redis\<close>, each under
  the common validation; the client operations run them over a delivery. \<open>String::from_utf8\<close> only
  meets the ASCII fields the scripts return and is left out.
\<close>

section \<open>Clients\<close>

datatype cache_error = Configuration | Unavailable

record read_cache =
  rc_catalog :: string
  rc_control :: string
  rc_admin :: string
  rc_entries :: string
  rc_deployment :: string
  rc_semantic :: string
  rc_ttl :: nat
  rc_max :: nat

record read_ticket =
  tk_epoch :: string
  tk_deployment :: string
  tk_semantic :: string

record writer_token =
  wt_id :: string
  wt_deployment :: string
  wt_epoch :: string

record cache_lookup =
  lu_ticket :: "read_ticket option"
  lu_response :: "string option"
  lu_catalog :: "string option"

record control_status =
  cs_deployment :: string
  cs_epoch :: string
  cs_state :: string
  cs_tokens :: "string list"

text \<open>Every part of a hashed key is preceded by its length in eight bytes.\<close>

fun be_bytes :: "nat \<Rightarrow> nat \<Rightarrow> string" where
  "be_bytes 0 n = []"
| "be_bytes (Suc w) n = be_bytes w (n div 256) @ [char_of (n mod 256)]"

definition framed :: "string list \<Rightarrow> string" where
  "framed parts = concat (map (\<lambda>part. be_bytes 8 (length part) @ part) parts)"

definition cache_hash :: "(string \<Rightarrow> string) \<Rightarrow> string list \<Rightarrow> string" where
  "cache_hash hasher parts = concat (map (\<lambda>b. hex_padded 2 (byte b)) (hasher (framed parts)))"

definition valid_digest :: "string \<Rightarrow> bool" where
  "valid_digest key \<longleftrightarrow> length key = 64 \<and> list_all is_lower_hex key"

definition valid_identity :: "string \<Rightarrow> bool" where
  "valid_identity s \<longleftrightarrow> s \<noteq> [] \<and> length s \<le> 128
     \<and> list_all (\<lambda>c. is_ascii_alphanumeric c \<or> c = CHR ''-'' \<or> c = CHR ''_'') s"

definition catalog_has_tag :: "string \<Rightarrow> bool" where
  "catalog_has_tag key = (case split_once CHR ''{'' key of
     Some (_, rest) \<Rightarrow> (case split_once CHR ''}'' rest of Some (tag, _) \<Rightarrow> tag \<noteq> [] | None \<Rightarrow> False)
   | None \<Rightarrow> False)"

definition max_ttl_seconds :: nat where "max_ttl_seconds = 3600"

definition max_entry_bytes :: nat where "max_entry_bytes = 16 * 1024 * 1024"

text \<open>The Redis URL and its server are parameters: whether a client opens, whether it connects.\<close>

definition connect :: "(string \<Rightarrow> string) \<Rightarrow> (string \<Rightarrow> bool) \<Rightarrow> bool \<Rightarrow> string \<Rightarrow> string \<Rightarrow> string \<Rightarrow> string \<Rightarrow> nat \<Rightarrow> nat \<Rightarrow>
    cache_error + read_cache" where
  "connect hasher opens connects url catalog_key deployment semantic_identity ttl limit =
     (if \<not> catalog_has_tag catalog_key \<or> \<not> valid_identity deployment \<or> semantic_identity = []
         \<or> \<not> (1 \<le> ttl \<and> ttl \<le> max_ttl_seconds) \<or> \<not> (1 \<le> limit \<and> limit \<le> max_entry_bytes)
      then Inl Configuration
      else if \<not> opens url then Inl Configuration
      else if \<not> connects then Inl Unavailable
      else let semantic = cache_hash hasher [semantic_identity] in
        Inr \<lparr>rc_catalog = catalog_key, rc_control = catalog_key @ '':read-cache:control'',
          rc_admin = catalog_key @ '':admin'',
          rc_entries = catalog_key @ '':read-cache:entry:'' @ deployment @ '':'' @ semantic @ '':'',
          rc_deployment = deployment, rc_semantic = semantic, rc_ttl = ttl, rc_max = limit\<rparr>)"

definition request_key :: "(string \<Rightarrow> string) \<Rightarrow> read_cache \<Rightarrow> string \<Rightarrow> string \<Rightarrow> string \<Rightarrow> string" where
  "request_key hasher rc m uri body = cache_hash hasher [rc_semantic rc, m, uri, body]"

section \<open>The scripts\<close>

definition schema :: string where "schema = ''1''"

definition standard_field :: "string \<Rightarrow> bool" where
  "standard_field k \<longleftrightarrow> k = ''schema'' \<or> k = ''deployment'' \<or> k = ''epoch'' \<or> k = ''state''"

text \<open>What every script checks first; it yields the generation, the state and the number of fields.\<close>

definition validate :: "read_cache \<Rightarrow> bool \<Rightarrow> redis \<Rightarrow> (string \<times> string \<times> nat) option" where
  "validate rc allow_maintenance st =
     (let c = rc_control rc; k = rc_catalog rc in
      if redis_type st c \<noteq> ''hash'' \<or> pttl st c \<noteq> - 1 then None
      else if redis_type st k \<noteq> ''string'' \<or> pttl st k \<noteq> - 1 then None
      else case (hash_get st c ''epoch'', hash_get st c ''state'') of
        (Some epoch, Some state) \<Rightarrow>
          if hash_get st c ''schema'' \<noteq> Some schema \<or> hash_get st c ''deployment'' \<noteq> Some (rc_deployment rc)
             \<or> \<not> decimal epoch \<or> (state \<noteq> ''active'' \<and> \<not> (allow_maintenance \<and> state = ''maintenance''))
          then None
          else if length (hash_fields st c) < 4 then None
          else Some (epoch, state, length (hash_fields st c))
      | _ \<Rightarrow> None)"

definition writer_field :: "string \<Rightarrow> string" where
  "writer_field token = ''writer:'' @ token"

definition writer_id :: "string \<Rightarrow> string option" where
  "writer_id k = (case strip_prefix ''writer:'' k of
     Some ident \<Rightarrow> if ident \<noteq> [] \<and> list_all is_lower_hex ident then Some ident else None
   | None \<Rightarrow> None)"

fun collect_tokens :: "string \<Rightarrow> (string \<times> string) list \<Rightarrow> string list option" where
  "collect_tokens epoch [] = Some []"
| "collect_tokens epoch ((k, v) # fs) =
     (if standard_field k then collect_tokens epoch fs
      else case writer_id k of
        None \<Rightarrow> None
      | Some ident \<Rightarrow>
          if length ident \<noteq> 32 \<or> \<not> decimal v \<or> \<not> epoch_le v epoch then None
          else map_option (Cons ident) (collect_tokens epoch fs))"

definition token_fields :: "read_cache \<Rightarrow> string \<Rightarrow> nat \<Rightarrow> redis \<Rightarrow> string list option" where
  "token_fields rc epoch held st =
     (if held = 4 then Some [] else collect_tokens epoch (hash_fields st (rc_control rc)))"

definition validated :: "read_cache \<Rightarrow> bool \<Rightarrow> (string \<Rightarrow> string \<Rightarrow> nat \<Rightarrow> string list script) \<Rightarrow> string list script" where
  "validated rc allow_maintenance operation st = (case validate rc allow_maintenance st of
     None \<Rightarrow> (Inl ScriptError, st)
   | Some (epoch, state, held) \<Rightarrow> operation epoch state held st)"

text \<open>The header that binds an entry to a deployment, a configuration and a generation.\<close>

definition entry_header :: "read_cache \<Rightarrow> string \<Rightarrow> string" where
  "entry_header rc epoch = rc_deployment rc @ [CHR 0x0A] @ rc_semantic rc @ [CHR 0x0A] @ epoch @ [CHR 0x0A]"

definition entry_key :: "read_cache \<Rightarrow> string \<Rightarrow> string" where
  "entry_key rc digest = rc_entries rc @ digest"

text \<open>The response of an entry that may be served in a generation.\<close>

definition entry_response :: "read_cache \<Rightarrow> string \<Rightarrow> string \<Rightarrow> redis \<Rightarrow> string option" where
  "entry_response rc digest epoch st =
     (let key = entry_key rc digest; header = entry_header rc epoch in
      if redis_type st key \<noteq> ''string'' \<or> pttl st key < 0 then None
      else case redis_get st key of
        Inr (Some v) \<Rightarrow>
          if rc_max rc + length header < length v then None
          else (case strip_prefix header v of
            None \<Rightarrow> None
          | Some response \<Rightarrow> if response = [] then None else Some response)
      | _ \<Rightarrow> None)"

definition lookup_script :: "read_cache \<Rightarrow> string \<Rightarrow> string list script" where
  "lookup_script rc digest = validated rc False (\<lambda>epoch state held st.
     if held \<noteq> 4 \<or> redis_exists st (rc_admin rc) then (Inr [''busy''], st)
     else case entry_response rc digest epoch st of
       Some response \<Rightarrow> (Inr [''hit'', epoch, response], st)
     | None \<Rightarrow>
         (case redis_get st (rc_catalog rc) of
            Inr (Some catalog) \<Rightarrow>
              if max_catalog_bytes < length catalog then (Inl ScriptError, st)
              else (Inr [''miss'', epoch, catalog], st)
          | _ \<Rightarrow> (Inl ScriptError, st)))"

definition fill_script :: "read_cache \<Rightarrow> string \<Rightarrow> string \<Rightarrow> string \<Rightarrow> string list script" where
  "fill_script rc digest ticket response = validated rc False (\<lambda>epoch state held st.
     if held \<noteq> 4 \<or> redis_exists st (rc_admin rc) \<or> epoch \<noteq> ticket then (Inr [''skip''], st)
     else if response = [] \<or> rc_max rc < length response then (Inr [''skip''], st)
     else (Inr [''ok''], redis_set_ex (entry_key rc digest) (entry_header rc epoch @ response) (rc_ttl rc) st))"

definition admit_script :: "read_cache \<Rightarrow> string \<Rightarrow> string \<Rightarrow> string list script" where
  "admit_script rc token state' = validated rc False (\<lambda>epoch state held st.
     if redis_exists st (rc_admin rc) \<or> token_fields rc epoch held st = None then (Inl ScriptError, st)
     else if epoch = max_epoch then (Inl ScriptError, st)
     else if length token \<noteq> 32 \<or> \<not> list_all is_lower_hex token then (Inl ScriptError, st)
     else if hash_get st (rc_control rc) (writer_field token) \<noteq> None then (Inl ScriptError, st)
     else if state' \<noteq> ''active'' \<and> state' \<noteq> ''maintenance'' then (Inl ScriptError, st)
     else let epoch' = next_epoch epoch in
       (Inr [''ok'', epoch'],
        hash_set (rc_control rc) [(''epoch'', epoch'), (writer_field token, epoch'), (''state'', state')] st))"

definition release_writer_script :: "read_cache \<Rightarrow> string \<Rightarrow> string \<Rightarrow> string list script" where
  "release_writer_script rc token admitted = validated rc True (\<lambda>epoch state held st.
     if token_fields rc epoch held st = None then (Inl ScriptError, st)
     else if hash_get st (rc_control rc) (writer_field token) \<noteq> Some admitted then (Inl ScriptError, st)
     else (Inr [''ok''], hash_del (rc_control rc) (writer_field token) st))"

definition status_script :: "read_cache \<Rightarrow> string list script" where
  "status_script rc = validated rc True (\<lambda>epoch state held st.
     case token_fields rc epoch held st of
       None \<Rightarrow> (Inl ScriptError, st)
     | Some tokens \<Rightarrow> (Inr ([''ok'', epoch, state] @ tokens), st))"

section \<open>The client operations\<close>

definition run_script :: "string option \<Rightarrow> delivery \<Rightarrow> string list script \<Rightarrow> redis \<Rightarrow> (cache_error + string list) \<times> redis" where
  "run_script key d script st =
     (if is_some_and key (\<lambda>k. \<not> valid_digest k) then (Inl Configuration, st)
      else case invoke d script st of
        (None, st') \<Rightarrow> (Inl Unavailable, st') | (Some r, st') \<Rightarrow> (Inr r, st'))"

definition parse_lookup :: "read_cache \<Rightarrow> string list \<Rightarrow> cache_error + cache_lookup" where
  "parse_lookup rc result = (case result of
     [tag] \<Rightarrow> if tag = ''busy'' then Inr \<lparr>lu_ticket = None, lu_response = None, lu_catalog = None\<rparr> else Inl Unavailable
   | [tag, epoch, v] \<Rightarrow>
       if tag = ''miss'' \<or> tag = ''hit''
       then Inr \<lparr>lu_ticket = Some \<lparr>tk_epoch = epoch, tk_deployment = rc_deployment rc, tk_semantic = rc_semantic rc\<rparr>,
         lu_response = (if tag = ''hit'' then Some v else None), lu_catalog = (if tag = ''miss'' then Some v else None)\<rparr>
       else Inl Unavailable
   | _ \<Rightarrow> Inl Unavailable)"

definition lookup :: "read_cache \<Rightarrow> string \<Rightarrow> delivery \<Rightarrow> redis \<Rightarrow> (cache_error + cache_lookup) \<times> redis" where
  "lookup rc digest d st = (case run_script (Some digest) d (lookup_script rc digest) st of
     (Inl e, st') \<Rightarrow> (Inl e, st') | (Inr result, st') \<Rightarrow> (parse_lookup rc result, st'))"

definition fill :: "read_cache \<Rightarrow> read_ticket \<Rightarrow> string \<Rightarrow> string \<Rightarrow> delivery \<Rightarrow> redis \<Rightarrow> (cache_error + bool) \<times> redis" where
  "fill rc ticket digest response d st =
     (if tk_deployment ticket \<noteq> rc_deployment rc \<or> tk_semantic ticket \<noteq> rc_semantic rc then (Inl Configuration, st)
      else if response = [] \<or> rc_max rc < length response then (Inr False, st)
      else case run_script (Some digest) d (fill_script rc digest (tk_epoch ticket) response) st of
        (Inl e, st') \<Rightarrow> (Inl e, st')
      | (Inr result, st') \<Rightarrow>
          (if result = [''ok''] then Inr True else if result = [''skip''] then Inr False else Inl Unavailable, st'))"

text \<open>The token is a fresh uuid.\<close>

definition admit_state :: "read_cache \<Rightarrow> string \<Rightarrow> string \<Rightarrow> delivery \<Rightarrow> redis \<Rightarrow> (cache_error + writer_token) \<times> redis" where
  "admit_state rc state uuid d st = (case run_script None d (admit_script rc uuid state) st of
     (Inl e, st') \<Rightarrow> (Inl e, st')
   | (Inr result, st') \<Rightarrow>
       (case result of
          [tag, epoch] \<Rightarrow>
            if tag = ''ok'' then Inr \<lparr>wt_id = uuid, wt_deployment = rc_deployment rc, wt_epoch = epoch\<rparr> else Inl Unavailable
        | _ \<Rightarrow> Inl Unavailable, st'))"

definition admit_writer :: "read_cache \<Rightarrow> string \<Rightarrow> delivery \<Rightarrow> redis \<Rightarrow> (cache_error + writer_token) \<times> redis" where
  "admit_writer rc = admit_state rc ''active''"

definition release_writer :: "read_cache \<Rightarrow> writer_token \<Rightarrow> delivery \<Rightarrow> redis \<Rightarrow> (cache_error + unit) \<times> redis" where
  "release_writer rc token d st =
     (if wt_deployment token \<noteq> rc_deployment rc then (Inl Configuration, st)
      else case run_script None d (release_writer_script rc (wt_id token) (wt_epoch token)) st of
        (Inl e, st') \<Rightarrow> (Inl e, st')
      | (Inr result, st') \<Rightarrow> (if result = [''ok''] then Inr () else Inl Unavailable, st'))"

definition status :: "read_cache \<Rightarrow> delivery \<Rightarrow> redis \<Rightarrow> (cache_error + control_status) \<times> redis" where
  "status rc d st = (case run_script None d (status_script rc) st of
     (Inl e, st') \<Rightarrow> (Inl e, st')
   | (Inr result, st') \<Rightarrow>
       (case result of
          tag # epoch # state # tokens \<Rightarrow>
            if tag = ''ok''
            then Inr \<lparr>cs_deployment = rc_deployment rc, cs_epoch = epoch, cs_state = state, cs_tokens = tokens\<rparr>
            else Inl Unavailable
        | _ \<Rightarrow> Inl Unavailable, st'))"

end
