(* ===== verification/CacheCoherence.thy ===== *)
theory CacheCoherence
  imports ReadCache
begin

text \<open>
  Why a hit of the read cache (\<open>src/read_cache.rs\<close>) is never stale. The abstract view of the store is a
  generation, the set of tokens of writers not known to be done, and the entries with the generation
  they were filled in; the laws of the client operations in that view are an interface, and the
  coherence of the cache is proved over it. Readers may take their observations of the data at
  different moments, writers may write at any moment until they release their token, and messages
  get lost.
\<close>

section \<open>The interface\<close>

text \<open>Readers hold a ticket and what they have observed so far; \<open>handler\<close> says which responses may be made
  of it.\<close>

definition coherent :: "('k \<Rightarrow> 'd list \<Rightarrow> 'v \<Rightarrow> bool) \<Rightarrow> nat \<Rightarrow> 't set \<Rightarrow> ('k \<Rightarrow> nat \<Rightarrow> 'v \<Rightarrow> bool) \<Rightarrow>
    'd \<Rightarrow> ('k \<times> nat \<times> 'd list) set \<Rightarrow> 't set \<Rightarrow> bool" where
  "coherent handler generation fence entry data readers writers \<longleftrightarrow>
     writers \<subseteq> fence
     \<and> (\<forall>k n v. entry k n v \<longrightarrow> n \<le> generation)
     \<and> (\<forall>k n seen. (k, n, seen) \<in> readers \<longrightarrow> n \<le> generation)
     \<and> (\<forall>k v. entry k generation v \<longrightarrow> fence = {} \<and> (\<exists>m. handler k (replicate m data) v))
     \<and> (\<forall>k seen. (k, generation, seen) \<in> readers \<longrightarrow> fence = {} \<and> seen = replicate (length seen) data)"

lemma coherentI:
  assumes "writers \<subseteq> fence" "\<And>k n v. entry k n v \<Longrightarrow> n \<le> generation" "\<And>k n seen. (k, n, seen) \<in> readers \<Longrightarrow> n \<le> generation"
    and "\<And>k v. entry k generation v \<Longrightarrow> fence = {} \<and> (\<exists>m. handler k (replicate m data) v)"
    and "\<And>k seen. (k, generation, seen) \<in> readers \<Longrightarrow> fence = {} \<and> seen = replicate (length seen) data"
  shows "coherent handler generation fence entry data readers writers"
  using assms unfolding coherent_def by metis

lemma coherentD:
  assumes "coherent handler generation fence entry data readers writers"
  shows "writers \<subseteq> fence" "entry k n v \<Longrightarrow> n \<le> generation" "(k, n, seen) \<in> readers \<Longrightarrow> n \<le> generation"
    and "entry k generation v \<Longrightarrow> fence = {}" "entry k generation v \<Longrightarrow> \<exists>m. handler k (replicate m data) v"
    and "(k, generation, seen) \<in> readers \<Longrightarrow> fence = {}"
    and "(k, generation, seen) \<in> readers \<Longrightarrow> seen = replicate (length seen) data"
  using assms unfolding coherent_def by blast+

locale generations =
  fixes ok :: "'s \<Rightarrow> bool"
    and generation :: "'s \<Rightarrow> nat"
    and fence :: "'s \<Rightarrow> 't set"
    and entry :: "'s \<Rightarrow> 'k \<Rightarrow> nat \<Rightarrow> 'v \<Rightarrow> bool"
    and hits :: "'k \<Rightarrow> 's \<Rightarrow> 'v \<Rightarrow> bool"
    and tickets :: "'k \<Rightarrow> 's \<Rightarrow> nat \<Rightarrow> bool"
    and fills :: "nat \<Rightarrow> 'k \<Rightarrow> 'v \<Rightarrow> 's \<Rightarrow> 's \<Rightarrow> bool"
    and admits :: "'t option \<Rightarrow> 's \<Rightarrow> 's \<Rightarrow> bool"
    and releases :: "'t \<Rightarrow> 's \<Rightarrow> 's \<Rightarrow> bool"
    and other :: "'s \<Rightarrow> 's \<Rightarrow> bool"
  assumes hit: "\<lbrakk>ok s; hits k s v\<rbrakk> \<Longrightarrow> fence s = {} \<and> entry s k (generation s) v"
    and ticket: "\<lbrakk>ok s; tickets k s n\<rbrakk> \<Longrightarrow> fence s = {} \<and> n = generation s"
    and fills: "\<lbrakk>ok s; fills n k v s s'\<rbrakk> \<Longrightarrow> ok s' \<and> generation s' = generation s \<and> fence s' = fence s
      \<and> (\<forall>k' n' v'. entry s' k' n' v' \<longrightarrow> entry s k' n' v' \<or> k' = k \<and> n' = n \<and> v' = v \<and> n = generation s \<and> fence s = {})"
    and admits: "\<lbrakk>ok s; admits claim s s'\<rbrakk> \<Longrightarrow> ok s' \<and> entry s' = entry s
      \<and> (claim = None \<and> generation s' = generation s \<and> fence s' = fence s
         \<or> generation s' = Suc (generation s) \<and> set_option claim \<union> fence s \<subseteq> fence s')"
    and releases: "\<lbrakk>ok s; releases t s s'\<rbrakk> \<Longrightarrow> ok s' \<and> generation s' = generation s \<and> entry s' = entry s
      \<and> fence s - {t} \<subseteq> fence s' \<and> fence s' \<subseteq> fence s"
    and other: "\<lbrakk>ok s; other s s'\<rbrakk> \<Longrightarrow> ok s' \<and> generation s' = generation s \<and> fence s' = fence s
      \<and> (\<forall>k n v. entry s' k n v \<longrightarrow> entry s k n v)"
begin

abbreviation consistent where
  "consistent handler s data readers writers \<equiv>
     ok s \<and> coherent handler (generation s) (fence s) (entry s) data readers writers"

lemma coherent_hit:
  "\<lbrakk>consistent handler s data readers writers; hits k s v\<rbrakk> \<Longrightarrow> \<exists>m. handler k (replicate m data) v"
  using hit [of s k v] coherentD(5) [of handler "generation s" "fence s" "entry s"] by metis

lemma coherent_ticket:
  assumes c: "consistent handler s data readers writers" and "tickets k s n" "seen = [] \<or> seen = [data]"
  shows "consistent handler s data (insert (k, n, seen) readers) writers"
proof -
  have "fence s = {}" "n = generation s" using ticket assms(1,2) by blast+
  then show ?thesis using c assms(3) coherentD(1-5,7) [OF conjunct2 [OF c]] by (auto intro!: coherentI)
qed

lemma coherent_observe:
  assumes c: "consistent handler s data readers writers" and r: "(k, n, seen) \<in> readers"
  shows "consistent handler s data (insert (k, n, seen @ [data]) readers) writers"
proof -
  have d: "n \<le> generation s" using coherentD(3) [OF conjunct2 [OF c] r] .
  have "seen @ [data] = replicate (length (seen @ [data])) data \<and> fence s = {}" if "n = generation s"
  proof -
    have "seen = replicate (length seen) data" "fence s = {}" using coherentD(6,7) [OF conjunct2 [OF c]] r that by blast+
    moreover have "replicate (length seen) data @ [data] = replicate (length (seen @ [data])) data"
      by (simp add: replicate_append_same)
    ultimately show ?thesis by metis
  qed
  then show ?thesis using c d coherentD [OF conjunct2 [OF c]] by (intro conjI coherentI) blast+
qed

lemma coherent_fill:
  assumes c: "consistent handler s data readers writers" and r: "(k, n, seen) \<in> readers" and f: "fills n k v s s'"
    and v: "handler k seen v"
  shows "consistent handler s' data readers writers"
proof -
  note law = fills [OF conjunct1 [OF c] f] and d = coherentD [OF conjunct2 [OF c]]
  have same: "generation s' = generation s" "fence s' = fence s" and "ok s'" using law by blast+
  have new: "entry s k' n' v' \<or> k' = k \<and> n' = n \<and> v' = v \<and> n = generation s \<and> fence s = {}"
    if "entry s' k' n' v'" for k' n' v' using law that by blast
  have "coherent handler (generation s) (fence s) (entry s') data readers writers"
  proof (rule coherentI)
    fix k' v' assume "entry s' k' (generation s) v'"
    from new [OF this] show "fence s = {} \<and> (\<exists>m. handler k' (replicate m data) v')"
      using d(4,5,7) r v by metis
  qed (use d new in blast)+
  then show ?thesis using same \<open>ok s'\<close> by simp
qed

lemma coherent_admit:
  assumes c: "consistent handler s data readers writers" and a: "admits claim s s'"
  shows "consistent handler s' data readers (set_option claim \<union> writers)"
proof -
  note law = admits [OF conjunct1 [OF c] a] and d = coherentD [OF conjunct2 [OF c]]
  have entry: "entry s' = entry s" and "ok s'" using law by blast+
  consider "claim = None" "generation s' = generation s" "fence s' = fence s"
    | "generation s' = Suc (generation s)" "set_option claim \<union> fence s \<subseteq> fence s'" using law by blast
  then have "coherent handler (generation s') (fence s') (entry s) data readers (set_option claim \<union> writers)"
  proof cases
    case 1
    then show ?thesis using c by simp
  next
    case 2
    have old: "\<not> entry s k (generation s') v" "(k, generation s', seen) \<notin> readers" for k v seen
      using d(2,3) 2(1) by (metis Suc_n_not_le_n)+
    show ?thesis
    proof (rule coherentI)
      show "set_option claim \<union> writers \<subseteq> fence s'" using d(1) 2(2) by blast
      show "n \<le> generation s'" if "entry s k n v" for k n v using d(2) [OF that] 2(1) by simp
      show "n \<le> generation s'" if "(k, n, seen) \<in> readers" for k n seen using d(3) [OF that] 2(1) by simp
    qed (use old in blast)+
  qed
  then show ?thesis using entry \<open>ok s'\<close> by simp
qed

lemma coherent_release:
  assumes c: "consistent handler s data readers writers" and a: "releases t s s'"
  shows "consistent handler s' data readers (writers - {t})"
proof -
  note law = releases [OF conjunct1 [OF c] a] and d = coherentD [OF conjunct2 [OF c]]
  have same: "generation s' = generation s" "entry s' = entry s" and "ok s'" and fence: "fence s - {t} \<subseteq> fence s'" "fence s' \<subseteq> fence s"
    using law by blast+
  have "coherent handler (generation s) (fence s') (entry s) data readers (writers - {t})"
    using d fence by (intro coherentI) blast+
  then show ?thesis using same \<open>ok s'\<close> by simp
qed

lemma coherent_other:
  assumes c: "consistent handler s data readers writers" and o: "other s s'"
  shows "consistent handler s' data readers writers"
proof -
  note law = other [OF conjunct1 [OF c] o] and d = coherentD [OF conjunct2 [OF c]]
  have same: "generation s' = generation s" "fence s' = fence s" and "ok s'" using law by blast+
  have sub: "entry s k n v" if "entry s' k n v" for k n v using law that by blast
  have "coherent handler (generation s) (fence s) (entry s') data readers writers"
  proof (rule coherentI)
    show "n \<le> generation s" if "entry s' k n v" for k n v using sub [OF that] by (rule d(2))
    show "fence s = {} \<and> (\<exists>m. handler k (replicate m data) v)" if "entry s' k (generation s) v" for k v
      using d(4,5) [OF sub [OF that]] by simp
    show "fence s = {} \<and> seen = replicate (length seen) data" if "(k, generation s, seen) \<in> readers" for k seen
      using d(6,7) [OF that] by simp
  qed (rule d(1), rule d(3))
  then show ?thesis using same \<open>ok s'\<close> by simp
qed

lemma coherent_write:
  assumes c: "consistent handler s data readers writers" and "t \<in> writers"
  shows "consistent handler s data' readers writers"
proof -
  note d = coherentD [OF conjunct2 [OF c]]
  have fenced: "fence s \<noteq> {}" using subsetD [OF d(1) assms(2)] by auto
  have "coherent handler (generation s) (fence s) (entry s) data' readers writers"
  proof (rule coherentI)
    show "n \<le> generation s" if "entry s k n v" for k n v using that by (rule d(2))
    show "n \<le> generation s" if "(k, n, seen) \<in> readers" for k n seen using that by (rule d(3))
    show "fence s = {} \<and> (\<exists>m. handler k (replicate m data') v)" if "entry s k (generation s) v" for k v
      using d(4) [OF that] fenced by simp
    show "fence s = {} \<and> seen = replicate (length seen) data'" if "(k, generation s, seen) \<in> readers" for k seen
      using d(6) [OF that] fenced by simp
  qed (rule d(1))
  then show ?thesis using c by simp
qed

end

section \<open>The store behind the interface\<close>

lemma map_of_hash_put: "map_of (hash_put f v fs) g = (if g = f then Some v else map_of fs g)"
proof (cases "f \<in> fst ` set fs")
  case True
  have "map_of (map (\<lambda>(g, u). (g, if g = f then v else u)) fs) g = map_option (\<lambda>u. if g = f then v else u) (map_of fs g)"
    by (induction fs) auto
  moreover have "map_of fs f \<noteq> None" using True by (simp add: map_of_eq_None_iff)
  ultimately show ?thesis using True by (auto simp: hash_put_def map_option_case split: option.splits)
next
  case False
  then have "map_of fs f = None" by (simp add: map_of_eq_None_iff)
  then show ?thesis using False by (auto simp: hash_put_def map_add_def split: option.splits)
qed

lemma keys_hash_put: "distinct (map fst fs) \<Longrightarrow> distinct (map fst (hash_put f v fs))"
  by (auto simp: hash_put_def comp_def split_beta)

lemma map_of_hash_drop: "map_of (filter (\<lambda>(g, _). g \<noteq> f) fs) g = (if g = f then None else map_of fs g)"
  by (induction fs) auto

lemma distinct_hash_drop: "distinct (map fst fs) \<Longrightarrow> distinct (map fst (filter P fs))"
  by (induction fs) auto

text \<open>The control hash of an initialised deployment, whose keys do not run into each other.\<close>

definition keys_apart :: "read_cache \<Rightarrow> bool" where
  "keys_apart rc \<longleftrightarrow> rc_control rc \<noteq> rc_catalog rc \<and> rc_control rc \<noteq> rc_admin rc
     \<and> (\<forall>digest. entry_key rc digest \<noteq> rc_control rc \<and> entry_key rc digest \<noteq> rc_catalog rc \<and> entry_key rc digest \<noteq> rc_admin rc)"

definition control_fields :: "read_cache \<Rightarrow> (string \<times> string) list \<Rightarrow> bool" where
  "control_fields rc fs \<longleftrightarrow> distinct (map fst fs) \<and> map_of fs ''schema'' = Some schema
     \<and> map_of fs ''deployment'' = Some (rc_deployment rc) \<and> (\<exists>n. map_of fs ''epoch'' = Some (show_nat n)) \<and> map_of fs ''state'' \<noteq> None"

definition control_ok :: "read_cache \<Rightarrow> redis \<Rightarrow> bool" where
  "control_ok rc st \<longleftrightarrow> keys_apart rc \<and> (\<exists>fs. st (rc_control rc) = Some (RHash fs, None) \<and> control_fields rc fs)"

definition current :: "read_cache \<Rightarrow> redis \<Rightarrow> nat" where
  "current rc st = (case hash_get st (rc_control rc) ''epoch'' of None \<Rightarrow> 0 | Some e \<Rightarrow> epoch_value e)"

definition fenced_by :: "read_cache \<Rightarrow> redis \<Rightarrow> (string \<times> string) set" where
  "fenced_by rc st = {(k, v). hash_get st (rc_control rc) k = Some v \<and> \<not> standard_field k}"

definition filled :: "read_cache \<Rightarrow> redis \<Rightarrow> string \<Rightarrow> nat \<Rightarrow> string \<Rightarrow> bool" where
  "filled rc st digest n v \<longleftrightarrow>
     (\<exists>ttl. st (entry_key rc digest) = Some (RString (entry_header rc (show_nat n) @ v), ttl))"

lemma connected_apart:
  assumes "connect hasher opens connects url key deployment semantic ttl limit = Inr rc"
  shows "keys_apart rc"
  using assms by (auto simp: connect_def Let_def keys_apart_def entry_key_def split: if_splits)

lemma four_fields:
  assumes "control_fields rc fs" "length fs = 4" "map_of fs k = Some v"
  shows "standard_field k"
proof -
  let ?S = "{''schema'', ''deployment'', ''epoch'', ''state''} :: string set"
  have "?S \<subseteq> fst ` set fs"
    using assms(1) by (auto simp: control_fields_def dest!: map_of_SomeD intro: rev_image_eqI)
  moreover have "card (fst ` set fs) = 4"
    using assms(1,2) distinct_card [of "map fst fs"] by (simp add: control_fields_def)
  moreover have "card ?S = 4" by simp
  ultimately have "fst ` set fs = ?S" using card_subset_eq [of "fst ` set fs" ?S] by auto
  moreover have "k \<in> fst ` set fs" using assms(3) map_of_SomeD by force
  ultimately show ?thesis by (auto simp: standard_field_def)
qed

lemma validate_ok:
  assumes "control_ok rc st" "validate rc allow st = Some (epoch, state, held)"
  shows "epoch = show_nat (current rc st)" "held = 4 \<Longrightarrow> fenced_by rc st = {}"
proof -
  obtain fs n where fs: "st (rc_control rc) = Some (RHash fs, None)" "control_fields rc fs" "map_of fs ''epoch'' = Some (show_nat n)"
    using assms(1) by (auto simp: control_ok_def control_fields_def)
  have get: "hash_get st (rc_control rc) = map_of fs" "hash_fields st (rc_control rc) = fs"
    using fs(1) by (auto simp: hash_get_def hash_fields_def)
  have v: "epoch = show_nat n" "held = length fs"
    using assms(2) fs(3) by (auto simp: validate_def Let_def get split: if_splits option.splits)
  show "epoch = show_nat (current rc st)" by (simp add: v current_def get fs(3))
  show "held = 4 \<Longrightarrow> fenced_by rc st = {}"
    using four_fields [OF fs(2)] by (auto simp: fenced_by_def get v)
qed

lemma header_inj: "entry_header rc (show_nat m) @ v = entry_header rc (show_nat n) @ u \<Longrightarrow> m = n \<and> v = u"
proof -
  assume "entry_header rc (show_nat m) @ v = entry_header rc (show_nat n) @ u"
  then have eq: "show_nat m @ CHR 0x0A # v = show_nat n @ CHR 0x0A # u" by (simp add: entry_header_def)
  have digits: "CHR 0x0A \<notin> set (show_nat k)" for k
    using show_nat_digits [of k] by (auto simp: list_all_iff is_digit_def)
  then have "takeWhile (\<lambda>c. c \<noteq> CHR 0x0A) (show_nat k @ CHR 0x0A # w) = show_nat k" for k w
    by (subst takeWhile_append2) auto
  with eq have "show_nat m = show_nat n" by metis
  with eq show ?thesis by simp
qed

section \<open>The laws of the operations\<close>

lemma validated_cases:
  assumes "validated rc allow operation st = (r, st')"
  obtains (failed) "r = Inl ScriptError" "st' = st"
    | (passed) epoch state held where "validate rc allow st = Some (epoch, state, held)" "operation epoch state held st = (r, st')"
  using assms by (auto simp: validated_def split: option.splits prod.splits)

lemma run_script_result:
  assumes "run_script key d script st = (r, st')"
  shows "r = Inr result \<Longrightarrow> script st = (Inr result, st')" "st' = st \<or> st' = snd (script st)"
proof -
  show "r = Inr result \<Longrightarrow> script st = (Inr result, st')"
    using assms by (auto simp: run_script_def split: prod.splits option.splits if_splits elim!: invoke_cases)
  show "st' = st \<or> st' = snd (script st)"
    using assms invoke_store [of d script st] by (auto simp: run_script_def split: prod.splits option.splits if_splits)
qed

lemma lookup_script_result:
  assumes "control_ok rc st" "lookup_script rc digest st = (Inr result, st')"
  shows "result = [''busy''] \<or> (\<exists>v. fenced_by rc st = {} \<and>
    (result = [''miss'', show_nat (current rc st), v]
     \<or> result = [''hit'', show_nat (current rc st), v] \<and> entry_response rc digest (show_nat (current rc st)) st = Some v))"
  using assms(2) unfolding lookup_script_def
proof (cases rule: validated_cases)
  case (passed epoch state held)
  show ?thesis
    using passed(2) validate_ok [OF assms(1) passed(1)] by (auto split: if_splits option.splits sum.splits)
qed auto

lemma lookup_result:
  assumes "control_ok rc st" "lookup rc digest d st = (Inr l, st')"
  shows "lu_response l = Some v \<Longrightarrow> fenced_by rc st = {} \<and> entry_response rc digest (show_nat (current rc st)) st = Some v"
    and "lu_ticket l = Some t \<Longrightarrow> fenced_by rc st = {} \<and> tk_epoch t = show_nat (current rc st)"
proof -
  obtain result where r: "lookup_script rc digest st = (Inr result, st')" "parse_lookup rc result = Inr l"
    using assms(2) by (auto simp: lookup_def split: prod.splits sum.splits dest!: run_script_result(1) [OF _ refl])
  show "lu_response l = Some v \<Longrightarrow> fenced_by rc st = {} \<and> entry_response rc digest (show_nat (current rc st)) st = Some v"
    using lookup_script_result [OF assms(1) r(1)] r(2) by (auto simp: parse_lookup_def)
  show "lu_ticket l = Some t \<Longrightarrow> fenced_by rc st = {} \<and> tk_epoch t = show_nat (current rc st)"
    using lookup_script_result [OF assms(1) r(1)] r(2) by (auto simp: parse_lookup_def)
qed

lemma entry_response_filled: "entry_response rc digest (show_nat n) st = Some v \<Longrightarrow> filled rc st digest n v"
  by (auto simp: entry_response_def Let_def redis_get_def filled_def split: if_splits option.splits sum.splits redis_value.splits)

text \<open>An operation that leaves the control hash alone keeps its view.\<close>

lemma same_control:
  assumes "st' (rc_control rc) = st (rc_control rc)"
  shows "control_ok rc st' = control_ok rc st" "current rc st' = current rc st" "fenced_by rc st' = fenced_by rc st"
  using assms by (simp_all add: control_ok_def current_def fenced_by_def hash_get_def hash_fields_def)

lemma fill_store:
  assumes ok: "control_ok rc st" and run: "fill rc t digest v d st = (r, st')"
  shows "st' = st \<or> fenced_by rc st = {} \<and> tk_epoch t = show_nat (current rc st)
    \<and> st' = redis_set_ex (entry_key rc digest) (entry_header rc (show_nat (current rc st)) @ v) (rc_ttl rc) st"
proof -
  have "st' = st \<or> st' = snd (fill_script rc digest (tk_epoch t) v st)"
    using run run_script_result(2) by (fastforce simp: fill_def split: prod.splits sum.splits if_splits)
  moreover obtain r1 st1 where f: "fill_script rc digest (tk_epoch t) v st = (r1, st1)" by (cases "fill_script rc digest (tk_epoch t) v st")
  then have "st1 = st \<or> fenced_by rc st = {} \<and> tk_epoch t = show_nat (current rc st)
    \<and> st1 = redis_set_ex (entry_key rc digest) (entry_header rc (show_nat (current rc st)) @ v) (rc_ttl rc) st"
    unfolding fill_script_def
  proof (cases rule: validated_cases)
    case (passed epoch state held)
    then show ?thesis using validate_ok [OF ok passed(1)] by (auto split: if_splits)
  qed simp
  ultimately show ?thesis using f by auto
qed

lemma fill_law:
  assumes ok: "control_ok rc st" and run: "fill rc t digest v d st = (r, st')" and n: "epoch_value (tk_epoch t) = n"
  shows "control_ok rc st' \<and> current rc st' = current rc st \<and> fenced_by rc st' = fenced_by rc st
    \<and> (\<forall>k m u. filled rc st' k m u \<longrightarrow> filled rc st k m u \<or> k = digest \<and> m = n \<and> u = v \<and> n = current rc st \<and> fenced_by rc st = {})"
  using fill_store [OF ok run]
proof
  assume s: "fenced_by rc st = {} \<and> tk_epoch t = show_nat (current rc st)
    \<and> st' = redis_set_ex (entry_key rc digest) (entry_header rc (show_nat (current rc st)) @ v) (rc_ttl rc) st"
  then have "st' (rc_control rc) = st (rc_control rc)"
    using ok by (auto simp: redis_set_ex_def control_ok_def keys_apart_def)
  note same = same_control [of st' rc st, OF this]
  have "filled rc st k m u \<or> k = digest \<and> m = current rc st \<and> u = v" if "filled rc st' k m u" for k m u
  proof (cases "k = digest")
    case True
    with that s show ?thesis by (auto simp: filled_def redis_set_ex_def dest: header_inj)
  next
    case False
    with that s show ?thesis by (auto simp: filled_def redis_set_ex_def entry_key_def)
  qed
  then show ?thesis using s same ok n by auto
qed (use ok in auto)

lemma control_set:
  assumes ok: "control_ok rc st" and new: "\<not> standard_field f"
  shows "st' = hash_set (rc_control rc) [(''epoch'', show_nat n), (f, v), (''state'', state)] st \<Longrightarrow>
      control_ok rc st' \<and> current rc st' = n \<and> insert (f, v) (fenced_by rc st - {(f, u) |u. True}) = fenced_by rc st' \<and> filled rc st' = filled rc st"
    and "st' = hash_del (rc_control rc) f st \<Longrightarrow>
      control_ok rc st' \<and> current rc st' = current rc st \<and> fenced_by rc st' = fenced_by rc st - {(f, u) |u. True} \<and> filled rc st' = filled rc st"
proof -
  obtain fs m where fs: "st (rc_control rc) = Some (RHash fs, None)" "control_fields rc fs" "map_of fs ''epoch'' = Some (show_nat m)"
    using ok by (auto simp: control_ok_def control_fields_def)
  have apart: "keys_apart rc" using ok by (simp add: control_ok_def)
  have view: "control_ok rc st' \<and> current rc st' = k \<and> fenced_by rc st' = {(g, u). map_of gs g = Some u \<and> \<not> standard_field g} \<and> filled rc st' = filled rc st"
    if "st' = st(rc_control rc \<mapsto> (RHash gs, None))" "control_fields rc gs" "map_of gs ''epoch'' = Some (show_nat k)" for gs k
    using that apart by (auto simp: control_ok_def current_def fenced_by_def hash_get_def hash_fields_def filled_def fun_eq_iff keys_apart_def)
  have std: "f \<noteq> ''schema''" "f \<noteq> ''deployment''" "f \<noteq> ''epoch''" "f \<noteq> ''state''" using new by (auto simp: standard_field_def)
  have fence: "fenced_by rc st = {(g, u). map_of fs g = Some u \<and> \<not> standard_field g}"
    by (simp add: fenced_by_def hash_get_def hash_fields_def fs(1))
  {
    assume st': "st' = hash_set (rc_control rc) [(''epoch'', show_nat n), (f, v), (''state'', state)] st"
    let ?gs = "hash_put ''state'' state (hash_put f v (hash_put ''epoch'' (show_nat n) fs))"
    have "st' = st(rc_control rc \<mapsto> (RHash ?gs, None))" by (simp add: st' hash_set_def hash_fields_def fs(1))
    moreover have "control_fields rc ?gs" using fs(2) std by (simp add: control_fields_def map_of_hash_put keys_hash_put)
    moreover have "map_of ?gs ''epoch'' = Some (show_nat n)" using std by (simp add: map_of_hash_put)
    ultimately show "control_ok rc st' \<and> current rc st' = n \<and> insert (f, v) (fenced_by rc st - {(f, u) |u. True}) = fenced_by rc st' \<and> filled rc st' = filled rc st"
      using view [of ?gs n] new by (auto simp: fence map_of_hash_put standard_field_def split: if_splits)
  }
  {
    assume st': "st' = hash_del (rc_control rc) f st"
    let ?gs = "filter (\<lambda>(g, _). g \<noteq> f) fs"
    have c: "control_fields rc ?gs" using fs(2) std by (simp add: control_fields_def map_of_hash_drop distinct_hash_drop del: map_of_eq_Some_iff)
    then have "?gs \<noteq> []" by (auto simp: control_fields_def)
    then have "st' = st(rc_control rc \<mapsto> (RHash ?gs, None))" by (simp add: st' hash_del_def fs(1) Let_def)
    moreover have "map_of ?gs ''epoch'' = Some (show_nat m)" using std fs(3) by (simp add: map_of_hash_drop)
    moreover have "current rc st = m" by (simp add: current_def hash_get_def hash_fields_def fs(1,3))
    ultimately show "control_ok rc st' \<and> current rc st' = current rc st \<and> fenced_by rc st' = fenced_by rc st - {(f, u) |u. True} \<and> filled rc st' = filled rc st"
      using view [of ?gs m] c by (auto simp: fence map_of_hash_drop split: if_splits)
  }
qed

lemma writer_field_other: "\<not> standard_field (writer_field token)"
  by (simp add: standard_field_def writer_field_def)

definition fence_of :: "writer_token \<Rightarrow> string \<times> string" where
  "fence_of token = (writer_field (wt_id token), wt_epoch token)"

lemma admit_script_result:
  assumes ok: "control_ok rc st" and run: "admit_script rc uuid state d = (r, st')" and d: "d = st"
  shows "st' = st \<and> (\<exists>e. r = Inl e) \<or> r = Inr [''ok'', show_nat (Suc (current rc st))]
    \<and> hash_get st (rc_control rc) (writer_field uuid) = None
    \<and> st' = hash_set (rc_control rc) [(''epoch'', show_nat (Suc (current rc st))),
        (writer_field uuid, show_nat (Suc (current rc st))), (''state'', state)] st"
  using run unfolding admit_script_def d
proof (cases rule: validated_cases)
  case (passed epoch state' held)
  then show ?thesis
    using validate_ok(1) [OF ok passed(1)] by (auto simp: Let_def next_epoch_show split: if_splits)
qed simp

lemma admit_law:
  assumes ok: "control_ok rc st" and run: "admit_state rc state uuid d st = (r, st')"
  shows "control_ok rc st' \<and> filled rc st' = filled rc st
    \<and> ((\<forall>token. r \<noteq> Inr token) \<and> current rc st' = current rc st \<and> fenced_by rc st' = fenced_by rc st
       \<or> current rc st' = Suc (current rc st) \<and> (\<forall>token. r = Inr token \<longrightarrow> fence_of token \<in> fenced_by rc st')
         \<and> fenced_by rc st \<subseteq> fenced_by rc st')"
proof -
  let ?script = "admit_script rc uuid state"
  obtain r1 st1 where s: "?script st = (r1, st1)" by (cases "?script st")
  obtain r0 where r0: "run_script None d ?script st = (r0, st')" using run by (auto simp: admit_state_def split: prod.splits sum.splits)
  have st': "st' = st \<or> st' = st1" using run_script_result(2) [OF r0] s by simp
  have done_: "r = Inr token \<Longrightarrow> \<exists>e. r1 = Inr [''ok'', e] \<and> st' = st1 \<and> token = \<lparr>wt_id = uuid, wt_deployment = rc_deployment rc, wt_epoch = e\<rparr>" for token
    using run run_script_result(1) [OF r0] s
    by (auto simp: admit_state_def r0 split: sum.splits list.splits if_splits)
  from admit_script_result [OF ok s refl] show ?thesis
  proof
    assume "st1 = st \<and> (\<exists>e. r1 = Inl e)"
    then show ?thesis using st' done_ ok by auto
  next
    assume r1: "r1 = Inr [''ok'', show_nat (Suc (current rc st))] \<and> hash_get st (rc_control rc) (writer_field uuid) = None
      \<and> st1 = hash_set (rc_control rc) [(''epoch'', show_nat (Suc (current rc st))),
          (writer_field uuid, show_nat (Suc (current rc st))), (''state'', state)] st"
    then have free: "(writer_field uuid, u) \<notin> fenced_by rc st" for u by (simp add: fenced_by_def)
    have view: "control_ok rc st1 \<and> current rc st1 = Suc (current rc st) \<and> filled rc st1 = filled rc st"
      "fenced_by rc st1 = insert (writer_field uuid, show_nat (Suc (current rc st))) (fenced_by rc st)"
      using control_set(1) [OF ok writer_field_other] r1 free by fastforce+
    show ?thesis
    proof (cases "st' = st1")
      case True
      then show ?thesis using view r1 done_ by (auto simp: fence_of_def)
    next
      case False
      then show ?thesis using st' done_ ok by auto
    qed
  qed
qed

lemma release_law:
  assumes ok: "control_ok rc st" and run: "release_writer rc token d st = (r, st')"
  shows "control_ok rc st' \<and> current rc st' = current rc st \<and> filled rc st' = filled rc st
    \<and> fenced_by rc st - {fence_of token} \<subseteq> fenced_by rc st' \<and> fenced_by rc st' \<subseteq> fenced_by rc st"
proof -
  let ?script = "release_writer_script rc (wt_id token) (wt_epoch token)"
  obtain r1 st1 where s: "?script st = (r1, st1)" by (cases "?script st")
  have "st' = st \<or> st' = st1"
    using run run_script_result(2) s by (fastforce simp: release_writer_def split: prod.splits sum.splits if_splits)
  moreover have "st1 = st \<or> hash_get st (rc_control rc) (writer_field (wt_id token)) = Some (wt_epoch token)
      \<and> st1 = hash_del (rc_control rc) (writer_field (wt_id token)) st"
    using s unfolding release_writer_script_def
  proof (cases rule: validated_cases)
    case (passed epoch state held)
    then show ?thesis by (auto split: if_splits)
  qed simp
  moreover have "hash_get st (rc_control rc) (writer_field (wt_id token)) = Some (wt_epoch token) \<Longrightarrow>
      (writer_field (wt_id token), u) \<in> fenced_by rc st \<Longrightarrow> u = wt_epoch token" for u
    by (simp add: fenced_by_def)
  ultimately show ?thesis
    using ok control_set(2) [OF ok writer_field_other [of "wt_id token"], of st1] by (auto simp: fence_of_def)
qed

text \<open>What the operations leave alone.\<close>

lemma admit_keeps:
  assumes "admit_state rc state uuid d st = (r, st')" "k \<noteq> rc_control rc"
  shows "st' k = st k"
proof -
  have "st' = st \<or> st' = snd (admit_script rc uuid state st)"
    using assms(1) run_script_result(2) by (fastforce simp: admit_state_def split: prod.splits sum.splits)
  moreover have "snd (admit_script rc uuid state st) k = st k"
    using assms(2) by (auto simp: admit_script_def validated_def Let_def hash_set_def split: option.splits prod.splits)
  ultimately show ?thesis by auto
qed

lemma release_writer_cases:
  assumes "release_writer rc token d st = (r, st')"
  shows "st' = st \<or> st' = hash_del (rc_control rc) (writer_field (wt_id token)) st"
proof -
  have "st' = st \<or> st' = snd (release_writer_script rc (wt_id token) (wt_epoch token) st)"
    using assms run_script_result(2) by (fastforce simp: release_writer_def split: prod.splits sum.splits if_splits)
  then show ?thesis
    by (auto simp: release_writer_script_def validated_def split: option.splits if_splits prod.splits)
qed

lemma hash_del_other: "k \<noteq> c \<Longrightarrow> hash_del c f st k = st k"
  by (auto simp: hash_del_def Let_def split: option.splits redis_value.splits)

definition catalog_now :: "read_cache \<Rightarrow> redis \<Rightarrow> script_failure + string option" where
  "catalog_now rc st = redis_get st (rc_catalog rc)"

lemma same_catalog: "st' (rc_catalog rc) = st (rc_catalog rc) \<Longrightarrow> catalog_now rc st' = catalog_now rc st"
  by (simp add: catalog_now_def redis_get_def)

lemma keeps_catalog:
  assumes ok: "control_ok rc st"
  shows "fill rc t digest v d st = (r, st') \<Longrightarrow> catalog_now rc st' = catalog_now rc st"
    and "admit_state rc state uuid d st = (r', st') \<Longrightarrow> catalog_now rc st' = catalog_now rc st"
    and "release_writer rc token d st = (r'', st') \<Longrightarrow> catalog_now rc st' = catalog_now rc st"
proof -
  have apart: "rc_control rc \<noteq> rc_catalog rc" "entry_key rc digest \<noteq> rc_catalog rc"
    using ok by (simp_all add: control_ok_def keys_apart_def)
  show "fill rc t digest v d st = (r, st') \<Longrightarrow> catalog_now rc st' = catalog_now rc st"
    using fill_store [OF ok] apart by (fastforce intro!: same_catalog simp: redis_set_ex_def)
  show "admit_state rc state uuid d st = (r', st') \<Longrightarrow> catalog_now rc st' = catalog_now rc st"
    using admit_keeps apart by (metis same_catalog)
  show "release_writer rc token d st = (r'', st') \<Longrightarrow> catalog_now rc st' = catalog_now rc st"
    using release_writer_cases hash_del_other apart by (metis same_catalog)
qed

text \<open>What goes on beside the cache: entries expire, claims come and go, catalogs are published.\<close>

definition beside :: "read_cache \<Rightarrow> redis \<Rightarrow> redis \<Rightarrow> bool" where
  "beside rc st st' \<longleftrightarrow> (\<exists>digest. st' = redis_del (entry_key rc digest) st)
     \<or> (\<forall>k. k \<noteq> rc_catalog rc \<and> k \<noteq> rc_admin rc \<longrightarrow> st' k = st k)"

lemma beside_law:
  assumes ok: "control_ok rc st" and "beside rc st st'"
  shows "control_ok rc st' \<and> current rc st' = current rc st \<and> fenced_by rc st' = fenced_by rc st
    \<and> (\<forall>digest n v. filled rc st' digest n v \<longrightarrow> filled rc st digest n v)"
proof -
  have apart: "keys_apart rc" using ok by (simp add: control_ok_def)
  then have "st' (rc_control rc) = st (rc_control rc)"
    using assms(2) by (auto simp: beside_def redis_del_def keys_apart_def) metis
  note same_control [of st' rc st, OF this]
  moreover have "st' (entry_key rc digest) = None \<or> st' (entry_key rc digest) = st (entry_key rc digest)" for digest
    using assms(2) apart by (auto simp: beside_def redis_del_def keys_apart_def)
  then have "filled rc st' digest n v \<longrightarrow> filled rc st digest n v" for digest n v
    unfolding filled_def by (metis option.distinct(1))
  ultimately show ?thesis using ok by simp
qed

interpretation cached: generations "control_ok rc" "current rc" "fenced_by rc" "filled rc"
  "\<lambda>digest st v. \<exists>d l st'. lookup rc digest d st = (Inr l, st') \<and> lu_response l = Some v"
  "\<lambda>digest st n. \<exists>d l st' t. lookup rc digest d st = (Inr l, st') \<and> lu_ticket l = Some t \<and> n = epoch_value (tk_epoch t)"
  "\<lambda>n digest v st st'. \<exists>t d r. epoch_value (tk_epoch t) = n \<and> fill rc t digest v d st = (r, st')"
  "\<lambda>claim st st'. \<exists>state uuid d r. admit_state rc state uuid d st = (r, st') \<and> claim = map_option fence_of (ok_opt r)"
  "\<lambda>claim st st'. \<exists>token d r. release_writer rc token d st = (r, st') \<and> claim = fence_of token"
  "beside rc"
  for rc
proof (unfold_locales, goal_cases)
  case (1 st digest v)
  then show ?case using lookup_result(1) entry_response_filled by blast
next
  case (2 st digest n)
  then show ?case using lookup_result(2) by fastforce
next
  case (3 st n digest v st')
  then show ?case using fill_law by blast
next
  case (4 st claim st')
  then obtain state uuid d r where r: "admit_state rc state uuid d st = (r, st')" "claim = map_option fence_of (ok_opt r)" by blast
  show ?case using admit_law [OF 4(1) r(1)] r(2) by (cases r) auto
next
  case (5 st claim st')
  then show ?case using release_law by blast
next
  case (6 st st')
  then show ?case by (rule beside_law)
qed

section \<open>Histories\<close>

text \<open>The store, the data behind the gateways (points and documents), the requests that hold a ticket
  with what they have observed (the catalog and the data), and the tokens of requests that may still
  write.\<close>

type_synonym 'd observed = "(script_failure + string option) \<times> 'd"

record 'd cache_history =
  ch_store :: redis
  ch_data :: 'd
  ch_readers :: "(string \<times> read_ticket \<times> 'd observed list) set"
  ch_writers :: "writer_token set"

definition present :: "read_cache \<Rightarrow> 'd cache_history \<Rightarrow> 'd observed" where
  "present rc h = (catalog_now rc (ch_store h), ch_data h)"

text \<open>A lookup may return the catalog with its ticket (an observation at that moment) or not; a request
  observes catalog and data whenever it likes and fills with a response its handler may make of the
  observations. Writers write, and publish a catalog, while they hold their token.\<close>

inductive cache_step :: "read_cache \<Rightarrow> (string \<Rightarrow> 'd observed list \<Rightarrow> string \<Rightarrow> bool) \<Rightarrow> 'd cache_history \<Rightarrow> 'd cache_history \<Rightarrow> bool"
  for rc handler where
  looked_up: "\<lbrakk>lookup rc digest d (ch_store h) = (Inr l, st'); lu_ticket l = Some t; seen = [] \<or> seen = [present rc h]\<rbrakk> \<Longrightarrow>
    cache_step rc handler h (h\<lparr>ch_readers := insert (digest, t, seen) (ch_readers h)\<rparr>)"
| observed: "(digest, t, seen) \<in> ch_readers h \<Longrightarrow>
    cache_step rc handler h (h\<lparr>ch_readers := insert (digest, t, seen @ [present rc h]) (ch_readers h)\<rparr>)"
| filled: "\<lbrakk>(digest, t, seen) \<in> ch_readers h; handler digest seen v; fill rc t digest v d (ch_store h) = (r, st')\<rbrakk> \<Longrightarrow>
    cache_step rc handler h (h\<lparr>ch_store := st'\<rparr>)"
| admitted: "admit_state rc state uuid d (ch_store h) = (Inr token, st') \<Longrightarrow>
    cache_step rc handler h (h\<lparr>ch_store := st', ch_writers := insert token (ch_writers h)\<rparr>)"
| refused: "admit_state rc state uuid d (ch_store h) = (Inl e, st') \<Longrightarrow>
    cache_step rc handler h (h\<lparr>ch_store := st'\<rparr>)"
| wrote: "\<lbrakk>token \<in> ch_writers h; \<And>k. k \<noteq> rc_catalog rc \<Longrightarrow> k \<noteq> rc_admin rc \<Longrightarrow> st' k = ch_store h k\<rbrakk> \<Longrightarrow>
    cache_step rc handler h (h\<lparr>ch_store := st', ch_data := data\<rparr>)"
| released: "\<lbrakk>token \<in> ch_writers h; release_writer rc token d (ch_store h) = (r, st')\<rbrakk> \<Longrightarrow>
    cache_step rc handler h (h\<lparr>ch_store := st', ch_writers := {w \<in> ch_writers h. fence_of w \<noteq> fence_of token}\<rparr>)"
| elsewhere: "\<lbrakk>beside rc (ch_store h) st'; catalog_now rc st' = catalog_now rc (ch_store h)\<rbrakk> \<Longrightarrow>
    cache_step rc handler h (h\<lparr>ch_store := st'\<rparr>)"

text \<open>A deployment starts with a control hash and without entries.\<close>

inductive cache_reachable :: "read_cache \<Rightarrow> (string \<Rightarrow> 'd observed list \<Rightarrow> string \<Rightarrow> bool) \<Rightarrow> 'd cache_history \<Rightarrow> bool"
  for rc handler where
  start: "\<lbrakk>control_ok rc st; \<And>digest n v. \<not> filled rc st digest n v\<rbrakk> \<Longrightarrow>
    cache_reachable rc handler \<lparr>ch_store = st, ch_data = data, ch_readers = {}, ch_writers = {}\<rparr>"
| step: "\<lbrakk>cache_reachable rc handler h; cache_step rc handler h h'\<rbrakk> \<Longrightarrow> cache_reachable rc handler h'"

definition tickets_of :: "(string \<times> read_ticket \<times> 'd observed list) set \<Rightarrow> (string \<times> nat \<times> 'd observed list) set" where
  "tickets_of readers = (\<lambda>(digest, t, seen). (digest, epoch_value (tk_epoch t), seen)) ` readers"

lemma tickets_of_simps:
  "tickets_of {} = {}"
  "tickets_of (insert (digest, t, seen) readers) = insert (digest, epoch_value (tk_epoch t), seen) (tickets_of readers)"
  "(digest, t, seen) \<in> readers \<Longrightarrow> (digest, epoch_value (tk_epoch t), seen) \<in> tickets_of readers"
  by (auto simp: tickets_of_def image_iff split: prod.splits)

definition cache_inv :: "read_cache \<Rightarrow> (string \<Rightarrow> 'd observed list \<Rightarrow> string \<Rightarrow> bool) \<Rightarrow> 'd cache_history \<Rightarrow> bool" where
  "cache_inv rc handler h \<longleftrightarrow> control_ok rc (ch_store h)
     \<and> coherent handler (current rc (ch_store h)) (fenced_by rc (ch_store h)) (filled rc (ch_store h))
         (present rc h) (tickets_of (ch_readers h)) (fence_of ` ch_writers h)"

lemma present_simps [simp]:
  "present rc (h\<lparr>ch_readers := readers\<rparr>) = present rc h"
  "present rc (h\<lparr>ch_writers := writers\<rparr>) = present rc h"
  "present rc (h\<lparr>ch_store := st\<rparr>) = (catalog_now rc st, ch_data h)"
  "present rc (h\<lparr>ch_store := st, ch_data := data\<rparr>) = (catalog_now rc st, data)"
  by (simp_all add: present_def)

lemma cache_step_inv: "cache_step rc handler h h' \<Longrightarrow> cache_inv rc handler h \<Longrightarrow> cache_inv rc handler h'"
proof (induction rule: cache_step.induct)
  case (looked_up digest d h l st' t seen)
  then have "\<exists>d l st' t'. lookup rc digest d (ch_store h) = (Inr l, st') \<and> lu_ticket l = Some t' \<and>
    epoch_value (tk_epoch t) = epoch_value (tk_epoch t')" by blast
  from cached.coherent_ticket [OF looked_up(4) [unfolded cache_inv_def] this looked_up(3)] show ?case
    by (simp add: cache_inv_def tickets_of_simps)
next
  case (observed digest t seen h)
  then show ?case
    using cached.coherent_observe [of rc "ch_store h" handler "present rc h", OF _ tickets_of_simps(3) [OF observed(1)]]
    by (simp add: cache_inv_def tickets_of_simps)
next
  case (filled digest t seen h v d r st')
  have ok: "control_ok rc (ch_store h)" using filled(4) by (simp add: cache_inv_def)
  have "present rc (h\<lparr>ch_store := st'\<rparr>) = present rc h" using keeps_catalog(1) [OF ok filled(3)] by (simp add: present_def)
  then show ?case
    using cached.coherent_fill [OF filled(4) [unfolded cache_inv_def] tickets_of_simps(3) [OF filled(1)], of v st'] filled(2,3)
    by (auto simp: cache_inv_def simp del: present_simps)
next
  case (admitted state uuid d h token st')
  have ok: "control_ok rc (ch_store h)" using admitted(2) by (simp add: cache_inv_def)
  have "\<exists>state uuid d r. admit_state rc state uuid d (ch_store h) = (r, st') \<and> Some (fence_of token) = map_option fence_of (ok_opt r)"
    using admitted(1) by (metis ok_opt.simps(2) option.map(2))
  from cached.coherent_admit [OF admitted(2) [unfolded cache_inv_def] this] show ?case
    using keeps_catalog(2) [OF ok admitted(1)] by (simp add: cache_inv_def present_def)
next
  case (refused state uuid d h e st')
  have ok: "control_ok rc (ch_store h)" using refused(2) by (simp add: cache_inv_def)
  have "\<exists>state uuid d r. admit_state rc state uuid d (ch_store h) = (r, st') \<and> None = map_option fence_of (ok_opt r)"
    using refused(1) by (metis ok_opt.simps(1) option.map(1))
  from cached.coherent_admit [OF refused(2) [unfolded cache_inv_def] this] show ?case
    using keeps_catalog(2) [OF ok refused(1)] by (simp add: cache_inv_def present_def)
next
  case (wrote token h st' data)
  have "beside rc (ch_store h) st'" using wrote(2) by (simp add: beside_def)
  from cached.coherent_write [OF cached.coherent_other [OF wrote(3) [unfolded cache_inv_def] this] imageI [OF wrote(1)],
      of "(catalog_now rc st', data)"]
  show ?case by (simp add: cache_inv_def present_def)
next
  case (released token h d r st')
  have ok: "control_ok rc (ch_store h)" using released(3) by (simp add: cache_inv_def)
  have "fence_of ` {w \<in> ch_writers h. fence_of w \<noteq> fence_of token} = fence_of ` ch_writers h - {fence_of token}" by auto
  moreover have "\<exists>token' d r. release_writer rc token' d (ch_store h) = (r, st') \<and> fence_of token = fence_of token'"
    using released(2) by blast
  note cached.coherent_release [OF released(3) [unfolded cache_inv_def] this]
  ultimately show ?case using keeps_catalog(3) [OF ok released(2)] by (simp add: cache_inv_def present_def)
next
  case (elsewhere h st')
  then show ?case
    using cached.coherent_other [OF elsewhere(3) [unfolded cache_inv_def] elsewhere(1)] by (simp add: cache_inv_def present_def)
qed

lemma cache_reachable_inv: "cache_reachable rc handler h \<Longrightarrow> cache_inv rc handler h"
proof (induction rule: cache_reachable.induct)
  case (start st data)
  then show ?case by (simp add: cache_inv_def coherent_def tickets_of_simps)
qed (rule cache_step_inv)

lemma reachable_star: "(cache_step rc handler)\<^sup>*\<^sup>* h h' \<Longrightarrow> cache_reachable rc handler h \<Longrightarrow> cache_reachable rc handler h'"
  by (induction rule: rtranclp_induct) (auto intro: cache_reachable.step)

text \<open>A hit of the read cache is never stale. In every history of lookups, fills, admissions, writes,
  publications, releases, expiries and lost messages, a response served from the cache is one that its
  handler may make now, from the present catalog and data alone; no observation made before a write
  survives it.\<close>

theorem cached_response_current:
  assumes "cache_reachable rc handler h"
    and "lookup rc digest d (ch_store h) = (Inr l, st')" "lu_response l = Some response"
  shows "\<exists>m. handler digest (replicate m (present rc h)) response"
proof -
  have "\<exists>d l st'. lookup rc digest d (ch_store h) = (Inr l, st') \<and> lu_response l = Some response" using assms(2,3) by blast
  with cache_reachable_inv [OF assms(1), unfolded cache_inv_def] show ?thesis by (rule cached.coherent_hit)
qed

section \<open>A deployment\<close>

text \<open>A miss, a fill and a hit.\<close>

definition sample_cache :: read_cache where
  "sample_cache = \<lparr>rc_catalog = ''{q}'', rc_control = ''{q}:read-cache:control'', rc_admin = ''{q}:admin'',
     rc_entries = ''{q}:read-cache:entry:a:b:'', rc_deployment = ''a'', rc_semantic = ''b'', rc_ttl = 60, rc_max = 100\<rparr>"

definition sample_digest :: string where "sample_digest = replicate 64 CHR ''0''"

definition control_hash :: "(string \<times> string) list" where
  "control_hash = [(''schema'', ''1''), (''deployment'', ''a''), (''epoch'', ''0''), (''state'', ''active'')]"

definition fresh_store :: redis where
  "fresh_store = [''{q}'' \<mapsto> (RString ''c'', None), ''{q}:read-cache:control'' \<mapsto> (RHash control_hash, None)]"

definition sample_ticket :: read_ticket where
  "sample_ticket = \<lparr>tk_epoch = ''0'', tk_deployment = ''a'', tk_semantic = ''b''\<rparr>"

definition filled_store :: redis where
  "filled_store = redis_set_ex (entry_key sample_cache sample_digest) (entry_header sample_cache ''0'' @ ''x'') 60 fresh_store"

lemma sample_digest_valid: "valid_digest sample_digest"
  by (simp add: sample_digest_def valid_digest_def list_all_iff is_lower_hex_def is_digit_def)

lemma sample_keys: "entry_key sample_cache digest \<noteq> ''{q}''" "entry_key sample_cache digest \<noteq> ''{q}:read-cache:control''"
  "entry_key sample_cache digest \<noteq> ''{q}:admin''"
  by (simp_all add: entry_key_def sample_cache_def)

lemma fresh_validates:
  assumes "st ''{q}'' = fresh_store ''{q}''" "st ''{q}:read-cache:control'' = fresh_store ''{q}:read-cache:control''"
  shows "validate sample_cache allow st = Some (''0'', ''active'', 4)"
  using assms
  by (simp add: validate_def Let_def sample_cache_def redis_type_def pttl_def fresh_store_def hash_get_def hash_fields_def
      control_hash_def schema_def decimal_def canonical_def)

lemma fresh_lookup:
  "lookup sample_cache sample_digest Delivered fresh_store =
    (Inr \<lparr>lu_ticket = Some sample_ticket, lu_response = None, lu_catalog = Some ''c''\<rparr>, fresh_store)"
proof -
  have "entry_response sample_cache sample_digest ''0'' fresh_store = None"
    by (simp add: entry_response_def Let_def redis_type_def fresh_store_def sample_keys)
  moreover have "fresh_store (rc_admin sample_cache) = None" "redis_get fresh_store (rc_catalog sample_cache) = Inr (Some ''c'')"
    by (simp_all add: fresh_store_def sample_cache_def redis_get_def)
  ultimately have "lookup_script sample_cache sample_digest fresh_store = (Inr [''miss'', ''0'', ''c''], fresh_store)"
    by (simp add: lookup_script_def validated_def fresh_validates redis_exists_def max_catalog_bytes_def)
  then show ?thesis
    by (simp add: lookup_def run_script_def sample_digest_valid invoke_def parse_lookup_def sample_ticket_def sample_cache_def)
qed

lemma fresh_fill: "fill sample_cache sample_ticket sample_digest ''x'' Delivered fresh_store = (Inr True, filled_store)"
proof -
  have "fresh_store (rc_admin sample_cache) = None" by (simp add: fresh_store_def sample_cache_def)
  then have "fill_script sample_cache sample_digest ''0'' ''x'' fresh_store = (Inr [''ok''], filled_store)"
    by (simp add: fill_script_def validated_def fresh_validates redis_exists_def filled_store_def) (simp add: sample_cache_def)
  then show ?thesis
    by (simp add: fill_def run_script_def sample_digest_valid invoke_def sample_ticket_def) (simp add: sample_cache_def)
qed

lemma fresh_control: "control_ok sample_cache fresh_store"
  unfolding control_ok_def
proof (intro conjI exI)
  show "keys_apart sample_cache" using sample_keys by (simp add: keys_apart_def) (simp add: sample_cache_def)
  show "fresh_store (rc_control sample_cache) = Some (RHash control_hash, None)"
    by (simp add: sample_cache_def fresh_store_def)
  have "show_nat 0 = ''0''" using digit_char_zero [of 0] by (simp add: show_nat.simps [of 0])
  then have "\<exists>n. ''0'' = show_nat n" by metis
  then show "control_fields sample_cache control_hash"
    by (simp add: control_fields_def control_hash_def schema_def) (simp add: sample_cache_def)
qed

lemma fresh_unfilled: "\<not> filled sample_cache fresh_store digest n v"
  by (simp add: filled_def fresh_store_def sample_keys)

lemma fresh_catalog: "catalog_now sample_cache fresh_store = Inr (Some ''c'')"
  by (simp add: catalog_now_def redis_get_def fresh_store_def) (simp add: sample_cache_def)

lemma filled_lookup:
  "\<exists>l. lookup sample_cache sample_digest Delivered filled_store = (Inr l, filled_store) \<and> lu_response l = Some ''x''"
proof -
  have v: "validate sample_cache False filled_store = Some (''0'', ''active'', 4)"
    by (rule fresh_validates) (simp_all add: filled_store_def redis_set_ex_def sample_keys [symmetric])
  have "entry_response sample_cache sample_digest ''0'' filled_store = Some ''x''"
    by (simp add: entry_response_def Let_def redis_type_def pttl_def redis_get_def filled_store_def redis_set_ex_def)
      (simp add: sample_cache_def strip_prefix_def)
  moreover have "filled_store (rc_admin sample_cache) = None"
    using sample_keys(3) [of sample_digest] by (simp add: filled_store_def redis_set_ex_def sample_cache_def fresh_store_def)
  ultimately have "lookup_script sample_cache sample_digest filled_store = (Inr [''hit'', ''0'', ''x''], filled_store)"
    by (simp add: lookup_script_def validated_def v redis_exists_def)
  then show ?thesis
    by (simp add: lookup_def run_script_def sample_digest_valid invoke_def parse_lookup_def)
qed

end
