(* ===== verification/CacheAdmin.thy ===== *)
theory CacheAdmin
  imports CacheCoherence
begin

text \<open>
  Administration of the read cache (\<open>src/read_cache.rs\<close>): what the Redis server and the catalog must
  look like, and the explicit operations that create, fence and replace a deployment's control
  state. The answers to \<open>CONFIG GET\<close> and \<open>INFO\<close> are a parameter.
\<close>

section \<open>What is checked\<close>

definition trim :: "string \<Rightarrow> string" where
  "trim s = concat (rev (dropWhile is_whitespace (rev (dropWhile is_whitespace (utf8_chars s)))))"

definition info_fields :: "string \<Rightarrow> string \<Rightarrow> string option" where
  "info_fields info = map_of (rev (List.map_filter (\<lambda>line. split_once CHR '':'' (trim line)) (body_lines info)))"

definition expected_config :: "(string \<times> string) list" where
  "expected_config = [(''appendonly'', ''yes''), (''appendfsync'', ''always''),
     (''no-appendfsync-on-rewrite'', ''no''), (''cluster-enabled'', ''no'')]"

definition expected_info :: "(string \<times> string) list" where
  "expected_info = [(''role'', ''master''), (''connected_slaves'', ''0''), (''aof_enabled'', ''1''),
     (''aof_last_write_status'', ''ok''), (''aof_last_bgrewrite_status'', ''ok''),
     (''aof_rewrite_in_progress'', ''0''), (''aof_rewrite_scheduled'', ''0''), (''loading'', ''0'')]"

definition validate_server :: "(string \<Rightarrow> string option) \<Rightarrow> string \<Rightarrow> cache_error + unit" where
  "validate_server config info =
     (if list_ex (\<lambda>(k, v). config k \<noteq> Some v) expected_config
         \<or> \<not> is_some_and (Option.bind (config ''maxmemory'') (parse_unsigned (2 ^ 64))) (\<lambda>v. v \<noteq> 0)
         \<or> \<not> is_some_and (config ''maxmemory-policy'')
              (\<lambda>v. v \<in> {''noeviction'', ''volatile-lru'', ''volatile-lfu'', ''volatile-random'', ''volatile-ttl''})
      then Inl Configuration
      else let fs = info_fields info; modes = [fs ''redis_mode'', fs ''server_mode''] in
        if list_all (\<lambda>m. m = None) modes \<or> list_ex (\<lambda>m. m \<noteq> None \<and> m \<noteq> Some ''standalone'') modes
        then Inl Configuration
        else if list_ex (\<lambda>(k, v). fs k \<noteq> Some v) expected_info then Inl Configuration
        else Inr ())"

type_synonym server_answers = "((string \<Rightarrow> string option) \<times> string) option"

definition validate_durability :: "server_answers \<Rightarrow> cache_error + unit" where
  "validate_durability server = (case server of
     None \<Rightarrow> Inl Unavailable | Some (config, info) \<Rightarrow> validate_server config info)"

text \<open>The snapshot has the same members and types as the catalog's own, so it is read by the same function.\<close>

definition validate_snapshot :: "env \<Rightarrow> string \<Rightarrow> cache_error + unit" where
  "validate_snapshot env bytes =
     (if 8 * 1024 * 1024 < length bytes then Inl Unavailable
      else case parse_snapshot_text env bytes of
        None \<Rightarrow> Inl Unavailable
      | Some s \<Rightarrow>
          if distinct (map fst (sn_indices s))
             \<and> list_all (\<lambda>(_, mapping, vectors). is_ok (parse_json env mapping) \<and> is_ok (parse_strings env vectors)) (sn_indices s)
             \<and> distinct (map fst (sn_aliases s))
          then Inr () else Inl Unavailable)"

definition catalog_script :: "read_cache \<Rightarrow> string script" where
  "catalog_script rc st =
     (let k = rc_catalog rc in
      if redis_type st k \<noteq> ''string'' \<or> pttl st k \<noteq> - 1 then (Inl ScriptError, st)
      else case redis_get st k of
        Inr (Some v) \<Rightarrow> if 8388608 < length v then (Inl ScriptError, st) else (Inr v, st)
      | _ \<Rightarrow> (Inl ScriptError, st))"

definition validated_catalog :: "env \<Rightarrow> read_cache \<Rightarrow> delivery \<Rightarrow> redis \<Rightarrow> (cache_error + string) \<times> redis" where
  "validated_catalog env rc d st = (case invoke d (catalog_script rc) st of
     (None, st') \<Rightarrow> (Inl Unavailable, st')
   | (Some bytes, st') \<Rightarrow> (map_ok (\<lambda>_. bytes) (validate_snapshot env bytes), st'))"

text \<open>A catalog without a cache must not have control keys; \<open>answered\<close> tells which queries return.\<close>

definition reject_unconfigured :: "(string \<Rightarrow> bool) \<Rightarrow> bool \<Rightarrow> (string \<Rightarrow> bool) \<Rightarrow> string \<Rightarrow> string \<Rightarrow> redis \<Rightarrow> cache_error + unit" where
  "reject_unconfigured opens connects answered url catalog_key st =
     (if \<not> opens url then Inl Configuration
      else if \<not> connects then Inl Unavailable
      else eachR (\<lambda>suffix.
        if \<not> answered suffix \<or> redis_exists st (catalog_key @ '':read-cache:'' @ suffix) then Inl Unavailable else Inr ())
        [''control'', ''initialized''])"

section \<open>The operations\<close>

definition identity_key :: "read_cache \<Rightarrow> string \<Rightarrow> string" where
  "identity_key rc identity = rc_catalog rc @ '':read-cache:identity:'' @ identity"

definition initialized_key :: "read_cache \<Rightarrow> string" where
  "initialized_key rc = rc_catalog rc @ '':read-cache:initialized''"

definition administration_script :: "read_cache \<Rightarrow> (string \<Rightarrow> nat script) \<Rightarrow> string \<Rightarrow> string \<Rightarrow> nat script" where
  "administration_script rc operation identity catalog st =
     (if redis_type st (rc_catalog rc) \<noteq> ''string'' \<or> pttl st (rc_catalog rc) \<noteq> - 1
         \<or> redis_get st (rc_catalog rc) \<noteq> Inr (Some catalog) \<or> redis_exists st (rc_admin rc)
      then (Inl ScriptError, st)
      else if redis_exists st (identity_key rc identity) then (Inl ScriptError, st)
      else operation identity st)"

text \<open>\<open>MSET\<close> of the identity and the lineage.\<close>

definition record_identity :: "read_cache \<Rightarrow> string \<Rightarrow> redis \<Rightarrow> redis" where
  "record_identity rc identity st = redis_set (initialized_key rc) identity (redis_set (identity_key rc identity) ''1'' st)"

definition bootstrap_script :: "read_cache \<Rightarrow> string \<Rightarrow> nat script" where
  "bootstrap_script rc identity st =
     (if redis_exists st (rc_control rc) \<or> redis_exists st (initialized_key rc) then (Inl ScriptError, st)
      else (Inr 1, hash_set (rc_control rc)
        [(''schema'', schema), (''deployment'', identity), (''epoch'', ''0''), (''state'', ''active'')]
        (record_identity rc identity st)))"

definition plain_string :: "redis \<Rightarrow> string \<Rightarrow> string \<Rightarrow> bool" where
  "plain_string st k v \<longleftrightarrow> redis_type st k = ''string'' \<and> redis_get st k = Inr (Some v) \<and> pttl st k = - 1"

definition recover_script :: "read_cache \<Rightarrow> string \<Rightarrow> nat script" where
  "recover_script rc identity st =
     (let c = rc_control rc in
      if \<not> plain_string st (initialized_key rc) (rc_deployment rc) \<or> \<not> plain_string st (identity_key rc (rc_deployment rc)) ''1''
      then (Inl ScriptError, st)
      else
        let st1 = (if redis_type st c \<noteq> ''none'' \<and> redis_type st c \<noteq> ''hash'' then redis_del c st else st);
            st2 = redis_persist c (hash_set c
              [(''schema'', schema), (''deployment'', rc_deployment rc), (''epoch'', ''0''), (''state'', ''maintenance'')] st1);
            st3 = hash_set c [(''deployment'', identity), (''state'', ''active'')] (record_identity rc identity st2)
        in (Inr 1, fold (\<lambda>(k, _) s. if standard_field k then s else hash_del c k s) (hash_fields st3 c) st3))"

definition administration :: "read_cache \<Rightarrow> (string \<Rightarrow> nat script) \<Rightarrow> string \<Rightarrow> string \<Rightarrow> delivery \<Rightarrow> redis \<Rightarrow> (cache_error + unit) \<times> redis" where
  "administration rc operation identity catalog d st =
     (case invoke d (administration_script rc operation identity catalog) st of
        (None, st') \<Rightarrow> (Inl Unavailable, st')
      | (Some result, st') \<Rightarrow> (if result = 1 then Inr () else Inl Unavailable, st'))"

text \<open>The common part of \<open>bootstrap\<close> and \<open>recover\<close>: the server, then the catalog, then the script.\<close>

definition reconciled :: "env \<Rightarrow> read_cache \<Rightarrow> (string \<Rightarrow> nat script) \<Rightarrow> string \<Rightarrow> server_answers \<Rightarrow> delivery \<Rightarrow> delivery \<Rightarrow> redis \<Rightarrow>
    (cache_error + unit) \<times> redis" where
  "reconciled env rc operation identity server d1 d2 st = (case validate_durability server of
     Inl e \<Rightarrow> (Inl e, st)
   | Inr _ \<Rightarrow> (case validated_catalog env rc d1 st of
       (Inl e, st') \<Rightarrow> (Inl e, st')
     | (Inr catalog, st') \<Rightarrow> administration rc operation identity catalog d2 st'))"

definition bootstrap :: "env \<Rightarrow> read_cache \<Rightarrow> bool \<Rightarrow> server_answers \<Rightarrow> delivery \<Rightarrow> delivery \<Rightarrow> redis \<Rightarrow> (cache_error + unit) \<times> redis" where
  "bootstrap env rc operator_quiesced server d1 d2 st =
     (if \<not> operator_quiesced then (Inl Configuration, st)
      else reconciled env rc (bootstrap_script rc) (rc_deployment rc) server d1 d2 st)"

definition maintenance :: "read_cache \<Rightarrow> server_answers \<Rightarrow> string \<Rightarrow> delivery \<Rightarrow> redis \<Rightarrow> (cache_error + writer_token) \<times> redis" where
  "maintenance rc server uuid d st = (case validate_durability server of
     Inl e \<Rightarrow> (Inl e, st) | Inr _ \<Rightarrow> admit_state rc ''maintenance'' uuid d st)"

definition recover :: "env \<Rightarrow> read_cache \<Rightarrow> string \<Rightarrow> bool \<Rightarrow> server_answers \<Rightarrow> delivery \<Rightarrow> delivery \<Rightarrow> redis \<Rightarrow> (cache_error + unit) \<times> redis" where
  "recover env rc new_identity operator_reconciled server d1 d2 st =
     (if \<not> operator_reconciled \<or> \<not> valid_identity new_identity \<or> new_identity = rc_deployment rc then (Inl Configuration, st)
      else reconciled env rc (recover_script rc) new_identity server d1 d2 st)"

section \<open>Replacing the control hash\<close>

lemma hash_del_at:
  assumes "map_of gs f \<noteq> None" "f \<noteq> k"
  shows "hash_del c k (st(c \<mapsto> (RHash gs, ttl))) = st(c \<mapsto> (RHash (filter (\<lambda>(g, _). g \<noteq> k) gs), ttl))"
proof -
  have "map_of (filter (\<lambda>(g, _). g \<noteq> k) gs) f \<noteq> None" using assms by (simp add: map_of_hash_drop del: map_of_eq_Some_iff)
  then have "filter (\<lambda>(g, _). g \<noteq> k) gs \<noteq> []" by fastforce
  then show ?thesis by (simp add: hash_del_def Let_def)
qed

lemma drop_tokens:
  assumes "map_of gs ''schema'' \<noteq> None"
  shows "fold (\<lambda>(k, _) s. if standard_field k then s else hash_del c k s) xs (st(c \<mapsto> (RHash gs, ttl))) =
    st(c \<mapsto> (RHash (filter (\<lambda>(g, _). standard_field g \<or> g \<notin> fst ` set xs) gs), ttl))"
  using assms
proof (induction xs arbitrary: gs)
  case (Cons x xs)
  show ?case
  proof (cases "standard_field (fst x)")
    case True
    then have "filter (\<lambda>(g, _). standard_field g \<or> g \<notin> fst ` set (x # xs)) gs = filter (\<lambda>(g, _). standard_field g \<or> g \<notin> fst ` set xs) gs"
      by (intro filter_cong) auto
    with True Cons.IH [OF Cons.prems] show ?thesis by (cases x) (simp del: fun_upd_apply)
  next
    case False
    then have new: "''schema'' \<noteq> fst x" by (auto simp: standard_field_def)
    let ?gs = "filter (\<lambda>(g, _). g \<noteq> fst x) gs"
    have "map_of ?gs ''schema'' \<noteq> None" using Cons.prems new by (simp add: map_of_hash_drop del: map_of_eq_Some_iff)
    note rest = Cons.IH [OF this]
    have "filter (\<lambda>(g, _). standard_field g \<or> g \<notin> fst ` set (x # xs)) gs
        = filter (\<lambda>(g, _). standard_field g \<or> g \<notin> fst ` set xs) ?gs"
      using False by (auto simp: filter_filter intro!: filter_cong)
    with rest False hash_del_at [OF Cons.prems new] show ?thesis by (cases x) (simp del: fun_upd_apply)
  qed
qed (simp add: split_beta)

lemma hash_set_at:
  "hash_set c pairs (st(c \<mapsto> (RHash gs, ttl))) = st(c \<mapsto> (RHash (fold (\<lambda>(f, v). hash_put f v) pairs gs), ttl))"
  by (simp add: hash_set_def hash_fields_def)

lemma connected_keys:
  assumes "connect hasher opens connects url key deployment semantic ttl limit = Inr rc"
  shows "rc_control rc = key @ '':read-cache:control''" "rc_catalog rc = key" "rc_deployment rc = deployment"
    and "rc_control rc \<noteq> identity_key rc identity" "rc_control rc \<noteq> initialized_key rc"
    and "identity_key rc identity \<noteq> initialized_key rc"
  using assms by (auto simp: connect_def Let_def identity_key_def initialized_key_def split: if_splits)

text \<open>The fields of the control hash after a recovery.\<close>

definition recovered_fields :: "string \<Rightarrow> string \<Rightarrow> (string \<times> string) list \<Rightarrow> (string \<times> string) list" where
  "recovered_fields old new fs =
     filter (\<lambda>(k, _). standard_field k)
       (fold (\<lambda>(f, v). hash_put f v) [(''schema'', schema), (''deployment'', old), (''epoch'', ''0''), (''state'', ''maintenance''),
          (''deployment'', new), (''state'', ''active'')] fs)"

lemma recovered_fields_ok:
  assumes "distinct (map fst fs)"
  shows "distinct (map fst (recovered_fields old new fs))"
    and "map_of (recovered_fields old new fs) k =
      (if k = ''schema'' then Some schema else if k = ''deployment'' then Some new
       else if k = ''epoch'' then Some ''0'' else if k = ''state'' then Some ''active'' else None)"
proof -
  have "map_of (filter (\<lambda>(k, _). P k) gs) k = (if P k then map_of gs k else None)" for P and gs :: "(string \<times> string) list"
    by (induction gs) auto
  then show "map_of (recovered_fields old new fs) k =
      (if k = ''schema'' then Some schema else if k = ''deployment'' then Some new
       else if k = ''epoch'' then Some ''0'' else if k = ''state'' then Some ''active'' else None)"
    by (simp add: recovered_fields_def map_of_hash_put standard_field_def del: map_of_eq_Some_iff)
  show "distinct (map fst (recovered_fields old new fs))"
    using assms by (simp add: recovered_fields_def distinct_hash_drop keys_hash_put)
qed

lemma record_identity_at:
  assumes "c \<noteq> identity_key rc identity" "c \<noteq> initialized_key rc"
  shows "record_identity rc identity (st(c \<mapsto> v)) = (record_identity rc identity st)(c \<mapsto> v)"
  using assms by (simp add: record_identity_def redis_set_def fun_upd_twist)

lemma recover_script_store:
  assumes "connect hasher opens connects url key deployment semantic ttl limit = Inr rc"
    and "recover_script rc identity st = (Inr n, st')"
  shows "st' = (record_identity rc identity st)(rc_control rc \<mapsto>
    (RHash (recovered_fields deployment identity (hash_fields st (rc_control rc))), None))"
proof -
  let ?c = "rc_control rc" let ?fs = "hash_fields st ?c"
  note keys = connected_keys [OF assms(1)]
  let ?first = "[(''schema'', schema), (''deployment'', deployment), (''epoch'', ''0''), (''state'', ''maintenance'')]"
  let ?gs = "fold (\<lambda>(f, v). hash_put f v) ?first ?fs"
  let ?hs = "fold (\<lambda>(f, v). hash_put f v) [(''deployment'', identity), (''state'', ''active'')] ?gs"
  have "redis_persist ?c (hash_set ?c ?first (if redis_type st ?c \<noteq> ''none'' \<and> redis_type st ?c \<noteq> ''hash'' then redis_del ?c st else st))
      = st(?c \<mapsto> (RHash ?gs, None))"
    by (auto simp: redis_persist_def hash_set_def hash_fields_def redis_type_def redis_del_def split: option.splits redis_value.splits)
  moreover have "hash_set ?c [(''deployment'', identity), (''state'', ''active'')] (record_identity rc identity (st(?c \<mapsto> (RHash ?gs, None))))
      = (record_identity rc identity st)(?c \<mapsto> (RHash ?hs, None))"
    using keys(4,5) by (simp only: record_identity_at hash_set_at not_False_eq_True)
  moreover have "map_of ?hs ''schema'' \<noteq> None" by (simp add: map_of_hash_put del: map_of_eq_Some_iff)
  note drop_tokens [OF this, of ?c ?hs "record_identity rc identity st" None]
  moreover have "hash_fields ((record_identity rc identity st)(?c \<mapsto> (RHash ?hs, None))) ?c = ?hs" by (simp add: hash_fields_def)
  moreover have "filter (\<lambda>(g, _). standard_field g \<or> g \<notin> fst ` set ?hs) ?hs = recovered_fields deployment identity ?fs"
    unfolding recovered_fields_def by (auto intro!: filter_cong simp: image_iff)
  ultimately show ?thesis
    using assms(2) by (simp add: recover_script_def Let_def keys(3) del: fold.simps split: if_splits)
qed

text \<open>An acknowledged operation found a validated catalog, and the catalog it runs over is that one.\<close>

lemma reconciled_catalog:
  assumes "reconciled env rc operation identity server d1 d2 st = (Inr (), st')"
  obtains catalog n where "validate_snapshot env catalog = Inr ()" "plain_string st (rc_catalog rc) catalog"
    "operation identity st = (Inr n, st')"
proof -
  have "snd (catalog_script rc st) = st" by (auto simp: catalog_script_def Let_def split: sum.splits option.splits)
  then have same: "snd (validated_catalog env rc d1 st) = st"
    using invoke_store [of d1 "catalog_script rc" st] by (auto simp: validated_catalog_def split: prod.splits option.splits)
  obtain catalog where v: "validated_catalog env rc d1 st = (Inr catalog, st)"
    and a: "administration rc operation identity catalog d2 st = (Inr (), st')"
    using assms same by (auto simp: reconciled_def split: sum.splits prod.splits)
  have "validate_snapshot env catalog = Inr ()"
    using v by (auto simp: validated_catalog_def map_ok_Inr_iff split: prod.splits option.splits)
  moreover obtain n where "administration_script rc operation identity catalog st = (Inr n, st')"
    using a by (auto simp: administration_def split: prod.splits option.splits if_splits elim!: invoke_cases)
  then have "operation identity st = (Inr n, st')" "plain_string st (rc_catalog rc) catalog"
    by (simp_all add: administration_script_def plain_string_def split: if_splits)
  ultimately show thesis using that by blast
qed

lemma recover_ran:
  assumes "recover env rc new_identity reconciled_by server d1 d2 st = (Inr (), st')"
  shows "new_identity \<noteq> rc_deployment rc \<and> (\<exists>n. recover_script rc new_identity st = (Inr n, st'))"
    and "\<exists>catalog. validate_snapshot env catalog = Inr () \<and> plain_string st (rc_catalog rc) catalog"
proof -
  have differ: "new_identity \<noteq> rc_deployment rc"
    and "reconciled env rc (recover_script rc) new_identity server d1 d2 st = (Inr (), st')"
    using assms by (auto simp: recover_def split: if_splits)
  from reconciled_catalog [OF this(2)] differ
  show "new_identity \<noteq> rc_deployment rc \<and> (\<exists>n. recover_script rc new_identity st = (Inr n, st'))"
    and "\<exists>catalog. validate_snapshot env catalog = Inr () \<and> plain_string st (rc_catalog rc) catalog" by blast+
qed

lemma catalog_apart:
  assumes "connect hasher opens connects url key deployment semantic ttl limit = Inr rc"
  shows "rc_catalog rc \<noteq> rc_control rc" "rc_catalog rc \<noteq> identity_key rc identity" "rc_catalog rc \<noteq> initialized_key rc"
  using assms by (auto simp: connect_def Let_def identity_key_def initialized_key_def split: if_splits)

lemma four_standard:
  assumes "distinct (map fst gs)" and "\<And>k. map_of gs k \<noteq> None \<longleftrightarrow> standard_field k"
  shows "length gs = 4"
proof -
  have "fst ` set gs = {''schema'', ''deployment'', ''epoch'', ''state''}"
    using assms(2) by (auto simp: map_of_eq_None_iff standard_field_def)
  then show ?thesis using distinct_card [OF assms(1)] by simp
qed

lemma unvalidated_fails:
  assumes "\<And>allow. validate rc allow st = None"
  shows "\<exists>e. lookup rc digest d st = (Inl e, st)" "\<exists>e. fill rc t digest v d st = (Inl e, st) \<or> fill rc t digest v d st = (Inr False, st)"
    and "\<exists>e. admit_state rc state uuid d st = (Inl e, st)" "\<exists>e. release_writer rc token d st = (Inl e, st)"
proof -
  have run: "\<exists>e. run_script key d (validated rc allow operation) st = (Inl e, st)" for key allow operation
    using assms by (auto simp: run_script_def invoke_def validated_def split: delivery.splits)
  obtain e where "run_script (Some digest) d (lookup_script rc digest) st = (Inl e, st)"
    using run unfolding lookup_script_def by blast
  then show "\<exists>e. lookup rc digest d st = (Inl e, st)" by (simp add: lookup_def)
  obtain e where "run_script (Some digest) d (fill_script rc digest (tk_epoch t) v) st = (Inl e, st)"
    using run unfolding fill_script_def by blast
  then show "\<exists>e. fill rc t digest v d st = (Inl e, st) \<or> fill rc t digest v d st = (Inr False, st)" by (simp add: fill_def)
  obtain e where "run_script None d (admit_script rc uuid state) st = (Inl e, st)"
    using run unfolding admit_script_def by blast
  then show "\<exists>e. admit_state rc state uuid d st = (Inl e, st)" by (simp add: admit_state_def)
  obtain e where "run_script None d (release_writer_script rc (wt_id token) (wt_epoch token)) st = (Inl e, st)"
    using run unfolding release_writer_script_def by blast
  then show "\<exists>e. release_writer rc token d st = (Inl e, st)" by (simp add: release_writer_def)
qed

lemma snapshot_validation_loads: "validate_snapshot env bytes = Inr () \<longleftrightarrow> is_ok (snapshot_db env bytes)"
proof -
  have row: "view_row env (name, mapping, vectors) = Inr x \<Longrightarrow> is_ok (parse_json env mapping) \<and> is_ok (parse_strings env vectors)" for name mapping vectors x
    by (auto simp: view_row_def split: sum.splits)
  have row': "is_ok (parse_json env mapping) \<and> is_ok (parse_strings env vectors) \<Longrightarrow> \<exists>x. view_row env (name, mapping, vectors) = Inr x" for name mapping vectors
    by (auto simp: view_row_def is_ok_iff)
  have rows: "list_all (\<lambda>(_, mapping, vectors). is_ok (parse_json env mapping) \<and> is_ok (parse_strings env vectors)) rows
      \<longleftrightarrow> eachR (\<lambda>r. map_ok (\<lambda>_. ()) (view_row env r)) rows = Inr ()" for rows
  proof (induction rows)
    case (Cons r rows)
    obtain name mapping vectors where "r = (name, mapping, vectors)" by (cases r)
    then show ?case using Cons row [of name mapping vectors] row' [of mapping vectors name] by auto
  qed simp
  have size: "max_catalog_bytes = 8 * 1024 * 1024" by (simp add: max_catalog_bytes_def)
  show ?thesis
  proof (cases "max_catalog_bytes < length bytes")
    case True
    then show ?thesis by (simp add: validate_snapshot_def snapshot_db_def parse_snapshot_def size)
  next
    case small: False
    show ?thesis
    proof (cases "parse_snapshot_text env bytes")
      case None
      then show ?thesis using small by (simp add: validate_snapshot_def snapshot_db_def parse_snapshot_def)
    next
      case (Some s)
      have "validate_snapshot env bytes = Inr () \<longleftrightarrow> distinct (map fst (sn_indices s))
          \<and> eachR (\<lambda>r. map_ok (\<lambda>_. ()) (view_row env r)) (sn_indices s) = Inr () \<and> distinct (map fst (sn_aliases s))"
        unfolding validate_snapshot_def size [symmetric] if_not_P [OF small] Some option.case rows by simp
      moreover have "is_ok (snapshot_db env bytes) \<longleftrightarrow> is_ok (into_db env s)"
        using small by (simp add: snapshot_db_def parse_snapshot_def Some)
      ultimately show ?thesis by (auto simp: into_db_def is_ok_iff simp del: eachR_ok_iff)
    qed
  qed
qed

section \<open>Properties\<close>

text \<open>C37: Recovery is a clean cut. Once it is acknowledged, every gateway of the old identity is refused
  whatever it tries (lookups, fills, admissions and the release of tokens it still holds) and changes
  nothing, while a gateway of the new identity finds an active control hash at generation zero without
  a single writer token left, however corrupt the old one was (it passes the check every script of the
  cache starts with, catalog included); and the new identity is used up. The fields of a Redis hash are
  distinct.\<close>

theorem recovery_replaces_identity:
  assumes old: "connect hasher opens connects url key deployment semantic ttl limit = Inr rc"
    and new: "connect hasher opens' connects' url' key new_identity semantic' ttl' limit' = Inr rc'"
    and run: "recover env rc new_identity True server d1 d2 st = (Inr (), st')"
    and fields: "distinct (map fst (hash_fields st (rc_control rc)))"
  shows "(\<exists>e. lookup rc digest d st' = (Inl e, st')) \<and> (\<exists>e. fill rc t digest v d st' = (Inl e, st') \<or> fill rc t digest v d st' = (Inr False, st'))
      \<and> (\<exists>e. admit_state rc state uuid d st' = (Inl e, st')) \<and> (\<exists>e. release_writer rc token d st' = (Inl e, st'))
      \<and> validate rc' False st' = Some (''0'', ''active'', 4)
      \<and> control_ok rc' st' \<and> current rc' st' = 0 \<and> fenced_by rc' st' = {} \<and> redis_exists st' (identity_key rc' new_identity)"
proof -
  note keys = connected_keys [OF old] and keys' = connected_keys [OF new]
  obtain n where "recover_script rc new_identity st = (Inr n, st')" and differ: "new_identity \<noteq> rc_deployment rc"
    using recover_ran(1) [OF run] by blast
  note st' = recover_script_store [OF old this(1)]
  let ?gs = "recovered_fields deployment new_identity (hash_fields st (rc_control rc))"
  note gs = recovered_fields_ok [OF fields, of deployment new_identity]
  have same: "rc_control rc' = rc_control rc" using keys(1) keys'(1) by simp
  have get: "hash_get st' (rc_control rc) = map_of ?gs" by (auto simp: hash_get_def hash_fields_def st')
  have "hash_get st' (rc_control rc) ''deployment'' = Some new_identity" by (simp add: get gs(2) del: map_of_eq_Some_iff)
  then have "validate rc allow st' = None" for allow
    using differ by (auto simp: validate_def Let_def split: option.splits)
  from unvalidated_fails [OF this] have refused: "(\<exists>e. lookup rc digest d st' = (Inl e, st')) \<and> (\<exists>e. fill rc t digest v d st' = (Inl e, st') \<or> fill rc t digest v d st' = (Inr False, st'))
      \<and> (\<exists>e. admit_state rc state uuid d st' = (Inl e, st')) \<and> (\<exists>e. release_writer rc token d st' = (Inl e, st'))" by blast
  have zero: "show_nat 0 = ''0''" using digit_char_zero [of 0] by (simp add: show_nat.simps [of 0])
  have "control_fields rc' ?gs"
    using gs(1) zero [symmetric] by (auto simp: control_fields_def gs(2) keys'(3) simp del: map_of_eq_Some_iff)
  moreover have "st' (rc_control rc') = Some (RHash ?gs, None)" by (simp add: st' same)
  ultimately have ok: "control_ok rc' st'" using connected_apart [OF new] by (auto simp: control_ok_def)
  have current: "current rc' st' = 0" by (simp add: current_def same get gs(2) epoch_value_def digit_value_def del: map_of_eq_Some_iff)
  have "fenced_by rc' st' = {}" by (auto simp: fenced_by_def same get gs(2) standard_field_def simp del: map_of_eq_Some_iff split: if_splits)
  moreover have "redis_exists st' (identity_key rc' new_identity)"
    using keys'(4) [of new_identity] keys(2) keys'(2)
    by (simp add: redis_exists_def st' same [symmetric] record_identity_def redis_set_def identity_key_def)
  ultimately have fresh: "control_ok rc' st' \<and> current rc' st' = 0 \<and> fenced_by rc' st' = {} \<and> redis_exists st' (identity_key rc' new_identity)"
    using ok current by simp
  obtain catalog where "plain_string st (rc_catalog rc) catalog" using recover_ran(2) [OF run] by blast
  moreover have "st' (rc_catalog rc') = st (rc_catalog rc)"
    using catalog_apart [OF old] keys(2) keys'(2) by (simp add: st' record_identity_def redis_set_def)
  ultimately have "redis_type st' (rc_catalog rc') = ''string''" "pttl st' (rc_catalog rc') = - 1"
    by (simp_all add: plain_string_def redis_type_def pttl_def)
  moreover have "length ?gs = 4"
    using gs(1) by (rule four_standard) (simp add: gs(2) standard_field_def del: map_of_eq_Some_iff)
  moreover have "redis_type st' (rc_control rc') = ''hash''" "pttl st' (rc_control rc') = - 1" "hash_fields st' (rc_control rc') = ?gs"
    by (simp_all add: same st' redis_type_def pttl_def hash_fields_def)
  ultimately have active: "validate rc' False st' = Some (''0'', ''active'', 4)"
    by (simp add: validate_def Let_def same get gs(2) keys'(3) decimal_def canonical_def is_digit_def del: map_of_eq_Some_iff)
  show ?thesis using refused fresh active by blast
qed

text \<open>C39: A deployment is only created, or replaced, over a catalog every gateway can load: when
  \<open>bootstrap\<close> or \<open>recover\<close> is acknowledged, the catalog key held, and still holds, a snapshot from which the request-local
  database is built. Both refuse a catalog exactly when it does not load: their validation accepts just the
  snapshots from which that database is built.\<close>

theorem validated_snapshot_loads:
  assumes "connect hasher opens connects url key deployment semantic ttl limit = Inr rc"
    and "bootstrap env rc quiesced server d1 d2 st = (Inr (), st') \<or> recover env rc new_identity quiesced server d1 d2 st = (Inr (), st')"
  shows "(\<exists>bytes. redis_get st (rc_catalog rc) = Inr (Some bytes) \<and> redis_get st' (rc_catalog rc) = Inr (Some bytes)
      \<and> is_ok (snapshot_db env bytes))
    \<and> (\<forall>bytes. validate_snapshot env bytes = Inr () \<longleftrightarrow> is_ok (snapshot_db env bytes))"
proof -
  note apart = catalog_apart [OF assms(1)]
  have "\<exists>bytes. validate_snapshot env bytes = Inr () \<and> plain_string st (rc_catalog rc) bytes \<and> st' (rc_catalog rc) = st (rc_catalog rc)"
    using assms(2)
  proof
    assume "bootstrap env rc quiesced server d1 d2 st = (Inr (), st')"
    then have "reconciled env rc (bootstrap_script rc) (rc_deployment rc) server d1 d2 st = (Inr (), st')"
      by (simp add: bootstrap_def split: if_splits)
    then obtain bytes n where "validate_snapshot env bytes = Inr ()" "plain_string st (rc_catalog rc) bytes"
      and "bootstrap_script rc (rc_deployment rc) st = (Inr n, st')" by (rule reconciled_catalog)
    moreover from this(3) have "st' (rc_catalog rc) = st (rc_catalog rc)"
      using apart by (auto simp: bootstrap_script_def hash_set_def record_identity_def redis_set_def split: if_splits)
    ultimately show ?thesis by blast
  next
    assume run: "recover env rc new_identity quiesced server d1 d2 st = (Inr (), st')"
    then obtain n where "recover_script rc new_identity st = (Inr n, st')" using recover_ran(1) by blast
    from recover_script_store [OF assms(1) this] have "st' (rc_catalog rc) = st (rc_catalog rc)"
      using apart by (simp add: record_identity_def redis_set_def)
    with recover_ran(2) [OF run] show ?thesis by blast
  qed
  then show ?thesis using snapshot_validation_loads by (auto simp: plain_string_def redis_get_def)
qed

section \<open>Concrete deployments\<close>

text \<open>The parts of a plain \<open>INFO\<close> answer.\<close>

lemma utf8_plain: "list_all is_ascii s \<Longrightarrow> utf8_chars s = map (\<lambda>c. [c]) s"
  using utf8_chars_ascii by (simp add: list_all_iff)

lemma trim_plain: "list_all (\<lambda>c. is_ascii c \<and> \<not> is_whitespace [c]) s \<Longrightarrow> trim s = s"
proof -
  assume s: "list_all (\<lambda>c. is_ascii c \<and> \<not> is_whitespace [c]) s"
  then have chars: "utf8_chars s = map (\<lambda>c. [c]) s" by (intro utf8_plain) (auto simp: list_all_iff)
  have drop: "dropWhile is_whitespace (map (\<lambda>c. [c]) xs) = map (\<lambda>c. [c]) xs" if "set xs \<subseteq> set s" for xs
    using that s by (cases xs) (auto simp: list_all_iff)
  have "concat (map (\<lambda>c. [c]) xs) = xs" for xs :: string by (induction xs) auto
  then show ?thesis using drop [of s] drop [of "rev s"] by (simp add: trim_def chars rev_map [symmetric])
qed

definition plain_text :: "string \<Rightarrow> bool" where
  "plain_text s \<longleftrightarrow> list_all (\<lambda>c. 33 \<le> byte c \<and> byte c < 127) s"

lemma plain_text_chars: "plain_text s \<Longrightarrow> list_all (\<lambda>c. is_ascii c \<and> \<not> is_whitespace [c]) s"
  "plain_text s \<Longrightarrow> CHR 0x0A \<notin> set s" "plain_text s \<Longrightarrow> CHR 0x0D \<notin> set s"
  by (auto simp: plain_text_def list_all_iff is_ascii_def is_whitespace_def)

lemma split_on_line: "c \<notin> set s \<Longrightarrow> split_on c (s @ c # rest) = s # split_on c rest"
  by (induction s) auto

lemma body_lines_plain:
  assumes "list_all plain_text ls"
  shows "body_lines (concat (map (\<lambda>l. l @ [CHR 0x0A]) ls)) = ls"
proof -
  have split: "split_on CHR 0x0A (concat (map (\<lambda>l. l @ [CHR 0x0A]) ls)) = ls @ [[]]"
    using assms by (induction ls) (auto simp: split_on_line plain_text_chars)
  have "map (\<lambda>l. case strip_suffix [CHR 0x0D] l of None \<Rightarrow> l | Some l' \<Rightarrow> l') ls = ls"
    using assms by (induction ls) (auto dest: plain_text_chars split: option.splits)
  then show ?thesis by (simp add: body_lines_def split Let_def)
qed

lemma split_once_plain: "c \<notin> set k \<Longrightarrow> split_once c (k @ c # v) = Some (k, v)"
  by (induction k) auto

lemma info_fields_plain:
  assumes "list_all (\<lambda>(k, v). plain_text k \<and> plain_text v \<and> CHR '':'' \<notin> set k) pairs"
  shows "info_fields (concat (map (\<lambda>(k, v). k @ '':'' @ v @ [CHR 0x0A]) pairs)) = map_of (rev pairs)"
proof -
  let ?ls = "map (\<lambda>(k, v). k @ '':'' @ v) pairs"
  have "(\<lambda>(k, v). k @ '':'' @ v @ [CHR 0x0A]) = (\<lambda>l. l @ [CHR 0x0A]) \<circ> (\<lambda>(k, v). k @ '':'' @ v)" by (auto simp: fun_eq_iff)
  moreover have plain: "list_all plain_text ?ls" using assms by (auto simp: list_all_iff plain_text_def)
  ultimately have lines: "body_lines (concat (map (\<lambda>(k, v). k @ '':'' @ v @ [CHR 0x0A]) pairs)) = ?ls"
    using body_lines_plain [of ?ls] by simp
  have "List.map_filter (\<lambda>line. split_once CHR '':'' (trim line)) ?ls = pairs"
    using assms plain
    by (induction pairs) (auto simp: List.map_filter_simps trim_plain plain_text_chars split_once_plain)
  then show ?thesis unfolding info_fields_def lines by (rule arg_cong)
qed

text \<open>A deployment \<open>a\<close> with a writer left behind is replaced by \<open>b\<close>.\<close>

definition durable_server :: server_answers where
  "durable_server = Some (map_of (expected_config @ [(''maxmemory'', ''1''), (''maxmemory-policy'', ''noeviction'')]),
     concat (map (\<lambda>(k, v). k @ '':'' @ v @ [CHR 0x0A]) ((''redis_mode'', ''standalone'') # expected_info)))"

lemma durable_server_ok: "validate_durability durable_server = Inr ()"
proof -
  have "list_all (\<lambda>(k, v). plain_text k \<and> plain_text v \<and> CHR '':'' \<notin> set k) ((''redis_mode'', ''standalone'') # expected_info)"
    by (simp add: expected_info_def plain_text_def)
  note info = info_fields_plain [OF this]
  have "parse_unsigned (2 ^ 64) ''1'' = Some 1" by (simp add: parse_unsigned_def is_digit_def digit_value_def)
  then show ?thesis
    unfolding durable_server_def validate_durability_def validate_server_def Let_def option.case prod.case info
    by (simp add: expected_info_def expected_config_def)
qed

definition sample_hasher :: "string \<Rightarrow> string" where "sample_hasher s = ''x''"

definition sample_deployment :: "string \<Rightarrow> cache_error + read_cache" where
  "sample_deployment name = connect sample_hasher (\<lambda>_. True) True ''redis'' ''{q}'' name ''s'' 60 100"

definition deployed :: "string \<Rightarrow> read_cache" where
  "deployed name = \<lparr>rc_catalog = ''{q}'', rc_control = ''{q}:read-cache:control'', rc_admin = ''{q}:admin'',
     rc_entries = ''{q}:read-cache:entry:'' @ name @ '':78:'', rc_deployment = name, rc_semantic = ''78'', rc_ttl = 60, rc_max = 100\<rparr>"

lemma hex_padded_2: "hex_padded 2 n = [hex_digit (n div 16 mod 16), hex_digit (n mod 16)]"
  unfolding numeral_2_eq_2 by simp

lemma sample_deployment_ok: "valid_identity name \<Longrightarrow> sample_deployment name = Inr (deployed name)"
proof -
  have "catalog_has_tag ''{q}''" by (simp add: catalog_has_tag_def)
  moreover have "hex_padded 2 120 = [hex_digit 7, hex_digit 8]"
    using hex_padded_2 [of 120] by simp
  then have "cache_hash sample_hasher [''s''] = ''78''"
    using of_char_eq_iff [of "hex_digit 7" "CHR ''7''", where ?'a = nat] of_char_eq_iff [of "hex_digit 8" "CHR ''8''", where ?'a = nat]
    by (simp add: cache_hash_def sample_hasher_def byte_hex_digit)
  ultimately show "valid_identity name \<Longrightarrow> sample_deployment name = Inr (deployed name)"
    by (simp add: sample_deployment_def connect_def deployed_def max_ttl_seconds_def max_entry_bytes_def)
qed

definition stuck_store :: redis where
  "stuck_store = [''{q}'' \<mapsto> (RString ''{}'', None),
     ''{q}:read-cache:control'' \<mapsto> (RHash (control_hash @ [(writer_field (replicate 32 CHR ''0''), ''0'')]), None),
     ''{q}:read-cache:initialized'' \<mapsto> (RString ''a'', None), ''{q}:read-cache:identity:a'' \<mapsto> (RString ''1'', None)]"

lemma stuck_catalog: "validated_catalog shared_env (deployed ''a'') Delivered stuck_store = (Inr ''{}'', stuck_store)"
proof -
  have "validate_snapshot shared_env ''{}'' = Inr ()"
    by (simp add: validate_snapshot_def shared_env_def alias_tables_def sample_parse_def parse_strings_def)
  then show ?thesis
    by (simp add: validated_catalog_def invoke_def catalog_script_def Let_def deployed_def stuck_store_def redis_type_def pttl_def redis_get_def)
qed

lemma stuck_recovery: "\<exists>st'. recover shared_env (deployed ''a'') ''b'' True durable_server Delivered Delivered stuck_store = (Inr (), st')"
proof -
  have plain: "plain_string stuck_store (initialized_key (deployed ''a'')) ''a''" "plain_string stuck_store (identity_key (deployed ''a'') ''a'') ''1''"
    by (simp_all add: plain_string_def stuck_store_def redis_type_def redis_get_def pttl_def initialized_key_def identity_key_def deployed_def)
  then have script: "\<exists>st'. recover_script (deployed ''a'') ''b'' stuck_store = (Inr 1, st')"
    by (auto simp: recover_script_def Let_def deployed_def)
  have "administration_script (deployed ''a'') (recover_script (deployed ''a'')) ''b'' ''{}'' stuck_store = recover_script (deployed ''a'') ''b'' stuck_store"
    by (simp add: administration_script_def redis_exists_def redis_type_def redis_get_def pttl_def identity_key_def)
      (simp add: deployed_def stuck_store_def)
  with script have "\<exists>st'. administration (deployed ''a'') (recover_script (deployed ''a'')) ''b'' ''{}'' Delivered stuck_store = (Inr (), st')"
    by (auto simp: administration_def invoke_def)
  moreover have "valid_identity ''b''" "rc_deployment (deployed ''a'') = ''a''" by (simp_all add: valid_identity_def is_ascii_alphanumeric_def deployed_def)
  ultimately show ?thesis by (simp add: recover_def reconciled_def durable_server_ok stuck_catalog)
qed

lemma recovery_replaces_identity_witness:
  "\<exists>st'. recover shared_env (deployed ''a'') ''b'' True durable_server Delivered Delivered stuck_store = (Inr (), st')
    \<and> (\<exists>e. lookup (deployed ''a'') sample_digest Delivered st' = (Inl e, st'))
    \<and> control_ok (deployed ''b'') st' \<and> fenced_by (deployed ''b'') st' = {}"
proof -
  obtain st' where run: "recover shared_env (deployed ''a'') ''b'' True durable_server Delivered Delivered stuck_store = (Inr (), st')"
    using stuck_recovery by blast
  have names: "valid_identity ''a''" "valid_identity ''b''" by (simp_all add: valid_identity_def is_ascii_alphanumeric_def is_digit_def)
  have "hash_fields stuck_store (rc_control (deployed ''a'')) = control_hash @ [(writer_field (replicate 32 CHR ''0''), ''0'')]"
    by (simp add: hash_fields_def stuck_store_def deployed_def)
  then have fields: "distinct (map fst (hash_fields stuck_store (rc_control (deployed ''a''))))"
    by (simp add: control_hash_def writer_field_def)
  note result = recovery_replaces_identity
    [OF sample_deployment_ok [OF names(1), unfolded sample_deployment_def] sample_deployment_ok [OF names(2), unfolded sample_deployment_def] run fields]
  show ?thesis using run result [of sample_digest Delivered] by blast
qed

lemma validated_snapshot_loads_witness:
  "\<exists>st' bytes. recover shared_env (deployed ''a'') ''b'' True durable_server Delivered Delivered stuck_store = (Inr (), st')
    \<and> redis_get st' (rc_catalog (deployed ''a'')) = Inr (Some bytes) \<and> is_ok (snapshot_db shared_env bytes)"
proof -
  obtain st' where run: "recover shared_env (deployed ''a'') ''b'' True durable_server Delivered Delivered stuck_store = (Inr (), st')"
    using stuck_recovery by blast
  have "valid_identity ''a''" by (simp add: valid_identity_def is_ascii_alphanumeric_def is_digit_def)
  from validated_snapshot_loads [OF sample_deployment_ok [OF this, unfolded sample_deployment_def] disjI2 [OF run]] run
  show ?thesis by blast
qed

end
