(* ===== verification/CatalogHistory.thy ===== *)
theory CatalogHistory
  imports SharedCatalog
begin

text \<open>
  The shared catalog over time (\<open>src/shared_catalog.rs\<close>): any number of gateways open it, publish
  to it and give it up, over connections that lose messages, while an operator may clear a claim at
  any moment. The steps are the client operations of \<open>SharedCatalog\<close> under an arbitrary delivery.
\<close>

section \<open>Steps\<close>

text \<open>The store, the claims in use with the tables each request started from, and the uuids drawn.\<close>

record history =
  store :: redis
  holding :: "(string \<times> tables) list"
  drawn :: "string set"

definition drop_claim :: "string \<Rightarrow> (string \<times> tables) list \<Rightarrow> (string \<times> tables) list" where
  "drop_claim c hs = filter (\<lambda>(c', _). c' \<noteq> c) hs"

text \<open>A uuid is drawn afresh for every administrative request; \<open>abandoned\<close> is a request that is
  cancelled or loses its process, \<open>cleared\<close> the operator's recovery.\<close>

inductive catalog_step :: "env \<Rightarrow> string \<Rightarrow> history \<Rightarrow> history \<Rightarrow> bool" for env key where
  opened: "\<lbrakk>uuid \<notin> drawn h; uuid \<noteq> []; begin_tracked env key True uuid d (store h) = (Inr (t, claim), st')\<rbrakk> \<Longrightarrow>
    catalog_step env key h (h\<lparr>store := st', drawn := insert uuid (drawn h), holding := (uuid, t) # holding h\<rparr>)"
| refused: "\<lbrakk>uuid \<notin> drawn h; uuid \<noteq> []; begin_tracked env key True uuid d (store h) = (Inl e, st')\<rbrakk> \<Longrightarrow>
    catalog_step env key h (h\<lparr>store := st', drawn := insert uuid (drawn h)\<rparr>)"
| committed: "\<lbrakk>(c, t) \<in> set (holding h); commit env key t' c d (store h) = (r, st')\<rbrakk> \<Longrightarrow>
    catalog_step env key h (h\<lparr>store := st', holding := drop_claim c (holding h)\<rparr>)"
| released: "\<lbrakk>(c, t) \<in> set (holding h); release key c d (store h) = (r, st')\<rbrakk> \<Longrightarrow>
    catalog_step env key h (h\<lparr>store := st', holding := drop_claim c (holding h)\<rparr>)"
| abandoned: "catalog_step env key h (h\<lparr>holding := drop_claim c (holding h)\<rparr>)"
| cleared: "catalog_step env key h (h\<lparr>store := redis_del (admin_key key) (store h)\<rparr>)"

inductive catalog_reachable :: "env \<Rightarrow> string \<Rightarrow> string \<Rightarrow> history \<Rightarrow> bool" for env key start where
  start: "catalog_reachable env key start
    \<lparr>store = [key \<mapsto> (RString start, None)], holding = [], drawn = {}\<rparr>"
| step: "\<lbrakk>catalog_reachable env key start h; catalog_step env key h h'\<rbrakk> \<Longrightarrow> catalog_reachable env key start h'"

section \<open>The invariant\<close>

text \<open>A claim in the store has been drawn; a request that holds the claim of the store started from the
  tables the store still has.\<close>

definition catalog_inv :: "env \<Rightarrow> string \<Rightarrow> history \<Rightarrow> bool" where
  "catalog_inv env key h \<longleftrightarrow>
     (\<exists>claim. redis_get (store h) (admin_key key) = Inr claim \<and> (\<forall>c. claim = Some c \<longrightarrow> c \<in> drawn h))
     \<and> fst ` set (holding h) \<subseteq> drawn h
     \<and> (\<forall>(c, t)\<in>set (holding h). redis_get (store h) (admin_key key) = Inr (Some c) \<longrightarrow>
          (\<exists>bytes. redis_get (store h) key = Inr (Some bytes) \<and> snapshot_db env bytes = Inr t))"

lemma drop_claim_set: "set (drop_claim c hs) = {p \<in> set hs. fst p \<noteq> c}"
  by (auto simp: drop_claim_def)

text \<open>What the closing scripts can do to the store.\<close>

lemma claimed_store:
  assumes "claimed d script st = (r, st')"
  shows "st' = st \<or> st' = snd (script st)"
  using assms invoke_store [of d script st] by (auto simp: claimed_def split: prod.splits option.splits)

lemma commit_store:
  assumes "commit env key t c d st = (r, st')"
  shows "st' = st \<or> redis_get st (admin_key key) = Inr (Some c)
    \<and> st' = redis_del (admin_key key) (redis_set key (snapshot_text env (snapshot_read t)) st)"
proof -
  have "st' = st \<or> st' = snd (publish_script key c (snapshot_text env (snapshot_read t)) st)"
    using assms claimed_store by (auto simp: commit_def publish_def split: if_splits)
  then show ?thesis by (auto simp: publish_script_def split: sum.splits if_splits)
qed

lemma release_store:
  assumes "release key c d st = (r, st')"
  shows "st' = st \<or> st' = redis_del (admin_key key) st"
proof -
  have "st' = st \<or> st' = snd (release_script key c st)"
    using assms claimed_store by (auto simp: release_def)
  then show ?thesis by (auto simp: release_script_def split: sum.splits if_splits)
qed

text \<open>Only a store without a claim is opened.\<close>

lemma begin_script_free: "redis_get st (admin_key key) = Inr (Some c) \<Longrightarrow> snd (begin_script key uuid st) = st"
  by (cases "st (admin_key key)") (auto simp: begin_script_def redis_exists_def redis_get_def)

lemma tracked_store: "begin_tracked env key admin uuid d st = (r, st') \<Longrightarrow> st' = snd (opened key admin uuid d st)"
  using begin_snapshot_opened(1) [of env key admin uuid d st] by (auto simp: begin_tracked_def split: prod.splits sum.splits)

lemma begin_free:
  assumes "begin_tracked env key True uuid d st = (r, st')" "redis_get st (admin_key key) = Inr claim"
  shows "st' = st \<or> st' = redis_set (admin_key key) uuid st \<and> claim = None"
proof (cases claim)
  case None
  then show ?thesis using begin_tracked_store(1) [OF assms(1)] by simp
next
  case (Some c)
  then have "st' = st"
    using assms(2) tracked_store [OF assms(1)] invoke_store [of d "begin_script key uuid" st]
    by (auto simp: opened_def begin_script_free)
  then show ?thesis ..
qed

lemma begin_holds:
  assumes "begin_tracked env key True uuid d st = (Inr (t, c), st')" "uuid \<noteq> []"
  shows "st' = redis_set (admin_key key) uuid st" "\<exists>bytes. redis_get st key = Inr (Some bytes) \<and> snapshot_db env bytes = Inr t"
proof -
  show "\<exists>bytes. redis_get st key = Inr (Some bytes) \<and> snapshot_db env bytes = Inr t"
    using begin_tracked_opened(2) [OF assms(1)] .
  obtain s where "fst (begin_snapshot env key True uuid d st) = Inr (s, c)"
    using assms(1) by (auto simp: begin_tracked_def split: prod.split_asm sum.split_asm)
  then obtain bytes where "fst (opened key True uuid d st) = Some [''ok'', bytes]"
    using begin_snapshot_opened(3) by blast
  then show "st' = redis_set (admin_key key) uuid st"
    using opened_snapshot tracked_store [OF assms(1)] assms(2) by simp
qed

lemma cleared_inv: "catalog_inv env key h \<Longrightarrow> catalog_inv env key (h\<lparr>store := redis_del (admin_key key) (store h)\<rparr>)"
  by (auto simp: catalog_inv_def)

lemma dropped_inv: "catalog_inv env key h \<Longrightarrow> catalog_inv env key (h\<lparr>holding := drop_claim c (holding h)\<rparr>)"
  by (fastforce simp: catalog_inv_def drop_claim_set)

lemma drawn_inv: "catalog_inv env key h \<Longrightarrow> catalog_inv env key (h\<lparr>drawn := insert c (drawn h)\<rparr>)"
  by (fastforce simp: catalog_inv_def)

lemma claimed_inv:
  assumes "catalog_inv env key h" "c \<notin> drawn h"
  shows "catalog_inv env key (h\<lparr>store := redis_set (admin_key key) c (store h), drawn := insert c (drawn h)\<rparr>)"
  using assms by (force simp: catalog_inv_def)

lemma holding_inv:
  assumes "catalog_inv env key h" "c \<in> drawn h" "redis_get (store h) key = Inr (Some bytes)" "snapshot_db env bytes = Inr t"
  shows "catalog_inv env key (h\<lparr>holding := (c, t) # holding h\<rparr>)"
  using assms by (auto simp: catalog_inv_def)

lemma published_inv:
  assumes "catalog_inv env key h"
  shows "catalog_inv env key (h\<lparr>store := redis_del (admin_key key) (redis_set key text (store h))\<rparr>)"
  using assms by (auto simp: catalog_inv_def)

lemma step_inv: "catalog_step env key h h' \<Longrightarrow> catalog_inv env key h \<Longrightarrow> catalog_inv env key h'"
proof (induction rule: catalog_step.induct)
  case (opened uuid h d t claim st')
  note held = begin_holds [OF opened(3,2)]
  then obtain bytes where "redis_get (store h) key = Inr (Some bytes)" "snapshot_db env bytes = Inr t" by blast
  then show ?case
    using holding_inv [OF claimed_inv [OF opened(4,1)], of uuid bytes t] by (simp add: held(1))
next
  case (refused uuid h d e st')
  then have "st' = store h \<or> st' = redis_set (admin_key key) uuid (store h)"
    using begin_tracked_store(1) by metis
  then show ?case
    using drawn_inv [OF refused(4)] claimed_inv [OF refused(4,1)] by fastforce
next
  case (committed c t h t' d r st')
  then have "catalog_inv env key (h\<lparr>store := st'\<rparr>)"
    using commit_store [OF committed(2)] published_inv by fastforce
  from dropped_inv [OF this, of c] show ?case by simp
next
  case (released c t h d r st')
  then have "catalog_inv env key (h\<lparr>store := st'\<rparr>)"
    using release_store [OF released(2)] cleared_inv by fastforce
  from dropped_inv [OF this, of c] show ?case by simp
qed (simp_all add: dropped_inv cleared_inv)

lemma reachable_inv: "catalog_reachable env key start h \<Longrightarrow> catalog_inv env key h"
proof (induction rule: catalog_reachable.induct)
  case start
  show ?case by (auto simp: catalog_inv_def redis_get_def)
qed (rule step_inv)

section \<open>Properties\<close>

text \<open>C35: No administrative update is lost. In every history of gateways, lost messages and operators
  clearing claims, a publication either changes nothing or replaces exactly the catalog its request
  started from, and an acknowledged one has done so; what another request published in between is
  never overwritten.\<close>

theorem publication_replaces_its_snapshot:
  assumes "catalog_reachable env key start h" "(c, t) \<in> set (holding h)"
    and "commit env key t' c d (store h) = (r, st')"
  shows "st' = store h \<and> r \<noteq> Inr () \<or>
    (\<exists>bytes. redis_get (store h) key = Inr (Some bytes) \<and> snapshot_db env bytes = Inr t
      \<and> redis_get st' key = Inr (Some (snapshot_text env (snapshot_read t'))) \<and> redis_get st' (admin_key key) = Inr None)"
proof -
  have inv: "catalog_inv env key h" using assms(1) by (rule reachable_inv)
  show ?thesis
  proof (cases "redis_get (store h) (admin_key key) = Inr (Some c) \<and>
      st' = redis_del (admin_key key) (redis_set key (snapshot_text env (snapshot_read t')) (store h))")
    case True
    then show ?thesis using inv assms(2) by (fastforce simp: catalog_inv_def)
  next
    case False
    then have same: "st' = store h" using commit_store [OF assms(3)] by blast
    have "r \<noteq> Inr ()"
    proof
      assume "r = Inr ()"
      then have "publish_script key c (snapshot_text env (snapshot_read t')) (store h) = (Inr 1, st')"
        using assms(3) by (auto simp: commit_def publish_def split: if_splits dest!: claimed_done)
      then show False using publish_script_done [of key c] same by fastforce
    qed
    then show ?thesis using same by simp
  qed
qed

text \<open>A history in which one request has opened the catalog.\<close>

definition claimed_history :: history where
  "claimed_history = \<lparr>store = redis_set ''cat:admin'' ''c1'' catalog_store, holding = [(''c1'', alias_tables)], drawn = {''c1''}\<rparr>"

lemma claimed_history_reachable:
  "catalog_reachable (shared_env\<lparr>shared_catalog := True\<rparr>) ''cat'' ''{}'' claimed_history"
proof -
  let ?start = "\<lparr>store = catalog_store, holding = [], drawn = {}\<rparr> :: history"
  have "catalog_step (shared_env\<lparr>shared_catalog := True\<rparr>) ''cat'' ?start
      (?start\<lparr>store := redis_set ''cat:admin'' ''c1'' catalog_store, drawn := {''c1''}, holding := [(''c1'', alias_tables)]\<rparr>)"
    using catalog_step.opened [of "''c1''" ?start "shared_env\<lparr>shared_catalog := True\<rparr>" "''cat''" Delivered] catalog_opens
    by simp
  then have "catalog_step (shared_env\<lparr>shared_catalog := True\<rparr>) ''cat'' ?start claimed_history"
    by (simp add: claimed_history_def)
  then show ?thesis
    using catalog_reachable.start catalog_reachable.step by (fastforce simp: catalog_store_def)
qed

lemma publication_replaces_its_snapshot_witness:
  "redis_get (snd (commit (shared_env\<lparr>shared_catalog := True\<rparr>) ''cat'' moved_tables ''c1'' Delivered (store claimed_history))) ''cat''
    = Inr (Some ''products:boots'')"
proof -
  let ?run = "commit (shared_env\<lparr>shared_catalog := True\<rparr>) ''cat'' moved_tables ''c1'' Delivered (store claimed_history)"
  have same: "snapshot_text (shared_env\<lparr>shared_catalog := True\<rparr>) = snapshot_text shared_env" by simp
  obtain st' where run: "?run = (Inr (), st')"
    by (simp add: commit_def publish_def claimed_def invoke_def publish_script_def moved_text max_catalog_bytes_def admin_key_def
        claimed_history_def)
  moreover have "(''c1'', alias_tables) \<in> set (holding claimed_history)" by (simp add: claimed_history_def)
  ultimately show ?thesis
    using publication_replaces_its_snapshot [OF claimed_history_reachable, of "''c1''" alias_tables moved_tables Delivered "Inr ()" st']
    by (auto simp: moved_text same)
qed

end
