(* ===== verification/CacheRuntime.thy ===== *)
theory CacheRuntime
  imports CacheAdmin CatalogHistory
begin

text \<open>
  Requests under the read cache (\<open>src/cache_request.rs\<close>, \<open>src/cache_runtime.rs\<close>, and
  \<open>dispatch_uninstrumented\<close> of \<open>src/main.rs\<close>): which requests may be cached, the envelope a response
  is stored in, and the dispatcher that fences writers with a token and serves reads from the cache.
  The JSON text of an envelope and the syntax of HTTP headers belong to libraries and are
  parameters; diagnostic spans and the warning about a kept token are left out.
\<close>

section \<open>Eligible requests\<close>

definition cacheable_parameter :: "env \<Rightarrow> string \<Rightarrow> bool" where
  "cacheable_parameter env pair =
     (let (name, v) = unwrap_or (pair, []) (split_once CHR ''='' pair) in
      case (percent_utf8 env name, percent_utf8 env v) of
        (Some name, Some v) \<Rightarrow>
          name = ''request_cache'' \<and> v = ''true''
          \<or> name = ''rest_total_hits_as_int'' \<and> (v = ''true'' \<or> v = ''false'')
      | _ \<Rightarrow> False)"

definition cacheable_options :: "string list" where
  "cacheable_options = [''query'', ''post_filter'', ''from'', ''size'', ''sort'', ''search_after'',
     ''track_total_hits'', ''_source'', ''collapse'', ''aggs'', ''aggregations'']"

definition cacheable_search :: "env \<Rightarrow> string option \<Rightarrow> json \<Rightarrow> object \<Rightarrow> bool" where
  "cacheable_search env query v ms =
     (list_all (\<lambda>k. k \<in> set cacheable_options) (map fst ms)
      \<and> \<not> is_some_and (get ''query'' v) (\<lambda>q. \<not> is_ok (validate_post_filter q))
      \<and> \<not> is_some_and (get ''post_filter'' v) (\<lambda>q. \<not> is_ok (validate_post_filter q))
      \<and> (case (parse_search_window v (max_page_size (cfg env)), parse_sort_specs (get ''sort'' v)) of
           (Inr (start, _), Inr sorts) \<Rightarrow>
             is_ok (validate_search_after v sorts start)
             \<and> is_ok (parse_track_total_hits v)
             \<and> is_ok (parse_rest_total_hits_as_int (percent_utf8 env) query)
             \<and> is_ok (parse_source_filter (get ''_source'' v) ''_source'')
             \<and> is_ok (parse_collapse_spec (get ''collapse'' v) (max_page_size (cfg env)))
             \<and> is_ok (parse_plan (chrono env) (or_else (get ''aggs'' v) (get ''aggregations'' v)))
         | _ \<Rightarrow> False))"

definition eligible :: "env \<Rightarrow> http_request \<Rightarrow> bool" where
  "eligible env rq =
     (let m = rq_method rq; body = rq_body rq in
      \<not> request_body_limit (cfg env) m (rq_path rq) < length body
      \<and> is_ok (validate_request_parameters env (rq_query rq))
      \<and> list_all (cacheable_parameter env) (filter (\<lambda>p. p \<noteq> []) (split_on CHR ''&'' (unwrap_or [] (rq_query rq))))
      \<and> (case (decode_path_segments env (rq_path rq), if trim_is_empty body then Inr (JObj []) else parse_json env body) of
           (Inr parts, Inr (JObj ms)) \<Rightarrow>
             (case parts of
                [_, endpoint, _] \<Rightarrow> endpoint = ''_doc'' \<and> m = GET \<and> ms = []
              | [_, endpoint] \<Rightarrow> endpoint = ''_search'' \<and> (m = GET \<or> m = POST) \<and> cacheable_search env (rq_query rq) (JObj ms) ms
              | _ \<Rightarrow> False)
         | _ \<Rightarrow> False))"

section \<open>Envelopes\<close>

record envelope =
  ev_version :: nat
  ev_status :: nat
  ev_headers :: "(string \<times> string) list"
  ev_body :: json

text \<open>\<open>header_name\<close> reads a header name into lower case, \<open>header_value\<close> accepts a value.\<close>

record wire =
  envelope_text :: "envelope \<Rightarrow> string"
  parse_envelope :: "string \<Rightarrow> envelope option"
  header_name :: "string \<Rightarrow> string option"
  header_value :: "string \<Rightarrow> bool"

fun decode_headers :: "wire \<Rightarrow> (string \<times> string) list \<Rightarrow> (string \<times> string) list option" where
  "decode_headers wire [] = Some []"
| "decode_headers wire ((name, v) # hs) = (case header_name wire name of
     None \<Rightarrow> None
   | Some name \<Rightarrow>
       if name = ''content-length'' then decode_headers wire hs
       else if name \<in> {''transfer-encoding'', ''connection'', ''upgrade''} then None
       else if \<not> header_value wire v then None
       else map_option (Cons (name, v)) (decode_headers wire hs))"

text \<open>The body a stored envelope is served with.\<close>

definition served_body :: "env \<Rightarrow> string \<Rightarrow> json \<Rightarrow> json option" where
  "served_body env path body =
     (if search_route env path
      then if is_some_and (get ''took'' body) is_number \<and> is_some_and (Option.bind (get ''hits'' body) (get ''hits'')) is_array
           then (case body of JObj ms \<Rightarrow> Some (JObj (obj_insert ''took'' (jint (elapsed_ms env)) ms)) | _ \<Rightarrow> None)
           else None
      else if get ''found'' body = Some (JBool True) \<and> is_some_and (get ''_id'' body) is_string then Some body
      else None)"

definition decode :: "env \<Rightarrow> wire \<Rightarrow> string \<Rightarrow> nat \<Rightarrow> string \<Rightarrow> response option" where
  "decode env wire bytes limit path =
     (if limit < length bytes then None
      else case parse_envelope wire bytes of
        None \<Rightarrow> None
      | Some ev \<Rightarrow>
          if ev_version ev \<noteq> 1 \<or> ev_status ev \<noteq> 200 \<or> \<not> is_object (ev_body ev) then None
          else Option.bind (served_body env path (ev_body ev)) (\<lambda>body.
               Option.bind (decode_headers wire (ev_headers ev)) (\<lambda>hs.
                 if map_of hs ''content-type'' \<noteq> Some ''application/json'' then None
                 else Some \<lparr>resp_status = 200, resp_headers = hs, resp_body = Some body\<rparr>)))"

text \<open>The envelope of a response, when it may be stored.\<close>

definition response_text :: "env \<Rightarrow> response \<Rightarrow> string" where
  "response_text env r = (case resp_body r of None \<Rightarrow> [] | Some v \<Rightarrow> json_text env v)"

definition stored_envelope :: "env \<Rightarrow> wire \<Rightarrow> nat \<Rightarrow> response \<Rightarrow> string option" where
  "stored_envelope env wire limit r =
     (if resp_status r \<noteq> 200 \<or> limit < length (response_text env r) then None
      else case parse_json env (response_text env r) of
        Inl _ \<Rightarrow> None
      | Inr v \<Rightarrow>
          let encoded = envelope_text wire \<lparr>ev_version = 1, ev_status = resp_status r, ev_headers = resp_headers r, ev_body = v\<rparr>
          in if limit < length encoded then None else Some encoded)"

section \<open>The dispatcher\<close>

record cache_runtime =
  cr_cache :: read_cache
  serve_reads :: bool
  cr_max_entry_bytes :: nat

text \<open>Everything outside the request: the deliveries of the cache's scripts, the token's uuid, and what
  others do to the store between the steps.\<close>

record cache_surroundings =
  cs_catalog :: surroundings
  token_uuid :: string
  on_admit :: delivery
  on_release :: delivery
  on_lookup :: delivery
  on_fill :: delivery
  before_dispatch :: "redis \<Rightarrow> redis"
  after_dispatch :: "redis \<Rightarrow> redis"

definition write_refused :: gateway_error where
  "write_refused = Upstream ''cache writer coordination unavailable or requires recovery''"

definition release_failed :: gateway_error where
  "release_failed = Upstream ''cache writer completion could not be recorded''"

definition cached_write :: "env \<Rightarrow> cache_runtime \<Rightarrow> string option \<Rightarrow> cache_surroundings \<Rightarrow> nat \<Rightarrow> http_request \<Rightarrow> redis \<Rightarrow> world \<Rightarrow>
    response option \<times> redis \<times> world" where
  "cached_write env runtime catalog around fuel rq st w =
     (let rc = cr_cache runtime in
      case admit_writer rc (token_uuid around) (on_admit around) st of
        (Inl _, st1) \<Rightarrow> (Some (error_response write_refused), st1, w)
      | (Inr token, st1) \<Rightarrow>
          (case dispatch_catalog (env\<lparr>tracked := True\<rparr>) catalog (cs_catalog around) fuel rq
                  (before_dispatch around st1) (w\<lparr>w_attempts := 0\<rparr>) of
             (None, st2, w') \<Rightarrow> (None, st2, w')
           | (Some out, st2, w') \<Rightarrow>
               if publication_complete out \<and> w_attempts w' = 0
               then (case release_writer rc token (on_release around) (after_dispatch around st2) of
                 (Inl _, st3) \<Rightarrow> (Some (error_response release_failed), st3, w')
               | (Inr _, st3) \<Rightarrow> (Some (co_response out), st3, w'))
               else (Some (co_response out), after_dispatch around st2, w')))"

definition plain_dispatch :: "env \<Rightarrow> string option \<Rightarrow> surroundings \<Rightarrow> nat \<Rightarrow> http_request \<Rightarrow> redis \<Rightarrow> world \<Rightarrow>
    response option \<times> redis \<times> world" where
  "plain_dispatch env catalog around fuel rq st w = (case dispatch_catalog env catalog around fuel rq st w of
     (out, st', w') \<Rightarrow> (map_option co_response out, st', w'))"

text \<open>A miss is answered over the snapshot the lookup returned, whose error is the answer.\<close>

definition answer_miss :: "env \<Rightarrow> nat \<Rightarrow> http_request \<Rightarrow> string \<Rightarrow> world \<Rightarrow> gateway_error + response option \<times> world" where
  "answer_miss env fuel rq bytes w =
     (if uses_read_view env (rq_method rq) (rq_path rq)
      then map_ok (\<lambda>view. serve (env\<lparr>read_catalog := Some view\<rparr>) fuel rq w) (snapshot_read_view env bytes)
      else map_ok (\<lambda>t. case serve_local (env\<lparr>read_catalog := None\<rparr>) fuel rq t w of (r, _, w') \<Rightarrow> (r, w')) (snapshot_db env bytes))"

definition uri_of :: "http_request \<Rightarrow> string" where
  "uri_of rq = (case rq_query rq of None \<Rightarrow> rq_path rq | Some q \<Rightarrow> rq_path rq @ ''?'' @ q)"

definition count_hit :: "env \<Rightarrow> string \<Rightarrow> world \<Rightarrow> world" where
  "count_hit env path w =
     (if search_route env path \<and> analytics_on (cfg env)
      then w\<lparr>w_analytics := (w_analytics w)\<lparr>an_requests := an_requests (w_analytics w) + 1,
             an_supported := an_supported (w_analytics w) + 1\<rparr>\<rparr>
      else w)"

definition store_response :: "env \<Rightarrow> wire \<Rightarrow> cache_runtime \<Rightarrow> cache_surroundings \<Rightarrow> string \<Rightarrow> read_ticket option \<Rightarrow> response \<Rightarrow> redis \<Rightarrow> redis" where
  "store_response env wire runtime around key ticket r st = (case ticket of
     None \<Rightarrow> st
   | Some t \<Rightarrow> (case stored_envelope env wire (cr_max_entry_bytes runtime) r of
       None \<Rightarrow> st
     | Some encoded \<Rightarrow> snd (fill (cr_cache runtime) t key encoded (on_fill around) st)))"

definition cached_read :: "env \<Rightarrow> wire \<Rightarrow> cache_runtime \<Rightarrow> string option \<Rightarrow> cache_surroundings \<Rightarrow> nat \<Rightarrow> http_request \<Rightarrow> redis \<Rightarrow> world \<Rightarrow>
    response option \<times> redis \<times> world" where
  "cached_read env wire runtime catalog around fuel rq st w =
     (let rc = cr_cache runtime; path = rq_path rq;
          key = request_key (sha256 env) rc (method_text (rq_method rq)) (uri_of rq) (rq_body rq);
          (looked, st1) = lookup rc key (on_lookup around) st;
          found = ok_opt looked
      in case Option.bind (Option.bind found lu_response) (\<lambda>bytes. decode env wire bytes (cr_max_entry_bytes runtime) path) of
        Some r \<Rightarrow> (Some r, st1, count_hit env path w)
      | None \<Rightarrow>
          let filling = (\<lambda>r st2 w'. case r of
                None \<Rightarrow> (None, st2, w')
              | Some resp \<Rightarrow> (Some resp, store_response env wire runtime around key (Option.bind found lu_ticket) resp st2, w'))
          in (case Option.bind found lu_catalog of
              Some bytes \<Rightarrow>
                (case answer_miss (env\<lparr>shared_catalog := (catalog \<noteq> None)\<rparr>) fuel rq bytes w of
                   Inl e \<Rightarrow> (Some (error_response e), st1, w)
                 | Inr (r, w') \<Rightarrow> filling r (meanwhile (cs_catalog around) st1) w')
            | None \<Rightarrow>
                (case plain_dispatch env catalog (cs_catalog around) fuel rq st1 w of
                   (r, st2, w') \<Rightarrow> filling r st2 w')))"

definition dispatch_cached :: "env \<Rightarrow> wire \<Rightarrow> cache_runtime \<Rightarrow> string option \<Rightarrow> cache_surroundings \<Rightarrow> nat \<Rightarrow> http_request \<Rightarrow> redis \<Rightarrow> world \<Rightarrow>
    response option \<times> redis \<times> world" where
  "dispatch_cached env wire runtime catalog around fuel rq st w =
     (if mutating env (rq_method rq) (rq_path rq) then cached_write env runtime catalog around fuel rq st w
      else if serve_reads runtime \<and> eligible env rq then cached_read env wire runtime catalog around fuel rq st w
      else plain_dispatch env catalog (cs_catalog around) fuel rq st w)"

definition dispatch :: "env \<Rightarrow> wire \<Rightarrow> cache_runtime option \<Rightarrow> string option \<Rightarrow> cache_surroundings \<Rightarrow> nat \<Rightarrow> http_request \<Rightarrow> redis \<Rightarrow> world \<Rightarrow>
    response option \<times> redis \<times> world" where
  "dispatch env wire runtime catalog around fuel rq st w = (case runtime of
     Some runtime \<Rightarrow> dispatch_cached env wire runtime catalog around fuel rq st w
   | None \<Rightarrow> plain_dispatch env catalog (cs_catalog around) fuel rq st w)"

section \<open>The ledger over a whole request\<close>

context admin_invariant
begin

lemma inv_admin_routes:
  "fixed_routes env m path body = Some h \<Longrightarrow> preserves I h"
  "index_routes env m index body = Some h \<Longrightarrow> preserves I h"
  "control_routes env m index endpoint body = Some h \<Longrightarrow> preserves I h"
proof -
  show "fixed_routes env m path body = Some h \<Longrightarrow> preserves I h"
    using inv_fixed_routes [of path m body h] by (cases "path = ''/_aliases'' \<and> m = POST") (auto simp: fixed_routes_def inv_alias_batch)
  show "index_routes env m index body = Some h \<Longrightarrow> preserves I h"
    using inv_index_routes [of m index body h] by (cases "m = PUT \<or> m = DELETE") (auto simp: index_routes_def inv_create_index inv_delete_index)
  show "control_routes env m index endpoint body = Some h \<Longrightarrow> preserves I h"
  proof (cases "endpoint = ''_mapping'' \<and> m = PUT")
    case True
    then show "control_routes env m index endpoint body = Some h \<Longrightarrow> preserves I h"
      by (auto simp: control_routes_def inv_mapping_route)
  next
    case False
    then show "control_routes env m index endpoint body = Some h \<Longrightarrow> preserves I h" by (intro inv_control_routes) auto
  qed
qed

lemma inv_dispatch_all: "preserves I (dispatch_inner env fuel rq)"
proof (rule dispatch_cases)
  show "preserves I (answer (bulk env d body))" for d body by (rule inv_bulk_answer)
  show "preserves I (answer_paged (msearch env fuel d body as_int))" for d body as_int by (rule inv_msearch)
  fix parts body
  show "preserves I (route env fuel rq parts body)"
  proof (rule route_cases)
    show "fixed_routes env (rq_method rq) (rq_path rq) body = Some h \<Longrightarrow> preserves I (answer h)" for h
      by (intro preserve inv_admin_routes(1))
    show "index_routes env (rq_method rq) i body = Some h \<Longrightarrow> preserves I (answer h)" for i h
      by (intro preserve inv_admin_routes(2))
    show "control_routes env (rq_method rq) i e body = Some h \<Longrightarrow> preserves I (answer h)" for i e h
      by (intro preserve inv_admin_routes(3))
  qed (intro preserve inv_search_routes inv_document_routes; assumption)+
qed (intro preserve)+

end

lemma ledger_dispatch: "tracked env \<Longrightarrow> preserves ledger (dispatch_inner env fuel rq)"
  by (intro admin_invariant.inv_dispatch_all admin_invariant.intro ledger_invariant admin_invariant_axioms.intro)
    (simp_all add: ledger_def)

text \<open>What every route keeps, whatever the catalog and the tracking it runs with, a whole request keeps.\<close>

locale request_invariant =
  fixes Q :: "env \<Rightarrow> bool" and I :: "world \<Rightarrow> bool" and fuel :: nat and rq :: http_request
  assumes inner: "Q env \<Longrightarrow> preserves I (dispatch_inner env fuel rq)"
    and shared: "Q env \<Longrightarrow> Q (env\<lparr>shared_catalog := b\<rparr>)"
    and viewed: "Q env \<Longrightarrow> Q (env\<lparr>read_catalog := v\<rparr>)"
    and claiming: "Q env \<Longrightarrow> Q (env\<lparr>admin_tracked := b\<rparr>)"
    and tables: "I w \<Longrightarrow> I (w\<lparr>w_tables := t\<rparr>)"
    and started: "I w \<Longrightarrow> I (w\<lparr>w_admin_started := b\<rparr>)"
begin

lemma inv_serve: "Q env \<Longrightarrow> I w \<Longrightarrow> serve env fuel rq w = (r, w') \<Longrightarrow> I w'"
proof -
  assume run: "Q env" "I w" "serve env fuel rq w = (r, w')"
  have "snd (dispatch_inner env fuel rq w) = w'" using run(3) by (auto simp: serve_def split: prod.splits sum.splits)
  then show ?thesis using inner [OF run(1)] run(2) by (auto simp: preserves_def)
qed

lemma inv_serve_local: "Q env \<Longrightarrow> I w \<Longrightarrow> serve_local env fuel rq t w = (r, t', w') \<Longrightarrow> I w'"
proof -
  assume run: "Q env" "I w" "serve_local env fuel rq t w = (r, t', w')"
  obtain w1 where s: "serve env fuel rq (w\<lparr>w_tables := t, w_admin_started := False\<rparr>) = (r, w1)" "w' = w1\<lparr>w_tables := w_tables w\<rparr>"
    using run(3) by (auto simp: serve_local_def split: prod.splits)
  from inv_serve [OF run(1) started [OF tables [OF run(2)]] s(1)] show ?thesis unfolding s(2) by (rule tables)
qed

lemma inv_without_claim: "Q env \<Longrightarrow> I w \<Longrightarrow> without_claim env fuel rq st w = (out, st', w') \<Longrightarrow> I w'"
  using inv_serve by (auto simp: without_claim_def answered_at_once_def split: prod.splits option.splits)

lemma inv_with_catalog: "Q env \<Longrightarrow> I w \<Longrightarrow> with_catalog env key around fuel rq t claim st w = (out, st', w') \<Longrightarrow> I w'"
  using inv_serve_local [of "env\<lparr>read_catalog := None, admin_tracked := (claim \<noteq> None)\<rparr>"] viewed claiming
  by (auto simp: with_catalog_def answered_at_once_def split: prod.splits option.splits)

lemma inv_catalog: "Q env \<Longrightarrow> I w \<Longrightarrow> dispatch_catalog env catalog around fuel rq st w = (out, st', w') \<Longrightarrow> I w'"
proof -
  assume Q: "Q env" and w: "I w" and run: "dispatch_catalog env catalog around fuel rq st w = (out, st', w')"
  have plain: "without_claim (env\<lparr>shared_catalog := b\<rparr>) fuel rq s w = (o1, s', w') \<Longrightarrow> I w'"
    "without_claim (env\<lparr>shared_catalog := b, read_catalog := v\<rparr>) fuel rq s w = (o1, s', w') \<Longrightarrow> I w'" for b v s s' o1
    using inv_without_claim [OF _ w] shared [OF Q] viewed by blast+
  have opened: "with_catalog (env\<lparr>shared_catalog := b\<rparr>) key around fuel rq t claim s w = (o1, s', w') \<Longrightarrow> I w'" for b key t claim s s' o1
    using inv_with_catalog [OF _ w] shared [OF Q] by blast
  show ?thesis
    using run w
    by (auto simp: dispatch_catalog_def Let_def answered_at_once_def dest!: plain opened
        split: option.splits if_splits sum.splits prod.splits)
qed

end

interpretation tracked_requests: request_invariant tracked ledger fuel rq
  by unfold_locales (simp_all add: ledger_dispatch, simp_all add: ledger_def)

lemma same_decoding:
  assumes "percent_utf8 env' = percent_utf8 env"
  shows "plain_decoding env' = plain_decoding env" "mutating env' m path = mutating env m path"
  using assms by (simp_all add: plain_decoding_def mutating_def decode_path_segments_def)

interpretation read_requests: request_invariant
    "\<lambda>env. plain_decoding env \<and> \<not> mutating env (rq_method rq) (rq_path rq)" "only_reads base" fuel rq
proof unfold_locales
  fix env :: env and b v
  assume Q: "plain_decoding env \<and> \<not> mutating env (rq_method rq) (rq_path rq)"
  then show "preserves (only_reads base) (dispatch_inner env fuel rq)" by (simp add: searching.read_dispatch)
  have "percent_utf8 (env\<lparr>shared_catalog := b\<rparr>) = percent_utf8 env" "percent_utf8 (env\<lparr>read_catalog := v\<rparr>) = percent_utf8 env"
    "percent_utf8 (env\<lparr>admin_tracked := b\<rparr>) = percent_utf8 env" by simp_all
  note same = this [THEN same_decoding(1)] this [THEN same_decoding(2)]
  show "plain_decoding (env\<lparr>shared_catalog := b\<rparr>) \<and> \<not> mutating (env\<lparr>shared_catalog := b\<rparr>) (rq_method rq) (rq_path rq)"
    "plain_decoding (env\<lparr>read_catalog := v\<rparr>) \<and> \<not> mutating (env\<lparr>read_catalog := v\<rparr>) (rq_method rq) (rq_path rq)"
    "plain_decoding (env\<lparr>admin_tracked := b\<rparr>) \<and> \<not> mutating (env\<lparr>admin_tracked := b\<rparr>) (rq_method rq) (rq_path rq)"
    unfolding same using Q by simp_all
qed (simp_all add: only_reads_def)

section \<open>Requests outside the fence\<close>

lemma answer_miss_reads:
  assumes "plain_decoding env" "\<not> mutating env (rq_method rq) (rq_path rq)" "only_reads base w"
    and "answer_miss env fuel rq bytes w = Inr (r, w')"
  shows "only_reads base w'"
proof (cases "uses_read_view env (rq_method rq) (rq_path rq)")
  case True
  then obtain view where s: "serve (env\<lparr>read_catalog := Some view\<rparr>) fuel rq w = (r, w')"
    using assms(4) by (auto simp: answer_miss_def map_ok_Inr_iff)
  from read_requests.inv_serve [OF read_requests.viewed assms(3) s] assms(1,2) show ?thesis by blast
next
  case False
  then obtain t where "(case serve_local (env\<lparr>read_catalog := None\<rparr>) fuel rq t w of (r, _, w') \<Rightarrow> (r, w')) = (r, w')"
    using assms(4) unfolding answer_miss_def if_not_P [OF False] map_ok_Inr_iff by metis
  then obtain t' where s: "serve_local (env\<lparr>read_catalog := None\<rparr>) fuel rq t w = (r, t', w')" by (auto split: prod.splits)
  from read_requests.inv_serve_local [OF read_requests.viewed assms(3) s] assms(1,2) show ?thesis by blast
qed

lemma plain_dispatch_reads:
  assumes "plain_decoding env" "\<not> mutating env (rq_method rq) (rq_path rq)" "only_reads base w"
    and "plain_dispatch env catalog around fuel rq st w = (r, st', w')"
  shows "only_reads base w'"
proof -
  obtain out where "dispatch_catalog env catalog around fuel rq st w = (out, st', w')"
    using assms(4) by (auto simp: plain_dispatch_def split: prod.splits)
  from read_requests.inv_catalog [OF _ assms(3) this] assms(1,2) show ?thesis by blast
qed

lemma cached_read_reads:
  assumes "plain_decoding env" "\<not> mutating env (rq_method rq) (rq_path rq)" "only_reads base w"
    and "cached_read env wire runtime catalog around fuel rq st w = (r, st', w')"
  shows "only_reads base w'"
proof -
  have Q: "plain_decoding (env\<lparr>shared_catalog := b\<rparr>)" "\<not> mutating (env\<lparr>shared_catalog := b\<rparr>) (rq_method rq) (rq_path rq)" for b
    using assms(1,2) same_decoding [of "env\<lparr>shared_catalog := b\<rparr>" env] by simp_all
  have hit: "only_reads base (count_hit env (rq_path rq) w)" using assms(3) by (simp add: count_hit_def only_reads_def)
  have miss: "answer_miss (env\<lparr>shared_catalog := b\<rparr>) fuel rq bytes w = Inr (r1, w1) \<Longrightarrow> only_reads base w1" for b bytes r1 w1
    by (rule answer_miss_reads [OF Q assms(3)])
  have plain: "plain_dispatch env catalog (cs_catalog around) fuel rq s w = (r1, st1, w1) \<Longrightarrow> only_reads base w1" for s r1 st1 w1
    by (rule plain_dispatch_reads [OF assms(1-3)])
  show ?thesis
    using assms(4) assms(3) hit
    by (auto simp: cached_read_def Let_def dest: miss plain split: prod.splits option.splits sum.splits)
qed

section \<open>The store over a whole request\<close>

text \<open>The catalog operations touch the catalog and the claim only.\<close>

lemma finish_claim_keeps:
  assumes "finish_claim env key around c t started r st = (out, st')" "P st"
    and upd: "\<And>s k v. P s \<Longrightarrow> k = key \<or> k = admin_key key \<Longrightarrow> P (s(k := v))"
  shows "P st'"
proof -
  have del: "P (redis_del (admin_key key) s)" "P (redis_set key v s)" if "P s" for s v
    using upd [OF that] by (simp_all add: redis_del_def redis_set_def)
  have "st' = st \<or> (\<exists>x r. commit env key t c (on_close around) st = (r, st')) \<or> (\<exists>r. release key c (on_close around) st = (r, st'))"
    using assms(1) by (fastforce simp: finish_claim_def split: prod.splits sum.splits if_splits)
  then show ?thesis using commit_store release_store del assms(2) by metis
qed

lemma dispatch_catalog_keeps:
  assumes run: "dispatch_catalog env (Some key) around fuel rq st w = (Some out, st', w')" and "P st"
    and upd: "\<And>s k v. P s \<Longrightarrow> k = key \<or> k = admin_key key \<Longrightarrow> P (s(k := v))"
    and others: "\<And>s. P s \<Longrightarrow> P (meanwhile around s)"
  shows "P st'"
proof -
  have begun: "P st1" if "begin_tracked env' key admin uuid d st = (b, st1)" for env' admin uuid d b st1
  proof -
    have "st1 = st \<or> st1 = redis_set (admin_key key) uuid st" using begin_tracked_store(1) [OF that] by blast
    then show ?thesis using \<open>P st\<close> upd by (auto simp: redis_set_def)
  qed
  from run show ?thesis
  proof (cases rule: dispatch_catalog_cases)
    case untouched
    then show ?thesis using \<open>P st\<close> by simp
  next
    case (refused admin e no_claim)
    then show ?thesis using begun by blast
  next
    case (opened admin t claim st1)
    have "P (meanwhile around st1)" using begun [OF opened(1)] others by blast
    from opened(2) show ?thesis
      by (cases rule: with_catalog_cases) (use \<open>P (meanwhile around st1)\<close> finish_claim_keeps [where P = P, OF _ _ upd] in auto)
  qed
qed

lemma cached_write_cases:
  assumes run: "cached_write env runtime catalog around fuel rq st w = (Some r, st', w')"
    and admitted: "admit_writer (cr_cache runtime) (token_uuid around) (on_admit around) st = (Inr token, st1)"
  obtains out st2 where "dispatch_catalog (env\<lparr>tracked := True\<rparr>) catalog (cs_catalog around) fuel rq
      (before_dispatch around st1) (w\<lparr>w_attempts := 0\<rparr>) = (Some out, st2, w')"
    and "if publication_complete out \<and> w_attempts w' = 0
      then \<exists>r. release_writer (cr_cache runtime) token (on_release around) (after_dispatch around st2) = (r, st')
      else st' = after_dispatch around st2"
proof -
  obtain o1 st2 w2 where d: "dispatch_catalog (env\<lparr>tracked := True\<rparr>) catalog (cs_catalog around) fuel rq
      (before_dispatch around st1) (w\<lparr>w_attempts := 0\<rparr>) = (o1, st2, w2)"
    by (metis prod_cases3)
  note unfolded = run [unfolded cached_write_def Let_def admitted prod.case sum.case d]
  then obtain out where out: "o1 = Some out" by (cases o1) simp_all
  obtain r1 st3 where rel: "release_writer (cr_cache runtime) token (on_release around) (after_dispatch around st2) = (r1, st3)"
    by (cases "release_writer (cr_cache runtime) token (on_release around) (after_dispatch around st2)")
  show thesis
  proof (rule that [of out st2])
    show "dispatch_catalog (env\<lparr>tracked := True\<rparr>) catalog (cs_catalog around) fuel rq
      (before_dispatch around st1) (w\<lparr>w_attempts := 0\<rparr>) = (Some out, st2, w')"
      using unfolded d out rel by (cases r1) (auto split: if_splits)
    show "if publication_complete out \<and> w_attempts w' = 0
      then \<exists>r. release_writer (cr_cache runtime) token (on_release around) (after_dispatch around st2) = (r, st')
      else st' = after_dispatch around st2"
      using unfolded out rel by (cases r1) (auto split: if_splits)
  qed
qed

lemma connected_names:
  assumes "connect hasher opens connects url key deployment semantic ttl limit = Inr rc"
  shows "rc_catalog rc = key \<and> rc_admin rc = admin_key key \<and> rc_control rc \<noteq> key \<and> rc_control rc \<noteq> admin_key key"
  using assms by (auto simp: connect_def Let_def admin_key_def split: if_splits)

section \<open>Stored responses\<close>

text \<open>What the code relies on in \<open>http\<close>: the two headers of the gateway's responses are accepted.\<close>

definition accepts_headers :: "wire \<Rightarrow> bool" where
  "accepts_headers wire \<longleftrightarrow> (\<forall>(name, v)\<in>{json_header, elastic_header}. header_name wire name = Some name \<and> header_value wire v)"

definition envelope_of :: "json \<Rightarrow> envelope" where
  "envelope_of body = \<lparr>ev_version = 1, ev_status = 200, ev_headers = [json_header, elastic_header], ev_body = body\<rparr>"

text \<open>JSON up to its doubles: what printing a value and reading it back keeps with certainty.\<close>

primrec blur_number :: "number \<Rightarrow> number" where
  "blur_number (PosInt n) = PosInt n"
| "blur_number (NegInt i) = NegInt i"
| "blur_number (Float q) = Float 0"

primrec blur :: "json \<Rightarrow> json" where
  "blur JNull = JNull"
| "blur (JBool b) = JBool b"
| "blur (JNum n) = JNum (blur_number n)"
| "blur (JStr s) = JStr s"
| "blur (JArr vs) = JArr (map blur vs)"
| "blur (JObj ms) = JObj (map (map_prod id blur) ms)"

lemma obj_get_blur: "obj_get k (map (map_prod id blur) ms) = map_option blur (obj_get k ms)"
  by (induction ms) auto

lemma get_blur: "get k (blur v) = map_option blur (get k v)"
  by (cases v) (simp_all add: get_def obj_get_blur)

lemma blur_kinds [simp]:
  "is_number (blur v) = is_number v" "is_array (blur v) = is_array v" "is_object (blur v) = is_object v"
  "is_string (blur v) = is_string v" "blur v = JBool b \<longleftrightarrow> v = JBool b"
  by (cases v; simp)+

lemma obj_insert_blur:
  "map (map_prod id blur) (obj_insert k v ms) = obj_insert k (blur v) (map (map_prod id blur) ms)"
  by (induction k v ms rule: obj_insert.induct) auto

lemma served_body_blur:
  assumes "blur body = blur body'"
  shows "map_option blur (served_body env path body) = map_option blur (served_body env path body')"
proof -
  have get: "map_option blur (get k body) = map_option blur (get k body')" for k
    using assms get_blur by metis
  have cond: "is_some_and (get k body) p = is_some_and (get k body') p" if "\<And>v. p (blur v) = p v" for k p
    using get [of k] that by (cases "get k body"; cases "get k body'") (simp_all, metis)
  have hits: "is_some_and (Option.bind (get ''hits'' b) (get ''hits'')) is_array =
      is_some_and (get ''hits'' b) (\<lambda>h. is_some_and (get ''hits'' h) is_array)" for b
    by (cases "get ''hits'' b") simp_all
  have inner: "is_some_and (get k (blur h)) is_array = is_some_and (get k h) is_array" for k h
    using blur_kinds(2) by (cases "get k h") (simp_all add: get_blur)
  have found: "get k b = Some (JBool c) \<longleftrightarrow> is_some_and (get k b) (\<lambda>v. v = JBool c)" for k b c
    by (cases "get k b") auto
  have object: "map_option blur (case b of JObj ms \<Rightarrow> Some (JObj (obj_insert k v ms)) | _ \<Rightarrow> None)
      = (case blur b of JObj ms \<Rightarrow> Some (JObj (obj_insert k (blur v) ms)) | _ \<Rightarrow> None)" for b k v
    by (cases b) (simp_all add: obj_insert_blur)
  have same: "is_some_and (get ''took'' body) is_number = is_some_and (get ''took'' body') is_number"
    "is_some_and (get ''hits'' body) (\<lambda>h. is_some_and (get ''hits'' h) is_array) =
     is_some_and (get ''hits'' body') (\<lambda>h. is_some_and (get ''hits'' h) is_array)"
    "is_some_and (get ''found'' body) (\<lambda>v. v = JBool True) = is_some_and (get ''found'' body') (\<lambda>v. v = JBool True)"
    "is_some_and (get ''_id'' body) is_string = is_some_and (get ''_id'' body') is_string"
    by (rule cond, rule blur_kinds, rule cond, rule inner, rule cond, rule blur_kinds, rule cond, rule blur_kinds)
  have "map_option blur (case body of JObj ms \<Rightarrow> Some (JObj (obj_insert k v ms)) | _ \<Rightarrow> None) =
      map_option blur (case body' of JObj ms \<Rightarrow> Some (JObj (obj_insert k v ms)) | _ \<Rightarrow> None)" for k v
    unfolding object assms ..
  then show ?thesis
    unfolding served_body_def hits found same using assms by simp
qed

lemma decode_stored_as:
  assumes "accepts_headers wire" "parse_json env (json_text env body) = Inr read" "is_object again"
    and "parse_envelope wire (envelope_text wire (envelope_of read)) = Some (envelope_of again)"
    and "stored_envelope env wire limit (es_ok body) = Some bytes" "served_body env' path again = Some body'"
  shows "decode env' wire bytes limit path = Some (es_ok body')"
proof -
  have bytes: "bytes = envelope_text wire (envelope_of read)" "\<not> limit < length bytes"
    using assms(2,5) by (auto simp: stored_envelope_def response_text_def es_ok_def es_response_def envelope_of_def Let_def split: if_splits)
  have headers: "decode_headers wire [json_header, elastic_header] = Some [json_header, elastic_header]"
    using assms(1) by (simp add: accepts_headers_def json_header_def elastic_header_def)
  show ?thesis
    using assms(3,6) bytes(2) headers assms(4) [folded bytes(1)]
    by (simp add: decode_def es_ok_def es_response_def json_header_def envelope_of_def)
qed

lemma decode_stored:
  assumes "accepts_headers wire" "parse_json env (json_text env body) = Inr body" "is_object body"
    and "parse_envelope wire (envelope_text wire (envelope_of body)) = Some (envelope_of body)"
    and "stored_envelope env wire limit (es_ok body) = Some bytes" "served_body env' path body = Some body'"
  shows "decode env' wire bytes limit path = Some (es_ok body')"
  using assms by (rule decode_stored_as)

lemma obj_insert_first:
  assumes "distinct (map fst ((k, u) # kvs))"
  shows "obj_insert k v (obj_of ((k, u) # kvs)) = obj_of ((k, v) # kvs)"
proof (rule obj_ok_eqI)
  show "obj_get k' (obj_insert k v (obj_of ((k, u) # kvs))) = obj_get k' (obj_of ((k, v) # kvs))" for k'
    using assms by (simp add: obj_get_insert obj_get_obj_of)
qed (simp_all add: obj_ok_insert obj_ok_obj_of)

lemma es_ok_body: "resp_body (es_ok v) = Some v"
  by (simp add: es_ok_def es_response_def)

lemma search_served:
  assumes "search_route env path"
  obtains body body' where "search_response env p page hit_total aggs = es_ok body" "is_object body"
    "served_body (env\<lparr>elapsed_ms := now\<rparr>) path body = Some body'"
    "search_response (env\<lparr>elapsed_ms := now\<rparr>) p page hit_total aggs = es_ok body'"
proof -
  let ?rest = "[(''timed_out'', JBool False),
       (''_shards'', jobj [(''total'', jint 1), (''successful'', jint 1), (''skipped'', jint 0), (''failed'', jint 0)]),
       (''hits'', jobj ([(''max_score'', max_score page), (''hits'', JArr page)] @ optional_member ''total'' hit_total))]
       @ optional_member ''aggregations'' aggs"
  let ?body = "\<lambda>t. jobj ((''took'', jint t) # ?rest)"
  have route: "search_route (env\<lparr>elapsed_ms := now\<rparr>) path" using assms by (simp add: search_route_def decode_path_segments_def)
  have keys: "distinct (map fst ((''took'', jint (elapsed_ms env)) # ?rest))"
    by (auto simp: optional_member_def split: option.splits)
  have hits: "distinct (map fst ([(''max_score'', max_score page), (''hits'', JArr page)] @ optional_member ''total'' hit_total))"
    by (auto simp: optional_member_def split: option.splits)
  have parts: "get ''took'' (?body t) = Some (jint t)" "Option.bind (get ''hits'' (?body t)) (get ''hits'') = Some (JArr page)" for t
    using keys hits by (simp_all add: get_jobj)
  have "obj_insert ''took'' (jint now) (obj_of ((''took'', jint (elapsed_ms env)) # ?rest)) = obj_of ((''took'', jint now) # ?rest)"
    using keys by (rule obj_insert_first)
  then have "served_body (env\<lparr>elapsed_ms := now\<rparr>) path (?body (elapsed_ms env)) = Some (?body now)"
    unfolding served_body_def if_P [OF route] parts by (simp add: jobj_def)
  with that [of "?body (elapsed_ms env)" "?body now"] show thesis
    by (simp add: search_response_def) (simp add: jobj_def)
qed

section \<open>Properties\<close>

text \<open>The fence of a token survives the dispatcher, whatever it and others do meanwhile.\<close>

lemma fence_over_dispatch:
  assumes d: "dispatch_catalog env (Some key) around fuel rq s w = (Some out, st2, w')"
    and names: "rc_control rc \<noteq> key" "rc_control rc \<noteq> admin_key key"
    and others: "\<And>s. control_ok rc s \<Longrightarrow> fence \<in> fenced_by rc s \<Longrightarrow>
      control_ok rc (meanwhile around s) \<and> fence \<in> fenced_by rc (meanwhile around s)"
    and start: "control_ok rc s" "fence \<in> fenced_by rc s"
  shows "control_ok rc st2 \<and> fence \<in> fenced_by rc st2"
proof (rule dispatch_catalog_keeps [OF d, of "\<lambda>s. control_ok rc s \<and> fence \<in> fenced_by rc s"])
  show "control_ok rc s \<and> fence \<in> fenced_by rc s" using start by simp
  show "control_ok rc (s(k := v)) \<and> fence \<in> fenced_by rc (s(k := v))"
    if "control_ok rc s \<and> fence \<in> fenced_by rc s" "k = key \<or> k = admin_key key" for s k v
    using that names same_control [of "s(k := v)" rc s] by auto
  show "control_ok rc (meanwhile around s) \<and> fence \<in> fenced_by rc (meanwhile around s)"
    if "control_ok rc s \<and> fence \<in> fenced_by rc s" for s
    using others that by blast
qed

lemma unclaimed_same: "s' (admin_key key) = s (admin_key key) \<Longrightarrow> unclaimed key claim s \<Longrightarrow> unclaimed key claim s'"
  by (simp add: unclaimed_def redis_get_def)

lemma release_keeps_claims:
  assumes "release_writer rc token d st = (r, st')" "rc_control rc \<noteq> admin_key key" "unclaimed key claim st"
  shows "unclaimed key claim st'"
  using release_writer_cases [OF assms(1)] hash_del_other [of "admin_key key" "rc_control rc"] assms(2,3) unclaimed_same by metis

text \<open>What others may do between the steps of one request: gateways read, write and publish through the same
  clients with uuids of their own, entries expire, and an operator may clear a claim. (Recovery by an operator,
  which happens while no gateway runs, is not among them.)\<close>

inductive other_step :: "read_cache \<Rightarrow> string \<times> string \<Rightarrow> string \<Rightarrow> redis \<Rightarrow> redis \<Rightarrow> bool" for rc fence claim where
  other_fill: "fill rc t digest v d s = (r, s') \<Longrightarrow> other_step rc fence claim s s'"
| other_admit: "admit_state rc state uuid d s = (r, s') \<Longrightarrow> other_step rc fence claim s s'"
| other_release: "\<lbrakk>release_writer rc token d s = (r, s'); fence_of token \<noteq> fence\<rbrakk> \<Longrightarrow> other_step rc fence claim s s'"
| other_begin: "\<lbrakk>begin_tracked env (rc_catalog rc) admin uuid d s = (r, s'); uuid \<noteq> claim\<rbrakk> \<Longrightarrow> other_step rc fence claim s s'"
| other_commit: "commit env (rc_catalog rc) t c d s = (r, s') \<Longrightarrow> other_step rc fence claim s s'"
| other_free: "release (rc_catalog rc) c d s = (r, s') \<Longrightarrow> other_step rc fence claim s s'"
| entry_expires: "other_step rc fence claim s (redis_del (entry_key rc digest) s)"
| claim_cleared: "other_step rc fence claim s (redis_del (admin_key (rc_catalog rc)) s)"

lemma fill_keeps:
  assumes "fill rc t digest v d st = (r, st')" "k \<noteq> entry_key rc digest"
  shows "st' k = st k"
proof -
  have "st' = st \<or> st' = snd (fill_script rc digest (tk_epoch t) v st)"
    using assms(1) run_script_result(2) by (fastforce simp: fill_def split: prod.splits sum.splits if_splits)
  moreover have "snd (fill_script rc digest (tk_epoch t) v st) k = st k"
    using assms(2) by (auto simp: fill_script_def validated_def redis_set_ex_def split: option.splits prod.splits)
  ultimately show ?thesis by auto
qed

lemma catalog_step_control:
  assumes "st' = st \<or> st' = redis_set (admin_key key) uuid st \<or> st' = redis_del (admin_key key) st
      \<or> st' = redis_del (admin_key key) (redis_set key payload st)"
    and "c \<noteq> key" "c \<noteq> admin_key key"
  shows "st' c = st c"
  using assms by (auto simp: redis_set_def redis_del_def)

lemma other_step_control:
  assumes step: "other_step rc fence claim s s'" and apart: "keys_apart rc" "rc_admin rc = admin_key (rc_catalog rc)"
    and ok: "control_ok rc s" "fence \<in> fenced_by rc s"
  shows "control_ok rc s' \<and> fence \<in> fenced_by rc s'"
proof -
  have names: "rc_control rc \<noteq> rc_catalog rc" "rc_control rc \<noteq> admin_key (rc_catalog rc)" "rc_control rc \<noteq> entry_key rc digest" for digest
    using apart unfolding keys_apart_def by metis+
  have kept: "control_ok rc s' \<and> fence \<in> fenced_by rc s'" if "s' (rc_control rc) = s (rc_control rc)"
    using same_control [of s' rc s, OF that] ok by simp
  from step show ?thesis
  proof cases
    case (other_fill t digest v d r)
    then show ?thesis using fill_keeps names(3) kept by metis
  next
    case (other_admit state uuid d r)
    then show ?thesis using admit_law [OF ok(1)] ok(2) by blast
  next
    case (other_release token d r)
    then show ?thesis using release_law [OF ok(1)] ok(2) by blast
  next
    case (other_begin env admin uuid d r)
    then show ?thesis using begin_tracked_store(1) [OF other_begin(1)] by (intro kept catalog_step_control [OF _ names(1,2)]) blast
  next
    case (other_commit env t c d r)
    then show ?thesis using commit_store [OF other_commit] by (intro kept catalog_step_control [OF _ names(1,2)]) blast
  next
    case (other_free c d r)
    then show ?thesis using release_store [OF other_free] by (intro kept catalog_step_control [OF _ names(1,2)]) blast
  next
    case (entry_expires digest)
    then show ?thesis using names(3) by (intro kept) (simp add: redis_del_def)
  next
    case claim_cleared
    then show ?thesis using names(2) by (intro kept) (simp add: redis_del_def)
  qed
qed

lemma other_step_claim:
  assumes step: "other_step rc fence claim s s'" and apart: "keys_apart rc" "rc_admin rc = admin_key (rc_catalog rc)"
    and free: "unclaimed (rc_catalog rc) claim s"
  shows "unclaimed (rc_catalog rc) claim s'"
proof -
  have names: "rc_control rc \<noteq> admin_key (rc_catalog rc)" "admin_key (rc_catalog rc) \<noteq> entry_key rc digest" for digest
    using apart unfolding keys_apart_def by metis+
  have kept: "unclaimed (rc_catalog rc) claim s'" if "s' (admin_key (rc_catalog rc)) = s (admin_key (rc_catalog rc))"
    using that free by (rule unclaimed_same)
  have cleared: "unclaimed (rc_catalog rc) claim (redis_del (admin_key (rc_catalog rc)) u)" for u
    by (simp add: unclaimed_def redis_get_def redis_del_def)
  from step show ?thesis
  proof cases
    case (other_fill t digest v d r)
    then show ?thesis using fill_keeps names(2) kept by metis
  next
    case (other_admit state uuid d r)
    then show ?thesis using admit_keeps names(1) kept by metis
  next
    case (other_release token d r)
    then show ?thesis using release_keeps_claims names(1) free by blast
  next
    case (other_begin env admin uuid d r)
    from begin_tracked_store(1) [OF other_begin(1)] show ?thesis
      using free other_begin(2) by (auto simp: unclaimed_def redis_get_def redis_set_def)
  next
    case (other_commit env t c d r)
    then show ?thesis using commit_store [OF other_commit] free cleared by blast
  next
    case (other_free c d r)
    then show ?thesis using release_store [OF other_free] free cleared by blast
  next
    case (entry_expires digest)
    then show ?thesis using names(2) by (intro kept) (simp add: redis_del_def)
  next
    case claim_cleared
    then show ?thesis using cleared by simp
  qed
qed

lemma others_control:
  assumes "(other_step rc fence claim)\<^sup>*\<^sup>* s s'" "keys_apart rc" "rc_admin rc = admin_key (rc_catalog rc)"
    and "control_ok rc s" "fence \<in> fenced_by rc s"
  shows "control_ok rc s' \<and> fence \<in> fenced_by rc s'"
  using assms(1,4,5) by (induction rule: rtranclp_induct) (use other_step_control [OF _ assms(2,3)] in blast)+

lemma others_claim:
  assumes "(other_step rc fence claim)\<^sup>*\<^sup>* s s'" "keys_apart rc" "rc_admin rc = admin_key (rc_catalog rc)"
    and "unclaimed (rc_catalog rc) claim s"
  shows "unclaimed (rc_catalog rc) claim s'"
  using assms(1,4) by (induction rule: rtranclp_induct) (use other_step_claim [OF _ assms(2,3)] in blast)+

lemma busy_answers_nothing:
  assumes "control_ok rc st" "fence \<in> fenced_by rc st" "lookup rc digest d st = (Inr l, s)"
  shows "lu_response l = None \<and> lu_ticket l = None"
  using lookup_result [OF assms(1,3)] assms(2) by (metis empty_iff not_None_eq)

lemma confirmed_when_done:
  assumes "dispatch_catalog (env\<lparr>tracked := True\<rparr>) catalog around fuel rq s (w\<lparr>w_attempts := 0\<rparr>) = (out, s', w')"
    and "w_trace w = []" "w_attempts w' = 0"
  shows "\<forall>x\<in>set (w_trace w'). \<not> unconfirmed x"
proof -
  have "ledger (w\<lparr>w_attempts := 0\<rparr>)" using assms(2) by (simp add: ledger_def)
  from tracked_requests.inv_catalog [OF _ this assms(1)] have "ledger w'" by simp
  then show ?thesis using assms(3) by (simp add: ledger_def filter_empty_conv)
qed

text \<open>C3: A request that may write gives its token back only when it is known to be over. Whatever messages
  are lost, and whatever other gateways do meanwhile through the clients of the cache and of the catalog with
  uuids of their own (recovery of the deployment by an operator excepted): if after the request its token no
  longer fences the cache, every mutation it sent to Qdrant has been confirmed and no administrative claim of
  it is left; and if the token still fences the cache, a lookup answers with no response and with no ticket
  to store one.\<close>

theorem released_only_when_complete:
  assumes mutating: "mutating env (rq_method rq) (rq_path rq)"
    and keys: "connect hasher opens connects url key deployment semantic ttl limit = Inr (cr_cache runtime)"
    and admitted: "admit_writer (cr_cache runtime) (token_uuid around) (on_admit around) st = (Inr token, st1)"
    and ok: "control_ok (cr_cache runtime) st" "w_trace w = []" "unclaimed key (claim_uuid (cs_catalog around)) st"
    and others: "\<And>f s. f \<in> {before_dispatch around, after_dispatch around, meanwhile (cs_catalog around)} \<Longrightarrow>
      (other_step (cr_cache runtime) (fence_of token) (claim_uuid (cs_catalog around)))\<^sup>*\<^sup>* s (f s)"
    and run: "dispatch_cached env wire runtime (Some key) around fuel rq st w = (Some r, st', w')"
  shows "(fence_of token \<notin> fenced_by (cr_cache runtime) st' \<longrightarrow>
      (\<forall>x\<in>set (w_trace w'). \<not> unconfirmed x) \<and> unclaimed key (claim_uuid (cs_catalog around)) st')
    \<and> (fence_of token \<in> fenced_by (cr_cache runtime) st' \<longrightarrow> (\<forall>digest d l s.
      lookup (cr_cache runtime) digest d st' = (Inr l, s) \<longrightarrow> lu_response l = None \<and> lu_ticket l = None))"
proof -
  let ?rc = "cr_cache runtime" let ?claim = "claim_uuid (cs_catalog around)"
  have names: "rc_catalog ?rc = key" "rc_control ?rc \<noteq> key" "rc_control ?rc \<noteq> admin_key key" "rc_admin ?rc = admin_key (rc_catalog ?rc)"
    using connected_names [OF keys] by simp_all
  note apart = connected_apart [OF keys]
  have quiet: "control_ok ?rc s \<Longrightarrow> fence_of token \<in> fenced_by ?rc s \<Longrightarrow> control_ok ?rc (f s) \<and> fence_of token \<in> fenced_by ?rc (f s)"
      "unclaimed key ?claim s \<Longrightarrow> unclaimed key ?claim (f s)" if "f \<in> {before_dispatch around, after_dispatch around, meanwhile (cs_catalog around)}" for f s
    using others_control [OF others [OF that] apart names(4)] others_claim [OF others [OF that] apart names(4), unfolded names(1)] by blast+
  obtain out st2 where d: "dispatch_catalog (env\<lparr>tracked := True\<rparr>) (Some key) (cs_catalog around) fuel rq
      (before_dispatch around st1) (w\<lparr>w_attempts := 0\<rparr>) = (Some out, st2, w')"
    and after: "if publication_complete out \<and> w_attempts w' = 0 then \<exists>r. release_writer ?rc token (on_release around) (after_dispatch around st2) = (r, st')
      else st' = after_dispatch around st2"
    by (rule cached_write_cases [OF run [unfolded dispatch_cached_def if_P [OF mutating]] admitted])
  have "control_ok ?rc (before_dispatch around st1) \<and> fence_of token \<in> fenced_by ?rc (before_dispatch around st1)"
    using admit_law [OF ok(1) admitted [unfolded admit_writer_def]] quiet(1) [of "before_dispatch around" st1] by simp
  with fence_over_dispatch [OF d names(2,3) quiet(1) [of "meanwhile (cs_catalog around)"]]
  have "control_ok ?rc st2 \<and> fence_of token \<in> fenced_by ?rc st2" by simp
  then have fenced: "control_ok ?rc (after_dispatch around st2) \<and> fence_of token \<in> fenced_by ?rc (after_dispatch around st2)"
    using quiet(1) [of "after_dispatch around" st2] by simp
  have st': "control_ok ?rc st'"
    using after fenced release_law [of ?rc] by (cases "publication_complete out \<and> w_attempts w' = 0") auto
  have "(\<forall>x\<in>set (w_trace w'). \<not> unconfirmed x) \<and> unclaimed key ?claim st'"
    if released: "fence_of token \<notin> fenced_by ?rc st'"
  proof -
    have finished: "publication_complete out \<and> w_attempts w' = 0"
      using after released fenced by (cases "publication_complete out \<and> w_attempts w' = 0") simp_all
    have "st1 (admin_key key) = st (admin_key key)" using admit_keeps [OF admitted [unfolded admit_writer_def]] names(3) by simp
    then have "unclaimed key ?claim st1" by (rule unclaimed_same) (rule ok(3))
    then have "unclaimed key ?claim (before_dispatch around st1)" using quiet(2) [of "before_dispatch around" st1] by simp
    from complete_publication_unclaimed [OF d conjunct1 [OF finished] this]
    have unclaimed: "unclaimed key ?claim (after_dispatch around st2)"
      using quiet(2) [of "after_dispatch around" st2] quiet(2) [of "meanwhile (cs_catalog around)"] by simp
    obtain r where "release_writer ?rc token (on_release around) (after_dispatch around st2) = (r, st')"
      using after unfolding if_P [OF finished] by blast
    from release_keeps_claims [OF this names(3) unclaimed] have "unclaimed key ?claim st'" .
    with confirmed_when_done [OF d ok(2) conjunct2 [OF finished]] show ?thesis by (intro conjI)
  qed
  then show ?thesis using busy_answers_nothing [OF st'] by blast
qed

text \<open>C36: A hit replays the response that was stored. When what a document request or a search answered is
  stored, its body is printed and read back twice, and reading back keeps everything but perhaps the doubles
  (\<open>serde_json\<close> without \<open>float_roundtrip\<close>: the last bit of a double may change). The stored bytes then
  decode to that response, headers included, except that the \<open>took\<close> of a search is the time the hit took, and
  except for the doubles in the body; when the body reads back as itself, they decode to exactly that
  response.\<close>

theorem hit_replays_response:
  assumes r: "search_route env path \<and> r = search_response env p page hit_total aggs
      \<or> \<not> search_route env path \<and> get_doc env name ident w = (Inr r, w')"
    and wire: "accepts_headers wire" "resp_body r = Some body"
      "parse_json env (json_text env body) = Inr read" "blur read = blur body"
      "parse_envelope wire (envelope_text wire (envelope_of read)) = Some (envelope_of again)" "blur again = blur read"
    and stored: "stored_envelope env wire limit r = Some bytes"
  shows "\<exists>answer replayed. (if search_route env path then search_response (env\<lparr>elapsed_ms := now\<rparr>) p page hit_total aggs else r) = es_ok answer
    \<and> decode (env\<lparr>elapsed_ms := now\<rparr>) wire bytes limit path = Some (es_ok replayed)
    \<and> blur replayed = blur answer \<and> (again = body \<longrightarrow> replayed = answer)"
proof -
  let ?env = "env\<lparr>elapsed_ms := now\<rparr>"
  let ?answer = "if search_route env path then search_response ?env p page hit_total aggs else r"
  have route: "search_route ?env path = search_route env path"
    by (simp add: search_route_def decode_path_segments_def)
  have "\<exists>answer. r = es_ok body \<and> is_object body \<and> served_body ?env path body = Some answer \<and> ?answer = es_ok answer"
    using r
  proof (elim disjE conjE)
    assume search: "search_route env path" "r = search_response env p page hit_total aggs"
    from search_served [OF search(1), where now = now and p = p and page = page and hit_total = hit_total and aggs = aggs] obtain stored_body body' where s: "search_response env p page hit_total aggs = es_ok stored_body" "is_object stored_body"
        "served_body ?env path stored_body = Some body'"
        "search_response ?env p page hit_total aggs = es_ok body'" .
    have "stored_body = body" using wire(2) by (simp add: search(2) s(1) es_ok_body)
    with s search show ?thesis by simp
  next
    assume doc: "\<not> search_route env path" "get_doc env name ident w = (Inr r, w')"
    have "resp_status r = 200" using stored by (simp add: stored_envelope_def split: if_splits)
    then obtain index source where "r = es_ok (jobj [(''_index'', JStr index), (''_id'', JStr ident), (''found'', JBool True),
           (''_source'', source), (''_version'', jint 1)])"
      using doc(2) by (auto simp: get_doc_def bindE_def returnE_def es_response_def split: prod.splits sum.splits option.splits)
    then have "r = es_ok body" "is_object body" "served_body ?env path body = Some body"
      using wire(2) doc(1) by (auto simp: es_ok_body served_body_def route get_jobj) (simp add: jobj_def)
    then show ?thesis using doc(1) by simp
  qed
  then obtain answer where b: "r = es_ok body" "is_object body" "served_body ?env path body = Some answer" "?answer = es_ok answer"
    by blast
  have same: "blur again = blur body" using wire(4,6) by simp
  then obtain replayed where served: "served_body ?env path again = Some replayed" "blur replayed = blur answer"
    using served_body_blur [OF same, of ?env path] b(3) by auto
  moreover have "is_object again" using same b(2) blur_kinds(3) by metis
  moreover have "again = body \<longrightarrow> replayed = answer" using served(1) b(3) by auto
  ultimately show ?thesis
    using decode_stored_as [OF wire(1,3) _ wire(5) stored [unfolded b(1)]] b(4) by blast
qed

section \<open>Concrete requests\<close>

lemma refused_post:
  assumes "percent_utf8 env = Some" "redis_get st key = Inr (Some bytes)" "length bytes \<le> max_catalog_bytes"
    and "snapshot_db env bytes = Inr t" "st (admin_key key) = None"
  shows "dispatch_catalog env (Some key) quiet fuel (alias_post []) st w =
    (Some \<lparr>co_response = error_response no_action, publication_complete = True\<rparr>, st, w\<lparr>w_admin_started := False\<rparr>)"
proof -
  let ?env = "env\<lparr>shared_catalog := True\<rparr>"
  have admin: "is_admin ?env (rq_method (alias_post [])) (rq_path (alias_post [])) = Inr True"
    by (simp add: alias_post_def is_admin_def is_bulk_request_def ends_with_def decode_path_segments_def trim_matches_def assms(1))
  have exists: "redis_exists st key" using assms(2) by (cases "st key") (auto simp: redis_exists_def redis_get_def)
  have "snapshot_db ?env bytes = Inr t" by (simp only: snapshot_db_shared assms(4))
  then obtain s where "parse_snapshot ?env bytes = Inr s" "into_db ?env s = Inr t" unfolding snapshot_db_def bindR_Inr_iff by blast
  then have opens: "begin_tracked ?env key True ''c1'' Delivered st = (Inr (t, Some ''c1''), redis_set (admin_key key) ''c1'' st)"
    using exists assms(2,3,5)
    by (simp add: begin_tracked_def begin_snapshot_def invoke_def begin_script_def redis_strlen_def redis_exists_def)
  have served: "serve_local (?env\<lparr>read_catalog := None, admin_tracked := True\<rparr>) fuel (alias_post []) t w
      = (Some (error_response no_action), t, w\<lparr>w_admin_started := False\<rparr>)"
    by (simp add: serve_alias_post json_body_def trim_is_empty_def assms(1) alias_batch_def request_actions_def bindE_def liftE_def)
  have "redis_del (admin_key key) (redis_set (admin_key key) ''c1'' st) = st"
    using assms(5) by (auto simp: redis_del_def redis_set_def fun_eq_iff)
  then show ?thesis
    by (simp add: dispatch_catalog_admin [OF admin] quiet_def opens with_catalog_def served finish_claim_def release_def
        claimed_def invoke_def release_script_def error_not_success)
qed

definition cached_env :: env where
  "cached_env = shared_env\<lparr>read_catalog := None\<rparr>"

definition sample_runtime :: cache_runtime where
  "sample_runtime = \<lparr>cr_cache = deployed ''a'', serve_reads = True, cr_max_entry_bytes = 100\<rparr>"

definition sample_token :: string where "sample_token = replicate 32 CHR ''0''"

text \<open>A search without hits.\<close>

definition no_hits_body :: "u64 \<Rightarrow> json" where
  "no_hits_body t = jobj [(''took'', jint t), (''timed_out'', JBool False),
     (''_shards'', jobj [(''total'', jint 1), (''successful'', jint 1), (''skipped'', jint 0), (''failed'', jint 0)]),
     (''hits'', jobj [(''max_score'', max_score []), (''hits'', JArr [])])]"

definition sample_wire :: wire where
  "sample_wire = \<lparr>envelope_text = (\<lambda>_. ''envelope''), parse_envelope = (\<lambda>_. Some (envelope_of (no_hits_body 5))),
     header_name = Some, header_value = (\<lambda>_. True)\<rparr>"

definition undisturbed_run :: cache_surroundings where
  "undisturbed_run = \<lparr>cs_catalog = quiet, token_uuid = sample_token, on_admit = Delivered, on_release = Delivered,
     on_lookup = Delivered, on_fill = Delivered, before_dispatch = id, after_dispatch = id\<rparr>"

definition deployed_store :: "(string \<times> string) list \<Rightarrow> redis" where
  "deployed_store hfs = [''{q}'' \<mapsto> (RString ''{}'', None), ''{q}:read-cache:control'' \<mapsto> (RHash hfs, None)]"

definition fenced_hash :: "(string \<times> string) list" where
  "fenced_hash = [(''schema'', ''1''), (''deployment'', ''a''), (''epoch'', ''1''), (''state'', ''active''), (writer_field sample_token, ''1'')]"

lemma epoch_one: "next_epoch ''0'' = ''1''"
proof -
  have zero: "show_nat 0 = ''0''" using digit_char_zero [of 0] by (simp add: show_nat.simps [of 0])
  have "show_nat (Suc 0) = ''1''"
    using of_char_eq_iff [of "digit_char 1" "CHR ''1''", where ?'a = nat] by (simp add: show_nat.simps [of "Suc 0"])
  with next_epoch_show [of 0] zero show ?thesis by simp
qed

lemma deployed_fields:
  assumes "hfs = control_hash \<or> hfs = fenced_hash"
  shows "validate (deployed ''a'') allow (deployed_store hfs) = Some (if hfs = control_hash then ''0'' else ''1'', ''active'', length hfs)"
    "token_fields (deployed ''a'') (if hfs = control_hash then ''0'' else ''1'') (length hfs) (deployed_store hfs) \<noteq> None"
  using assms
  by (auto simp: validate_def Let_def deployed_def redis_type_def pttl_def deployed_store_def hash_get_def hash_fields_def
      control_hash_def fenced_hash_def schema_def decimal_def canonical_def is_digit_def token_fields_def standard_field_def
      writer_field_def writer_id_def strip_prefix_def starts_with_def sample_token_def is_lower_hex_def epoch_le_def list_all_iff
      bytes_le.simps)

definition released_hash :: "(string \<times> string) list" where
  "released_hash = butlast fenced_hash"

definition admitted_token :: writer_token where
  "admitted_token = \<lparr>wt_id = sample_token, wt_deployment = ''a'', wt_epoch = ''1''\<rparr>"

lemma deployed_admits:
  "admit_writer (deployed ''a'') sample_token Delivered (deployed_store control_hash) = (Inr admitted_token, deployed_store fenced_hash)"
proof -
  note f = deployed_fields [of control_hash, simplified]
  have lens: "length control_hash = 4" by (simp add: control_hash_def)
  have token: "length sample_token = 32" "list_all is_lower_hex sample_token"
    by (simp_all add: sample_token_def list_all_iff is_lower_hex_def is_digit_def)
  have store: "deployed_store control_hash (rc_admin (deployed ''a'')) = None"
    "hash_get (deployed_store control_hash) (rc_control (deployed ''a'')) (writer_field sample_token) = None"
    "hash_set (rc_control (deployed ''a'')) [(''epoch'', ''1''), (writer_field sample_token, ''1''), (''state'', ''active'')]
      (deployed_store control_hash) = deployed_store fenced_hash"
    by (simp_all add: deployed_store_def deployed_def hash_get_def hash_fields_def control_hash_def hash_set_def hash_put_def
        fenced_hash_def writer_field_def fun_upd_twist)
  have "admit_script (deployed ''a'') sample_token ''active'' (deployed_store control_hash) = (Inr [''ok'', ''1''], deployed_store fenced_hash)"
    using f(2) by (simp add: admit_script_def validated_def f(1) redis_exists_def store token epoch_one max_epoch_def Let_def)
  then show ?thesis
    by (simp add: admit_writer_def admit_state_def run_script_def invoke_def admitted_token_def) (simp add: deployed_def)
qed

lemma deployed_releases:
  "release_writer (deployed ''a'') admitted_token Delivered (deployed_store fenced_hash) = (Inr (), deployed_store released_hash)"
proof -
  have other: "fenced_hash \<noteq> control_hash" by (simp add: fenced_hash_def control_hash_def)
  note f = deployed_fields [of fenced_hash, simplified other if_False]
  have "hash_get (deployed_store fenced_hash) (rc_control (deployed ''a'')) (writer_field sample_token) = Some ''1''"
    "hash_del (rc_control (deployed ''a'')) (writer_field sample_token) (deployed_store fenced_hash) = deployed_store released_hash"
    by (simp_all add: deployed_store_def deployed_def hash_get_def hash_fields_def hash_del_def fenced_hash_def released_hash_def
        writer_field_def fun_upd_twist)
  then have "release_writer_script (deployed ''a'') sample_token ''1'' (deployed_store fenced_hash) = (Inr [''ok''], deployed_store released_hash)"
    using f(2) by (simp add: release_writer_script_def validated_def f(1))
  then show ?thesis
    by (simp add: release_writer_def run_script_def invoke_def admitted_token_def) (simp add: deployed_def)
qed

lemma alias_post_mutating: "mutating cached_env (rq_method (alias_post [])) (rq_path (alias_post []))"
  by (simp add: mutating_def alias_post_def decode_path_segments_def trim_matches_def cached_env_def shared_env_def sample_env_def)

lemma cached_env_fields: "percent_utf8 (cached_env\<lparr>tracked := True\<rparr>) = Some"
  "snapshot_db (cached_env\<lparr>tracked := True\<rparr>) ''{}'' = Inr alias_tables"
  by (simp_all add: cached_env_def shared_env_def sample_env_def snapshot_db_def parse_snapshot_def max_catalog_bytes_def alias_tables_def
      into_db_def view_row_def parse_strings_def sample_parse_def List.map_filter_def)

lemma refused_write_run:
  "dispatch_cached cached_env wire sample_runtime (Some ''{q}'') undisturbed_run 1 (alias_post []) (deployed_store control_hash) empty_world
    = (Some (error_response no_action), deployed_store released_hash, empty_world\<lparr>w_attempts := 0, w_admin_started := False\<rparr>)"
proof -
  have "redis_get (deployed_store fenced_hash) ''{q}'' = Inr (Some ''{}'')" "deployed_store fenced_hash (admin_key ''{q}'') = None"
    by (simp_all add: deployed_store_def redis_get_def admin_key_def)
  note d = refused_post [OF cached_env_fields(1) this(1) _ cached_env_fields(2) this(2), of 1 "empty_world\<lparr>w_attempts := 0\<rparr>"]
  have "cached_write cached_env sample_runtime (Some ''{q}'') undisturbed_run 1 (alias_post []) (deployed_store control_hash) empty_world
    = (Some (error_response no_action), deployed_store released_hash, empty_world\<lparr>w_attempts := 0, w_admin_started := False\<rparr>)"
    using d by (simp add: cached_write_def Let_def sample_runtime_def undisturbed_run_def deployed_admits deployed_releases max_catalog_bytes_def)
  then show ?thesis unfolding dispatch_cached_def if_P [OF alias_post_mutating] .
qed

lemma released_only_when_complete_witness:
  "\<exists>st' w'. dispatch_cached cached_env sample_wire sample_runtime (Some ''{q}'') undisturbed_run 1 (alias_post []) (deployed_store control_hash) empty_world
      = (Some (error_response no_action), st', w')
    \<and> (\<forall>x\<in>set (w_trace w'). \<not> unconfirmed x) \<and> unclaimed ''{q}'' ''c1'' st'"
proof -
  have rc: "cr_cache sample_runtime = deployed ''a''" by (simp add: sample_runtime_def)
  have valid: "valid_identity ''a''" by (simp add: valid_identity_def is_ascii_alphanumeric_def is_digit_def)
  note keys = sample_deployment_ok [OF valid, unfolded sample_deployment_def]
  have "control_fields (deployed ''a'') control_hash"
  proof -
    have "show_nat 0 = ''0''" using digit_char_zero [of 0] by (simp add: show_nat.simps [of 0])
    then have "\<exists>n. ''0'' = show_nat n" by metis
    then show ?thesis by (simp add: control_fields_def control_hash_def schema_def deployed_def)
  qed
  then have ok: "control_ok (deployed ''a'') (deployed_store control_hash)"
    using connected_apart [OF keys] by (simp add: control_ok_def) (simp add: deployed_store_def deployed_def)
  have gone: "fence_of admitted_token \<notin> fenced_by (deployed ''a'') (deployed_store released_hash)"
    by (simp add: fence_of_def admitted_token_def fenced_by_def hash_get_def hash_fields_def deployed_store_def deployed_def
        released_hash_def fenced_hash_def writer_field_def)
  have "(\<forall>x\<in>set (w_trace (empty_world\<lparr>w_attempts := 0, w_admin_started := False\<rparr>)). \<not> unconfirmed x)
      \<and> unclaimed ''{q}'' (claim_uuid (cs_catalog undisturbed_run)) (deployed_store released_hash)"
  proof (rule released_only_when_complete [OF alias_post_mutating keys [folded rc], where st = "deployed_store control_hash" and w = empty_world
        and around = undisturbed_run and token = admitted_token, THEN conjunct1, rule_format])
    show "admit_writer (cr_cache sample_runtime) (token_uuid undisturbed_run) (on_admit undisturbed_run) (deployed_store control_hash)
        = (Inr admitted_token, deployed_store fenced_hash)"
      by (simp add: rc undisturbed_run_def deployed_admits)
    show "dispatch_cached cached_env sample_wire sample_runtime (Some ''{q}'') undisturbed_run 1 (alias_post []) (deployed_store control_hash) empty_world
      = (Some (error_response no_action), deployed_store released_hash, empty_world\<lparr>w_attempts := 0, w_admin_started := False\<rparr>)"
      by (rule refused_write_run)
  qed (use ok gone in \<open>auto simp: rc empty_world_def unclaimed_def redis_get_def deployed_store_def admin_key_def undisturbed_run_def
        quiet_def\<close>)
  then show ?thesis using refused_write_run [of sample_wire] by (simp add: undisturbed_run_def quiet_def)
qed

text \<open>Stored after 5 milliseconds and served after 9.\<close>

definition replay_env :: env where
  "replay_env = sample_env\<lparr>elapsed_ms := 5, json_text := (\<lambda>_. ''body''), parse_json := (\<lambda>_. Inr (no_hits_body 5))\<rparr>"

lemma hit_replays_response_witness:
  "decode (replay_env\<lparr>elapsed_ms := 9\<rparr>) sample_wire ''envelope'' 100 ''/a/_search'' = Some (es_ok (no_hits_body 9))"
proof -
  have response: "search_response env p [] None None = es_ok (no_hits_body (elapsed_ms env))" for env p
    by (simp add: search_response_def no_hits_body_def optional_member_def)
  have path: "search_route replay_env ''/a/_search''"
    by (simp add: search_route_def decode_path_segments_def trim_matches_def replay_env_def sample_env_def)
  have ok: "accepts_headers sample_wire" "resp_body (search_response replay_env p [] None None) = Some (no_hits_body 5)"
    "parse_json replay_env (json_text replay_env (no_hits_body 5)) = Inr (no_hits_body 5)"
    "blur (no_hits_body 5) = blur (no_hits_body 5)"
    "parse_envelope sample_wire (envelope_text sample_wire (envelope_of (no_hits_body 5))) = Some (envelope_of (no_hits_body 5))"
    "blur (no_hits_body 5) = blur (no_hits_body 5)" for p
    by (simp_all add: accepts_headers_def sample_wire_def response es_ok_body replay_env_def)
  have "stored_envelope replay_env sample_wire 100 (search_response replay_env p [] None None) = Some ''envelope''" for p
    by (simp add: stored_envelope_def response response_text_def es_ok_def es_response_def sample_wire_def replay_env_def Let_def)
  from hit_replays_response [OF disjI1 [OF conjI [OF path refl]] ok this, of 9] show ?thesis
    by (auto simp: path response dest: arg_cong [where f = resp_body] simp: es_ok_body)
qed

end
