(* ===== verification/Deployment.thy ===== *)
theory Deployment
  imports CacheRuntime
begin

text \<open>
  How the gateway is configured and deployed: \<open>Config::from_env\<close> of \<open>src/main.rs\<close>, the checks and
  the operator commands of \<open>src/cache_deployment.rs\<close>. The process environment, the executable's
  bytes, the percent encoding of a collection name, and the Redis client and server are parameters
  (\<open>host\<close>).
\<close>

section \<open>The environment\<close>

datatype env_var = Unset | Var string | NotUnicode

type_synonym environment = "string \<Rightarrow> env_var"

fun var_ok :: "env_var \<Rightarrow> string option" where
  "var_ok (Var s) = Some s"
| "var_ok _ = None"

definition ascii_lower :: "char \<Rightarrow> char" where
  "ascii_lower c = (if 65 \<le> byte c \<and> byte c \<le> 90 then char_of (byte c + 32) else c)"

definition eq_ignore_ascii_case :: "string \<Rightarrow> string \<Rightarrow> bool" where
  "eq_ignore_ascii_case s t \<longleftrightarrow> map ascii_lower s = map ascii_lower t"

definition positive_env :: "environment \<Rightarrow> string \<Rightarrow> nat \<Rightarrow> nat" where
  "positive_env vars name fallback = (case var_ok (vars name) of
     None \<Rightarrow> fallback
   | Some s \<Rightarrow> (case parse_unsigned (2 ^ 64) s of Some n \<Rightarrow> if 0 < n then n else fallback | None \<Rightarrow> fallback))"

definition flag_env :: "environment \<Rightarrow> string \<Rightarrow> bool" where
  "flag_env vars name = is_some_and (var_ok (vars name)) (\<lambda>v. v = ''1'' \<or> eq_ignore_ascii_case v ''true'')"

definition number_env :: "environment \<Rightarrow> string \<Rightarrow> nat \<Rightarrow> nat" where
  "number_env vars name fallback = unwrap_or fallback (Option.bind (var_ok (vars name)) (parse_unsigned (2 ^ 64)))"

definition from_env :: "environment \<Rightarrow> config" where
  "from_env vars =
     \<lparr>listen_addr = unwrap_or ''0.0.0.0:9200'' (var_ok (vars ''LISTEN_ADDR'')),
      qdrant_url = trim_end_matches CHR ''/'' (unwrap_or ''http://qdrant:6333'' (var_ok (vars ''QDRANT_URL''))),
      qdrant_api_key = Option.bind (var_ok (vars ''QDRANT_API_KEY'')) (\<lambda>v. if v = [] then None else Some v),
      compat_version = unwrap_or ''8.15.0'' (var_ok (vars ''ES_COMPAT_VERSION'')),
      analytics_on = unwrap_or True (map_option (\<lambda>v. v \<noteq> ''0'' \<and> v \<noteq> ''false'') (var_ok (vars ''COMPATIBILITY_ANALYTICS''))),
      max_body_bytes = number_env vars ''MAX_BODY_BYTES'' (10 * 1024 * 1024),
      max_bulk_bytes = number_env vars ''MAX_BULK_BYTES'' (50 * 1024 * 1024),
      max_page_size = of_nat (number_env vars ''MAX_PAGE_SIZE'' 1000),
      async_payload_writes = flag_env vars ''ASYNC_PAYLOAD_WRITES'',
      document_projection = flag_env vars ''DOCUMENT_PROJECTION'',
      async_search_projection = flag_env vars ''ASYNC_SEARCH_PROJECTION'',
      replication_factor = Option.bind (Option.bind (var_ok (vars ''QDRANT_REPLICATION_FACTOR'')) parse_u64)
        (\<lambda>v. if 0 < v then Some v else None),
      connect_timeout_ms = of_nat (positive_env vars ''QDRANT_CONNECT_TIMEOUT_MS'' 5000),
      request_timeout_ms = of_nat (positive_env vars ''QDRANT_REQUEST_TIMEOUT_MS'' 180000),
      async_write_queue = positive_env vars ''ASYNC_WRITE_QUEUE'' 256\<rparr>"

section \<open>Steps of startup\<close>

text \<open>An \<open>anyhow\<close> error is a message or an error of the modules below.\<close>

datatype startup_error = Refused string | CacheFailed cache_error | GatewayFailed gateway_error

type_synonym 'a boot = "redis \<times> world \<Rightarrow> (startup_error + 'a) \<times> redis \<times> world"

fun map_err :: "('e \<Rightarrow> 'f) \<Rightarrow> 'e + 'a \<Rightarrow> 'f + 'a" where
  "map_err f (Inl e) = Inl (f e)"
| "map_err f (Inr x) = Inr x"

definition lift_boot :: "startup_error + 'a \<Rightarrow> 'a boot" where
  "lift_boot r = (\<lambda>s. (r, s))"

definition bind_boot :: "'a boot \<Rightarrow> ('a \<Rightarrow> 'b boot) \<Rightarrow> 'b boot" where
  "bind_boot m k = (\<lambda>s. case m s of (Inl e, s') \<Rightarrow> (Inl e, s') | (Inr x, s') \<Rightarrow> k x s')"

definition on_cache :: "(redis \<Rightarrow> (cache_error + 'a) \<times> redis) \<Rightarrow> 'a boot" where
  "on_cache f = (\<lambda>(st, w). case f st of (r, st') \<Rightarrow> (map_err CacheFailed r, st', w))"

definition on_qdrant :: "'a act \<Rightarrow> 'a boot" where
  "on_qdrant f = (\<lambda>(st, w). case f w of (r, w') \<Rightarrow> (map_err GatewayFailed r, st, w'))"

definition ensure :: "bool \<Rightarrow> string \<Rightarrow> startup_error + unit" where
  "ensure b message = (if b then Inr () else Inl (Refused message))"

fun each_boot :: "('a \<Rightarrow> unit boot) \<Rightarrow> 'a list \<Rightarrow> unit boot" where
  "each_boot f [] = lift_boot (Inr ())"
| "each_boot f (x # xs) = bind_boot (f x) (\<lambda>_. each_boot f xs)"

text \<open>Everything outside the process: its environment, arguments and executable, and the deliveries and
  answers of Redis during startup or a command.\<close>

record host =
  host_vars :: environment
  host_args :: "string list"
  executable :: "string option"
  encode_name :: "string \<Rightarrow> string"
  redis_opens :: "string \<Rightarrow> bool"
  redis_connects :: bool
  key_answered :: "string \<Rightarrow> bool"
  on_initialize :: delivery
  on_check :: delivery
  on_status :: delivery
  on_catalog :: delivery
  on_operation :: delivery
  server_first :: server_answers
  server_second :: server_answers
  fence_uuid :: string
  address_ok :: "string \<Rightarrow> bool"

section \<open>Settings\<close>

record cache_settings =
  set_url :: string
  set_catalog :: string
  set_identity :: string
  set_serve :: bool
  set_ttl :: nat
  set_max_bytes :: nat

definition default_key :: string where "default_key = ''qeg:{catalog}:v1''"

definition catalog_settings :: "environment \<Rightarrow> startup_error + string \<times> string" where
  "catalog_settings vars =
     map_ok (\<lambda>url. (url, unwrap_or default_key (var_ok (vars ''CATALOG_REDIS_KEY''))))
       (ok_or (Refused ''read caching requires CATALOG_REDIS_URL'') (var_ok (vars ''CATALOG_REDIS_URL'')))"

definition setting_number :: "environment \<Rightarrow> string \<Rightarrow> nat \<Rightarrow> startup_error + nat" where
  "setting_number vars name fallback = (case vars name of
     Var s \<Rightarrow> ok_or (Refused (''invalid '' @ name)) (parse_unsigned (2 ^ 64) s)
   | Unset \<Rightarrow> Inr fallback
   | NotUnicode \<Rightarrow> Inl (Refused (''invalid '' @ name)))"

definition serve_setting :: "env_var \<Rightarrow> startup_error + bool" where
  "serve_setting v =
     (if v = Var ''true'' \<or> v = Var ''1'' \<or> v = Unset then Inr True
      else if v = Var ''false'' \<or> v = Var ''0'' then Inr False
      else Inl (Refused ''READ_CACHE_SERVE must be true or false''))"

definition settings :: "environment \<Rightarrow> startup_error + cache_settings option" where
  "settings vars = (case vars ''READ_CACHE_DEPLOYMENT'' of
     Unset \<Rightarrow> Inr None
   | NotUnicode \<Rightarrow> Inl (Refused ''READ_CACHE_DEPLOYMENT must be valid UTF-8'')
   | Var identity \<Rightarrow>
       if identity = [] then Inl (Refused ''READ_CACHE_DEPLOYMENT must not be empty'')
       else bindR (catalog_settings vars) (\<lambda>(url, catalog).
            bindR (serve_setting (vars ''READ_CACHE_SERVE'')) (\<lambda>serving.
            bindR (setting_number vars ''READ_CACHE_TTL_SECONDS'' 60) (\<lambda>ttl.
            bindR (setting_number vars ''READ_CACHE_MAX_BYTES'' (1024 * 1024)) (\<lambda>limit.
              Inr (Some \<lparr>set_url = url, set_catalog = catalog, set_identity = identity, set_serve = serving,
                set_ttl = ttl, set_max_bytes = limit\<rparr>))))))"

section \<open>Checks\<close>

definition no_initialize :: "environment \<Rightarrow> startup_error + unit" where
  "no_initialize vars = ensure (var_ok (vars ''CATALOG_INITIALIZE'') \<noteq> Some ''true'')
     ''CATALOG_INITIALIZE is forbidden with cache coordination''"

definition preflight :: "host \<Rightarrow> unit boot" where
  "preflight h =
     (let vars = host_vars h in
      bind_boot (lift_boot (settings vars)) (\<lambda>configured.
        if configured \<noteq> None then lift_boot (no_initialize vars)
        else case var_ok (vars ''CATALOG_REDIS_URL'') of
          None \<Rightarrow> lift_boot (Inr ())
        | Some url \<Rightarrow> on_cache (\<lambda>st.
            (reject_unconfigured (redis_opens h) (redis_connects h) (key_answered h) url
               (unwrap_or default_key (var_ok (vars ''CATALOG_REDIS_KEY''))) st, st))))"

definition validate_config :: "environment \<Rightarrow> config \<Rightarrow> startup_error + unit" where
  "validate_config vars conf =
     bindR (ensure (\<not> async_payload_writes conf \<and> \<not> async_search_projection conf)
       ''cache coordination requires synchronous payload and search projection writes'') (\<lambda>_.
     bindR (ensure (replication_factor conf = Some 1)
       ''cache coordination requires QDRANT_REPLICATION_FACTOR=1 for future collections'') (\<lambda>_.
     no_initialize vars))"

definition validate_cluster :: "json \<Rightarrow> startup_error + unit" where
  "validate_cluster v = ensure (Option.bind (pointer [''result'', ''status''] v) as_str = Some ''disabled'')
     ''cache coordination currently requires a standalone Qdrant node with distributed mode disabled''"

definition validate_collection :: "json \<Rightarrow> startup_error + unit" where
  "validate_collection v =
     ensure (Option.bind (pointer [''result'', ''config'', ''params'', ''replication_factor''] v) as_u64 = Some 1)
       ''cache coordination requires every existing Qdrant collection to have replication_factor=1''"

definition check_listed :: "env \<Rightarrow> host \<Rightarrow> json \<Rightarrow> unit boot" where
  "check_listed env h listed =
     bind_boot (lift_boot (ok_or (Refused ''invalid Qdrant collection listing'') (get_str ''name'' listed))) (\<lambda>name.
     bind_boot (on_qdrant (request env GET (''/collections/'' @ encode_name h name) None)) (\<lambda>v.
     lift_boot (validate_collection v)))"

definition validate_backend :: "env \<Rightarrow> host \<Rightarrow> unit boot" where
  "validate_backend env h =
     bind_boot (on_qdrant (request env GET ''/cluster'' None)) (\<lambda>cluster.
     bind_boot (lift_boot (validate_cluster cluster)) (\<lambda>_.
     bind_boot (on_qdrant (request env GET ''/collections'' None)) (\<lambda>v.
     bind_boot (lift_boot (ok_or (Refused ''cannot verify Qdrant collection topology'')
       (Option.bind (pointer [''result'', ''collections''] v) as_array))) (\<lambda>listing.
     each_boot (check_listed env h) listing))))"

text \<open>The digest of the executable and of the settings that shape responses.\<close>

definition semantic_settings :: "config \<Rightarrow> json" where
  "semantic_settings conf = jobj
     [(''response_format'', jint 1), (''qdrant'', JStr (qdrant_url conf)),
      (''credential'', case qdrant_api_key conf of None \<Rightarrow> JNull | Some k \<Rightarrow> JStr k),
      (''compat'', JStr (compat_version conf)), (''body'', jint (of_nat (max_body_bytes conf))),
      (''bulk'', jint (of_nat (max_bulk_bytes conf))), (''page'', jint (max_page_size conf)),
      (''projection'', JBool (document_projection conf)), (''async_payload'', JBool (async_payload_writes conf)),
      (''async_search'', JBool (async_search_projection conf)),
      (''replication'', case replication_factor conf of None \<Rightarrow> JNull | Some n \<Rightarrow> jint n)]"

definition semantic_identity :: "env \<Rightarrow> host \<Rightarrow> startup_error + string" where
  "semantic_identity env h = (case executable h of
     None \<Rightarrow> Inl (Refused ''executable'')
   | Some bytes \<Rightarrow> Inr (sha256 env (bytes @ json_text env (semantic_settings (cfg env)))))"

definition connect_cache :: "env \<Rightarrow> host \<Rightarrow> cache_settings \<Rightarrow> startup_error + read_cache" where
  "connect_cache env h s = bindR (semantic_identity env h) (\<lambda>identity.
     map_err CacheFailed (connect (sha256 env) (redis_opens h) (redis_connects h) (set_url s) (set_catalog s)
       (set_identity s) identity (set_ttl s) (set_max_bytes s)))"

section \<open>Activation and commands\<close>

definition activate :: "env \<Rightarrow> host \<Rightarrow> string option \<Rightarrow> cache_runtime option boot" where
  "activate env h catalog =
     bind_boot (lift_boot (settings (host_vars h))) (\<lambda>configured. case configured of
       None \<Rightarrow> lift_boot (Inr None)
     | Some s \<Rightarrow>
         bind_boot (lift_boot (validate_config (host_vars h) (cfg env))) (\<lambda>_.
         bind_boot (lift_boot (ensure (catalog \<noteq> None) ''cache coordination requires the shared catalog'')) (\<lambda>_.
         bind_boot (validate_backend env h) (\<lambda>_.
         bind_boot (lift_boot (connect_cache env h s)) (\<lambda>rc.
         bind_boot (lift_boot (map_err CacheFailed (validate_durability (server_first h)))) (\<lambda>_.
         bind_boot (on_cache (status rc (on_status h))) (\<lambda>_.
         lift_boot (Inr (Some \<lparr>cr_cache = rc, serve_reads = set_serve s, cr_max_entry_bytes = set_max_bytes s\<rparr>)))))))))"

definition command_usage :: string where
  "command_usage = ''usage: cache status | bootstrap --quiesced | maintenance | recover --new-identity ID --reconciled''"

definition status_json :: "control_status \<Rightarrow> json" where
  "status_json s = jobj [(''deployment'', JStr (cs_deployment s)), (''epoch'', JStr (cs_epoch s)),
     (''state'', JStr (cs_state s)), (''writer_tokens'', JArr (map JStr (cs_tokens s)))]"

text \<open>The line a command prints, or none when there is no command.\<close>

definition cache_command :: "env \<Rightarrow> host \<Rightarrow> cache_settings \<Rightarrow> read_cache \<Rightarrow> string list \<Rightarrow> json boot" where
  "cache_command env h s rc args =
     (let checked = (\<lambda>m. bind_boot (lift_boot (validate_config (host_vars h) (cfg env))) (\<lambda>_.
            bind_boot (validate_backend env h) (\<lambda>_. m))) in
      if args = [''cache'', ''status''] then
        bind_boot (on_cache (status rc (on_status h))) (\<lambda>r. lift_boot (Inr (status_json r)))
      else if args = [''cache'', ''bootstrap'', ''--quiesced''] then
        checked (bind_boot (on_cache (bootstrap env rc True (server_first h) (on_catalog h) (on_operation h))) (\<lambda>_.
          lift_boot (Inr (jobj [(''deployment'', JStr (set_identity s)), (''state'', JStr ''bootstrapped'')]))))
      else if args = [''cache'', ''maintenance''] then
        bind_boot (lift_boot (map_err CacheFailed (validate_durability (server_first h)))) (\<lambda>_.
        bind_boot (on_cache (maintenance rc (server_second h) (fence_uuid h) (on_operation h))) (\<lambda>_.
          lift_boot (Inr (jobj [(''deployment'', JStr (set_identity s)), (''state'', JStr ''fenced''),
            (''recovery_required'', JBool True)]))))
      else case args of
        [a, b, c, identity, d] \<Rightarrow>
          if a = ''cache'' \<and> b = ''recover'' \<and> c = ''--new-identity'' \<and> d = ''--reconciled'' then
            checked (bind_boot (on_cache (recover env rc identity True (server_first h) (on_catalog h) (on_operation h))) (\<lambda>_.
              lift_boot (Inr (jobj [(''deployment'', JStr identity), (''state'', JStr ''recovered''),
                (''restart_all_replicas'', JBool True)]))))
          else lift_boot (Inl (Refused command_usage))
      | _ \<Rightarrow> lift_boot (Inl (Refused command_usage)))"

definition command :: "env \<Rightarrow> host \<Rightarrow> json option boot" where
  "command env h =
     (let args = host_args h in
      if args = [] then lift_boot (Inr None)
      else bind_boot (lift_boot (ensure (hd args = ''cache'') ''unknown command'')) (\<lambda>_.
           bind_boot (lift_boot (bindR (settings (host_vars h))
             (ok_or (Refused ''cache commands require READ_CACHE_DEPLOYMENT'')))) (\<lambda>s.
           bind_boot (lift_boot (connect_cache env h s)) (\<lambda>rc.
           bind_boot (cache_command env h s rc args) (\<lambda>printed. lift_boot (Inr (Some printed)))))))"

end
