(* ===== verification/Startup.thy ===== *)
theory Startup
  imports Deployment
begin

text \<open>
  The process as a whole (\<open>gateway_router\<close> and \<open>main\<close> of \<open>src/main.rs\<close>): how a request reaches the
  dispatcher, and the steps from the environment to a serving gateway. The HTTP server is a
  parameter: what reading a body with a limit returns, and whether an address parses and binds.
\<close>

section \<open>The router\<close>

text \<open>\<open>String::from_utf8\<close>.\<close>

definition continuation :: "char \<Rightarrow> bool" where
  "continuation c \<longleftrightarrow> 0x80 \<le> byte c \<and> byte c \<le> 0xBF"

fun valid_utf8 :: "string \<Rightarrow> bool" where
  "valid_utf8 [] = True"
| "valid_utf8 (a # bs) =
     (let x = byte a in
      if x < 0x80 then valid_utf8 bs
      else if x < 0xC2 then False
      else if x < 0xE0 then (case bs of b # rest \<Rightarrow> continuation b \<and> valid_utf8 rest | _ \<Rightarrow> False)
      else if x < 0xF0 then
        (case bs of b # c # rest \<Rightarrow>
           continuation b \<and> (x = 0xE0 \<longrightarrow> 0xA0 \<le> byte b) \<and> (x = 0xED \<longrightarrow> byte b < 0xA0) \<and> continuation c \<and> valid_utf8 rest
         | _ \<Rightarrow> False)
      else if x < 0xF5 then
        (case bs of b # c # d # rest \<Rightarrow>
           continuation b \<and> (x = 0xF0 \<longrightarrow> 0x90 \<le> byte b) \<and> (x = 0xF4 \<longrightarrow> byte b < 0x90)
           \<and> continuation c \<and> continuation d \<and> valid_utf8 rest
         | _ \<Rightarrow> False)
      else False)"

text \<open>A request on the wire; \<open>at_body\<close> is what reading its body with a limit gives.\<close>

datatype body_error = LengthLimit | BodyBroken string

record arrival =
  at_method :: http_method
  at_path :: string
  at_query :: "string option"
  at_body :: "nat \<Rightarrow> body_error + string"

definition received_body :: "config \<Rightarrow> arrival \<Rightarrow> string outcome" where
  "received_body conf a =
     (let limit = request_body_limit conf (at_method a) (at_path a) in
      case at_body a limit of
        Inl LengthLimit \<Rightarrow> Inl (PayloadTooLarge (request_body_limit_setting (at_method a) (at_path a)) limit)
      | Inl (BodyBroken text_) \<Rightarrow> Inl (Bad ''request.body'' text_)
      | Inr bytes \<Rightarrow>
          if valid_utf8 bytes then Inr bytes else Inl (Bad ''request.body'' ''request body must be valid UTF-8''))"

definition gateway :: "env \<Rightarrow> wire \<Rightarrow> cache_runtime option \<Rightarrow> string option \<Rightarrow> cache_surroundings \<Rightarrow> nat \<Rightarrow> arrival \<Rightarrow> redis \<Rightarrow> world \<Rightarrow>
    response option \<times> redis \<times> world" where
  "gateway env wire runtime catalog around fuel a st w =
     (case bindR (validate_request_parameters env (at_query a)) (\<lambda>_. received_body (cfg env) a) of
        Inl e \<Rightarrow> (Some (error_response e), st, w)
      | Inr body \<Rightarrow> dispatch env wire runtime catalog around fuel
          \<lparr>rq_method = at_method a, rq_path = at_path a, rq_query = at_query a, rq_body = body\<rparr> st w)"

section \<open>The process\<close>

datatype started = Printed json | Serving "string option" "cache_runtime option"

definition load_catalog :: "env \<Rightarrow> host \<Rightarrow> string option boot" where
  "load_catalog env h = (\<lambda>(st, w).
     case catalog_from_env env (var_ok \<circ> host_vars h) (redis_opens h) (on_initialize h) (on_check h) st of
       (r, st') \<Rightarrow> (map_err Refused r, st', w))"

definition serve_steps :: "env \<Rightarrow> host \<Rightarrow> started boot" where
  "serve_steps env h =
     bind_boot (preflight h) (\<lambda>_.
     bind_boot (load_catalog env h) (\<lambda>catalog.
     bind_boot (activate env h catalog) (\<lambda>runtime.
     lift_boot (bindR (ensure (address_ok h (listen_addr (cfg env))) ''invalid listen address'') (\<lambda>_.
       Inr (Serving catalog runtime))))))"

definition startup :: "env \<Rightarrow> host \<Rightarrow> started boot" where
  "startup env0 h =
     (let env = env0\<lparr>cfg := from_env (host_vars h)\<rparr> in
      bind_boot (command env h) (\<lambda>printed. case printed of
        Some v \<Rightarrow> lift_boot (Inr (Printed v)) | None \<Rightarrow> serve_steps env h))"

section \<open>Shared facts\<close>

lemma bind_boot_Inr:
  "bind_boot m k s = (Inr x, s') \<longleftrightarrow> (\<exists>y s1. m s = (Inr y, s1) \<and> k y s1 = (Inr x, s'))"
  by (auto simp: bind_boot_def split: prod.splits sum.splits)

lemma lift_boot_Inr [simp]: "lift_boot r s = (Inr x, s') \<longleftrightarrow> r = Inr x \<and> s' = s"
  by (auto simp: lift_boot_def)

lemma ensure_Inr [simp]: "ensure b message = Inr u \<longleftrightarrow> b"
  by (simp add: ensure_def)

lemma map_err_Inr [simp]: "map_err f r = Inr x \<longleftrightarrow> r = Inr x"
  by (cases r) simp_all

lemma ok_or_Inr [simp]: "ok_or e v = Inr x \<longleftrightarrow> v = Some x"
  by (cases v) simp_all

text \<open>A step that leaves the store alone and sends Qdrant nothing but \<open>GET\<close>.\<close>

definition looks :: "'a boot \<Rightarrow> bool" where
  "looks m \<longleftrightarrow> (\<forall>st w r st' w'. m (st, w) = (r, st', w') \<longrightarrow>
     st' = st \<and> (\<exists>xs. w_trace w' = w_trace w @ xs \<and> (\<forall>x\<in>set xs. call_method (fst x) = GET)))"

lemma looks_lift [intro]: "looks (lift_boot r)"
  by (simp add: looks_def lift_boot_def)

lemma looks_bind [intro]:
  assumes "looks m" "\<And>x. looks (k x)"
  shows "looks (bind_boot m k)"
  unfolding looks_def
proof (intro allI impI)
  fix st w r st' w'
  assume run: "bind_boot m k (st, w) = (r, st', w')"
  obtain r1 st1 w1 where m: "m (st, w) = (r1, st1, w1)" by (metis prod_cases3)
  then obtain xs where xs: "st1 = st" "w_trace w1 = w_trace w @ xs" "\<forall>x\<in>set xs. call_method (fst x) = GET"
    using assms(1) unfolding looks_def by blast
  show "st' = st \<and> (\<exists>xs. w_trace w' = w_trace w @ xs \<and> (\<forall>x\<in>set xs. call_method (fst x) = GET))"
  proof (cases r1)
    case (Inl e)
    then show ?thesis using run m xs by (auto simp: bind_boot_def)
  next
    case (Inr x)
    then have "k x (st1, w1) = (r, st', w')" using run m by (simp add: bind_boot_def)
    then obtain ys where "st' = st1" "w_trace w' = w_trace w1 @ ys" "\<forall>x\<in>set ys. call_method (fst x) = GET"
      using assms(2) unfolding looks_def by blast
    with xs show ?thesis by (intro conjI exI [of _ "xs @ ys"]) auto
  qed
qed

lemma looks_each [intro]: "(\<And>x. looks (f x)) \<Longrightarrow> looks (each_boot f xs)"
  by (induction xs) auto

lemma request_get:
  assumes "request env GET path None w = (r, w')"
  obtains c reply where "w_trace w' = w_trace w @ [(c, reply)]" "call_method c = GET" "call_path c = path"
    "\<And>v. r = Inr v \<Longrightarrow> \<exists>s b. reply = Reply s b \<and> is_success s \<and> reply_json b = v"
  using assms
  by (auto simp: request_def bindE_def raw_request_def is_read_def send_request_def make_call_def take_wait_def Let_def mark_admin_def
      throwE_def liftE_def returnE_def failed_reply_def split: if_splits reply.splits prod.splits)

lemma looks_get [intro]: "looks (on_qdrant (request env GET path None))"
  unfolding looks_def on_qdrant_def
proof (intro allI impI)
  fix st w r st' w'
  assume "(case (st, w) of (st, w) \<Rightarrow> case request env GET path None w of (r, w') \<Rightarrow> (map_err GatewayFailed r, st, w')) = (r, st', w')"
  then obtain r0 where "request env GET path None w = (r0, w')" "st' = st" by (auto split: prod.splits)
  then show "st' = st \<and> (\<exists>xs. w_trace w' = w_trace w @ xs \<and> (\<forall>x\<in>set xs. call_method (fst x) = GET))"
    by (metis request_get [of env path w r0 w'] fst_conv set_ConsD list.set(1) empty_iff)
qed

lemma status_store:
  assumes "status rc d st = (r, st')"
  shows "st' = st" "r = Inr s \<Longrightarrow> validate rc True st \<noteq> None"
proof -
  have script: "snd (status_script rc st) = st"
    by (auto simp: status_script_def validated_def split: option.splits prod.splits)
  show "st' = st"
    using assms script by (cases d) (auto simp: status_def run_script_def invoke_def split: prod.splits sum.splits option.splits)
  show "r = Inr s \<Longrightarrow> validate rc True st \<noteq> None"
    using assms
    by (cases d) (auto simp: status_def run_script_def invoke_def status_script_def validated_def split: prod.splits sum.splits option.splits)
qed

lemma looks_status [intro]: "looks (on_cache (status rc d))"
  using status_store(1) by (auto simp: looks_def on_cache_def split: prod.splits)

lemma looks_backend [intro]: "looks (validate_backend env h)"
  unfolding validate_backend_def check_listed_def by (intro looks_bind looks_each looks_lift looks_get)

lemma looks_activate: "looks (activate env h catalog)"
  unfolding activate_def by (intro looks_bind looks_lift) (auto split: option.splits intro!: looks_bind)

section \<open>What a successful start has checked\<close>

definition answered :: "trace \<Rightarrow> string \<Rightarrow> json \<Rightarrow> bool" where
  "answered tr path v \<longleftrightarrow> (\<exists>c s b. (c, Reply s b) \<in> set tr \<and> call_method c = GET \<and> call_path c = path
     \<and> is_success s \<and> reply_json b = v)"

definition one_replica :: "host \<Rightarrow> trace \<Rightarrow> json \<Rightarrow> bool" where
  "one_replica h tr listed \<longleftrightarrow> (\<exists>name v. get_str ''name'' listed = Some name \<and> answered tr (''/collections/'' @ encode_name h name) v
     \<and> Option.bind (pointer [''result'', ''config'', ''params'', ''replication_factor''] v) as_u64 = Some 1)"

definition standalone :: "host \<Rightarrow> trace \<Rightarrow> bool" where
  "standalone h tr \<longleftrightarrow> (\<exists>cluster v listing.
     answered tr ''/cluster'' cluster \<and> Option.bind (pointer [''result'', ''status''] cluster) as_str = Some ''disabled''
     \<and> answered tr ''/collections'' v \<and> Option.bind (pointer [''result'', ''collections''] v) as_array = Some listing
     \<and> list_all (one_replica h tr) listing)"

lemma answered_append: "answered tr p v \<Longrightarrow> answered (tr @ xs) p v"
  unfolding answered_def by auto

lemma answered_mono:
  assumes "looks m" "m (st, w) = (r, st', w')" "answered (w_trace w) p v"
  shows "answered (w_trace w') p v"
proof -
  obtain xs where "w_trace w' = w_trace w @ xs" using assms(1,2) unfolding looks_def by blast
  then show ?thesis using answered_append [OF assms(3)] by simp
qed

lemma one_replica_mono:
  assumes "looks m" "m (st, w) = (r, st', w')" "one_replica h (w_trace w) x"
  shows "one_replica h (w_trace w') x"
proof -
  obtain name v where x: "get_str ''name'' x = Some name" "answered (w_trace w) (''/collections/'' @ encode_name h name) v"
      "Option.bind (pointer [''result'', ''config'', ''params'', ''replication_factor''] v) as_u64 = Some 1"
    using assms(3) unfolding one_replica_def by blast
  show ?thesis
    unfolding one_replica_def by (intro exI [of _ name] exI [of _ v] conjI x answered_mono [OF assms(1,2)])
qed

lemma get_answered:
  assumes "on_qdrant (request env GET path None) (st, w) = (Inr v, st', w')"
  shows "st' = st" "answered (w_trace w') path v"
proof -
  obtain r0 w1 where req: "request env GET path None w = (r0, w1)" by (cases "request env GET path None w")
  have run: "request env GET path None w = (r0, w')" "map_err GatewayFailed r0 = Inr v" and "st' = st"
    using assms req by (simp_all add: on_qdrant_def)
  then show "st' = st" by simp
  have "r0 = Inr v" using run(2) by simp
  show "answered (w_trace w') path v"
  proof (rule request_get [OF run(1)])
    fix c reply
    assume c: "w_trace w' = w_trace w @ [(c, reply)]" "call_method c = GET" "call_path c = path"
      and ok: "\<And>v. r0 = Inr v \<Longrightarrow> \<exists>s b. reply = Reply s b \<and> is_success s \<and> reply_json b = v"
    obtain s b where "reply = Reply s b" "is_success s" "reply_json b = v" using ok [OF \<open>r0 = Inr v\<close>] by blast
    with c show ?thesis unfolding answered_def by (intro exI [of _ c] exI [of _ s] exI [of _ b]) simp
  qed
qed

lemma check_listed_ok:
  assumes "check_listed env h x (st, w) = (Inr u, st', w')"
  shows "one_replica h (w_trace w') x"
proof -
  obtain name v where name: "get_str ''name'' x = Some name"
    and v: "on_qdrant (request env GET (''/collections/'' @ encode_name h name) None) (st, w) = (Inr v, st', w')"
      "validate_collection v = Inr ()"
    using assms by (auto simp: check_listed_def bind_boot_Inr)
  show ?thesis
    unfolding one_replica_def
    by (intro exI [of _ name] exI [of _ v] conjI name get_answered(2) [OF v(1)])
      (use v(2) in \<open>simp add: validate_collection_def\<close>)
qed

lemma each_listed_ok:
  "each_boot (check_listed env h) xs (st, w) = (Inr u, st', w') \<Longrightarrow> list_all (one_replica h (w_trace w')) xs"
proof (induction xs arbitrary: st w)
  case Nil
  then show ?case by simp
next
  case (Cons x xs)
  obtain st1 w1 where x: "check_listed env h x (st, w) = (Inr (), st1, w1)"
    and rest: "each_boot (check_listed env h) xs (st1, w1) = (Inr u, st', w')"
    using Cons.prems by (auto simp: bind_boot_Inr)
  have "looks (each_boot (check_listed env h) xs)"
    unfolding check_listed_def by (intro looks_bind looks_each looks_lift looks_get)
  from one_replica_mono [OF this rest check_listed_ok [OF x]] Cons.IH [OF rest] show ?case by simp
qed

lemma validate_backend_ok:
  assumes "validate_backend env h (st, w) = (Inr u, st', w')"
  shows "standalone h (w_trace w')"
proof -
  obtain cluster s1 w1 v s2 w2 listing where
    c: "on_qdrant (request env GET ''/cluster'' None) (st, w) = (Inr cluster, s1, w1)" "validate_cluster cluster = Inr ()"
    and l: "on_qdrant (request env GET ''/collections'' None) (s1, w1) = (Inr v, s2, w2)"
      "Option.bind (pointer [''result'', ''collections''] v) as_array = Some listing"
    and e: "each_boot (check_listed env h) listing (s2, w2) = (Inr u, st', w')"
    using assms by (auto simp: validate_backend_def bind_boot_Inr)
  have each: "looks (each_boot (check_listed env h) listing)"
    unfolding check_listed_def by (intro looks_bind looks_each looks_lift looks_get)
  have "answered (w_trace w') ''/cluster'' cluster"
    using answered_mono [OF each e] answered_mono [OF looks_get l(1)] get_answered(2) [OF c(1)] by blast
  moreover have "answered (w_trace w') ''/collections'' v"
    using answered_mono [OF each e] get_answered(2) [OF l(1)] by blast
  ultimately show ?thesis
    unfolding standalone_def using c(2) l(2) each_listed_ok [OF e] by (auto simp: validate_cluster_def)
qed

lemma command_none: "command env h s = (Inr None, s') \<Longrightarrow> host_args h = [] \<and> s' = s"
  by (auto simp: command_def bind_boot_Inr Let_def split: if_splits)

lemma load_catalog_ok:
  assumes "load_catalog env h (st, w) = (Inr (Some key), st', w')"
  shows "key = unwrap_or default_key (var_ok (host_vars h ''CATALOG_REDIS_KEY''))" "w' = w"
    "var_ok (host_vars h ''CATALOG_REDIS_URL'') \<noteq> None"
    "st' = st \<or> var_ok (host_vars h ''CATALOG_INITIALIZE'') = Some ''true'' \<and> \<not> redis_exists st key
       \<and> st' = redis_set key (initial_catalog env) st"
proof -
  let ?var = "var_ok \<circ> host_vars h" let ?key = "unwrap_or default_key (?var ''CATALOG_REDIS_KEY'')"
  have run: "catalog_from_env env ?var (redis_opens h) (on_initialize h) (on_check h) st = (Inr (Some key), st')" and "w' = w"
    using assms by (auto simp: load_catalog_def split: prod.splits)
  then show "w' = w" by simp
  obtain url where url: "?var ''CATALOG_REDIS_URL'' = Some url"
    using run by (cases "?var ''CATALOG_REDIS_URL''") (auto simp: catalog_from_env_def)
  then show "var_ok (host_vars h ''CATALOG_REDIS_URL'') \<noteq> None" by simp
  obtain i st1 where i: "(if ?var ''CATALOG_INITIALIZE'' = Some ''true''
      then invoke (on_initialize h) (initialize_script ?key (initial_catalog env)) st else (Some (), st)) = (i, st1)"
    by (cases "if ?var ''CATALOG_INITIALIZE'' = Some ''true''
      then invoke (on_initialize h) (initialize_script ?key (initial_catalog env)) st else (Some (), st)")
  obtain b st2 where b: "begin_tracked env ?key False [] (on_check h) st1 = (b, st2)"
    by (cases "begin_tracked env ?key False [] (on_check h) st1")
  have done_: "key = ?key" "st' = st2"
    using run url i b
    by (auto simp: catalog_from_env_def Let_def default_key_def comp_def split: if_splits sum.splits)
  then show "key = unwrap_or default_key (var_ok (host_vars h ''CATALOG_REDIS_KEY''))" by simp
  have "st2 = st1" using begin_tracked_store(1) [OF b] by simp
  moreover have "st1 = st \<or> ?var ''CATALOG_INITIALIZE'' = Some ''true'' \<and> \<not> redis_exists st key \<and> st1 = redis_set key (initial_catalog env) st"
    using i done_(1) by (cases "on_initialize h") (auto simp: invoke_def initialize_script_def split: if_splits)
  ultimately show "st' = st \<or> var_ok (host_vars h ''CATALOG_INITIALIZE'') = Some ''true'' \<and> \<not> redis_exists st key
       \<and> st' = redis_set key (initial_catalog env) st"
    using done_ by simp
qed

text \<open>The steps of a start that ends up serving.\<close>

lemma startup_serving:
  assumes "startup env h (st, w) = (Inr (Serving catalog runtime), st', w')"
  obtains st1 w1 where "host_args h = []"
    "preflight h (st, w) = (Inr (), st, w)"
    "load_catalog (env\<lparr>cfg := from_env (host_vars h)\<rparr>) h (st, w) = (Inr catalog, st1, w1)"
    "activate (env\<lparr>cfg := from_env (host_vars h)\<rparr>) h catalog (st1, w1) = (Inr runtime, st', w')"
proof -
  let ?env = "env\<lparr>cfg := from_env (host_vars h)\<rparr>"
  have unchanged: "s' = s" if "preflight h s = (r, s')" for r s s'
    using that by (cases s) (auto simp: preflight_def Let_def bind_boot_def lift_boot_def on_cache_def split: sum.splits option.splits if_splits)
  obtain printed s0 where c: "command ?env h (st, w) = (Inr printed, s0)"
    and rest: "(case printed of None \<Rightarrow> serve_steps ?env h | Some v \<Rightarrow> lift_boot (Inr (Printed v))) s0
      = (Inr (Serving catalog runtime), st', w')"
    using assms unfolding startup_def Let_def bind_boot_Inr by blast
  have "printed = None" using rest by (cases printed) simp_all
  note c = c [unfolded this] and rest = rest [unfolded this option.case]
  have s0: "host_args h = []" "s0 = (st, w)" using command_none [OF c] by simp_all
  obtain u s1 where p: "preflight h (st, w) = (Inr u, s1)"
    and r1: "bind_boot (load_catalog ?env h) (\<lambda>catalog. bind_boot (activate ?env h catalog) (\<lambda>runtime.
          lift_boot (bindR (ensure (address_ok h (listen_addr (cfg ?env))) ''invalid listen address'') (\<lambda>_.
            Inr (Serving catalog runtime))))) s1 = (Inr (Serving catalog runtime), st', w')"
    using rest unfolding s0 serve_steps_def bind_boot_Inr [of "preflight h"] by blast
  then obtain cat s2 where l: "load_catalog ?env h s1 = (Inr cat, s2)"
    and r2: "bind_boot (activate ?env h cat) (\<lambda>runtime.
          lift_boot (bindR (ensure (address_ok h (listen_addr (cfg ?env))) ''invalid listen address'') (\<lambda>_.
            Inr (Serving cat runtime)))) s2 = (Inr (Serving catalog runtime), st', w')"
    unfolding bind_boot_Inr [of "load_catalog ?env h"] by blast
  then obtain run s3 where a: "activate ?env h cat s2 = (Inr run, s3)" and s: "Serving cat run = Serving catalog runtime" "s3 = (st', w')"
    unfolding bind_boot_Inr [of "activate ?env h cat"] lift_boot_Inr bindR_Inr_iff by auto
  have "s1 = (st, w)" by (rule unchanged [OF p])
  with that s0 p l a s show thesis by (cases s2) simp
qed

lemma activate_none: "activate env h catalog s = (Inr None, s') \<Longrightarrow> settings (host_vars h) = Inr None"
  by (auto simp: activate_def bind_boot_Inr split: option.splits)

lemma activate_some:
  assumes "activate env h catalog (st, w) = (Inr (Some rt), st', w')"
  obtains s where "settings (host_vars h) = Inr (Some s)" "validate_config (host_vars h) (cfg env) = Inr ()"
    "connect_cache env h s = Inr (cr_cache rt)" "rc_catalog (cr_cache rt) = set_catalog s"
    "standalone h (w_trace w')" "validate (cr_cache rt) True st \<noteq> None" "st' = st"
proof -
  obtain configured where conf: "settings (host_vars h) = Inr configured"
    and rest: "(case configured of None \<Rightarrow> lift_boot (Inr None)
     | Some s \<Rightarrow>
         bind_boot (lift_boot (validate_config (host_vars h) (cfg env))) (\<lambda>_.
         bind_boot (lift_boot (ensure (catalog \<noteq> None) ''cache coordination requires the shared catalog'')) (\<lambda>_.
         bind_boot (validate_backend env h) (\<lambda>_.
         bind_boot (lift_boot (connect_cache env h s)) (\<lambda>rc.
         bind_boot (lift_boot (map_err CacheFailed (validate_durability (server_first h)))) (\<lambda>_.
         bind_boot (on_cache (status rc (on_status h))) (\<lambda>_.
         lift_boot (Inr (Some \<lparr>cr_cache = rc, serve_reads = set_serve s, cr_max_entry_bytes = set_max_bytes s\<rparr>))))))))) (st, w)
       = (Inr (Some rt), st', w')"
    using assms unfolding activate_def bind_boot_Inr [of "lift_boot (settings (host_vars h))"] by auto
  obtain s where s: "configured = Some s" using rest by (cases configured) simp_all
  obtain st1 w1 where config: "validate_config (host_vars h) (cfg env) = Inr ()"
    and backend: "validate_backend env h (st, w) = (Inr (), st1, w1)"
    and after: "bind_boot (lift_boot (connect_cache env h s)) (\<lambda>rc.
         bind_boot (lift_boot (map_err CacheFailed (validate_durability (server_first h)))) (\<lambda>_.
         bind_boot (on_cache (status rc (on_status h))) (\<lambda>_.
         lift_boot (Inr (Some \<lparr>cr_cache = rc, serve_reads = set_serve s, cr_max_entry_bytes = set_max_bytes s\<rparr>))))) (st1, w1)
       = (Inr (Some rt), st', w')"
    using rest unfolding s option.case by (auto simp: bind_boot_Inr)
  have "st1 = st" using looks_backend backend unfolding looks_def by blast
  obtain rc r s2 where rc: "connect_cache env h s = Inr rc" and status: "on_cache (status rc (on_status h)) (st1, w1) = (Inr r, s2)"
    and rt: "rt = \<lparr>cr_cache = rc, serve_reads = set_serve s, cr_max_entry_bytes = set_max_bytes s\<rparr>" "s2 = (st', w')"
    using after by (auto simp: bind_boot_Inr)
  have run: "status rc (on_status h) st = (Inr r, st')" "w' = w1"
    using status rt(2) \<open>st1 = st\<close> by (auto simp: on_cache_def split: prod.splits)
  have "rc_catalog rc = set_catalog s"
    using rc connected_names by (auto simp: connect_cache_def bindR_Inr_iff)
  then show thesis
    using that [of s] conf s config rc rt(1) validate_backend_ok [OF backend] status_store [OF run(1)] run(2) by simp
qed

lemma settings_catalog:
  assumes "settings vars = Inr (Some s)"
  shows "set_catalog s = unwrap_or default_key (var_ok (vars ''CATALOG_REDIS_KEY''))"
  using assms by (auto simp: settings_def catalog_settings_def bindR_Inr_iff map_ok_Inr_iff split: env_var.splits if_splits)

section \<open>Properties\<close>

text \<open>C6: A gateway that starts with the read cache has checked what the cache rests on: writes are
  synchronous, Qdrant is one node and every collection it lists has one replica, the catalog is the
  cache's, and the control state belongs to this deployment. Starting changed nothing: the store is
  as before, and Qdrant was only asked.\<close>

theorem startup_cache_checked:
  assumes "startup env h (st, w) = (Inr (Serving catalog (Some runtime)), st', w')" "w_trace w = []"
  shows "standalone h (w_trace w') \<and> \<not> async_payload_writes (from_env (host_vars h)) \<and> \<not> async_search_projection (from_env (host_vars h))
    \<and> replication_factor (from_env (host_vars h)) = Some 1 \<and> catalog = Some (rc_catalog (cr_cache runtime))
    \<and> validate (cr_cache runtime) True st \<noteq> None \<and> st' = st \<and> list_all (\<lambda>(c, _). call_method c = GET) (w_trace w')"
proof -
  let ?env = "env\<lparr>cfg := from_env (host_vars h)\<rparr>"
  from startup_serving [OF assms(1)] obtain st1 w1 where steps: "load_catalog ?env h (st, w) = (Inr catalog, st1, w1)"
    "activate ?env h catalog (st1, w1) = (Inr (Some runtime), st', w')" by blast
  from activate_some [OF steps(2)] obtain s where s: "settings (host_vars h) = Inr (Some s)"
    "validate_config (host_vars h) (cfg ?env) = Inr ()" "rc_catalog (cr_cache runtime) = set_catalog s"
    "standalone h (w_trace w')" "validate (cr_cache runtime) True st1 \<noteq> None" "st' = st1" by blast
  have checked: "\<not> async_payload_writes (cfg ?env) \<and> \<not> async_search_projection (cfg ?env) \<and> replication_factor (cfg ?env) = Some 1
      \<and> var_ok (host_vars h ''CATALOG_INITIALIZE'') \<noteq> Some ''true''"
    using s(2) by (simp add: validate_config_def no_initialize_def bindR_Inr_iff)
  have "catalog \<noteq> None" using steps(2) s(1) by (auto simp: activate_def bind_boot_Inr)
  then obtain key where key: "catalog = Some key" by blast
  note loaded = load_catalog_ok [OF steps(1) [unfolded key]]
  have "st1 = st" "w1 = w" using loaded(2,4) checked by auto
  obtain xs where "w_trace w' = w_trace w1 @ xs" "\<forall>x\<in>set xs. call_method (fst x) = GET"
    using looks_activate steps(2) unfolding looks_def by blast
  then have "list_all (\<lambda>(c, _). call_method c = GET) (w_trace w')"
    using assms(2) \<open>w1 = w\<close> by (auto simp: list_all_iff split_beta)
  then show ?thesis
    using s(3-6) checked \<open>st1 = st\<close> key loaded(1) settings_catalog [OF s(1)] by simp
qed

text \<open>A gateway that starts over a shared catalog without the read cache does so only where no cache
  deployment was ever made under that catalog: neither control state nor lineage exists. It changes
  the store at most by writing the empty catalog where there was none, when asked to.\<close>

lemma uncached_apart:
  assumes "startup env h (st, w) = (Inr (Serving (Some key) None), st', w')"
  shows "\<not> redis_exists st (key @ '':read-cache:control'') \<and> \<not> redis_exists st (key @ '':read-cache:initialized'')
    \<and> (st' = st \<or> \<not> redis_exists st key \<and> st' = redis_set key (initial_catalog env) st)"
proof -
  let ?env = "env\<lparr>cfg := from_env (host_vars h)\<rparr>"
  from startup_serving [OF assms(1)] obtain st1 w1 where steps: "preflight h (st, w) = (Inr (), st, w)"
    "load_catalog ?env h (st, w) = (Inr (Some key), st1, w1)" "activate ?env h (Some key) (st1, w1) = (Inr None, st', w')" by blast
  have none: "settings (host_vars h) = Inr None" by (rule activate_none [OF steps(3)])
  note loaded = load_catalog_ok [OF steps(2)]
  obtain url where url: "var_ok (host_vars h ''CATALOG_REDIS_URL'') = Some url" using loaded(3) by auto
  have "reject_unconfigured (redis_opens h) (redis_connects h) (key_answered h) url key st = Inr ()"
    using steps(1) url loaded(1) none
    by (auto simp: preflight_def Let_def bind_boot_Inr on_cache_def default_key_def split: prod.splits)
  then have "\<not> redis_exists st (key @ '':read-cache:control'') \<and> \<not> redis_exists st (key @ '':read-cache:initialized'')"
    by (auto simp: reject_unconfigured_def split: if_splits)
  moreover have "st' = st1" using looks_activate steps(3) unfolding looks_def by blast
  ultimately show ?thesis using loaded(4) by (auto simp: initial_catalog_def)
qed

text \<open>Whatever the environment holds, the timeouts and the size of the write queue are positive, a
  replication factor is never zero, and the Qdrant URL does not end in a slash.\<close>

theorem from_env_positive:
  "0 < connect_timeout_ms (from_env vars) \<and> 0 < request_timeout_ms (from_env vars) \<and> 0 < async_write_queue (from_env vars)
   \<and> async_write_queue (from_env vars) < 2 ^ 64 \<and> replication_factor (from_env vars) \<noteq> Some 0
   \<and> \<not> ends_with ''/'' (qdrant_url (from_env vars))"
proof -
  have env: "0 < positive_env vars name d \<and> positive_env vars name d < 2 ^ 64" if "0 < d" "d < 2 ^ 64" for name d
    using that by (auto simp: positive_env_def parse_unsigned_def Let_def split: option.splits list.splits if_splits)
  have word: "0 < (of_nat n :: u64)" if "0 < n" "n < 2 ^ 64" for n
    using that by (simp add: word_less_nat_alt unat_of_nat)
  have "\<not> ends_with [c] (trim_end_matches c s)" for c s
  proof
    let ?t = "trim_end_matches c s"
    assume "ends_with [c] ?t"
    then have "rev (rev ?t) = rev (c # rev (butlast ?t))" "?t \<noteq> []"
      by (cases ?t rule: rev_cases; simp add: ends_with_def)+
    then show False
      using hd_dropWhile [of "\<lambda>x. x = c" "rev s"] by (metis list.sel(1) rev_is_Nil_conv rev_rev_ident trim_end_matches_def)
  qed
  then show ?thesis
    using env [of 5000] env [of 180000] env [of 256] word
    by (auto simp: from_env_def split: bind_splits if_splits)
qed

text \<open>C5: A gateway with the read cache never changes Qdrant outside the fence. For whatever request reaches
  the router, either every call it sends is a read, or the request is one the cache fences and its
  writer token was admitted to the store before anything else happened.\<close>

theorem gateway_mutations_fenced:
  assumes "plain_decoding env"
  shows "only_reads (w_trace w) (snd (snd (gateway env wire (Some runtime) catalog around fuel a st w)))
    \<or> mutating env (at_method a) (at_path a)
      \<and> (\<exists>token st1. admit_writer (cr_cache runtime) (token_uuid around) (on_admit around) st = (Inr token, st1))"
proof (cases "bindR (validate_request_parameters env (at_query a)) (\<lambda>_. received_body (cfg env) a)")
  case (Inl e)
  show ?thesis unfolding gateway_def Inl sum.case by (simp add: only_reads_start)
next
  case (Inr body)
  define rq where "rq = \<lparr>rq_method = at_method a, rq_path = at_path a, rq_query = at_query a, rq_body = body\<rparr>"
  have at: "rq_method rq = at_method a" "rq_path rq = at_path a" by (simp_all add: rq_def)
  have run: "gateway env wire (Some runtime) catalog around fuel a st w = dispatch_cached env wire runtime catalog around fuel rq st w"
    unfolding gateway_def Inr sum.case by (simp add: dispatch_def rq_def)
  show ?thesis
  proof (cases "mutating env (rq_method rq) (rq_path rq)")
    case reads: False
    obtain r st' w' where d: "dispatch_cached env wire runtime catalog around fuel rq st w = (r, st', w')" by (metis prod_cases3)
    have "only_reads (w_trace w) w'"
      using cached_read_reads [OF assms reads only_reads_start] plain_dispatch_reads [OF assms reads only_reads_start] d
      by (simp add: dispatch_cached_def reads split: if_splits)
    then show ?thesis by (simp add: run d)
  next
    case True
    obtain b st1 where b: "admit_writer (cr_cache runtime) (token_uuid around) (on_admit around) st = (b, st1)"
      by (cases "admit_writer (cr_cache runtime) (token_uuid around) (on_admit around) st")
    show ?thesis
    proof (cases b)
      case (Inl e)
      then have "snd (snd (dispatch_cached env wire runtime catalog around fuel rq st w)) = w"
        using b True by (simp add: dispatch_cached_def cached_write_def Let_def)
      then show ?thesis by (simp add: run only_reads_start)
    next
      case (Inr token)
      then show ?thesis using True b by (simp add: at)
    qed
  qed
qed

section \<open>Concrete starts\<close>

definition cluster_reply :: json where
  "cluster_reply = jobj [(''result'', jobj [(''status'', JStr ''disabled'')])]"

definition collections_reply :: json where
  "collections_reply = jobj [(''result'', jobj [(''collections'', JArr [jobj [(''name'', JStr ''a'')]])])]"

definition collection_reply :: json where
  "collection_reply = jobj [(''result'', jobj [(''config'', jobj [(''params'', jobj [(''replication_factor'', jint 1)])])])]"

definition single_node :: "trace \<Rightarrow> call \<Rightarrow> reply" where
  "single_node tr c = Reply 200 (Inr (if call_path c = ''/cluster'' then cluster_reply
     else if call_path c = ''/collections'' then collections_reply else collection_reply))"

definition start_env :: env where
  "start_env = cached_env\<lparr>sha256 := sample_hasher, env_qdrant := single_node\<rparr>"

definition cached_host :: host where
  "cached_host = \<lparr>host_vars = (\<lambda>k. case map_of [(''READ_CACHE_DEPLOYMENT'', ''a''), (''CATALOG_REDIS_URL'', ''redis''),
       (''CATALOG_REDIS_KEY'', ''{q}''), (''READ_CACHE_MAX_BYTES'', ''100''), (''QDRANT_REPLICATION_FACTOR'', ''1'')] k of
       None \<Rightarrow> Unset | Some v \<Rightarrow> Var v),
     host_args = [], executable = Some ''code'', encode_name = id, redis_opens = (\<lambda>_. True), redis_connects = True,
     key_answered = (\<lambda>_. True), on_initialize = Delivered, on_check = Delivered, on_status = Delivered,
     on_catalog = Delivered, on_operation = Delivered, server_first = durable_server, server_second = durable_server,
     fence_uuid = sample_token, address_ok = (\<lambda>_. True)\<rparr>"

definition uncached_host :: host where
  "uncached_host = cached_host\<lparr>host_vars := (\<lambda>k. if k = ''CATALOG_REDIS_URL'' then Var ''redis''
     else if k = ''CATALOG_REDIS_KEY'' then Var ''{q}'' else Unset)\<rparr>"

lemma parsed_numbers: "parse_unsigned (2 ^ 64) ''100'' = Some 100" "parse_unsigned (2 ^ 64) ''1'' = Some 1"
  by (simp_all add: parse_unsigned_def is_digit_def digit_value_def)

lemma start_catalog: "\<exists>s. parse_snapshot (start_env\<lparr>cfg := c\<rparr>) ''{}'' = Inr s \<and> into_db (start_env\<lparr>cfg := c\<rparr>) s = Inr alias_tables"
  by (simp add: start_env_def cached_env_def shared_env_def sample_env_def parse_snapshot_def max_catalog_bytes_def alias_tables_def
      into_db_def view_row_def parse_strings_def sample_parse_def List.map_filter_def)

lemma start_loads:
  assumes "st ''{q}'' = Some (RString ''{}'', None)" "st ''{q}:admin'' = None"
    and "var_ok (host_vars h ''CATALOG_REDIS_URL'') = Some ''redis''" "var_ok (host_vars h ''CATALOG_REDIS_KEY'') = Some ''{q}''"
    and "var_ok (host_vars h ''CATALOG_INITIALIZE'') = None" "redis_opens h ''redis''" "on_check h = Delivered"
  shows "load_catalog (start_env\<lparr>cfg := c\<rparr>) h (st, w) = (Inr (Some ''{q}''), st, w)"
proof -
  let ?env = "start_env\<lparr>cfg := c\<rparr>"
  obtain s where s: "parse_snapshot ?env ''{}'' = Inr s" "into_db ?env s = Inr alias_tables" using start_catalog by blast
  have "begin_snapshot ?env ''{q}'' False [] Delivered st = (Inr (s, None), st)"
    using assms(1,2) s(1)
    by (simp add: begin_snapshot_def invoke_def begin_script_def redis_exists_def redis_strlen_def redis_get_def admin_key_def
        max_catalog_bytes_def)
  then have "begin_tracked ?env ''{q}'' False [] Delivered st = (Inr (alias_tables, None), st)" using s(2) by (simp add: begin_tracked_def)
  then show ?thesis using assms(3-) by (simp add: load_catalog_def catalog_from_env_def)
qed

definition cached_choice :: cache_settings where
  "cached_choice = \<lparr>set_url = ''redis'', set_catalog = ''{q}'', set_identity = ''a'', set_serve = True, set_ttl = 60, set_max_bytes = 100\<rparr>"

lemma cached_settings: "settings (host_vars cached_host) = Inr (Some cached_choice)"
  by (simp add: cached_choice_def settings_def cached_host_def catalog_settings_def serve_setting_def setting_number_def parsed_numbers [simplified])

lemma cached_config: "validate_config (host_vars cached_host) (from_env (host_vars cached_host)) = Inr ()"
  by (simp add: validate_config_def from_env_def flag_env_def cached_host_def no_initialize_def parse_u64_def parsed_numbers [simplified])

lemma start_request:
  "request (start_env\<lparr>cfg := c\<rparr>) GET path None w = (Inr (if path = ''/cluster'' then cluster_reply
     else if path = ''/collections'' then collections_reply else collection_reply),
     w\<lparr>w_trace := w_trace w @ [(make_call GET path None, single_node [] (make_call GET path None))]\<rparr>)"
  by (simp add: request_def bindE_def raw_request_def is_read_def send_request_def make_call_def take_wait_def Let_def mark_admin_def
      returnE_def failed_reply_def single_node_def start_env_def reply_json_def is_success_def get_str_def cluster_reply_def
      collections_reply_def collection_reply_def get_jobj)

lemma start_backend: "\<exists>w'. validate_backend (start_env\<lparr>cfg := c\<rparr>) cached_host (st, w) = (Inr (), st, w')"
  by (simp add: validate_backend_def bind_boot_def on_qdrant_def start_request lift_boot_def validate_cluster_def ensure_def
      cluster_reply_def collections_reply_def collection_reply_def get_jobj get_str_def check_listed_def cached_host_def validate_collection_def)

lemma start_connects: "connect_cache (start_env\<lparr>cfg := c\<rparr>) cached_host cached_choice = Inr (deployed ''a'')"
proof -
  have valid: "valid_identity ''a''" by (simp add: valid_identity_def is_ascii_alphanumeric_def is_digit_def)
  have "connect sample_hasher (\<lambda>_. True) True ''redis'' ''{q}'' ''a'' ''x'' 60 100
      = connect sample_hasher (\<lambda>_. True) True ''redis'' ''{q}'' ''a'' ''s'' 60 100"
    by (simp add: connect_def cache_hash_def sample_hasher_def)
  with sample_deployment_ok [OF valid] have "connect sample_hasher (\<lambda>_. True) True ''redis'' ''{q}'' ''a'' ''x'' 60 100 = Inr (deployed ''a'')"
    by (simp add: sample_deployment_def)
  moreover have "sha256 (start_env\<lparr>cfg := c\<rparr>) = sample_hasher" "sample_hasher s = ''x''" for s
    by (simp_all add: start_env_def sample_hasher_def)
  ultimately show ?thesis
    by (simp add: connect_cache_def semantic_identity_def cached_host_def cached_choice_def)
qed

lemma deployed_status: "\<exists>r. status (deployed ''a'') Delivered (deployed_store control_hash) = (Inr r, deployed_store control_hash)"
proof -
  note f = deployed_fields [of control_hash, simplified]
  obtain tokens where "token_fields (deployed ''a'') ''0'' (length control_hash) (deployed_store control_hash) = Some tokens"
    using f(2) by blast
  then show ?thesis
    by (simp add: status_def run_script_def invoke_def status_script_def validated_def f(1))
qed

lemma cached_start: "\<exists>w'. startup start_env cached_host (deployed_store control_hash, w)
    = (Inr (Serving (Some ''{q}'') (Some \<lparr>cr_cache = deployed ''a'', serve_reads = True, cr_max_entry_bytes = 100\<rparr>)),
       deployed_store control_hash, w')"
proof -
  let ?st = "deployed_store control_hash" let ?env = "start_env\<lparr>cfg := from_env (host_vars cached_host)\<rparr>"
  have "load_catalog ?env cached_host (?st, w) = (Inr (Some ''{q}''), ?st, w)"
    by (rule start_loads) (simp_all add: deployed_store_def cached_host_def)
  moreover obtain w1 where "validate_backend ?env cached_host (?st, w) = (Inr (), ?st, w1)" using start_backend by blast
  moreover obtain r where "status (deployed ''a'') Delivered ?st = (Inr r, ?st)" using deployed_status by blast
  moreover have "host_args cached_host = []" "server_first cached_host = durable_server" "on_status cached_host = Delivered"
      "address_ok cached_host = (\<lambda>_. True)" "var_ok (host_vars cached_host ''CATALOG_INITIALIZE'') = None"
    by (simp_all add: cached_host_def)
  ultimately show ?thesis
    unfolding startup_def Let_def
    by (simp add: serve_steps_def command_def bind_boot_def lift_boot_def preflight_def cached_settings no_initialize_def
        ensure_def activate_def cached_config Let_def cached_choice_def [THEN arg_cong, of set_serve] cached_choice_def [THEN arg_cong, of set_max_bytes] start_connects on_cache_def durable_server_ok)
qed

lemma startup_cache_checked_witness:
  "\<exists>w'. standalone cached_host (w_trace w') \<and> startup start_env cached_host (deployed_store control_hash, empty_world)
    = (Inr (Serving (Some ''{q}'') (Some \<lparr>cr_cache = deployed ''a'', serve_reads = True, cr_max_entry_bytes = 100\<rparr>)),
       deployed_store control_hash, w')"
proof -
  obtain w' where run: "startup start_env cached_host (deployed_store control_hash, empty_world)
    = (Inr (Serving (Some ''{q}'') (Some \<lparr>cr_cache = deployed ''a'', serve_reads = True, cr_max_entry_bytes = 100\<rparr>)),
       deployed_store control_hash, w')"
    using cached_start by blast
  from startup_cache_checked [OF this] run show ?thesis by (auto simp: empty_world_def)
qed

definition bare_store :: redis where
  "bare_store = [''{q}'' \<mapsto> (RString ''{}'', None)]"

lemma uncached_start: "startup start_env uncached_host (bare_store, empty_world) = (Inr (Serving (Some ''{q}'') None), bare_store, empty_world)"
proof -
  let ?env = "start_env\<lparr>cfg := from_env (host_vars uncached_host)\<rparr>"
  have "load_catalog ?env uncached_host (bare_store, empty_world) = (Inr (Some ''{q}''), bare_store, empty_world)"
    by (rule start_loads) (simp_all add: bare_store_def uncached_host_def cached_host_def)
  moreover have "settings (host_vars uncached_host) = Inr None" by (simp add: settings_def uncached_host_def)
  moreover have "reject_unconfigured (redis_opens uncached_host) (redis_connects uncached_host) (key_answered uncached_host) ''redis'' ''{q}'' bare_store
      = Inr ()"
    by (simp add: reject_unconfigured_def uncached_host_def cached_host_def bare_store_def redis_exists_def)
  moreover have "host_args uncached_host = []" "address_ok uncached_host = (\<lambda>_. True)"
      "var_ok (host_vars uncached_host ''CATALOG_REDIS_URL'') = Some ''redis''" "var_ok (host_vars uncached_host ''CATALOG_REDIS_KEY'') = Some ''{q}''"
    by (simp_all add: uncached_host_def cached_host_def)
  ultimately show ?thesis
    by (simp add: startup_def serve_steps_def command_def bind_boot_def lift_boot_def preflight_def ensure_def activate_def on_cache_def)
qed

lemma uncached_start_apart: "\<not> redis_exists bare_store ''{q}:read-cache:control''"
  using uncached_apart [OF uncached_start] by simp

definition search_arrival :: arrival where
  "search_arrival = \<lparr>at_method = POST, at_path = ''/shoes/_search'', at_query = None, at_body = (\<lambda>_. Inr ''{}'')\<rparr>"

lemma gateway_mutations_fenced_witness:
  "only_reads (w_trace empty_world) (snd (snd (gateway cached_env sample_wire (Some sample_runtime) (Some ''{q}'') undisturbed_run 1
      search_arrival (deployed_store control_hash) empty_world)))"
proof -
  have "plain_decoding cached_env" by (simp add: plain_decoding_def cached_env_def shared_env_def sample_env_def)
  moreover have "\<not> mutating cached_env POST ''/shoes/_search''"
    by (simp add: mutating_def decode_path_segments_def trim_matches_def cached_env_def shared_env_def sample_env_def)
  ultimately show ?thesis
    using gateway_mutations_fenced [of cached_env empty_world sample_wire sample_runtime "Some ''{q}''" undisturbed_run 1 search_arrival
        "deployed_store control_hash"]
    by (simp add: search_arrival_def)
qed

end
