(* ===== verification/Identities.thy ===== *)
theory Identities
  imports Startup
begin

text \<open>
  The life of a shared catalog's keys under everything gateways and operators do to them
  (\<open>src/read_cache.rs\<close>, \<open>src/shared_catalog.rs\<close>): which keys each operation touches, the steps of the
  store as a relation, and that a deployment identity is granted once.
\<close>

section \<open>Keys an operation touches\<close>

definition touches :: "string set \<Rightarrow> (redis \<Rightarrow> 'a \<times> redis) \<Rightarrow> bool" where
  "touches K f \<longleftrightarrow> (\<forall>st k. k \<notin> K \<longrightarrow> snd (f st) k = st k)"

lemma touchesD: "touches K f \<Longrightarrow> f st = (r, st') \<Longrightarrow> k \<notin> K \<Longrightarrow> st' k = st k"
  by (metis touches_def snd_conv)

lemma touches_invoke: "touches K script \<Longrightarrow> touches K (invoke d script)"
  using invoke_store by (metis touches_def)

lemma touches_run: "touches K script \<Longrightarrow> touches K (run_script key d script)"
  using touches_invoke [of K script d] by (auto simp: touches_def run_script_def case_prod_beta split: option.splits)

lemma touches_scripts:
  "touches {} (lookup_script rc digest)" "touches {entry_key rc digest} (fill_script rc digest ticket response)"
  "touches {rc_control rc} (admit_script rc token state)" "touches {rc_control rc} (release_writer_script rc token admitted)"
  "touches {} (status_script rc)" "touches {} (catalog_script rc)"
  "touches {key} (initialize_script key initial)" "touches {admin_key key} (begin_script key claim)"
  "touches {key, admin_key key} (publish_script key claim payload)" "touches {admin_key key} (release_script key claim)"
  by (auto simp: touches_def validated_def lookup_script_def fill_script_def admit_script_def release_writer_script_def status_script_def
      catalog_script_def initialize_script_def begin_script_def publish_script_def release_script_def
      hash_del_other redis_set_ex_def hash_set_def redis_set_def redis_del_def Let_def
      split: option.splits sum.splits prod.splits)

lemma touches_cache:
  "touches {} (lookup rc digest d)" "touches {entry_key rc digest} (fill rc t digest response d)"
  "touches {rc_control rc} (admit_state rc state uuid d)" "touches {rc_control rc} (release_writer rc token d)"
  "touches {} (status rc d)"
proof -
  show "touches {} (lookup rc digest d)"
    using touches_run [where key = "Some digest" and d = d, OF touches_scripts(1) [of rc digest]]
    by (auto simp: touches_def lookup_def case_prod_beta split: sum.splits)
  show "touches {entry_key rc digest} (fill rc t digest response d)"
    using touches_run [where key = "Some digest" and d = d, OF touches_scripts(2) [of rc digest "tk_epoch t" response]]
    by (auto simp: touches_def fill_def case_prod_beta split: sum.splits)
  show "touches {rc_control rc} (admit_state rc state uuid d)"
    using touches_run [where key = None and d = d, OF touches_scripts(3) [of rc uuid state]]
    by (auto simp: touches_def admit_state_def case_prod_beta split: sum.splits)
  show "touches {rc_control rc} (release_writer rc token d)"
    using touches_run [where key = None and d = d, OF touches_scripts(4) [of rc "wt_id token" "wt_epoch token"]]
    by (auto simp: touches_def release_writer_def case_prod_beta split: sum.splits)
  show "touches {} (status rc d)"
    using touches_run [where key = None and d = d, OF touches_scripts(5) [of rc]]
    by (auto simp: touches_def status_def case_prod_beta split: sum.splits)
qed

lemma touches_catalog:
  "touches {admin_key key} (begin_tracked env key admin uuid d)" "touches {key, admin_key key} (commit env key t claim d)"
  "touches {admin_key key} (release key claim d)"
proof -
  show "touches {admin_key key} (begin_tracked env key admin uuid d)"
    unfolding touches_def
  proof (intro allI impI)
    fix st k assume k: "k \<notin> {admin_key key}"
    obtain r st' where run: "begin_tracked env key admin uuid d st = (r, st')" by (cases "begin_tracked env key admin uuid d st")
    show "snd (begin_tracked env key admin uuid d st) k = st k"
      using begin_tracked_store(1) [OF run] run k by (auto simp: redis_set_def)
  qed
  show "touches {key, admin_key key} (commit env key t claim d)"
    using touches_invoke [where d = d, OF touches_scripts(9) [of key claim "snapshot_text env (snapshot_read t)"]]
    by (auto simp: touches_def commit_def publish_def claimed_def case_prod_beta split: option.splits)
  show "touches {admin_key key} (release key claim d)"
    using touches_invoke [where d = d, OF touches_scripts(10) [of key claim]]
    by (auto simp: touches_def release_def claimed_def case_prod_beta split: option.splits)
qed

text \<open>An administrative operation runs its script or nothing.\<close>

lemma reconciled_ran:
  assumes "reconciled env rc operation identity server d1 d2 st = (r, st')"
  shows "st' = st \<or> st' = snd (operation identity st)"
    and "r = Inr () \<Longrightarrow> \<not> redis_exists st (identity_key rc identity) \<and> (\<exists>n. operation identity st = (Inr n, st'))"
proof -
  obtain c st1 where c: "validated_catalog env rc d1 st = (c, st1)" by (cases "validated_catalog env rc d1 st")
  have quiet: "touches {} (validated_catalog env rc d1)"
    using touches_invoke [where d = d1, OF touches_scripts(6) [of rc]]
    by (auto simp: touches_def validated_catalog_def case_prod_beta split: option.splits)
  have "st1 = st" using touchesD [OF quiet c] by (intro ext) simp
  note c = c [unfolded this]
  have script: "administration_script rc operation identity catalog st = (Inl ScriptError, st)
      \<or> \<not> redis_exists st (identity_key rc identity) \<and> administration_script rc operation identity catalog st = operation identity st" for catalog
    by (auto simp: administration_script_def)
  have ran: "st' = st \<or> st' = snd (operation identity st)"
    and done_: "r = Inr () \<Longrightarrow> \<not> redis_exists st (identity_key rc identity) \<and> (\<exists>n. operation identity st = (Inr n, st'))"
    if "administration rc operation identity catalog d2 st = (r, st')" for catalog
  proof -
    obtain a st2 where a: "invoke d2 (administration_script rc operation identity catalog) st = (a, st2)"
      by (cases "invoke d2 (administration_script rc operation identity catalog) st")
    have "st2 = st'" using that a by (auto simp: administration_def split: option.splits)
    note a = a [unfolded this]
    show "st' = st \<or> st' = snd (operation identity st)"
      using invoke_store [of d2 "administration_script rc operation identity catalog" st] a script [of catalog] by auto
    show "r = Inr () \<Longrightarrow> \<not> redis_exists st (identity_key rc identity) \<and> (\<exists>n. operation identity st = (Inr n, st'))"
      using a by (rule invoke_cases) (use that a script [of catalog] in \<open>auto simp: administration_def dest: sym\<close>)
  qed
  show "st' = st \<or> st' = snd (operation identity st)"
    using assms c ran by (auto simp: reconciled_def split: sum.splits)
  show "r = Inr () \<Longrightarrow> \<not> redis_exists st (identity_key rc identity) \<and> (\<exists>n. operation identity st = (Inr n, st'))"
    using assms c done_ by (auto simp: reconciled_def split: sum.splits)
qed

section \<open>Identities\<close>

definition connected :: "string \<Rightarrow> read_cache \<Rightarrow> bool" where
  "connected key rc \<longleftrightarrow> (\<exists>hasher opens connects url deployment semantic ttl limit.
     connect hasher opens connects url key deployment semantic ttl limit = Inr rc)"

text \<open>The keys that record deployments: one for every identity ever granted, one for the current lineage.\<close>

definition mark :: "string \<Rightarrow> string \<Rightarrow> string" where
  "mark key identity = key @ '':read-cache:identity:'' @ identity"

definition lineage :: "string \<Rightarrow> string" where
  "lineage key = key @ '':read-cache:initialized''"

lemma connected_names_apart:
  assumes "connected key rc"
  shows "rc_control rc \<noteq> mark key i" "entry_key rc digest \<noteq> mark key i" "rc_control rc \<noteq> lineage key" "entry_key rc digest \<noteq> lineage key"
    and "identity_key rc i = mark key i" "initialized_key rc = lineage key"
  using assms
  by (auto simp: mark_def lineage_def connected_def connect_def Let_def entry_key_def initialized_key_def identity_key_def split: if_splits)

lemma plain_names_apart: "key \<noteq> mark key i" "admin_key key \<noteq> mark key i" "key \<noteq> lineage key" "admin_key key \<noteq> lineage key"
    "mark key i \<noteq> lineage key" "lineage key \<noteq> mark key i"
  by (simp_all add: mark_def lineage_def admin_key_def)

text \<open>Everything that happens to the store of a catalog: the operations of gateways and operators, with
  any delivery, and the expiry of keys.\<close>

inductive store_step :: "string \<Rightarrow> redis \<Rightarrow> redis \<Rightarrow> bool" for key where
  looked: "connected key rc \<Longrightarrow> lookup rc digest d st = (r, st') \<Longrightarrow> store_step key st st'"
| filled: "connected key rc \<Longrightarrow> fill rc t digest response d st = (r, st') \<Longrightarrow> store_step key st st'"
| admitted: "connected key rc \<Longrightarrow> admit_state rc state uuid d st = (r, st') \<Longrightarrow> store_step key st st'"
| released: "connected key rc \<Longrightarrow> release_writer rc token d st = (r, st') \<Longrightarrow> store_step key st st'"
| asked: "connected key rc \<Longrightarrow> status rc d st = (r, st') \<Longrightarrow> store_step key st st'"
| bootstrapped: "connected key rc \<Longrightarrow> bootstrap env rc asserted server d1 d2 st = (r, st') \<Longrightarrow> store_step key st st'"
| recovered: "connected key rc \<Longrightarrow> recover env rc identity asserted server d1 d2 st = (r, st') \<Longrightarrow> store_step key st st'"
| initialized: "invoke d (initialize_script key initial) st = (r, st') \<Longrightarrow> store_step key st st'"
| opened: "begin_tracked env key admin uuid d st = (b, st') \<Longrightarrow> store_step key st st'"
| committed: "commit env key t claim d st = (r, st') \<Longrightarrow> store_step key st st'"
| dropped: "release key claim d st = (r, st') \<Longrightarrow> store_step key st st'"
| expired: "st k = Some (v, Some ttl) \<Longrightarrow> store_step key st (st(k := None))"

section \<open>Keys that stay\<close>

text \<open>A persistent string under a key of its own, which the record of an identity may only replace by a
  string that is as good.\<close>

locale pinned_key =
  fixes key :: string and pin :: string and good :: "string \<Rightarrow> bool"
  assumes apart: "pin \<noteq> key" "pin \<noteq> admin_key key"
    and cache_apart: "connected key rc \<Longrightarrow> pin \<noteq> rc_control rc \<and> pin \<noteq> entry_key rc digest"
    and recorded: "connected key rc \<Longrightarrow> st pin = Some (RString v, None) \<Longrightarrow> good v \<Longrightarrow>
      \<exists>v'. record_identity rc i st pin = Some (RString v', None) \<and> good v'"
begin

definition pinned :: "redis \<Rightarrow> bool" where
  "pinned st \<longleftrightarrow> (\<exists>v. st pin = Some (RString v, None) \<and> good v)"

lemma pinned_same: "pinned st \<Longrightarrow> st' pin = st pin \<Longrightarrow> pinned st'"
  by (simp add: pinned_def)

lemma pinned_touched: "touches K f \<Longrightarrow> f st = (r, st') \<Longrightarrow> pinned st \<Longrightarrow> pin \<notin> K \<Longrightarrow> pinned st'"
  using touchesD pinned_same by metis

lemma pinned_parts:
  assumes "connected key rc" "pinned st"
  shows "pinned (record_identity rc i st)" "pinned (hash_set (rc_control rc) ps st)"
    "pinned (redis_persist (rc_control rc) st)" "pinned (redis_del (rc_control rc) st)" "pinned (hash_del (rc_control rc) f st)"
proof -
  show "pinned (record_identity rc i st)" using recorded [OF assms(1)] assms(2) by (auto simp: pinned_def)
  have "pin \<noteq> rc_control rc" using cache_apart [OF assms(1)] by blast
  then show "pinned (hash_set (rc_control rc) ps st)" "pinned (redis_persist (rc_control rc) st)"
      "pinned (redis_del (rc_control rc) st)" "pinned (hash_del (rc_control rc) f st)"
    by (auto intro!: pinned_same [OF assms(2)] simp: hash_set_def redis_persist_def redis_del_def hash_del_other split: option.splits)
qed

lemma pinned_scripts:
  assumes c: "connected key rc" "pinned st"
  shows "pinned (snd (bootstrap_script rc i st))" "pinned (snd (recover_script rc i st))"
proof -
  note kept = pinned_parts [OF c(1)]
  show "pinned (snd (bootstrap_script rc i st))" using c(2) kept by (simp add: bootstrap_script_def)
  have dropped: "pinned (fold (\<lambda>(k, _) s. if standard_field k then s else hash_del (rc_control rc) k s) fs s)" if "pinned s" for fs s
    using that kept by (induction fs arbitrary: s) auto
  show "pinned (snd (recover_script rc i st))"
    unfolding recover_script_def Let_def using c(2) by (auto intro!: dropped kept)
qed

lemma pinned_step:
  assumes "store_step key st st'" "pinned st"
  shows "pinned st'"
  using assms
proof cases
  case (bootstrapped rc env asserted server d1 d2 r)
  then have "st' = st \<or> st' = snd (bootstrap_script rc (rc_deployment rc) st)"
    using reconciled_ran(1) by (fastforce simp: bootstrap_def split: if_splits)
  then show ?thesis using assms(2) pinned_scripts(1) [OF bootstrapped(1)] by metis
next
  case (recovered rc env i asserted server d1 d2 r)
  then have "st' = st \<or> st' = snd (recover_script rc i st)"
    using reconciled_ran(1) by (fastforce simp: recover_def split: if_splits)
  then show ?thesis using assms(2) pinned_scripts(2) [OF recovered(1)] by metis
next
  case (expired k v ttl)
  then show ?thesis using assms(2) by (auto simp: pinned_def)
next
  case (looked rc digest d r)
  show ?thesis by (rule pinned_touched [OF touches_cache(1) looked(2) assms(2)]) simp
next
  case (filled rc t digest response d r)
  show ?thesis by (rule pinned_touched [OF touches_cache(2) filled(2) assms(2)]) (simp add: cache_apart [OF filled(1)])
next
  case (admitted rc state uuid d r)
  show ?thesis by (rule pinned_touched [OF touches_cache(3) admitted(2) assms(2)]) (simp add: cache_apart [OF admitted(1)])
next
  case (released rc token d r)
  show ?thesis by (rule pinned_touched [OF touches_cache(4) released(2) assms(2)]) (simp add: cache_apart [OF released(1)])
next
  case (asked rc d r)
  show ?thesis by (rule pinned_touched [OF touches_cache(5) asked(2) assms(2)]) simp
next
  case (initialized d initial r)
  show ?thesis by (rule pinned_touched [OF touches_invoke [OF touches_scripts(7)] initialized(1) assms(2)]) (simp add: apart)
next
  case (opened env admin uuid d b)
  show ?thesis by (rule pinned_touched [OF touches_catalog(1) opened(1) assms(2)]) (simp add: apart)
next
  case (committed env t claim d r)
  show ?thesis by (rule pinned_touched [OF touches_catalog(2) committed(1) assms(2)]) (simp add: apart)
next
  case (dropped claim d r)
  show ?thesis by (rule pinned_touched [OF touches_catalog(3) dropped(1) assms(2)]) (simp add: apart)
qed

lemma pinned_steps: "(store_step key)\<^sup>*\<^sup>* st st' \<Longrightarrow> pinned st \<Longrightarrow> pinned st'"
  by (induction rule: rtranclp_induct) (auto intro: pinned_step)

text \<open>What an acknowledged script leaves.\<close>

lemma pinned_done:
  assumes "connected key rc" "bootstrap_script rc i st = (Inr n, st') \<or> recover_script rc i st = (Inr n, st')"
    and fresh: "\<And>s. pinned (record_identity rc i s)"
  shows "pinned st'"
proof -
  note kept = pinned_parts(2-5) [OF assms(1)]
  have dropped: "pinned (fold (\<lambda>(k, _) s. if standard_field k then s else hash_del (rc_control rc) k s) fs s)" if "pinned s" for fs s
    using that kept by (induction fs arbitrary: s) auto
  from assms(2) show ?thesis
  proof
    assume "bootstrap_script rc i st = (Inr n, st')"
    then show ?thesis by (auto simp: bootstrap_script_def intro!: kept fresh split: if_split_asm)
  next
    assume run: "recover_script rc i st = (Inr n, st')"
    have "\<not> (\<not> plain_string st (initialized_key rc) (rc_deployment rc) \<or> \<not> plain_string st (identity_key rc (rc_deployment rc)) ''1'')"
    proof
      assume bad: "\<not> plain_string st (initialized_key rc) (rc_deployment rc) \<or> \<not> plain_string st (identity_key rc (rc_deployment rc)) ''1''"
      from run [unfolded recover_script_def Let_def if_P [OF bad]] show False by simp
    qed
    from run [unfolded recover_script_def Let_def if_not_P [OF this] prod.inject] show ?thesis
      by (elim conjE) (hypsubst, intro dropped kept fresh)
  qed
qed

end

interpretation marks: pinned_key key "mark key identity" "\<lambda>v. v = ''1''"
  by unfold_locales
    (auto simp: plain_names_apart connected_names_apart(1-4) [THEN not_sym] record_identity_def redis_set_def connected_names_apart(5,6) dest: sym)

interpretation lines: pinned_key key "lineage key" "\<lambda>_. True"
  by unfold_locales
    (auto simp: plain_names_apart connected_names_apart(1-4) [THEN not_sym] record_identity_def redis_set_def connected_names_apart(5,6) dest: sym)

section \<open>Granted identities\<close>

text \<open>A deployment identity was granted: its bootstrap or the recovery to it was acknowledged.\<close>

definition granted :: "read_cache \<Rightarrow> string \<Rightarrow> redis \<Rightarrow> redis \<Rightarrow> bool" where
  "granted rc identity st st' \<longleftrightarrow> (\<exists>env asserted server d1 d2.
     identity = rc_deployment rc \<and> bootstrap env rc asserted server d1 d2 st = (Inr (), st')
     \<or> recover env rc identity asserted server d1 d2 st = (Inr (), st'))"

lemma granted_ran:
  assumes "connected key rc" "granted rc identity st st'"
  obtains n where "\<not> redis_exists st (mark key identity)"
    "bootstrap_script rc identity st = (Inr n, st') \<or> recover_script rc identity st = (Inr n, st')"
proof -
  note ran = reconciled_ran(2) [where rc = rc and identity = identity, unfolded connected_names_apart(5) [OF assms(1)]]
  from assms(2) consider env asserted server d1 d2 where "identity = rc_deployment rc" "bootstrap env rc asserted server d1 d2 st = (Inr (), st')"
    | env asserted server d1 d2 where "recover env rc identity asserted server d1 d2 st = (Inr (), st')"
    unfolding granted_def by blast
  then show thesis
  proof cases
    case 1
    then have "reconciled env rc (bootstrap_script rc) identity server d1 d2 st = (Inr (), st')"
      by (simp add: bootstrap_def split: if_splits)
    from ran [OF this refl] that show thesis by blast
  next
    case 2
    then have "reconciled env rc (recover_script rc) identity server d1 d2 st = (Inr (), st')"
      by (simp add: recover_def split: if_splits)
    from ran [OF this refl] that show thesis by blast
  qed
qed

lemma granted_marks:
  assumes "connected key rc" "granted rc identity st st'"
  shows "marks.pinned key identity st'" "lines.pinned key st'"
proof -
  have "marks.pinned key identity (record_identity rc identity s)" "lines.pinned key (record_identity rc identity s)" for s
    by (simp_all add: marks.pinned_def lines.pinned_def record_identity_def redis_set_def connected_names_apart(5,6) [OF assms(1)]
        plain_names_apart)
  moreover obtain n where "bootstrap_script rc identity st = (Inr n, st') \<or> recover_script rc identity st = (Inr n, st')"
    by (rule granted_ran [OF assms]) blast
  ultimately show "marks.pinned key identity st'" "lines.pinned key st'"
    using marks.pinned_done [OF assms(1)] lines.pinned_done [OF assms(1)] by blast+
qed

section \<open>Properties\<close>

text \<open>C7: A deployment identity is granted at most once in the life of a catalog. After a bootstrap or a
  recovery has been acknowledged for an identity, and after any sequence of operations by gateways and
  operators on any deployments, with replies lost or not and with keys expiring, no bootstrap and no
  recovery is acknowledged for that identity again.\<close>

theorem identity_granted_once:
  assumes "connected key rc" "connected key rc'"
    and "granted rc identity st st1" "(store_step key)\<^sup>*\<^sup>* st1 st2"
  shows "\<not> granted rc' identity st2 st3"
proof
  assume "granted rc' identity st2 st3"
  moreover have "marks.pinned key identity st2"
    by (rule marks.pinned_steps [OF assms(4) granted_marks(1) [OF assms(1,3)]])
  ultimately show False
    by (elim granted_ran [OF assms(2)]) (auto simp: marks.pinned_def redis_exists_def)
qed

text \<open>C8: A catalog that ever had a cache deployment is never served without the cache. Once a bootstrap or
  a recovery was acknowledged, and after any further operations by gateways and operators, a gateway
  that is configured for that catalog but not for the cache does not start.\<close>

theorem deployed_catalog_needs_cache:
  assumes "connected key rc" "granted rc identity st st1" "(store_step key)\<^sup>*\<^sup>* st1 st2"
  shows "fst (startup env h (st2, w)) \<noteq> Inr (Serving (Some key) None)"
proof
  assume served: "fst (startup env h (st2, w)) = Inr (Serving (Some key) None)"
  obtain st' w' where "startup env h (st2, w) = (Inr (Serving (Some key) None), st', w')"
    using served by (cases "startup env h (st2, w)") auto
  then have "\<not> redis_exists st2 (lineage key)" using uncached_apart unfolding lineage_def by blast
  moreover have "lines.pinned key st2"
    by (rule lines.pinned_steps [OF assms(3) granted_marks(2) [OF assms(1,2)]])
  ultimately show False by (auto simp: lines.pinned_def redis_exists_def)
qed

section \<open>A recovered deployment\<close>

lemma sample_connected: "name = ''a'' \<or> name = ''b'' \<Longrightarrow> connected ''{q}'' (deployed name)"
proof -
  assume "name = ''a'' \<or> name = ''b''"
  then have "valid_identity name" by (auto simp: valid_identity_def is_ascii_alphanumeric_def is_digit_def)
  from sample_deployment_ok [OF this] show ?thesis unfolding sample_deployment_def connected_def by blast
qed

lemma sample_granted: "\<exists>st1. granted (deployed ''a'') ''b'' stuck_store st1"
  using stuck_recovery unfolding granted_def by blast

lemma sample_asked: "\<exists>r st2. status (deployed ''b'') Delivered st1 = (r, st2) \<and> (store_step ''{q}'')\<^sup>*\<^sup>* st1 st2"
  by (metis surj_pair store_step.asked sample_connected r_into_rtranclp)

lemma identity_granted_once_witness:
  "\<exists>st1 st2. granted (deployed ''a'') ''b'' stuck_store st1 \<and> snd (status (deployed ''b'') Delivered st1) = st2
    \<and> \<not> granted (deployed ''b'') ''b'' st2 stuck_store"
proof -
  obtain st1 where first: "granted (deployed ''a'') ''b'' stuck_store st1" using sample_granted by blast
  obtain r st2 where asked: "status (deployed ''b'') Delivered st1 = (r, st2)" "(store_step ''{q}'')\<^sup>*\<^sup>* st1 st2"
    using sample_asked by blast
  from identity_granted_once [OF sample_connected sample_connected first asked(2), of "''b''" stuck_store] first asked(1)
  show ?thesis by auto
qed

lemma deployed_catalog_needs_cache_witness:
  "\<exists>st1 st2. granted (deployed ''a'') ''b'' stuck_store st1 \<and> snd (status (deployed ''b'') Delivered st1) = st2
    \<and> fst (startup start_env uncached_host (st2, empty_world)) \<noteq> Inr (Serving (Some ''{q}'') None)"
proof -
  obtain st1 where first: "granted (deployed ''a'') ''b'' stuck_store st1" using sample_granted by blast
  obtain r st2 where asked: "status (deployed ''b'') Delivered st1 = (r, st2)" "(store_step ''{q}'')\<^sup>*\<^sup>* st1 st2"
    using sample_asked by blast
  from deployed_catalog_needs_cache [OF sample_connected first asked(2), of start_env uncached_host empty_world] first asked(1)
  show ?thesis by auto
qed

end
