(* ===== verification/CacheServing.thy ===== *)
theory CacheServing
  imports CacheRuntime
begin

text \<open>
  What the read cache serves, from the lookup to the response: the dispatcher of \<open>CacheRuntime\<close> over
  the histories of \<open>CacheCoherence\<close>. The key of an entry identifies its request, every request of the
  dispatcher is a run of the history, and so a hit is what the gateway may answer at this moment.
\<close>

section \<open>Keys identify requests\<close>

lemma length_be_bytes [simp]: "length (be_bytes w n) = w"
  by (induction w arbitrary: n) simp_all

lemma be_bytes_inj: "m < 256 ^ w \<Longrightarrow> n < 256 ^ w \<Longrightarrow> be_bytes w m = be_bytes w n \<Longrightarrow> m = n"
proof (induction w arbitrary: m n)
  case (Suc w)
  have "be_bytes w (m div 256) = be_bytes w (n div 256)" "char_of (m mod 256) = (char_of (n mod 256) :: char)"
    using Suc.prems(3) by simp_all
  moreover have "m mod 256 = n mod 256"
    using arg_cong [OF calculation(2), of "of_char :: char \<Rightarrow> nat"] by simp
  moreover have "m div 256 < 256 ^ w" "n div 256 < 256 ^ w"
    using Suc.prems(1,2) by (simp_all add: less_mult_imp_div_less mult.commute)
  ultimately show ?case using Suc.IH by (metis div_mult_mod_eq)
qed simp

text \<open>A frame tells where its parts end, for parts that fit into memory.\<close>

abbreviation addressable :: "string \<Rightarrow> bool" where
  "addressable part \<equiv> length part < 256 ^ 8"

lemma framed_inj: "list_all addressable xs \<Longrightarrow> list_all addressable ys \<Longrightarrow> framed xs = framed ys \<Longrightarrow> xs = ys"
proof (induction xs arbitrary: ys)
  case Nil
  then show ?case by (cases ys) (auto simp: framed_def dest: arg_cong [of _ _ length])
next
  case (Cons x xs)
  then obtain y ys' where ys: "ys = y # ys'" by (cases ys) (auto simp: framed_def dest: arg_cong [of _ _ length])
  have split: "be_bytes 8 (length x) @ x @ framed xs = be_bytes 8 (length y) @ y @ framed ys'"
    using Cons.prems(3) by (simp add: ys framed_def)
  then have "be_bytes 8 (length x) = be_bytes 8 (length y)" and rest: "x @ framed xs = y @ framed ys'" by simp_all
  from be_bytes_inj [OF _ _ this(1)] have "length x = length y" using Cons.prems(1,2) by (simp add: ys)
  with rest have "x = y" "framed xs = framed ys'" by simp_all
  with Cons show ?case by (simp add: ys)
qed

lemma byte_pairs_inj: "concat (map (\<lambda>b. hex_padded 2 (byte b)) xs) = concat (map (\<lambda>b. hex_padded 2 (byte b)) ys) \<Longrightarrow> xs = ys"
proof (induction xs arbitrary: ys)
  case Nil
  then show ?case by (cases ys) (auto dest: arg_cong [of _ _ length])
next
  case (Cons x xs)
  then obtain y ys' where ys: "ys = y # ys'" by (cases ys) (auto dest: arg_cong [of _ _ length])
  have "hex_padded 2 (byte x) = hex_padded 2 (byte y)"
    and rest: "concat (map (\<lambda>b. hex_padded 2 (byte b)) xs) = concat (map (\<lambda>b. hex_padded 2 (byte b)) ys')"
    using Cons.prems by (simp_all add: ys)
  then have "byte x = byte y" using hex_padded_inj [of "byte x" 2 "byte y"] by simp
  then show ?case using Cons.IH [OF rest] by (simp add: ys)
qed

lemma split_uri:
  assumes "CHR ''?'' \<notin> set p" "CHR ''?'' \<notin> set p'" "p @ CHR ''?'' # q = p' @ CHR ''?'' # q'"
  shows "p = p' \<and> q = q'"
proof -
  have "takeWhile (\<lambda>c. c \<noteq> CHR ''?'') (p @ CHR ''?'' # q) = p" "takeWhile (\<lambda>c. c \<noteq> CHR ''?'') (p' @ CHR ''?'' # q') = p'"
    using assms(1,2) by (subst takeWhile_append2; auto)+
  then show ?thesis using assms(3) by simp
qed

text \<open>The requests a client may send: an HTTP path has no question mark, and a method is \<open>GET\<close> or \<open>POST\<close>
  where responses are cached.\<close>

definition plain_request :: "http_request \<Rightarrow> bool" where
  "plain_request rq \<longleftrightarrow> (rq_method rq = GET \<or> rq_method rq = POST) \<and> CHR ''?'' \<notin> set (rq_path rq)
     \<and> addressable (uri_of rq) \<and> addressable (rq_body rq)"

lemma uri_of_inj: "plain_request a \<Longrightarrow> plain_request b \<Longrightarrow> uri_of a = uri_of b \<Longrightarrow> rq_path a = rq_path b \<and> rq_query a = rq_query b"
proof -
  assume "plain_request a" "plain_request b" and eq: "uri_of a = uri_of b"
  then have clean: "CHR ''?'' \<notin> set (rq_path a)" "CHR ''?'' \<notin> set (rq_path b)" unfolding plain_request_def by blast+
  show ?thesis
  proof (cases "rq_query a")
    case None
    then have "CHR ''?'' \<notin> set (uri_of a)" using clean(1) by (simp add: uri_of_def)
    then have "rq_query b = None" unfolding eq by (cases "rq_query b") (simp_all add: uri_of_def)
    then show ?thesis using None eq by (simp add: uri_of_def)
  next
    case (Some q)
    then have "CHR ''?'' \<in> set (uri_of b)" using eq [symmetric] by (simp add: uri_of_def)
    then obtain q' where "rq_query b = Some q'" using clean(2) by (cases "rq_query b") (simp_all add: uri_of_def)
    then show ?thesis using Some eq split_uri [OF clean] by (simp add: uri_of_def)
  qed
qed

definition key_of :: "env \<Rightarrow> read_cache \<Rightarrow> http_request \<Rightarrow> string" where
  "key_of env rc rq = request_key (sha256 env) rc (method_text (rq_method rq)) (uri_of rq) (rq_body rq)"

text \<open>The text that is hashed, and what is asked of SHA-256: no collision among the requests of the
  deployment.\<close>

definition key_text :: "read_cache \<Rightarrow> http_request \<Rightarrow> string" where
  "key_text rc rq = framed [rc_semantic rc, method_text (rq_method rq), uri_of rq, rq_body rq]"

definition distinguishable :: "env \<Rightarrow> read_cache \<Rightarrow> http_request set \<Rightarrow> bool" where
  "distinguishable env rc R \<longleftrightarrow> addressable (rc_semantic rc) \<and> (\<forall>rq\<in>R. plain_request rq) \<and> inj_on (sha256 env) (key_text rc ` R)"

lemma key_of_inj:
  assumes "distinguishable env rc R"
  shows "inj_on (key_of env rc) R"
proof (rule inj_onI)
  fix a b assume ab: "a \<in> R" "b \<in> R" "key_of env rc a = key_of env rc b"
  have plain: "plain_request a" "plain_request b" using assms ab(1,2) by (auto simp: distinguishable_def)
  have "sha256 env (key_text rc a) = sha256 env (key_text rc b)"
    using ab(3) byte_pairs_inj by (simp add: key_of_def request_key_def cache_hash_def key_text_def)
  then have same: "key_text rc a = key_text rc b"
    using assms ab(1,2) by (auto simp: distinguishable_def dest: inj_onD)
  have short: "addressable (method_text (rq_method rq))" if "plain_request rq" for rq
    using that by (auto simp: plain_request_def method_text_def)
  have "method_text (rq_method a) = method_text (rq_method b) \<and> uri_of a = uri_of b \<and> rq_body a = rq_body b"
    using framed_inj [OF _ _ same [unfolded key_text_def]] plain short assms
    by (simp add: plain_request_def distinguishable_def)
  moreover have "rq_method a = rq_method b" if "method_text (rq_method a) = method_text (rq_method b)"
    using that plain by (auto simp: plain_request_def method_text_def)
  ultimately show "a = b" using uri_of_inj [OF plain] by (cases a; cases b) simp
qed

section \<open>Requests as histories\<close>

text \<open>\<open>reads d\<close> is how Qdrant may answer a call while its data are \<open>d\<close>. A request computes a response from
  the catalog it observed first and from one observation for every call; the clock and the replies are
  those of that run. \<open>stores\<close> is the relation the histories are about: the entries a request of \<open>R\<close> may
  fill.\<close>

definition computes :: "env \<Rightarrow> ('d \<Rightarrow> call \<Rightarrow> reply \<Rightarrow> bool) \<Rightarrow> http_request \<Rightarrow> 'd observed list \<Rightarrow> response \<Rightarrow> bool" where
  "computes env reads rq seen r \<longleftrightarrow>
     (\<exists>bytes d rest q now fuel w w' sent. seen = (Inr (Some bytes), d) # rest
        \<and> answer_miss (env\<lparr>env_qdrant := q, elapsed_ms := now, shared_catalog := True\<rparr>) fuel rq bytes w = Inr (Some r, w')
        \<and> w_trace w' = w_trace w @ sent \<and> list_all2 (\<lambda>(_, d) (c, reply). reads d c reply) rest sent)"

definition stores :: "env \<Rightarrow> wire \<Rightarrow> cache_runtime \<Rightarrow> ('d \<Rightarrow> call \<Rightarrow> reply \<Rightarrow> bool) \<Rightarrow> http_request set \<Rightarrow>
    string \<Rightarrow> 'd observed list \<Rightarrow> string \<Rightarrow> bool" where
  "stores env wire runtime reads R digest seen v \<longleftrightarrow>
     (\<exists>rq\<in>R. \<exists>r. key_of env (cr_cache runtime) rq = digest \<and> computes env reads rq seen r
        \<and> stored_envelope env wire (cr_max_entry_bytes runtime) r = Some v)"

text \<open>The environment of one request: its own clock and the replies it gets.\<close>

abbreviation during :: "env \<Rightarrow> (trace \<Rightarrow> call \<Rightarrow> reply) \<Rightarrow> u64 \<Rightarrow> env" where
  "during env q now \<equiv> env\<lparr>env_qdrant := q, elapsed_ms := now\<rparr>"

lemma during_simps [simp]:
  "stored_envelope (during env q now) wire limit r = stored_envelope env wire limit r"
  "stored_envelope (during env q now\<lparr>shared_catalog := b\<rparr>) wire limit r = stored_envelope env wire limit r"
proof -
  have fields: "json_text (during env q now) = json_text env" "parse_json (during env q now) = parse_json env"
    "json_text (during env q now\<lparr>shared_catalog := b\<rparr>) = json_text env" "parse_json (during env q now\<lparr>shared_catalog := b\<rparr>) = parse_json env"
    by simp_all
  show "stored_envelope (during env q now) wire limit r = stored_envelope env wire limit r"
    "stored_envelope (during env q now\<lparr>shared_catalog := b\<rparr>) wire limit r = stored_envelope env wire limit r"
    unfolding stored_envelope_def response_text_def fields by (rule refl)+
qed

lemma error_not_stored: "stored_envelope env wire limit (error_response e) = None"
  using error_not_success [of e]
  by (auto simp: stored_envelope_def error_response_def es_response_def is_success_def)

subsection \<open>Reads\<close>

lemma lookup_catalog:
  assumes "lookup rc digest d st = (Inr l, st')" "lu_catalog l = Some bytes"
  shows "catalog_now rc st = Inr (Some bytes)"
proof -
  obtain result where r: "lookup_script rc digest st = (Inr result, st')" "parse_lookup rc result = Inr l"
    using assms(1) by (auto simp: lookup_def split: prod.splits sum.splits dest!: run_script_result(1) [OF _ refl])
  show ?thesis
    using r(1) unfolding lookup_script_def
  proof (cases rule: validated_cases)
    case (passed epoch state held)
    then show ?thesis using r(2) assms(2)
      by (auto simp: parse_lookup_def catalog_now_def split: if_splits option.splits sum.splits)
  qed simp
qed

lemma lookup_store: "lookup rc digest d st = (r, st') \<Longrightarrow> st' = st"
proof -
  assume "lookup rc digest d st = (r, st')"
  then have "st' = st \<or> st' = snd (lookup_script rc digest st)"
    using run_script_result(2) by (fastforce simp: lookup_def split: prod.splits sum.splits)
  moreover have "snd (lookup_script rc digest st) = st"
    by (auto simp: lookup_script_def validated_def split: option.splits prod.splits sum.splits)
  ultimately show ?thesis by simp
qed

lemma opened_read:
  "snd (opened key False uuid d st) = st"
  "fst (opened key False uuid d st) = Some [''ok'', bytes] \<Longrightarrow> redis_get st key = Inr (Some bytes)"
  by (auto simp: opened_def invoke_def begin_script_def split: delivery.splits sum.splits option.splits prod.splits if_splits)

lemma begin_read:
  assumes "begin_snapshot env key False uuid d st = (b, st')"
  shows "st' = st" "b = Inr (s, claim) \<Longrightarrow> claim = None \<and> (\<exists>bytes. redis_get st key = Inr (Some bytes) \<and> parse_snapshot env bytes = Inr s)"
  using begin_snapshot_opened(1,3) [of env key False uuid d st] opened_read [of key uuid d st] assms by fastforce+

lemma eligible_routes:
  assumes "eligible env rq"
  shows "is_admin env (rq_method rq) (rq_path rq) = Inr False" "\<not> (rq_path rq = ''/healthz'' \<and> rq_method rq = GET)"
    "\<not> mutating env (rq_method rq) (rq_path rq)"
proof -
  obtain parts where parts: "decode_path_segments env (rq_path rq) = Inr parts"
    and routes: "(\<exists>a c. parts = [a, ''_doc'', c]) \<and> rq_method rq = GET \<or> (\<exists>a. parts = [a, ''_search'']) \<and> (rq_method rq = GET \<or> rq_method rq = POST)"
    using assms by (auto simp: eligible_def Let_def split: sum.splits prod.splits json.splits list.splits)
  have "decode_path_segments env p = Inr parts \<Longrightarrow> p = ''/_aliases'' \<or> p = ''/healthz'' \<Longrightarrow> length parts = 1" for p
    by (auto simp: decode_path_segments_def trim_matches_def split: option.splits)
  then have other: "rq_path rq \<noteq> ''/_aliases''" "rq_path rq \<noteq> ''/healthz''" using parts routes by fastforce+
  then show "\<not> (rq_path rq = ''/healthz'' \<and> rq_method rq = GET)" by simp
  show "is_admin env (rq_method rq) (rq_path rq) = Inr False" using parts routes other by (auto simp: is_admin_def)
  show "\<not> mutating env (rq_method rq) (rq_path rq)" using parts routes by (auto simp: mutating_def)
qed

text \<open>Without a snapshot from the lookup, an eligible request reads the catalog itself: its answer is the
  one over that catalog, or an error.\<close>

lemma eligible_dispatch:
  assumes run: "plain_dispatch env (Some key) around fuel rq st w = (Some r, st', w')"
    and eligible: "eligible env rq" and plain: "\<not> admin_tracked env" "meanwhile around = id"
  shows "st' = st \<and> ((\<exists>e. r = error_response e) \<and> w' = w
    \<or> (\<exists>bytes. redis_get st key = Inr (Some bytes) \<and> answer_miss (env\<lparr>shared_catalog := True\<rparr>) fuel rq bytes w = Inr (Some r, w')))"
proof -
  let ?env = "env\<lparr>shared_catalog := True\<rparr>"
  have decode: "percent_utf8 ?env = percent_utf8 env" by simp
  have "is_admin ?env (rq_method rq) (rq_path rq) = is_admin env (rq_method rq) (rq_path rq)"
    by (simp only: is_admin_def decode_path_segments_def decode)
  then have "is_admin ?env (rq_method rq) (rq_path rq) = Inr False" using eligible_routes(1) [OF eligible] by simp
  note dispatch = run [unfolded plain_dispatch_def dispatch_catalog_def Let_def option.case if_not_P [OF eligible_routes(2) [OF eligible]] this sum.case]
  show ?thesis
  proof (cases "uses_read_view ?env (rq_method rq) (rq_path rq)")
    case True
    obtain b st1 where b: "begin_snapshot ?env key False [] (on_open around) st = (b, st1)" by (cases "begin_snapshot ?env key False [] (on_open around) st")
    note d = dispatch [unfolded if_P [OF True] read_view_of_def b prod.case]
    show ?thesis
    proof (cases b)
      case (Inl e)
      then show ?thesis using d begin_read(1) [OF b] by (auto simp: answered_at_once_def split: prod.splits)
    next
      case (Inr sc)
      obtain s claim where sc: "sc = (s, claim)" by (cases sc)
      obtain bytes where bytes: "redis_get st key = Inr (Some bytes)" "parse_snapshot ?env bytes = Inr s"
        using begin_read(2) [OF b] Inr sc by blast
      then have "snapshot_read_view ?env bytes = into_read_view ?env s" by (simp add: snapshot_read_view_def)
      then show ?thesis
        using d begin_read(1) [OF b] bytes(1) True
        by (cases "into_read_view ?env s")
          (auto simp: Inr sc answered_at_once_def without_claim_def answer_miss_def split: prod.splits option.splits)
    qed
  next
    case False
    obtain b st1 where b: "begin_snapshot ?env key False (claim_uuid around) (on_open around) st = (b, st1)"
      by (cases "begin_snapshot ?env key False (claim_uuid around) (on_open around) st")
    note d = dispatch [unfolded if_not_P [OF False] begin_tracked_def b prod.case]
    show ?thesis
    proof (cases b)
      case (Inl e)
      then show ?thesis using d begin_read(1) [OF b] by (auto simp: answered_at_once_def split: prod.splits)
    next
      case (Inr sc)
      obtain s claim where sc: "sc = (s, claim)" by (cases sc)
      obtain bytes where claim: "claim = None" and bytes: "redis_get st key = Inr (Some bytes)" "parse_snapshot ?env bytes = Inr s"
        using begin_read(2) [OF b] Inr sc by blast
      have "snapshot_db ?env bytes = into_db ?env s" by (simp add: snapshot_db_def bytes(2))
      moreover have "?env\<lparr>read_catalog := None, admin_tracked := False\<rparr> = ?env\<lparr>read_catalog := None\<rparr>" using plain(1) by simp
      ultimately show ?thesis
        using d begin_read(1) [OF b] bytes(1) False
        by (cases "into_db ?env s")
          (auto simp: Inr sc claim answered_at_once_def with_catalog_def answer_miss_def plain(2) split: prod.splits option.splits)
    qed
  qed
qed

subsection \<open>Steps\<close>

lemma observe_many:
  assumes "(digest, t, seen) \<in> ch_readers h"
  shows "\<exists>readers. (cache_step rc H)\<^sup>*\<^sup>* h (h\<lparr>ch_readers := readers\<rparr>) \<and> (digest, t, seen @ replicate n (present rc h)) \<in> readers"
proof (induction n)
  case 0
  have "h\<lparr>ch_readers := ch_readers h\<rparr> = h" by simp
  then show ?case using assms by (metis append_Nil2 replicate_0 rtranclp.rtrancl_refl)
next
  case (Suc n)
  then obtain readers where IH: "(cache_step rc H)\<^sup>*\<^sup>* h (h\<lparr>ch_readers := readers\<rparr>)" "(digest, t, seen @ replicate n (present rc h)) \<in> readers"
    by blast
  let ?readers = "insert (digest, t, (seen @ replicate n (present rc h)) @ [present rc h]) readers"
  have "cache_step rc H (h\<lparr>ch_readers := readers\<rparr>) (h\<lparr>ch_readers := ?readers\<rparr>)"
    using cache_step.observed [of digest t "seen @ replicate n (present rc h)" "h\<lparr>ch_readers := readers\<rparr>" rc H] IH(2) by simp
  with IH(1) have "(cache_step rc H)\<^sup>*\<^sup>* h (h\<lparr>ch_readers := ?readers\<rparr>)" by (rule rtranclp.rtrancl_into_rtrancl)
  moreover have "(digest, t, seen @ replicate (Suc n) (present rc h)) \<in> ?readers" by (simp add: replicate_append_same [symmetric])
  ultimately show ?case by blast
qed

text \<open>A request of the dispatcher ends in this store, with these data and these tokens.\<close>

definition reaches :: "read_cache \<Rightarrow> (string \<Rightarrow> 'd observed list \<Rightarrow> string \<Rightarrow> bool) \<Rightarrow> 'd cache_history \<Rightarrow> redis \<Rightarrow> 'd \<Rightarrow> bool" where
  "reaches rc H h st data \<longleftrightarrow> (\<exists>h'. (cache_step rc H)\<^sup>*\<^sup>* h h' \<and> ch_store h' = st \<and> ch_data h' = data)"

lemma reaches_here: "reaches rc H h (ch_store h) (ch_data h)"
  unfolding reaches_def by blast

lemma reaches_fill:
  assumes "lookup rc digest d (ch_store h) = (Inr l, st1)" "lu_ticket l = Some t" "seen = [] \<or> seen = [present rc h]"
    and "H digest (seen @ replicate n (present rc h)) v" "fill rc t digest v d' (ch_store h) = (r, st')"
  shows "reaches rc H h st' (ch_data h)"
proof -
  let ?h = "h\<lparr>ch_readers := insert (digest, t, seen) (ch_readers h)\<rparr>"
  have looked: "cache_step rc H h ?h" using assms(1-3) by (rule cache_step.looked_up)
  obtain readers where many: "(cache_step rc H)\<^sup>*\<^sup>* ?h (?h\<lparr>ch_readers := readers\<rparr>)" "(digest, t, seen @ replicate n (present rc h)) \<in> readers"
    using observe_many [of digest t seen ?h rc H n] by auto
  have "cache_step rc H (?h\<lparr>ch_readers := readers\<rparr>) (?h\<lparr>ch_readers := readers, ch_store := st'\<rparr>)"
    using cache_step.filled [of digest t _ "?h\<lparr>ch_readers := readers\<rparr>" H v rc d' r st'] many(2) assms(4,5) by simp
  with many(1) looked have "(cache_step rc H)\<^sup>*\<^sup>* h (?h\<lparr>ch_readers := readers, ch_store := st'\<rparr>)"
    by (meson converse_rtranclp_into_rtranclp rtranclp.rtrancl_into_rtrancl)
  then show ?thesis unfolding reaches_def by force
qed

lemma reaches_stored:
  assumes looked: "lookup (cr_cache runtime) (key_of env (cr_cache runtime) rq) d (ch_store h) = (Inr l, st1)"
    and seen: "seen = [] \<or> seen = [present (cr_cache runtime) h]"
    and computed: "computes env reads rq (seen @ replicate n (present (cr_cache runtime) h)) r" "rq \<in> R"
  shows "reaches (cr_cache runtime) (stores env wire runtime reads R) h
    (store_response (during env q now) wire runtime around (key_of env (cr_cache runtime) rq) (lu_ticket l) r (ch_store h)) (ch_data h)"
proof (cases "lu_ticket l = None \<or> stored_envelope env wire (cr_max_entry_bytes runtime) r = None")
  case True
  then show ?thesis using reaches_here by (auto simp: store_response_def split: option.splits)
next
  case False
  then obtain t v where t: "lu_ticket l = Some t" and v: "stored_envelope env wire (cr_max_entry_bytes runtime) r = Some v" by auto
  obtain r1 st2 where f: "fill (cr_cache runtime) t (key_of env (cr_cache runtime) rq) v (on_fill around) (ch_store h) = (r1, st2)"
    by (cases "fill (cr_cache runtime) t (key_of env (cr_cache runtime) rq) v (on_fill around) (ch_store h)")
  have "stores env wire runtime reads R (key_of env (cr_cache runtime) rq) (seen @ replicate n (present (cr_cache runtime) h)) v"
    using computed v unfolding stores_def by blast
  from reaches_fill [where H = "stores env wire runtime reads R", OF looked t seen this f] show ?thesis
    by (simp add: store_response_def t v f)
qed

lemma computes_now:
  assumes "answer_miss (during env q now\<lparr>shared_catalog := True\<rparr>) fuel rq bytes w = Inr (Some r, w')"
    and "catalog_now rc (ch_store h) = Inr (Some bytes)"
    and "w_trace w' = w_trace w @ sent" "list_all (\<lambda>(c, reply). reads (ch_data h) c reply) sent"
  shows "computes env reads rq (present rc h # replicate (length sent) (present rc h)) r"
proof -
  have "list_all2 (\<lambda>(_, d) (c, reply). reads d c reply) (replicate (length sent) (present rc h)) sent"
    using assms(4) by (induction sent) (auto simp: present_def)
  then show ?thesis using assms(1-3) unfolding computes_def present_def by blast
qed

lemma dispatched_reaches:
  assumes look: "lookup (cr_cache runtime) (key_of env (cr_cache runtime) rq) d (ch_store h) = (looked, st1)"
    and run: "plain_dispatch (during env q now) (Some (rc_catalog (cr_cache runtime))) around fuel rq (ch_store h) w = (Some r, st', w')"
    and rq: "eligible (during env q now) rq" "rq \<in> R" and quiet: "\<not> admin_tracked env" "meanwhile around = id"
    and sent: "w_trace w' = w_trace w @ sent" "list_all (\<lambda>(c, reply). reads (ch_data h) c reply) sent"
  shows "st' = ch_store h" and "reaches (cr_cache runtime) (stores env wire runtime reads R) h
    (store_response (during env q now) wire runtime surround (key_of env (cr_cache runtime) rq) (Option.bind (ok_opt looked) lu_ticket) r (ch_store h))
    (ch_data h)"
proof -
  have "\<not> admin_tracked (during env q now)" using quiet(1) by simp
  note answered = eligible_dispatch [OF run rq(1) this quiet(2)]
  then show "st' = ch_store h" by simp
  from answered consider e where "r = error_response e" | e where "looked = Inl e"
    | l bytes where "looked = Inr l" "redis_get (ch_store h) (rc_catalog (cr_cache runtime)) = Inr (Some bytes)"
      "answer_miss (during env q now\<lparr>shared_catalog := True\<rparr>) fuel rq bytes w = Inr (Some r, w')"
    by (cases looked) blast+
  then show "reaches (cr_cache runtime) (stores env wire runtime reads R) h
    (store_response (during env q now) wire runtime surround (key_of env (cr_cache runtime) rq) (Option.bind (ok_opt looked) lu_ticket) r (ch_store h))
    (ch_data h)"
  proof cases
    case (3 l bytes)
    have "computes env reads rq ([] @ replicate (Suc (length sent)) (present (cr_cache runtime) h)) r"
      using computes_now [where h = h and reads = reads, OF 3(3) 3(2) [folded catalog_now_def] sent] by simp
    from reaches_stored [OF look [unfolded 3(1)] disjI1 [OF refl] this rq(2)] show ?thesis using 3(1) by simp
  qed (auto simp: store_response_def error_not_stored reaches_here split: option.splits)
qed

lemma opened_reaches:
  assumes look: "lookup (cr_cache runtime) (key_of env (cr_cache runtime) rq) d (ch_store h) = (Inr l, st1)" "lu_catalog l = Some bytes"
    and a: "answer_miss (during env q now\<lparr>shared_catalog := True\<rparr>) fuel rq bytes w = Inr (Some r, w')" and "rq \<in> R"
    and sent: "w_trace w' = w_trace w @ sent" "list_all (\<lambda>(c, reply). reads (ch_data h) c reply) sent"
  shows "reaches (cr_cache runtime) (stores env wire runtime reads R) h
    (store_response (during env q now) wire runtime surround (key_of env (cr_cache runtime) rq) (lu_ticket l) r (ch_store h)) (ch_data h)"
proof -
  have "computes env reads rq ([present (cr_cache runtime) h] @ replicate (length sent) (present (cr_cache runtime) h)) r"
    using computes_now [where h = h and reads = reads, OF a lookup_catalog [OF look] sent] by simp
  from reaches_stored [OF look(1) disjI2 [OF refl] this assms(4)] show ?thesis .
qed

lemma cached_read_reaches:
  assumes run: "cached_read (during env q now) wire runtime (Some (rc_catalog (cr_cache runtime))) around fuel rq (ch_store h) w = (Some r, st', w')"
    and rq: "eligible (during env q now) rq" "rq \<in> R" and quiet: "\<not> admin_tracked env" "meanwhile (cs_catalog around) = id"
    and sent: "w_trace w' = w_trace w @ sent" "list_all (\<lambda>(c, reply). reads (ch_data h) c reply) sent"
  shows "reaches (cr_cache runtime) (stores env wire runtime reads R) h st' (ch_data h)"
proof -
  let ?rc = "cr_cache runtime" and ?env = "during env q now"
  let ?key = "key_of env ?rc rq"
  have key: "request_key (sha256 ?env) ?rc (method_text (rq_method rq)) (uri_of rq) (rq_body rq) = ?key" by (simp add: key_of_def)
  have shared: "?env\<lparr>shared_catalog := (Some (rc_catalog ?rc) \<noteq> None)\<rparr> = ?env\<lparr>shared_catalog := True\<rparr>" by simp
  obtain looked st1 where look: "lookup ?rc ?key (on_lookup around) (ch_store h) = (looked, st1)"
    by (cases "lookup ?rc ?key (on_lookup around) (ch_store h)")
  note unfolded = run [unfolded cached_read_def Let_def key look prod.case lookup_store [OF look] quiet(2) id_apply shared]
  show ?thesis
  proof (cases "Option.bind (Option.bind (ok_opt looked) lu_response) (\<lambda>bytes. decode ?env wire bytes (cr_max_entry_bytes runtime) (rq_path rq))")
    case (Some hit)
    then have "st' = ch_store h" using unfolded by simp
    then show ?thesis using reaches_here by simp
  next
    case None
    note missed = unfolded [unfolded None option.case]
    show ?thesis
    proof (cases "Option.bind (ok_opt looked) lu_catalog")
      case None
      obtain o2 st2 w2 where p: "plain_dispatch ?env (Some (rc_catalog ?rc)) (cs_catalog around) fuel rq (ch_store h) w = (o2, st2, w2)"
        by (metis prod_cases3)
      note dispatched = missed [unfolded None option.case p prod.case]
      then have "o2 = Some r" "w2 = w'" by (auto split: option.splits)
      note p = p [unfolded this]
      show ?thesis
        using dispatched dispatched_reaches [where reads = reads, OF look p rq quiet sent] \<open>o2 = Some r\<close> by auto
    next
      case (Some bytes)
      then obtain l where l: "looked = Inr l" "lu_catalog l = Some bytes" by (cases looked) auto
      note opened = missed [unfolded Some option.case]
      show ?thesis
      proof (cases "answer_miss (?env\<lparr>shared_catalog := True\<rparr>) fuel rq bytes w")
        case (Inl e)
        then show ?thesis using opened by (auto intro: reaches_here)
      next
        case (Inr answered)
        then have "answer_miss (?env\<lparr>shared_catalog := True\<rparr>) fuel rq bytes w = Inr (Some r, w')"
          and "st' = store_response ?env wire runtime around ?key (lu_ticket l) r (ch_store h)"
          using opened l(1) by (auto split: prod.splits option.splits)
        then show ?thesis using opened_reaches [where reads = reads, OF look [unfolded l(1)] l(2) _ rq(2) sent] by simp
      qed
    qed
  qed
qed

subsection \<open>Writes\<close>

text \<open>With nobody else at work, a write is an admission, a change of Qdrant and of the catalog under the token
  and, when it is complete, a release.\<close>

definition alone :: "cache_surroundings \<Rightarrow> bool" where
  "alone around \<longleftrightarrow> before_dispatch around = id \<and> after_dispatch around = id \<and> meanwhile (cs_catalog around) = id"

lemma reaches_admitted:
  assumes "admit_state rc state uuid d (ch_store h) = (Inr token, st1)"
    and "\<And>k. k \<noteq> rc_catalog rc \<Longrightarrow> k \<noteq> rc_admin rc \<Longrightarrow> st2 k = st1 k"
    and "st' = st2 \<or> (\<exists>d r. release_writer rc token d st2 = (r, st'))"
  shows "reaches rc H h st' data"
proof -
  let ?h1 = "h\<lparr>ch_store := st1, ch_writers := insert token (ch_writers h)\<rparr>"
  let ?h2 = "?h1\<lparr>ch_store := st2, ch_data := data\<rparr>"
  have "cache_step rc H h ?h1" using assms(1) by (rule cache_step.admitted)
  moreover have "cache_step rc H ?h1 ?h2"
    using assms(2) by (intro cache_step.wrote [of token]) simp_all
  ultimately have wrote: "(cache_step rc H)\<^sup>*\<^sup>* h ?h2" by simp
  from assms(3) show ?thesis
  proof (elim disjE exE)
    assume "st' = st2"
    then show ?thesis using wrote unfolding reaches_def by force
  next
    fix d r assume "release_writer rc token d st2 = (r, st')"
    then have "cache_step rc H ?h2 (?h2\<lparr>ch_store := st', ch_writers := {w \<in> ch_writers ?h2. fence_of w \<noteq> fence_of token}\<rparr>)"
      by (intro cache_step.released) simp_all
    with wrote have "(cache_step rc H)\<^sup>*\<^sup>* h (?h2\<lparr>ch_store := st', ch_writers := {w \<in> ch_writers ?h2. fence_of w \<noteq> fence_of token}\<rparr>)"
      by (rule rtranclp.rtrancl_into_rtrancl)
    then show ?thesis unfolding reaches_def by - (intro exI conjI, assumption, simp_all)
  qed
qed

lemma cached_write_reaches:
  assumes run: "cached_write env runtime (Some (rc_catalog (cr_cache runtime))) around fuel rq (ch_store h) w = (Some r, st', w')"
    and names: "rc_admin (cr_cache runtime) = admin_key (rc_catalog (cr_cache runtime))"
    and quiet: "alone around" and data: "w_trace w' = w_trace w \<Longrightarrow> data = ch_data h"
  shows "reaches (cr_cache runtime) H h st' data"
proof -
  let ?rc = "cr_cache runtime"
  obtain a st1 where a: "admit_writer ?rc (token_uuid around) (on_admit around) (ch_store h) = (a, st1)"
    by (cases "admit_writer ?rc (token_uuid around) (on_admit around) (ch_store h)")
  note admit = a [unfolded admit_writer_def]
  show ?thesis
  proof (cases a)
    case (Inl e)
    then have "st' = st1" "w' = w" using run by (auto simp: cached_write_def a Let_def)
    moreover have "cache_step ?rc H h (h\<lparr>ch_store := st1\<rparr>)" using admit [unfolded Inl] by (rule cache_step.refused)
    then have "reaches ?rc H h st1 (ch_data h)"
      unfolding reaches_def by (intro exI [of _ "h\<lparr>ch_store := st1\<rparr>"] conjI r_into_rtranclp) simp_all
    ultimately show ?thesis using data by simp
  next
    case (Inr token)
    obtain out st2 where d: "dispatch_catalog (env\<lparr>tracked := True\<rparr>) (Some (rc_catalog ?rc)) (cs_catalog around) fuel rq st1 (w\<lparr>w_attempts := 0\<rparr>)
        = (Some out, st2, w')" and after: "st' = st2 \<or> (\<exists>d r. release_writer ?rc token d st2 = (r, st'))"
      using cached_write_cases [OF run a [unfolded Inr]] quiet by (fastforce simp: alone_def split: if_splits)
    have "\<forall>k. k \<noteq> rc_catalog ?rc \<longrightarrow> k \<noteq> rc_admin ?rc \<longrightarrow> st2 k = st1 k"
      by (rule dispatch_catalog_keeps [OF d]) (use quiet names in \<open>auto simp: alone_def\<close>)
    with reaches_admitted [OF admit [unfolded Inr] _ after] show ?thesis by blast
  qed
qed

text \<open>What is not fenced and not cached leaves the store as it is.\<close>

lemma admin_mutating: "plain_decoding env \<Longrightarrow> is_admin env m path = Inr True \<Longrightarrow> mutating env m path"
proof -
  assume dec: "plain_decoding env" and admin: "is_admin env m path = Inr True"
  show ?thesis
  proof (cases "m = PUT \<or> m = DELETE")
    case False
    then have "path = ''/_aliases''" "m = POST" using admin by (auto simp: is_admin_def bindR_Inr_iff split: if_splits)
    moreover have "percent_utf8 env ''_aliases'' = Some ''_aliases''"
      using dec unfolding plain_decoding_def by (simp add: is_ascii_def)
    ultimately show ?thesis by (simp add: mutating_def decode_path_segments_def trim_matches_def)
  qed (auto simp: mutating_def)
qed

lemma plain_read_store:
  assumes run: "plain_dispatch env (Some key) around fuel rq st w = (Some r, st', w')"
    and "\<not> mutating env (rq_method rq) (rq_path rq)" "plain_decoding env" "meanwhile around = id"
  shows "st' = st"
proof -
  obtain out where d: "dispatch_catalog env (Some key) around fuel rq st w = (Some out, st', w')"
    using run by (auto simp: plain_dispatch_def split: prod.splits)
  have read: "is_admin (env\<lparr>shared_catalog := True\<rparr>) (rq_method rq) (rq_path rq) \<noteq> Inr True"
    using admin_mutating [of "env\<lparr>shared_catalog := True\<rparr>"] same_decoding [of "env\<lparr>shared_catalog := True\<rparr>" env] assms(2,3) by auto
  from d show ?thesis
  proof (cases rule: dispatch_catalog_cases)
    case (refused admin e no_claim)
    then show ?thesis using begin_tracked_store(1) [OF refused(1)] read by (cases admin) auto
  next
    case (opened admin t claim st1)
    then have "st1 = st" "claim = None" using begin_tracked_store(1,3) [OF opened(1)] read by auto
    then show ?thesis using opened(2) assms(4) by (auto simp: with_catalog_def answered_at_once_def split: prod.splits option.splits)
  qed simp
qed

text \<open>A read touches nothing but entries.\<close>

definition same_but_entries :: "read_cache \<Rightarrow> redis \<Rightarrow> redis \<Rightarrow> bool" where
  "same_but_entries rc st st' \<longleftrightarrow> (\<forall>k. (\<forall>digest. k \<noteq> entry_key rc digest) \<longrightarrow> st' k = st k)"

lemma stored_entries: "same_but_entries (cr_cache runtime) st (store_response env wire runtime around key ticket r st)"
  using fill_keeps by (auto simp: same_but_entries_def store_response_def split: option.splits) (metis prod.collapse)

lemma same_but_entries_refl: "same_but_entries rc st st"
  by (simp add: same_but_entries_def)

lemma cached_read_entries:
  assumes run: "cached_read env wire runtime (Some key) around fuel rq st w = (Some r, st', w')"
    and read: "\<not> mutating env (rq_method rq) (rq_path rq)" "plain_decoding env" "meanwhile (cs_catalog around) = id"
  shows "same_but_entries (cr_cache runtime) st st'"
proof -
  let ?rc = "cr_cache runtime" and ?key = "request_key (sha256 env) (cr_cache runtime) (method_text (rq_method rq)) (uri_of rq) (rq_body rq)"
  obtain looked st1 where look: "lookup ?rc ?key (on_lookup around) st = (looked, st1)" by (cases "lookup ?rc ?key (on_lookup around) st")
  note unfolded = run [unfolded cached_read_def Let_def look prod.case lookup_store [OF look] read(3) id_apply]
  obtain o2 st2 w2 where p: "plain_dispatch env (Some key) (cs_catalog around) fuel rq st w = (o2, st2, w2)" by (metis prod_cases3)
  have "o2 = Some r2 \<Longrightarrow> st2 = st" for r2
    using plain_read_store [OF _ read] p by blast
  with unfolded show ?thesis
    by (auto simp: p intro: same_but_entries_refl stored_entries split: option.splits sum.splits prod.splits)
qed

section \<open>Properties\<close>

text \<open>C4: A request the dispatcher serves under the cache, by itself (what other gateways do between its steps
  are steps of the histories of their own), is a run of the histories: the store it leaves behind and the data
  of Qdrant are reached by lookups, observations, fills, admissions, writes under a token and releases. A
  request that is not classified as a mutation sends Qdrant reads only, so (a read leaving the data of Qdrant
  as they are) it keeps the data, and it leaves everything in the store but entries of the cache as it was.\<close>

theorem requests_are_histories:
  assumes run: "dispatch_cached (during env q now) wire runtime (Some (rc_catalog (cr_cache runtime))) around fuel rq (ch_store h) w
      = (Some r, st', w')"
    and deployed: "connect hasher opens connects url key deployment semantic ttl limit = Inr (cr_cache runtime)"
    and env: "plain_decoding env" "\<not> admin_tracked env" "rq \<in> R" "alone around"
    and sent: "w_trace w' = w_trace w @ sent"
    and reading: "list_all (\<lambda>(c, _). is_read (call_method c) (call_path c)) sent \<Longrightarrow>
      data = ch_data h \<and> list_all (\<lambda>(c, reply). reads (ch_data h) c reply) sent"
  shows "(\<exists>h'. (cache_step (cr_cache runtime) (stores env wire runtime reads R))\<^sup>*\<^sup>* h h' \<and> ch_store h' = st' \<and> ch_data h' = data)
    \<and> (\<not> mutating env (rq_method rq) (rq_path rq) \<longrightarrow> list_all (\<lambda>(c, _). is_read (call_method c) (call_path c)) sent
      \<and> data = ch_data h \<and> same_but_entries (cr_cache runtime) (ch_store h) st')"
proof -
  let ?env = "during env q now" and ?rc = "cr_cache runtime"
  have same: "plain_decoding ?env = plain_decoding env" "mutating ?env m path = mutating env m path" for m path
    by (rule same_decoding; simp)+
  have quiet: "meanwhile (cs_catalog around) = id" using env(4) by (simp add: alone_def)
  note unfolded = run [unfolded dispatch_cached_def same]
  show ?thesis
  proof (cases "mutating env (rq_method rq) (rq_path rq)")
    case True
    have "rc_admin ?rc = admin_key (rc_catalog ?rc)" using connected_names [OF deployed] by simp
    from cached_write_reaches [OF unfolded [unfolded if_P [OF True]] this env(4)] show ?thesis
      using True sent reading unfolding reaches_def by simp
  next
    case False
    note read = unfolded [unfolded if_not_P [OF False]]
    have nm: "\<not> mutating ?env (rq_method rq) (rq_path rq)" "plain_decoding ?env" using False env(1) same by simp_all
    have base: "only_reads (w_trace w) w" by (simp add: only_reads_def)
    have "only_reads (w_trace w) w'"
      using read cached_read_reads [OF nm(2,1) base] plain_dispatch_reads [OF nm(2,1) base] by (simp split: if_split_asm)
    then have calls: "list_all (\<lambda>(c, _). is_read (call_method c) (call_path c)) sent"
      using sent by (auto simp: only_reads_def)
    note data = conjunct1 [OF reading [OF calls]]
    have "reaches ?rc (stores env wire runtime reads R) h st' data \<and> same_but_entries ?rc (ch_store h) st'"
    proof (cases "serve_reads runtime \<and> eligible ?env rq")
      case True
      from cached_read_reaches [where reads = reads, OF read [unfolded if_P [OF True]] conjunct2 [OF True] env(3,2) quiet sent]
      show ?thesis using reading [OF calls] cached_read_entries [OF read [unfolded if_P [OF True]] nm quiet] by simp
    next
      case other: False
      have "st' = ch_store h"
        by (rule plain_read_store [OF read [unfolded if_not_P [OF other]]]) (use False same env(1) quiet in simp_all)
      then show ?thesis using reaches_here data same_but_entries_refl by simp
    qed
    then show ?thesis using calls data unfolding reaches_def by blast
  qed
qed

text \<open>C2: A hit is what the gateway would answer now. Whatever writes, publications, fills and lost messages
  came before, and whenever the requests in flight observed the catalog and Qdrant: when the cache
  serves a request, it does so without a call of Qdrant, and there is a run of that same request over the
  present catalog, with replies Qdrant gives over its present data, whose response is the stored one.\<close>

theorem hit_answers_now:
  assumes reach: "cache_reachable (cr_cache runtime) (stores env wire runtime reads R) h"
    and rq: "distinguishable env (cr_cache runtime) R" "rq \<in> R"
    and hit: "lookup (cr_cache runtime) (key_of env (cr_cache runtime) rq) (on_lookup around) (ch_store h) = (Inr l, st')"
      "lu_response l = Some bytes"
      "decode (during env q now) wire bytes (cr_max_entry_bytes runtime) (rq_path rq) = Some served"
  shows "cached_read (during env q now) wire runtime catalog around fuel rq (ch_store h) w
      = (Some served, ch_store h, count_hit (during env q now) (rq_path rq) w)
    \<and> (\<exists>m r. computes env reads rq (replicate m (present (cr_cache runtime) h)) r
        \<and> stored_envelope env wire (cr_max_entry_bytes runtime) r = Some bytes)"
proof
  have key: "request_key (sha256 (during env q now)) (cr_cache runtime) (method_text (rq_method rq)) (uri_of rq) (rq_body rq)
      = key_of env (cr_cache runtime) rq" by (simp add: key_of_def)
  show "cached_read (during env q now) wire runtime catalog around fuel rq (ch_store h) w
      = (Some served, ch_store h, count_hit (during env q now) (rq_path rq) w)"
    unfolding cached_read_def Let_def key hit(1) prod.case using lookup_store [OF hit(1)] hit(2,3) by simp
  from cached_response_current [OF reach hit(1,2)] obtain m
    where "stores env wire runtime reads R (key_of env (cr_cache runtime) rq) (replicate m (present (cr_cache runtime) h)) bytes" by blast
  then obtain rq' r where "rq' \<in> R" "key_of env (cr_cache runtime) rq' = key_of env (cr_cache runtime) rq"
      "computes env reads rq' (replicate m (present (cr_cache runtime) h)) r"
      "stored_envelope env wire (cr_max_entry_bytes runtime) r = Some bytes"
    unfolding stores_def by blast
  moreover from this have "rq' = rq" using key_of_inj [OF rq(1)] rq(2) by (auto dest: inj_onD)
  ultimately show "\<exists>m r. computes env reads rq (replicate m (present (cr_cache runtime) h)) r
        \<and> stored_envelope env wire (cr_max_entry_bytes runtime) r = Some bytes" by blast
qed

section \<open>Concrete requests\<close>

lemma requests_are_histories_witness:
  "\<exists>h'. (cache_step (deployed ''a'') (stores cached_env sample_wire sample_runtime (\<lambda>_ _ _. True) {alias_post []}))\<^sup>*\<^sup>*
      \<lparr>ch_store = deployed_store control_hash, ch_data = (), ch_readers = {}, ch_writers = {}\<rparr> h'
    \<and> ch_store h' = deployed_store released_hash"
proof -
  let ?h = "\<lparr>ch_store = deployed_store control_hash, ch_data = (), ch_readers = {}, ch_writers = {}\<rparr>"
  have rc: "cr_cache sample_runtime = deployed ''a''" "rc_catalog (deployed ''a'') = ''{q}''" by (simp_all add: sample_runtime_def deployed_def)
  have "valid_identity ''a''" by (simp add: valid_identity_def is_ascii_alphanumeric_def is_digit_def)
  note deployed = sample_deployment_ok [OF this, unfolded sample_deployment_def]
  have env: "during cached_env (env_qdrant cached_env) (elapsed_ms cached_env) = cached_env" by simp
  have run: "dispatch_cached (during cached_env (env_qdrant cached_env) (elapsed_ms cached_env)) sample_wire sample_runtime
      (Some (rc_catalog (cr_cache sample_runtime))) undisturbed_run 1 (alias_post []) (ch_store ?h) empty_world
    = (Some (error_response no_action), deployed_store released_hash, empty_world\<lparr>w_attempts := 0, w_admin_started := False\<rparr>)"
    unfolding env rc by (simp only: cache_history.simps refused_write_run)
  have "plain_decoding cached_env" by (simp add: plain_decoding_def cached_env_def shared_env_def sample_env_def)
  moreover have "\<not> admin_tracked cached_env" by (simp add: cached_env_def shared_env_def sample_env_def)
  moreover have "alone undisturbed_run" by (simp add: alone_def undisturbed_run_def quiet_def fun_eq_iff)
  ultimately show ?thesis
    using requests_are_histories [OF run deployed [folded rc(1)], where R = "{alias_post []}" and sent = "[]" and data = "()" and reads = "\<lambda>_ _ _. True"]
    alias_post_mutating by (auto simp: rc(1))
qed

text \<open>A document is requested, stored and requested again: the data are its source.\<close>

definition document_body :: "json \<Rightarrow> json" where
  "document_body source = jobj [(''_index'', JStr ''shoes''), (''_id'', JStr ''1''), (''found'', JBool True), (''_source'', source), (''_version'', jint 1)]"

definition serving_sample :: env where
  "serving_sample = sample_env\<lparr>sha256 := (\<lambda>_. replicate 32 CHR 0x00), json_text := (\<lambda>_. ''body''),
     parse_json := (\<lambda>s. if s = ''body'' then Inr (document_body JNull) else sample_parse s),
     parse_snapshot_text := (\<lambda>_. Some \<lparr>sn_indices = indices sample_tables, sn_aliases = aliases sample_tables\<rparr>)\<rparr>"

definition document_wire :: wire where
  "document_wire = \<lparr>envelope_text = (\<lambda>_. ''x''), parse_envelope = (\<lambda>_. Some (envelope_of (document_body JNull))),
     header_name = Some, header_value = (\<lambda>_. True)\<rparr>"

definition document_reply :: "json \<Rightarrow> reply" where
  "document_reply source = Reply 200 (Inr (jobj [(''status'', JStr ''ok''),
     (''result'', JArr [jobj [(''payload'', jobj [(''_source'', source)])]])]))"

definition document_runtime :: cache_runtime where
  "document_runtime = \<lparr>cr_cache = sample_cache, serve_reads = True, cr_max_entry_bytes = 100\<rparr>"

abbreviation document_request :: http_request where
  "document_request \<equiv> sample_request GET ''/products/_doc/1''"

lemma sample_flags: "\<not> admin_tracked serving_sample" "\<not> tracked serving_sample" "\<not> document_projection (cfg serving_sample)"
  by (simp_all add: serving_sample_def sample_env_def sample_config_def)

abbreviation document_env :: "u64 \<Rightarrow> env" where
  "document_env now \<equiv> serving_sample\<lparr>env_qdrant := (\<lambda>_ _. document_reply JNull), elapsed_ms := now, shared_catalog := True\<rparr>"

abbreviation document_view :: read_view where
  "document_view \<equiv> \<lparr>rv_indices = [(''shoes'', JObj [], [''text_all''])], rv_aliases = [(''products'', ''shoes'')]\<rparr>"

lemma document_fetch: "\<exists>c. get_doc (document_env now\<lparr>read_catalog := Some document_view\<rparr>) ''products'' ''1'' empty_world
    = (Inr (es_ok (document_body JNull)), empty_world\<lparr>w_trace := [(c, document_reply JNull)]\<rparr>)"
proof -
  let ?result = "jobj [(''status'', JStr ''ok''), (''result'', JArr [jobj [(''payload'', jobj [(''_source'', JNull)])]])]"
  have fetch: "request (document_env now\<lparr>read_catalog := Some document_view\<rparr>) POST path body empty_world
      = (Inr ?result, empty_world\<lparr>w_trace := [(make_call POST path body, document_reply JNull)]\<rparr>)" for path body
    by (simp add: request_def bindE_def raw_request_def send_request_def returnE_def Let_def mark_admin_def document_reply_def sample_flags
        reply_json_def failed_reply_def is_success_def get_str_def get_jobj empty_world_def)
  have "first_source ?result = Some JNull" by (simp add: first_source_def get_array_def get_jobj)
  then show ?thesis
    by (simp add: get_doc_def bindE_def resolve_index_def liftE_def view_resolve_index_def view_resolve_def view_index_def view_alias_def
        retrieve_source_def sample_flags fetch returnE_def document_body_def) (rule exI, rule refl)
qed

lemma document_answer:
  "\<exists>c. answer_miss (document_env now) 1 document_request ''c'' empty_world
    = Inr (Some (es_ok (document_body JNull)), empty_world\<lparr>w_trace := [(c, document_reply JNull)]\<rparr>)"
proof -
  let ?env = "document_env now\<lparr>read_catalog := Some document_view\<rparr>"
  have view: "snapshot_read_view (document_env now) ''c'' = Inr document_view"
    by (simp add: snapshot_read_view_def parse_snapshot_def max_catalog_bytes_def into_read_view_def view_row_def parse_strings_def
        serving_sample_def sample_parse_def sample_tables_def List.map_filter_def)
  have parts: "decode_path_segments e ''/products/_doc/1'' = Inr [''products'', ''_doc'', ''1'']" if "percent_utf8 e = Some" for e
    by (simp add: decode_path_segments_def trim_matches_def that)
  have decoding: "percent_utf8 (document_env now) = Some" "percent_utf8 ?env = Some" by (simp_all add: serving_sample_def sample_env_def)
  obtain c where get: "get_doc ?env ''products'' ''1'' empty_world = (Inr (es_ok (document_body JNull)), empty_world\<lparr>w_trace := [(c, document_reply JNull)]\<rparr>)"
    using document_fetch by blast
  have "dispatch_inner ?env 1 document_request = route ?env 1 document_request [''products'', ''_doc'', ''1''] (JObj [])"
    by (simp add: dispatch_inner_def Let_def sample_request_def is_bulk_request_def msearch_request_def json_body_def trim_is_empty_def
        parts [OF decoding(2)])
  moreover have "route ?env 1 document_request [''products'', ''_doc'', ''1''] (JObj []) = answer (get_doc ?env ''products'' ''1'')"
    by (simp add: route_def Let_def sample_request_def fixed_routes_def document_routes_def)
  ultimately have "serve ?env 1 document_request empty_world = (Some (es_ok (document_body JNull)), empty_world\<lparr>w_trace := [(c, document_reply JNull)]\<rparr>)"
    by (simp only: serve_def) (simp add: answer_def doneE_def respond_def bindE_def tryE_def returnE_def get)
  moreover have "uses_read_view (document_env now) GET ''/products/_doc/1''" by (simp add: uses_read_view_def parts [OF decoding(1)])
  ultimately show ?thesis by (simp add: answer_miss_def view sample_request_def) (rule exI, rule refl)
qed

abbreviation document_reads :: "json \<Rightarrow> call \<Rightarrow> reply \<Rightarrow> bool" where
  "document_reads \<equiv> \<lambda>source c reply. reply = document_reply source"

lemma document_key: "key_of serving_sample sample_cache rq = sample_digest"
proof -
  have "hex_digit 0 = CHR ''0''" using of_char_eq_iff [of "hex_digit 0" "CHR ''0''", where ?'a = nat] by (simp add: byte_hex_digit)
  then have "hex_padded 2 (byte (CHR 0x00)) = ''00''" by (simp add: numeral_2_eq_2)
  moreover have "concat (replicate n [c, c]) = replicate (2 * n) c" for n and c :: char by (induction n) simp_all
  ultimately show ?thesis
    by (simp add: key_of_def request_key_def cache_hash_def serving_sample_def sample_digest_def map_replicate)
qed

lemma document_served:
  "stored_envelope serving_sample document_wire 100 (es_ok (document_body JNull)) = Some ''x''"
  "decode (during serving_sample q now) document_wire ''x'' 100 ''/products/_doc/1'' = Some (es_ok (document_body JNull))"
proof -
  show stored: "stored_envelope serving_sample document_wire 100 (es_ok (document_body JNull)) = Some ''x''"
    by (simp add: stored_envelope_def response_text_def es_ok_def es_response_def serving_sample_def document_wire_def Let_def)
  have "\<not> search_route (during serving_sample q now) ''/products/_doc/1''"
    by (simp add: search_route_def decode_path_segments_def trim_matches_def serving_sample_def sample_env_def)
  then have "served_body (during serving_sample q now) ''/products/_doc/1'' (document_body JNull) = Some (document_body JNull)"
    by (simp add: served_body_def document_body_def get_jobj)
  moreover have "accepts_headers document_wire" "is_object (document_body JNull)"
    "parse_json serving_sample (json_text serving_sample (document_body JNull)) = Inr (document_body JNull)"
    "parse_envelope document_wire (envelope_text document_wire (envelope_of (document_body JNull))) = Some (envelope_of (document_body JNull))"
    by (simp_all add: accepts_headers_def document_wire_def serving_sample_def document_body_def jobj_def)
  ultimately show "decode (during serving_sample q now) document_wire ''x'' 100 ''/products/_doc/1'' = Some (es_ok (document_body JNull))"
    using decode_stored [OF _ _ _ _ stored] by blast
qed

lemma document_filled:
  "\<exists>h. cache_reachable sample_cache (stores serving_sample document_wire document_runtime document_reads {document_request}) h
    \<and> ch_store h = filled_store \<and> ch_data h = JNull"
proof -
  let ?H = "stores serving_sample document_wire document_runtime document_reads {document_request}"
  let ?h = "\<lparr>ch_store = fresh_store, ch_data = JNull, ch_readers = {}, ch_writers = {}\<rparr>"
  have start: "cache_reachable sample_cache ?H ?h" by (rule cache_reachable.start [OF fresh_control fresh_unfilled])
  have now: "present sample_cache ?h = (Inr (Some ''c''), JNull)" using fresh_catalog by (simp add: present_def)
  obtain c where "answer_miss (document_env 1) 1 document_request ''c'' empty_world
    = Inr (Some (es_ok (document_body JNull)), empty_world\<lparr>w_trace := [(c, document_reply JNull)]\<rparr>)" using document_answer by blast
  then have "computes serving_sample document_reads document_request ([present sample_cache ?h] @ replicate 1 (present sample_cache ?h)) (es_ok (document_body JNull))"
    using computes_now [where env = serving_sample and q = "\<lambda>_ _. document_reply JNull" and now = 1 and bytes = "''c''" and rc = sample_cache
        and h = ?h and sent = "[(c, document_reply JNull)]" and reads = document_reads] now by (simp add: present_def empty_world_def)
  then have "?H sample_digest ([present sample_cache ?h] @ replicate 1 (present sample_cache ?h)) ''x''"
    using document_served(1) unfolding stores_def by (auto simp: document_runtime_def document_key)
  from reaches_fill [where H = ?H, OF _ _ _ this] have "reaches sample_cache ?H ?h filled_store JNull"
    using fresh_lookup fresh_fill by simp
  then show ?thesis unfolding reaches_def using reachable_star [OF _ start] by blast
qed

lemma hit_answers_now_witness:
  "\<exists>h. fst (cached_read (during serving_sample sample_qdrant 9) document_wire document_runtime None undisturbed_run 1 document_request (ch_store h) empty_world)
      = Some (es_ok (document_body JNull))
    \<and> (\<exists>m r. computes serving_sample document_reads document_request (replicate m (present sample_cache h)) r
        \<and> stored_envelope serving_sample document_wire 100 r = Some ''x'')"
proof -
  obtain h where h: "cache_reachable sample_cache (stores serving_sample document_wire document_runtime document_reads {document_request}) h"
    "ch_store h = filled_store" "ch_data h = JNull" using document_filled by blast
  obtain l where l: "lookup sample_cache sample_digest Delivered filled_store = (Inr l, filled_store)" "lu_response l = Some ''x''"
    using filled_lookup by blast
  have "distinguishable serving_sample sample_cache {document_request}"
    by (simp add: distinguishable_def plain_request_def sample_request_def uri_of_def sample_cache_def)
  with hit_answers_now [where runtime = document_runtime and around = undisturbed_run and rq = document_request and h = h
      and R = "{document_request}" and env = serving_sample and wire = document_wire and reads = document_reads and l = l and bytes = "''x''"
      and served = "es_ok (document_body JNull)" and q = sample_qdrant and now = 9 and catalog = None and fuel = 1 and w = empty_world and st' = filled_store]
    h l document_served(2) [where q = sample_qdrant and now = 9]
  show ?thesis by - (rule exI [of _ h], auto simp: document_runtime_def document_key undisturbed_run_def sample_request_def)
qed

end
