(* ===== verification/Timing.thy ===== *)
theory Timing
  imports CacheRuntime
begin

text \<open>
  The diagnostic timeline (\<open>src/diagnostic_timing.rs\<close>, with the feature \<open>diagnostic-timing\<close>): spans of one
  request, at most 48, and the header added to the finished response. Instants are microseconds; a
  measurement of the backend is exact, and its product is not rounded. Without the feature a span
  does nothing and a response is passed on unchanged.
\<close>

section \<open>Spans\<close>

datatype measured = Finite rat | NotFinite

record event =
  ev_id :: nat
  ev_parent :: "nat option"
  ev_name :: string
  ev_start_us :: u64
  ev_duration_us :: u64
  ev_bytes :: "nat option"
  ev_backend_us :: "u64 option"

record timeline =
  tl_started :: nat
  tl_events :: "event list"
  tl_dropped :: nat

type_synonym span = "(nat \<times> nat) option"

definition span_limit :: nat where "span_limit = 48"

definition child :: "string \<Rightarrow> nat option \<Rightarrow> nat \<Rightarrow> timeline \<Rightarrow> span \<times> timeline" where
  "child name parent now line =
     (if length (tl_events line) = span_limit then (None, line\<lparr>tl_dropped := tl_dropped line + 1\<rparr>)
      else let id = length (tl_events line) in
        (Some (id, now), line\<lparr>tl_events := tl_events line @ [\<lparr>ev_id = id, ev_parent = parent, ev_name = name,
           ev_start_us = of_nat (now - tl_started line), ev_duration_us = 0, ev_bytes = None, ev_backend_us = None\<rparr>]\<rparr>))"

definition span_id :: "span \<Rightarrow> nat option" where
  "span_id s = map_option fst s"

text \<open>Casting a double to \<open>u64\<close> saturates.\<close>

definition u64_of_f64 :: "rat \<Rightarrow> u64" where
  "u64_of_f64 q = of_int (max 0 (min (2 ^ 64 - 1) \<lfloor>q\<rfloor>))"

definition backend_us :: "measured option \<Rightarrow> u64 option" where
  "backend_us seconds = (case seconds of
     Some (Finite q) \<Rightarrow> if 0 \<le> q then Some (u64_of_f64 (q * 1000000)) else None
   | _ \<Rightarrow> None)"

definition edit_event :: "nat \<Rightarrow> (event \<Rightarrow> event) \<Rightarrow> timeline \<Rightarrow> timeline" where
  "edit_event i f line = line\<lparr>tl_events := (tl_events line)[i := f (tl_events line ! i)]\<rparr>"

definition metadata :: "span \<Rightarrow> nat \<Rightarrow> measured option \<Rightarrow> timeline \<Rightarrow> timeline" where
  "metadata s bytes seconds line = (case span_id s of
     None \<Rightarrow> line
   | Some i \<Rightarrow> edit_event i (\<lambda>e. e\<lparr>ev_bytes := Some bytes, ev_backend_us := backend_us seconds\<rparr>) line)"

definition drop_span :: "span \<Rightarrow> nat \<Rightarrow> timeline \<Rightarrow> timeline" where
  "drop_span s now line = (case s of
     None \<Rightarrow> line
   | Some (i, began) \<Rightarrow> edit_event i (\<lambda>e. e\<lparr>ev_duration_us := of_nat (now - began)\<rparr>) line)"

section \<open>The header\<close>

definition start_timeline :: "nat \<Rightarrow> timeline" where
  "start_timeline now = \<lparr>tl_started = now, tl_events = [], tl_dropped = 0\<rparr>"

definition event_json :: "event \<Rightarrow> json" where
  "event_json e = jobj ([(''id'', jint (of_nat (ev_id e))),
       (''parent'', case ev_parent e of None \<Rightarrow> JNull | Some i \<Rightarrow> jint (of_nat i)), (''name'', JStr (ev_name e)),
       (''start_us'', jint (ev_start_us e)), (''duration_us'', jint (ev_duration_us e))]
     @ (case ev_bytes e of None \<Rightarrow> [] | Some n \<Rightarrow> [(''bytes'', jint (of_nat n))])
     @ (case ev_backend_us e of None \<Rightarrow> [] | Some us \<Rightarrow> [(''backend_us'', jint us)]))"

definition timeline_json :: "nat \<Rightarrow> timeline \<Rightarrow> json" where
  "timeline_json now line = jobj [(''version'', jint 1), (''total_us'', jint (of_nat (now - tl_started line))),
     (''dropped'', jint (of_nat (tl_dropped line))), (''events'', JArr (map event_json (tl_events line)))]"

definition timing_header :: string where "timing_header = ''x-qeg-diagnostic-timing''"

text \<open>The outer boundary: the request has run and left its timeline and its response.\<close>

definition timed :: "env \<Rightarrow> wire \<Rightarrow> nat \<Rightarrow> timeline \<Rightarrow> response \<Rightarrow> response" where
  "timed env wire now line r =
     (let encoded = json_text env (timeline_json now line) in
      if length encoded \<le> 8192 \<and> header_value wire encoded
      then r\<lparr>resp_headers := filter (\<lambda>(k, _). k \<noteq> timing_header) (resp_headers r) @ [(timing_header, encoded)]\<rparr>
      else r)"

section \<open>What is recorded\<close>

text \<open>What happens to a timeline while its request runs; spans end in any order.\<close>

inductive timeline_step :: "timeline \<Rightarrow> span set \<Rightarrow> timeline \<Rightarrow> span set \<Rightarrow> bool" where
  began: "\<lbrakk>child name parent now line = (s, line'); parent = None \<or> (\<exists>p\<in>spans. parent = span_id p)\<rbrakk> \<Longrightarrow> timeline_step line spans line' (insert s spans)"
| described: "s \<in> spans \<Longrightarrow> timeline_step line spans (metadata s bytes seconds line) spans"
| ended: "s \<in> spans \<Longrightarrow> timeline_step line spans (drop_span s now line) (spans - {s})"

definition timeline_ok :: "timeline \<Rightarrow> span set \<Rightarrow> bool" where
  "timeline_ok line spans \<longleftrightarrow> length (tl_events line) \<le> span_limit
     \<and> (tl_dropped line = 0 \<or> length (tl_events line) = span_limit)
     \<and> (\<forall>i < length (tl_events line). ev_id (tl_events line ! i) = i \<and> (\<forall>p. ev_parent (tl_events line ! i) = Some p \<longrightarrow> p < i))
     \<and> (\<forall>s\<in>spans. \<forall>i. span_id s = Some i \<longrightarrow> i < length (tl_events line))"

lemma timeline_edit:
  assumes "timeline_ok line spans" "\<And>e. ev_id (f e) = ev_id e" "\<And>e. ev_parent (f e) = ev_parent e"
  shows "timeline_ok (edit_event i f line) spans"
proof -
  let ?es = "tl_events line"
  have "ev_id (?es[i := f (?es ! i)] ! j) = ev_id (?es ! j) \<and> ev_parent (?es[i := f (?es ! i)] ! j) = ev_parent (?es ! j)"
    if "j < length ?es" for j
    using assms(2,3) that by (cases "i = j") simp_all
  then show ?thesis using assms(1) by (simp add: timeline_ok_def edit_event_def)
qed

lemma timeline_step_ok:
  assumes "timeline_step line spans line' spans'" "timeline_ok line spans"
  shows "timeline_ok line' spans'"
  using assms
proof cases
  case (began name parent now s)
  have "p < length (tl_events line)" if "parent = Some p" for p
    using began(3) that assms(2) by (auto simp: timeline_ok_def)
  then show ?thesis
    using began(1,2) assms(2)
    by (auto simp: timeline_ok_def child_def Let_def nth_append span_id_def less_Suc_eq split: if_splits)
next
  case (described s bytes seconds)
  then show ?thesis using assms(2) timeline_edit by (auto simp: metadata_def split: option.splits)
next
  case (ended s now)
  have "timeline_ok (drop_span s now line) spans"
    using assms(2) timeline_edit by (auto simp: drop_span_def split: option.splits)
  then show ?thesis using ended by (auto simp: timeline_ok_def)
qed

text \<open>A timeline holds at most 48 events, numbered by their position, each after its parent; every span
  that is still open refers to an event of it, so no update is out of range.\<close>

lemma timeline_bounded: "(\<lambda>(line, spans) (line', spans'). timeline_step line spans line' spans')\<^sup>*\<^sup>* (start_timeline now, {}) (line, spans) \<Longrightarrow> timeline_ok line spans"
proof (induction "(line, spans)" arbitrary: line spans rule: rtranclp_induct)
  case base
  show ?case by (simp add: timeline_ok_def start_timeline_def)
next
  case (step y)
  then show ?case by (cases y) (auto intro: timeline_step_ok)
qed

text \<open>The header is the only difference to the response, so what the cache stored is not affected.\<close>

lemma timed_body: "resp_status (timed env wire now line r) = resp_status r" "resp_body (timed env wire now line r) = resp_body r"
    "filter (\<lambda>(k, _). k \<noteq> timing_header) (resp_headers (timed env wire now line r)) = filter (\<lambda>(k, _). k \<noteq> timing_header) (resp_headers r)"
  by (simp_all add: timed_def Let_def)

end
