(* ===== verification/Transport.thy ===== *)
theory Transport
  imports Prelude
begin

text \<open>
  The Redis connection that the requests of one gateway share (\<open>SharedCatalog::run\<close> of
  \<open>src/shared_catalog.rs\<close>), as a transition system over the callers: every caller looks for the
  connection, waits for the gate when there is none, connects when there still is none, and invokes
  its script once. A deadline may end any wait. What a script does to the store is \<open>invoke\<close> of theory
  \<open>Redis\<close>; poisoned locks are left out.
\<close>

section \<open>Callers\<close>

datatype phase = Arriving | Waiting | Connecting | Using nat | Answered | Failed

text \<open>Connections are numbered in the order they are established; \<open>fresh\<close> is the next number.\<close>

record 'c transport =
  slot :: "nat option"
  gate :: "'c option"
  phases :: "'c \<Rightarrow> phase"
  fresh :: nat

abbreviation to_phase :: "'c \<Rightarrow> phase \<Rightarrow> 'c transport \<Rightarrow> 'c transport" where
  "to_phase c p s \<equiv> s\<lparr>phases := (phases s)(c := p)\<rparr>"

text \<open>The connection a failed caller leaves: only its own is discarded.\<close>

definition discard :: "nat \<Rightarrow> nat option \<Rightarrow> nat option" where
  "discard used current = (if current = Some used then None else current)"

inductive transport_step :: "'c transport \<Rightarrow> 'c transport \<Rightarrow> bool" where
  reuse: "\<lbrakk>phases s c = Arriving; slot s = Some k\<rbrakk> \<Longrightarrow> transport_step s (to_phase c (Using k) s)"
| queue: "\<lbrakk>phases s c = Arriving; slot s = None\<rbrakk> \<Longrightarrow> transport_step s (to_phase c Waiting s)"
| recheck: "\<lbrakk>phases s c = Waiting; gate s = None; slot s = Some k\<rbrakk> \<Longrightarrow> transport_step s (to_phase c (Using k) s)"
| enter: "\<lbrakk>phases s c = Waiting; gate s = None; slot s = None\<rbrakk> \<Longrightarrow> transport_step s (to_phase c Connecting (s\<lparr>gate := Some c\<rparr>))"
| connected: "phases s c = Connecting \<Longrightarrow>
    transport_step s (to_phase c (Using (fresh s)) (s\<lparr>slot := Some (fresh s), gate := None, fresh := Suc (fresh s)\<rparr>))"
| unconnected: "phases s c = Connecting \<Longrightarrow> transport_step s (to_phase c Failed (s\<lparr>gate := None\<rparr>))"
| expired: "phases s c = Waiting \<Longrightarrow> transport_step s (to_phase c Failed s)"
| answered: "phases s c = Using k \<Longrightarrow> transport_step s (to_phase c Answered s)"
| broken: "phases s c = Using k \<Longrightarrow> transport_step s (to_phase c Failed (s\<lparr>slot := discard k (slot s)\<rparr>))"

definition idle_transport :: "'c transport" where
  "idle_transport = \<lparr>slot = None, gate = None, phases = (\<lambda>_. Arriving), fresh = 0\<rparr>"

inductive transport_reachable :: "'c transport \<Rightarrow> bool" where
  start: "transport_reachable idle_transport"
| step: "transport_reachable s \<Longrightarrow> transport_step s s' \<Longrightarrow> transport_reachable s'"

section \<open>The invariant\<close>

text \<open>The gate is held by the one caller that connects, which found the slot empty; the slot holds the
  newest connection; callers use connections that were established.\<close>

definition transport_inv :: "'c transport \<Rightarrow> bool" where
  "transport_inv s \<longleftrightarrow>
     (\<forall>c. phases s c = Connecting \<longleftrightarrow> gate s = Some c)
     \<and> (gate s \<noteq> None \<longrightarrow> slot s = None)
     \<and> (\<forall>k. slot s = Some k \<longrightarrow> Suc k = fresh s)
     \<and> (\<forall>c k. phases s c = Using k \<longrightarrow> k < fresh s)"

lemma not_holder: "transport_inv s \<Longrightarrow> phases s c \<noteq> Connecting \<Longrightarrow> gate s \<noteq> Some c"
  unfolding transport_inv_def by blast

lemma transport_step_inv: "transport_step s s' \<Longrightarrow> transport_inv s \<Longrightarrow> transport_inv s'"
proof (induction rule: transport_step.induct)
  case (reuse s c k)
  then show ?case by (auto simp: transport_inv_def)
next
  case (queue s c)
  then have "gate s \<noteq> Some c" using not_holder by fastforce
  with queue show ?case by (auto simp: transport_inv_def)
next
  case (expired s c)
  then have "gate s \<noteq> Some c" using not_holder by fastforce
  with expired show ?case by (auto simp: transport_inv_def)
next
  case (answered s c k)
  then have "gate s \<noteq> Some c" using not_holder by fastforce
  with answered show ?case by (auto simp: transport_inv_def)
next
  case (recheck s c k)
  then show ?case by (auto simp: transport_inv_def)
next
  case (connected s c)
  then show ?case unfolding transport_inv_def by (auto simp: less_Suc_eq)
next
  case (broken s c k)
  then have "gate s \<noteq> Some c" using not_holder by fastforce
  with broken show ?case by (auto simp: transport_inv_def discard_def)
qed (auto simp: transport_inv_def)

lemma transport_reachable_inv: "transport_reachable s \<Longrightarrow> transport_inv s"
proof (induction rule: transport_reachable.induct)
  case start
  show ?case by (simp add: transport_inv_def idle_transport_def)
next
  case (step s s')
  then show ?case by (blast intro: transport_step_inv)
qed

section \<open>Properties\<close>

text \<open>C40: However the requests of a gateway interleave, at most one of them is connecting at any time, and
  while one is, the shared slot is empty: a new connection never replaces a live one. The slot holds
  the newest connection ever made, so a late failure on an old connection, which discards only its
  own, leaves the replacement in place.\<close>

theorem one_connection_at_a_time:
  assumes "transport_reachable s"
  shows "(\<forall>c d. phases s c = Connecting \<and> phases s d = Connecting \<longrightarrow> c = d)
    \<and> (\<forall>c. phases s c = Connecting \<longrightarrow> slot s = None)
    \<and> (\<forall>k c j. slot s = Some k \<and> phases s c = Using j \<longrightarrow> j \<le> k \<and> (j < k \<longrightarrow> discard j (slot s) = Some k))"
proof -
  have inv: "transport_inv s" by (rule transport_reachable_inv [OF assms])
  have "phases s c = Connecting \<Longrightarrow> gate s = Some c" for c using inv by (simp add: transport_inv_def)
  then have "phases s c = Connecting \<Longrightarrow> phases s d = Connecting \<Longrightarrow> c = d" "phases s c = Connecting \<Longrightarrow> gate s \<noteq> None" for c d
    by (metis option.inject, simp)
  moreover have "slot s = Some k \<Longrightarrow> phases s c = Using j \<Longrightarrow> j \<le> k" for k c j
    using inv by (auto simp: transport_inv_def) (metis less_Suc_eq_le)
  moreover have "gate s \<noteq> None \<Longrightarrow> slot s = None" using inv by (simp add: transport_inv_def)
  ultimately show ?thesis by (auto simp: discard_def)
qed

text \<open>A caller replaces the connection that failed while another was still using it.\<close>

definition replaced :: "nat transport" where
  "replaced = \<lparr>slot = Some 1, gate = None, phases = (\<lambda>_. Arriving)(0 := Using 0, 1 := Failed, 2 := Using 1), fresh = 2\<rparr>"

lemma replaced_reachable: "transport_reachable replaced"
proof -
  let ?s = "\<lambda>sl g ps f. \<lparr>slot = sl, gate = g, phases = ps, fresh = f\<rparr> :: nat transport"
  let ?p = "\<lambda>a b c. (\<lambda>_. Arriving)(0 := a, 1 := b, 2 := c)"
  note next_state = transport_reachable.step
  have 0: "transport_reachable (?s None None (?p Arriving Arriving Arriving) 0)"
    using transport_reachable.start by (simp add: idle_transport_def fun_upd_idem)
  have 1: "transport_reachable (?s None None (?p Waiting Arriving Arriving) 0)"
    using next_state [OF 0 queue [of _ 0]] by (simp add: fun_upd_twist)
  have 2: "transport_reachable (?s None (Some 0) (?p Connecting Arriving Arriving) 0)"
    using next_state [OF 1 enter [of _ 0]] by (simp add: fun_upd_twist)
  have 3: "transport_reachable (?s (Some 0) None (?p (Using 0) Arriving Arriving) 1)"
    using next_state [OF 2 connected [of _ 0]] by (simp add: fun_upd_twist)
  have 4: "transport_reachable (?s (Some 0) None (?p (Using 0) (Using 0) Arriving) 1)"
    using next_state [OF 3 reuse [of _ 1 0]] by (simp add: fun_upd_twist)
  have 5: "transport_reachable (?s None None (?p (Using 0) Failed Arriving) 1)"
    using next_state [OF 4 broken [of _ 1 0]] by (simp add: fun_upd_twist discard_def)
  have 6: "transport_reachable (?s None None (?p (Using 0) Failed Waiting) 1)"
    using next_state [OF 5 queue [of _ 2]] by (simp add: fun_upd_twist)
  have 7: "transport_reachable (?s None (Some 2) (?p (Using 0) Failed Connecting) 1)"
    using next_state [OF 6 enter [of _ 2]] by (simp add: fun_upd_twist)
  show ?thesis
    using next_state [OF 7 connected [of _ 2]] by (simp add: fun_upd_twist replaced_def numeral_2_eq_2)
qed

lemma one_connection_at_a_time_witness: "discard 0 (slot replaced) = Some 1"
  using one_connection_at_a_time [OF replaced_reachable, THEN conjunct2, THEN conjunct2, rule_format, of 1 0 0]
  by (simp add: replaced_def)

end
