(* ===== verification/FilterTranslation.thy ===== *)
theory FilterTranslation
  imports FilterSemantics Mapping_Model
begin

text \<open>
  Filters over stored points. A document is stored with its mapped fields at the top of the payload,
  so a filter Qdrant evaluates on the payload decides about the document itself: the theorem joins
  the translation of \<open>FilterSemantics\<close> with the payloads of \<open>Mapping_Model\<close>.
\<close>

section \<open>Documents that agree on the fields of a clause\<close>

definition agree_on :: "json \<Rightarrow> json \<Rightarrow> string \<Rightarrow> bool" where
  "agree_on d d' f \<longleftrightarrow> nested_value (key_path f) d = nested_value (key_path f) d'
     \<and> (plain_at f d' \<longrightarrow> plain_at f d)"

definition agree_leaves :: "json \<Rightarrow> json \<Rightarrow> json \<Rightarrow> bool" where
  "agree_leaves d d' q \<longleftrightarrow> every_leaf (\<lambda>kind v. list_all (agree_on d d') (leaf_fields kind v)) q"

lemma nested_value_Cons: "nested_value (k # ks) d = Option.bind (get k d) (nested_value ks)"
  by (cases d) (simp_all add: get_def obj_get_map_of split: option.split)

lemma plain_along_Cons: "plain_along (k # ks) d \<longleftrightarrow> \<not> is_array d \<and> is_none_or (get k d) (plain_along ks)"
  by (cases d) (simp_all add: get_def obj_get_map_of split: option.split)

lemma agree_field: "agree_on d d' f \<Longrightarrow> source_field d f = source_field d' f"
  by (simp add: agree_on_def source_field_nested)

lemma leaf_fields_single:
  "leaf_fields ''term'' (JObj [(field, x)]) = [compatibility_field field]"
  "leaf_fields ''terms'' (JObj [(field, x)]) = [compatibility_field field]"
  "leaf_fields ''range'' (JObj [(field, x)]) = [compatibility_field field]"
  "obj_get ''field'' options = Some (JStr field) \<Longrightarrow> leaf_fields ''exists'' (JObj options) = [compatibility_field field]"
  by (simp_all add: leaf_fields_def first_member_def get_str_def)

lemma agree_field_leaf:
  assumes "agree_on d d' (compatibility_field field)"
  shows "source_matches_query d (JObj [(''term'', JObj [(field, x)])]) =
           source_matches_query d' (JObj [(''term'', JObj [(field, x)])])"
    and "source_matches_query d (JObj [(''terms'', JObj [(field, x)])]) =
           source_matches_query d' (JObj [(''terms'', JObj [(field, x)])])"
    and "source_matches_query d (JObj [(''range'', JObj [(field, x)])]) =
           source_matches_query d' (JObj [(''range'', JObj [(field, x)])])"
  using agree_field [OF assms]
  by (simp_all add: matches_singletons matches_term_def matches_terms_def matches_range_def first_member_def)

lemma agree_leaf:
  assumes "list_all (agree_on d d') (leaf_fields kind v)" and "validate_filter (JObj [(kind, v)]) f = Inr ()"
    and "kind \<noteq> ''bool''"
  shows "source_matches_query d (JObj [(kind, v)]) = source_matches_query d' (JObj [(kind, v)])"
proof -
  obtain kind' v' where "JObj [(kind, v)] = JObj [(kind', v')]"
    and k': "kind' \<in> {''match_all'', ''term'', ''terms'', ''range'', ''exists'', ''bool''}"
    using validated_singleton [OF assms(2)] by blast
  then have "kind' = kind" by simp
  with k' assms(3)
  consider "kind = ''match_all''" | "kind = ''term''" | "kind = ''terms''" | "kind = ''range''" | "kind = ''exists''"
    by (simp only: insert_iff empty_iff) metis
  then show ?thesis
  proof cases
    case 1
    then show ?thesis by (simp only: matches_singletons)
  next
    case 2
    with assms(2) have "validate_term v f = Inr ()" by (simp only: validate_filter_kinds)
    then obtain field x where v: "v = JObj [(field, x)]"
      by (auto simp: validate_term_def dest: first_member_single)
    show ?thesis
      using assms(1) unfolding 2 v by (intro agree_field_leaf) (simp add: leaf_fields_single)
  next
    case 3
    with assms(2) have "validate_terms v f = Inr ()" by (simp only: validate_filter_kinds)
    then obtain field x where v: "v = JObj [(field, x)]"
      by (auto simp: validate_terms_def dest: first_member_single)
    show ?thesis
      using assms(1) unfolding 3 v by (intro agree_field_leaf) (simp add: leaf_fields_single)
  next
    case 4
    with assms(2) have "validate_range v f = Inr ()" by (simp only: validate_filter_kinds)
    then obtain field x where v: "v = JObj [(field, x)]"
      by (auto simp: validate_range_def dest: first_member_single)
    show ?thesis
      using assms(1) unfolding 4 v by (intro agree_field_leaf) (simp add: leaf_fields_single)
  next
    case 5
    with assms(2) have "validate_exists v f = Inr ()" by (simp only: validate_filter_kinds)
    then obtain options g where v: "v = JObj options" "obj_get ''field'' options = Some (JStr g)"
      by (auto simp: validate_exists_def is_none_or_def bind_eq_Some_conv bind_eq_None_conv
          split: json.splits option.splits if_splits)
    have "agree_on d d' (compatibility_field g)"
      using assms(1) v by (simp add: 5 leaf_fields_single)
    then show ?thesis
      by (simp add: 5 v matches_singletons source_value_exists_def agree_field)
  qed
qed

lemma agree_matches:
  "validate_filter q f = Inr () \<Longrightarrow> agree_leaves d d' q \<Longrightarrow> source_matches_query d q = source_matches_query d' q"
proof (induction q arbitrary: f rule: measure_induct_rule [where f = size])
  case (less q)
  from validated_singleton [OF less.prems(1)] obtain kind v where q: "q = JObj [(kind, v)]" .
  show ?case
  proof (cases "kind = ''bool''")
    case False
    then show ?thesis
      using agree_leaf less.prems by (simp add: q agree_leaves_def every_leaf_single)
  next
    case True
    then obtain b where b: "v = JObj b" using less.prems(1) validate_bool_object unfolding q by blast
    have "source_matches_query d c = source_matches_query d' c"
      if key: "clause_key key" and c: "c \<in> set (bool_clauses b key)" for key c
    proof (rule less.IH)
      show "size c < size q" using bool_clauses_size [OF c] by (simp add: q b)
      show "validate_filter c (f @ ''.bool.'' @ key) = Inr ()"
        using validate_bool_clause [OF _ key c] less.prems(1) by (simp only: q b True)
      show "agree_leaves d d' c"
        using less.prems(2) key c unfolding q b True agree_leaves_def by (rule every_leaf_clause)
    qed
    note eq = this [OF clause_keys(1)] this [OF clause_keys(2)] this [OF clause_keys(3)] this [OF clause_keys(4)]
    have "list_all (source_matches_query d) (bool_clauses b ''must'' @ bool_clauses b ''filter'')
        = list_all (source_matches_query d') (bool_clauses b ''must'' @ bool_clauses b ''filter'')"
      by (rule list.pred_cong) (use eq(1,2) in auto)
    moreover have "list_all (\<lambda>c. \<not> source_matches_query d c) (bool_clauses b ''must_not'')
        = list_all (\<lambda>c. \<not> source_matches_query d' c) (bool_clauses b ''must_not'')"
      by (rule list.pred_cong) (use eq(3) in auto)
    moreover have "filter (source_matches_query d) (bool_clauses b ''should'')
        = filter (source_matches_query d') (bool_clauses b ''should'')"
      by (rule filter_cong) (use eq(4) in auto)
    ultimately show ?thesis unfolding q b True matches_singletons by simp
  qed
qed

section \<open>Payloads\<close>

text \<open>A field of a clause is stored when its first name is a mapped field the payload carries at the
  top, and none of the gateway's own names.\<close>

definition mapped_name :: "json \<Rightarrow> string \<Rightarrow> bool" where
  "mapped_name mapping k \<longleftrightarrow>
     list_ex (\<lambda>(field, spec). field = k \<and> searchable_payload_field spec) (unwrap_or [] (properties mapping))"

definition gateway_name :: "string \<Rightarrow> bool" where
  "gateway_name k \<longleftrightarrow> k \<in> set [''_es_id'', ''_es_index'', ''_source'', ''_qeg_fast_fields'']"

definition stored_field :: "json \<Rightarrow> string \<Rightarrow> bool" where
  "stored_field mapping f \<longleftrightarrow>
     (case key_path f of [] \<Rightarrow> False | k # _ \<Rightarrow> mapped_name mapping k \<and> \<not> gateway_name k)"

definition stored_query :: "json \<Rightarrow> json \<Rightarrow> bool" where
  "stored_query mapping q \<longleftrightarrow> every_leaf (\<lambda>kind v. list_all (stored_field mapping) (leaf_fields kind v)) q"

lemma insert_all_get:
  assumes "\<And>v'. (k, v') \<in> set kvs \<Longrightarrow> v' = v"
  shows "obj_get k (insert_all kvs ob) = (if (k, v) \<in> set kvs then Some v else obj_get k ob)"
  using assms
proof (induction kvs arbitrary: ob)
  case Nil
  then show ?case by (simp add: insert_all_def)
next
  case (Cons kv kvs)
  obtain k' v' where kv: "kv = (k', v')" by (cases kv)
  have "obj_get k (insert_all kvs (obj_insert k' v' ob)) =
      (if (k, v) \<in> set kvs then Some v else obj_get k (obj_insert k' v' ob))"
    using Cons.IH Cons.prems by simp
  moreover have "insert_all (kv # kvs) ob = insert_all kvs (obj_insert k' v' ob)"
    by (simp add: insert_all_def kv)
  ultimately show ?case using Cons.prems [of v'] by (auto simp: kv obj_get_insert)
qed

lemma mapped_members_mem:
  "(k, v) \<in> set (mapped_members source mapping) \<longleftrightarrow> is_object source \<and> get k source = Some v
     \<and> mapped_name mapping k"
proof -
  have "(k, v) \<in> set (List.map_filter f fs) \<longleftrightarrow> (\<exists>e\<in>set fs. f e = Some (k, v))" for f and fs :: "object"
    by (induction fs) (auto simp: List.map_filter_simps split: option.splits)
  then show ?thesis
    by (auto simp: mapped_members_def mapped_name_def list_ex_iff split: if_splits; force)
qed

lemma mapped_get:
  assumes "mapped_name mapping k" and "obj_get k ob = None"
  shows "obj_get k (insert_all (mapped_members source mapping) ob) = get k source"
proof (cases "get k source")
  case None
  have no: "(k, v) \<notin> set (mapped_members source mapping)" for v
    unfolding mapped_members_mem None by simp
  have "obj_get k (insert_all (mapped_members source mapping) ob) =
      (if (k, JNull) \<in> set (mapped_members source mapping) then Some JNull else obj_get k ob)"
    by (rule insert_all_get) (use no in blast)
  then show ?thesis unfolding if_not_P [OF no] by (simp add: assms(2) None)
next
  case (Some v)
  have "is_object source" using Some by (cases source) (simp_all add: get_def)
  then have mem: "(k, v) \<in> set (mapped_members source mapping)"
    unfolding mapped_members_mem using assms(1) Some by simp
  have "obj_get k (insert_all (mapped_members source mapping) ob) =
      (if (k, v) \<in> set (mapped_members source mapping) then Some v else obj_get k ob)"
    by (rule insert_all_get) (simp only: mapped_members_mem Some option.inject)
  then show ?thesis unfolding if_P [OF mem] Some .
qed

lemma projected_payload_get:
  assumes "mapped_name mapping k"
    and "\<not> gateway_name k"
  shows "obj_get k (projected_search_payload source ident index mapping) = get k source"
    and "obj_get k (qdrant_payload source ident index mapping) = get k source"
proof -
  have k: "k \<noteq> ''_es_id''" "k \<noteq> ''_es_index''" "k \<noteq> ''_source''" "k \<noteq> ''_qeg_fast_fields''"
    using assms(2) unfolding gateway_name_def by simp_all
  then have "obj_get k (obj_of [(''_es_id'', JStr ident), (''_es_index'', JStr index)]) = None"
    by (simp add: obj_of_def obj_get_insert)
  from mapped_get [OF assms(1) this]
  show "obj_get k (projected_search_payload source ident index mapping) = get k source"
    using k by (simp add: projected_search_payload_def Let_def obj_get_insert)
  then show "obj_get k (qdrant_payload source ident index mapping) = get k source"
    using k by (simp add: qdrant_payload_def obj_get_insert)
qed

lemma agree_stored:
  assumes f: "stored_field mapping f" and same: "\<And>k. mapped_name mapping k \<Longrightarrow> \<not> gateway_name k \<Longrightarrow>
      obj_get k payload = get k source"
  shows "agree_on (JObj payload) source f"
proof -
  obtain k ks where k: "key_path f = k # ks"
    using f by (cases "key_path f") (simp_all add: stored_field_def)
  then have "\<not> gateway_name k"
    and "mapped_name mapping k"
    using f unfolding stored_field_def by simp_all
  with same have "get k (JObj payload) = get k source" by (simp add: get_def)
  then show ?thesis
    unfolding agree_on_def plain_at_def k nested_value_Cons plain_along_Cons by simp
qed

lemma every_leaf_mono:
  assumes "every_leaf p q" and "every_leaf p' q" and "\<And>kind v. p kind v \<Longrightarrow> p' kind v \<Longrightarrow> r kind v"
  shows "every_leaf r q"
  using assms(1,2)
proof (induction q rule: measure_induct_rule [where f = size])
  case (less q)
  show ?case
  proof (cases "\<exists>kind v. q = JObj [(kind, v)]")
    case False
    then show ?thesis by (subst every_leaf.simps) (auto split: json.splits list.splits)
  next
    case True
    then obtain kind v where q: "q = JObj [(kind, v)]" by blast
    show ?thesis
    proof (cases "kind = ''bool'' \<and> is_object v")
      case False
      then show ?thesis
      proof (cases "kind = ''bool''")
        case True
        with False show ?thesis unfolding q by (subst every_leaf.simps) (simp split: json.splits)
      next
        case other: False
        show ?thesis using less.prems assms(3) unfolding q every_leaf_single [OF other] by blast
      qed
    next
      case True
      then obtain b where kind: "kind = ''bool''" and b: "v = JObj b" by (cases v) simp_all
      have clause: "list_all (every_leaf r) (bool_clauses b key)" if key: "clause_key key" for key
        unfolding list_all_iff
      proof
        fix c assume c: "c \<in> set (bool_clauses b key)"
        show "every_leaf r c"
        proof (rule less.IH)
          show "size c < size q" using bool_clauses_size [OF c] by (simp add: q b)
          show "every_leaf p c" "every_leaf p' c"
            using less.prems key c unfolding q kind b by (blast intro: every_leaf_clause)+
        qed
      qed
      show ?thesis unfolding q kind b
        by (subst every_leaf.simps) (simp add: clause)
    qed
  qed
qed

section \<open>The translation over stored documents\<close>

lemma plain_at_empty: "stored_field mapping f \<Longrightarrow> plain_at f (JObj [])"
  by (cases "key_path f") (simp_all add: stored_field_def plain_at_def)

lemma plain_for_empty: "stored_query mapping q \<Longrightarrow> plain_for q (JObj [])"
  unfolding plain_for_def stored_query_def
  by (rule every_leaf_mono, assumption, assumption) (auto simp: list_all_iff intro: plain_at_empty)

lemma payload_decides:
  assumes laws: "qdrant_laws holds" and q: "validate_post_filter q = Inr ()" "plain_query q" "stored_query mapping q"
    and plain: "plain_for q source"
    and same: "\<And>k. mapped_name mapping k \<Longrightarrow> \<not> gateway_name k \<Longrightarrow> obj_get k payload = get k source"
  shows "\<exists>flt. query_filter q = Inr flt \<and>
    (is_none_or flt (\<lambda>f. holds f (JObj payload)) \<longleftrightarrow> source_matches_query source q)"
proof -
  have agree: "agree_leaves (JObj payload) source q"
    unfolding agree_leaves_def
    by (rule every_leaf_mono [OF q(3) [unfolded stored_query_def] q(3) [unfolded stored_query_def]])
       (auto simp: list_all_iff intro: agree_stored [OF _ same])
  have at: "every_leaf (\<lambda>kind v. list_all (\<lambda>f. plain_at f (JObj payload)) (leaf_fields kind v)) q"
    by (rule every_leaf_mono [OF agree [unfolded agree_leaves_def] plain [unfolded plain_for_def]])
       (auto simp: list_all_iff agree_on_def)
  have "every_leaf (plain_case (JObj payload)) q"
    by (rule every_leaf_mono [OF q(2) [unfolded plain_query_def] at])
       (auto simp: list_all_iff plain_case_def)
  from translation_selects [OF laws q(1) this] show ?thesis
    using agree_matches [OF q(1) [unfolded validate_post_filter_def] agree] by simp
qed

text \<open>C1: take an evaluator of conditions that follows the documented meaning of the Qdrant conditions
  the gateway builds, and a validated clause whose leaves are plain: keywords, integers or booleans in
  \<open>term\<close>, keywords or integers in \<open>terms\<close>, ranges with at least one of \<open>gt\<close>, \<open>gte\<close>, \<open>lt\<close>, \<open>lte\<close> and neither
  \<open>from\<close> nor \<open>to\<close>, field names without special characters whose first name is a mapped field stored at the
  top of the payload. The translated filter then selects the stored payload of a document, projected or
  whole, exactly when the gateway's own evaluator accepts the document, provided that the document has no
  array on the way to such a field and only strings, numbers and booleans inside an array at its end.\<close>

theorem filter_translation_correct:
  assumes "qdrant_laws holds" and "validate_post_filter q = Inr ()"
    and "plain_query q" and "stored_query mapping q"
  shows "\<exists>flt. query_filter q = Inr flt \<and> (\<forall>source ident index. plain_for q source \<longrightarrow>
     (is_none_or flt (\<lambda>f. holds f (JObj (qdrant_payload source ident index mapping)))
        \<longleftrightarrow> source_matches_query source q)
   \<and> (is_none_or flt (\<lambda>f. holds f (JObj (projected_search_payload source ident index mapping)))
        \<longleftrightarrow> source_matches_query source q))"
proof -
  have one: "\<exists>flt. query_filter q = Inr flt \<and>
      (is_none_or flt (\<lambda>f. holds f (JObj payload)) \<longleftrightarrow> source_matches_query source q)"
    if "plain_for q source" and "payload \<in> {qdrant_payload source ident index mapping,
          projected_search_payload source ident index mapping}" for payload source ident index
    using payload_decides [OF assms that(1)] that(2) projected_payload_get by blast
  from one [OF plain_for_empty [OF assms(4)]] obtain flt where flt: "query_filter q = Inr flt" by blast
  show ?thesis
    unfolding flt using one [unfolded flt] by (intro exI [of _ flt]) blast
qed

definition sample_filter :: json where
  "sample_filter = JObj [(''bool'', JObj
     [(''must'', JArr [JObj [(''term'', JObj [(''brand.keyword'', JStr ''acme'')])]]),
      (''should'', JArr [JObj [(''range'', JObj [(''price'', JObj [(''gte'', jint 5)])])],
                        JObj [(''exists'', JObj [(''field'', JStr ''tag'')])]])])]"

definition sample_mapping :: json where
  "sample_mapping = JObj [(''properties'', JObj [(''brand'', JObj [(''type'', JStr ''keyword'')]),
     (''price'', JObj [(''type'', JStr ''integer'')]), (''tag'', JObj [(''type'', JStr ''keyword'')])])]"

lemma sample_filter_valid: "validate_post_filter sample_filter = Inr ()"
  by (simp add: validate_post_filter_def sample_filter_def validate_filter.simps(1)
      validate_term_def validate_range_def validate_range_option_def validate_exists_def
      single_filter_field_def)

lemma sample_paths:
  "key_path ''brand'' = [''brand'']" "key_path ''price'' = [''price'']" "key_path ''tag'' = [''tag'']"
  "compatibility_field ''brand.keyword'' = ''brand''" "compatibility_field ''price'' = ''price''"
  "compatibility_field ''tag'' = ''tag''"
  by (simp_all add: compatibility_field_def strip_suffix_def ends_with_def)

lemma sample_leaves:
  assumes "p ''term'' (JObj [(''brand.keyword'', JStr ''acme'')])"
    and "p ''range'' (JObj [(''price'', JObj [(''gte'', jint 5)])])" and "p ''exists'' (JObj [(''field'', JStr ''tag'')])"
  shows "every_leaf p sample_filter"
  using assms by (simp add: sample_filter_def every_leaf.simps bool_clauses_def)

lemma sample_fields:
  "leaf_fields ''term'' (JObj [(''brand.keyword'', JStr ''acme'')]) = [''brand'']"
  "leaf_fields ''range'' (JObj [(''price'', JObj [(''gte'', jint 5)])]) = [''price'']"
  "leaf_fields ''exists'' (JObj [(''field'', JStr ''tag'')]) = [''tag'']"
  by (simp_all add: leaf_fields_def first_member_def get_str_def sample_paths)

lemma sample_plain: "plain_query sample_filter" "stored_query sample_mapping sample_filter"
proof -
  show "plain_query sample_filter" unfolding plain_query_def
    by (rule sample_leaves)
       (simp_all add: sample_fields sample_paths plain_key_def word_char_def is_ascii_alphanumeric_def plain_leaf_def
         first_member_def term_value_def match_value_def plain_range_def keys_def)
  show "stored_query sample_mapping sample_filter" unfolding stored_query_def
    by (rule sample_leaves)
       (simp_all add: sample_fields sample_paths stored_field_def mapped_name_def gateway_name_def sample_mapping_def
         properties_def get_object_def get_def searchable_payload_field_def field_type_def get_str_def)
qed

theorem filter_translation_correct_witness:
  "\<exists>flt. query_filter sample_filter = Inr flt \<and> (\<forall>ident index.
     is_none_or flt (\<lambda>f. reference_condition f (JObj (qdrant_payload
         (JObj [(''brand'', JStr ''acme''), (''price'', jint 7)]) ident index sample_mapping))))"
proof -
  let ?d = "JObj [(''brand'', JStr ''acme''), (''price'', jint 7)]"
  have "plain_for sample_filter ?d" unfolding plain_for_def
    by (rule sample_leaves) (simp_all add: sample_fields sample_paths plain_at_def)
  moreover have "source_matches_query ?d sample_filter"
    by (simp add: sample_filter_def matches_singletons bool_clauses_def minimum_should_match_def explicit_minimum_def
        has_required_clause_def matches_term_def matches_range_def first_member_def sample_paths source_field_def
        in_bounds_def term_value_def Let_def)
  ultimately show ?thesis
    using filter_translation_correct [OF reference_condition_laws sample_filter_valid sample_plain] by blast
qed

end
