(* ===== verification/SearchResults.thy ===== *)
theory SearchResults
  imports SearchPages
begin

text \<open>
  The answer of a search sorted by fields, from the request to the response: \<open>search_with_total_format\<close>
  (\<open>src/main.rs\<close>) when the hits come from the complete scan. The scan keeps a window of the hits from
  page to page, deduplication goes through a hash map, and the final order is a stable sort per field
  from the last to the first; together they are one selection and one lexicographic sort.
\<close>

section \<open>Sorting by one field after another\<close>

lemma insert_by_then:
  assumes "lawful_comparator c1" "lawful_comparator c2"
    and "sorted_by (\<lambda>a b. then_ord (c1 a b) (c2 a b)) ls" "\<And>l. l \<in> set ls \<Longrightarrow> c2 x l \<noteq> Greater"
  shows "sorted_by (\<lambda>a b. then_ord (c1 a b) (c2 a b)) (insert_by c1 x ls)"
  using assms(3,4)
proof (induction ls)
  case (Cons l ls)
  note lex = lawful_then [OF assms(1,2)]
  show ?case
  proof (cases "c1 x l = Greater")
    case True
    then have "c1 l x = Less" using lawful_comparator.cmp_flip [OF assms(1), of l x] by simp
    with True Cons show ?thesis by simp
  next
    case False
    then have xl: "then_ord (c1 x l) (c2 x l) \<noteq> Greater" using Cons.prems(2) by (cases "c1 x l") simp_all
    have "then_ord (c1 x m) (c2 x m) \<noteq> Greater" if "m \<in> set ls" for m
      using lawful_comparator.cmp_trans [OF lex xl] Cons.prems(1) that by simp
    with xl False Cons.prems(1) show ?thesis by simp
  qed
qed simp

lemma sort_by_then:
  assumes "lawful_comparator c1" "lawful_comparator c2" "sorted_by c2 ls"
  shows "sorted_by (\<lambda>a b. then_ord (c1 a b) (c2 a b)) (sort_by c1 ls)"
  using assms(3) by (induction ls) (auto intro!: insert_by_then [OF assms(1,2)])

text \<open>The comparison of hits by the sort fields alone, without the tie-break by \<open>_id\<close>.\<close>

definition field_cmp :: "(json \<Rightarrow> json \<Rightarrow> ordering) \<Rightarrow> string \<times> string \<Rightarrow> json \<Rightarrow> json \<Rightarrow> ordering" where
  "field_cmp cmp = (\<lambda>(field, direction) a b. directed direction (cmp (hit_sort_value a field) (hit_sort_value b field)))"

fun fields_cmp :: "(json \<Rightarrow> json \<Rightarrow> ordering) \<Rightarrow> sort_specs \<Rightarrow> json \<Rightarrow> json \<Rightarrow> ordering" where
  "fields_cmp cmp [] a b = Equal"
| "fields_cmp cmp (s # sorts) a b = then_ord (field_cmp cmp s a b) (fields_cmp cmp sorts a b)"

lemma field_cmp_lawful:
  assumes "lawful_comparator cmp"
  shows "lawful_comparator (field_cmp cmp s)"
proof (cases s)
  case (Pair field direction)
  then show ?thesis
    using lawful_on [OF assms, of "\<lambda>h. hit_sort_value h field"]
      lawful_reverse [OF lawful_on [OF assms, of "\<lambda>h. hit_sort_value h field"]]
    by (cases "direction = ''desc''") (simp_all add: field_cmp_def directed_def)
qed

lemma fields_cmp_lawful:
  assumes "lawful_comparator cmp"
  shows "lawful_comparator (fields_cmp cmp sorts)"
proof (induction sorts)
  case Nil
  show ?case by unfold_locales simp_all
next
  case (Cons s sorts)
  have "fields_cmp cmp (s # sorts) = (\<lambda>a b. then_ord (field_cmp cmp s a b) (fields_cmp cmp sorts a b))"
    by (intro ext) simp
  then show ?case using lawful_then [OF field_cmp_lawful [OF assms] Cons.IH] by simp
qed

definition sort_rounds :: "(json \<Rightarrow> json \<Rightarrow> ordering) \<Rightarrow> sort_specs \<Rightarrow> json list \<Rightarrow> json list" where
  "sort_rounds cmp sorts hits = foldr (\<lambda>s. sort_by (field_cmp cmp s)) sorts hits"

lemma sort_rounds_simps [simp]:
  "sort_rounds cmp [] hits = hits"
  "sort_rounds cmp (s # sorts) hits = sort_by (field_cmp cmp s) (sort_rounds cmp sorts hits)"
  by (simp_all add: sort_rounds_def)

lemma mset_sort_rounds [simp]: "mset (sort_rounds cmp sorts hits) = mset hits"
  by (induction sorts) simp_all

lemma set_sort_rounds [simp]: "set (sort_rounds cmp sorts hits) = set hits"
  by (induction sorts) simp_all

lemma sort_rounds_sorted:
  assumes "lawful_comparator cmp"
  shows "sorted_by (fields_cmp cmp sorts) (sort_rounds cmp sorts hits)"
proof (induction sorts)
  case Nil
  show ?case by (induction hits) simp_all
next
  case (Cons s sorts)
  have "fields_cmp cmp (s # sorts) = (\<lambda>a b. then_ord (field_cmp cmp s a b) (fields_cmp cmp sorts a b))"
    by (intro ext) simp
  then show ?case
    using sort_by_then [OF field_cmp_lawful [OF assms] fields_cmp_lawful [OF assms] Cons.IH] by simp
qed

text \<open>On uniform hits the code's comparison is lawful.\<close>

lemma field_cmp_agree:
  assumes "uniform_hits sorts hits" "s \<in> set sorts" "a \<in> set hits" "b \<in> set hits"
  shows "field_cmp (value_cmp to_text) s a b = field_cmp (kinded_cmp to_text) s a b"
proof (cases s)
  case (Pair field direction)
  then have "same_kind (hit_sort_value a field) (hit_sort_value b field)"
    using assms(2) by (intro uniform_hits_kind [OF assms(1,3,4)]) force
  then show ?thesis by (simp add: Pair field_cmp_def kinded_cmp_same)
qed

lemma fields_cmp_agree:
  assumes "uniform_hits sorts hits" "set ss \<subseteq> set sorts" "a \<in> set hits" "b \<in> set hits"
  shows "fields_cmp (value_cmp to_text) ss a b = fields_cmp (kinded_cmp to_text) ss a b"
  using assms(2) field_cmp_agree [OF assms(1) _ assms(3,4)] by (induction ss) simp_all

lemma sort_rounds_agree:
  assumes "uniform_hits sorts hits" "set ss \<subseteq> set sorts"
  shows "sort_rounds (value_cmp to_text) ss hits = sort_rounds (kinded_cmp to_text) ss hits"
  using assms(2)
proof (induction ss)
  case (Cons s ss)
  then show ?case
    using field_cmp_agree [OF assms(1), of s] by (auto intro!: sort_by_cong)
qed simp

lemma order_hits_sorted:
  assumes "p_sorts p \<noteq> []" "uniform_hits (p_sorts p) hits"
  shows "sorted_by (fields_cmp (value_cmp (json_text env)) (p_sorts p)) (order_hits env p s hits)
    \<and> mset (order_hits env p s hits) = mset hits"
proof -
  have "order_hits env p s hits = sort_rounds (value_cmp (json_text env)) (p_sorts p) hits"
    using assms(1) by (simp add: order_hits_def sort_rounds_def foldr_conv_fold field_cmp_def split_def)
  moreover have "sorted_by (fields_cmp (value_cmp (json_text env)) (p_sorts p))
      (sort_rounds (kinded_cmp (json_text env)) (p_sorts p) hits)"
    using sort_rounds_sorted [OF kinded.lawful_comparator_axioms, where sorts = "p_sorts p" and hits = hits]
      fields_cmp_agree [OF assms(2) order.refl]
    by (subst sorted_by_cong [where ?c2.0 = "fields_cmp (kinded_cmp (json_text env)) (p_sorts p)"]) simp_all
  ultimately show ?thesis using sort_rounds_agree [OF assms(2) order.refl] by simp
qed

section \<open>The documents of a scan\<close>

text \<open>The hit of a document, the documents the post filter selects, and those after the cursor.\<close>

definition plain_hit :: "search_scope \<Rightarrow> json \<Rightarrow> json" where
  "plain_hit s point = (let payload = unwrap_or (JObj []) (get ''payload'' point) in
     search_hit (s_index s) (unwrap_or (JStr []) (get ''_es_id'' payload)) JNull
       (unwrap_or (JObj []) (get ''_source'' payload)))"

definition selected :: "search_params \<Rightarrow> json \<Rightarrow> bool" where
  "selected p hit = (case p_post_filter p of None \<Rightarrow> True
     | Some q \<Rightarrow> is_some_and (get ''_source'' hit) (\<lambda>source. source_matches_query source q))"

lemma plain_hit_source:
  "get ''_source'' (plain_hit s point)
    = Some (unwrap_or (JObj []) (get ''_source'' (unwrap_or (JObj []) (get ''payload'' point))))"
  by (simp add: plain_hit_def search_hit_def Let_def get_jobj)

lemma scan_one_plain:
  assumes "\<not> document_projection (cfg env)" "s_patterns s = []" "p_collapse p = None"
  shows "scan_one env p s point =
    (if selected p (plain_hit s point)
     then (if past_cursor env p (plain_hit s point) then [plain_hit s point] else [], 1) else ([], 0))"
proof -
  have "selected p (plain_hit s point)
      \<longleftrightarrow> \<not> is_some_and (p_post_filter p) (\<lambda>q. \<not> source_matches_query (scan_source Map.empty (unwrap_or (JObj []) (get ''payload'' point))) q)"
    by (simp add: selected_def plain_hit_source scan_source_def split: option.split)
  then show ?thesis
    using assms by (simp add: scan_one_def scan_point_def Let_def matches_patterns_def plain_hit_def scan_source_def)
qed

lemma page_plain:
  assumes "\<not> document_projection (cfg env)" "s_patterns s = []" "p_collapse p = None"
  shows "page_hits env p s points = filter (past_cursor env p) (filter (selected p) (map (plain_hit s) points))"
    and "page_total env p s points = of_nat (length (filter (selected p) (map (plain_hit s) points)))"
  by (induction points) (simp_all add: page_hits_def page_total_def scan_one_plain [OF assms])

lemma dedupe_distinct:
  assumes "hash_is_permutation env" "distinct (map hit_id hits)"
  shows "mset (dedupe_hits env hits) = mset hits"
proof -
  note best = dedupe_best [OF assms(1), of hits]
  have "inj_on hit_id (set hits)" using assms(2) by (simp only: distinct_map)
  moreover have "set (dedupe_hits env hits) \<subseteq> set hits" "hit_id ` set (dedupe_hits env hits) = hit_id ` set hits"
    using best by blast+
  ultimately have "set (dedupe_hits env hits) = set hits" by (metis inj_on_image_eq_iff order.refl)
  moreover have "distinct (dedupe_hits env hits)" "distinct hits" using best assms(2) distinct_map by blast+
  ultimately show ?thesis by (simp only: set_eq_iff_mset_eq_distinct)
qed

section \<open>The handler\<close>

text \<open>A search that lists its hits by sort fields and is answered from the complete scan: not ranked,
  not collapsed, no gateway patterns, documents stored in the index's own collection, and no numeric
  field Qdrant can order by.\<close>

definition sorted_search :: "env \<Rightarrow> json \<Rightarrow> search_params \<Rightarrow> search_scope \<Rightarrow> bool" where
  "sorted_search env body p s \<longleftrightarrow> p_sorts p \<noteq> [] \<and> p_size p > 0 \<and> p_collapse p = None
     \<and> \<not> has_text s \<and> \<not> contains_approx_text_query (s_query s) \<and> s_patterns s = [] \<and> s_like s = None
     \<and> \<not> document_projection (cfg env) \<and> \<not> ordered_eligible env p body (s_mapping s)"

lemma sorted_searchD:
  assumes "sorted_search env body p s"
  shows "p_sorts p \<noteq> []" "p_size p > 0" "p_collapse p = None" "s_sparse s = None" "s_text s = None" "\<not> has_text s"
    "\<not> contains_approx_text_query (s_query s)" "s_patterns s = []" "s_like s = None"
    "\<not> document_projection (cfg env)" "\<not> ordered_eligible env p body (s_mapping s)"
  using assms unfolding sorted_search_def has_text_def by blast+

lemma bindE_step: "m w = (Inr y, v) \<Longrightarrow> bindE m k w = k y v"
  by (simp add: bindE_def)

lemma bindE_lift: "bindE (liftE (Inr x)) k w = k x w"
  by (simp add: bindE_def liftE_def)

lemma bindO_Some: "bindO m k w = (Inr (Some x), w') \<Longrightarrow> \<exists>y w1. m w = (Inr (Some y), w1) \<and> k y w1 = (Inr (Some x), w')"
  by (auto simp: bindO_def returnE_def simp: bindE_Inr split: option.split_asm)

lemma doneE_Some: "doneE m w = (Inr (Some x), w') \<Longrightarrow> m w = (Inr x, w')"
  by (auto simp: doneE_def returnE_def simp: bindE_Inr)

lemma sorted_search_scans:
  assumes run: "search_with_total_format env fuel name body as_int w = (Inr (Some r), w')"
    and p: "parse_search (cfg env) body as_int = Inr p" and s: "resolve_scope env name body w = (Inr s, w0)"
    and plain: "sorted_search env body p s"
  shows "\<exists>aggs exact found w1 w2.
    loopE fuel (scan_round env p s True) \<lparr>sc_offset = JNull, sc_hits = [], sc_total = 0\<rparr> w1 = (Inr (Some found), w2)
    \<and> finish_search env p s True exact as_int aggs found w2 = (Inr r, w')"
proof -
  note plainD = sorted_searchD [OF plain]
  let ?rest = "\<lambda>aggs. bindE (search_total env p s) (\<lambda>exact_total.
     bindE (search_ordered env p body s) (\<lambda>ordered.
     let counted = count_only env p s exact_total;
         full = complete_scan p s counted (ordered \<noteq> None)
     in bindO (collect_hits env fuel p s counted ordered full) (\<lambda>found.
          doneE (finish_search env p s full exact_total as_int aggs found))))"
  have "bindO (search_aggregations env fuel s) ?rest w0 = (Inr (Some r), w')"
    using run unfolding search_with_total_format_def p
    by (simp only: bindE_lift bindE_step [where m = "resolve_scope env name body" and w = w and v = w0 and y = s] s)
  then obtain aggs w1 where "?rest aggs w1 = (Inr (Some r), w')" by (blast dest: bindO_Some)
  from iffD1 [OF bindE_Inr this] obtain exact w2 where rest: "bindE (search_ordered env p body s) (\<lambda>ordered.
     let counted = count_only env p s exact;
         full = complete_scan p s counted (ordered \<noteq> None)
     in bindO (collect_hits env fuel p s counted ordered full) (\<lambda>found.
          doneE (finish_search env p s full exact as_int aggs found))) w2 = (Inr (Some r), w')"
    by blast
  have "search_ordered env p body s = returnE None"
    using plainD by (auto simp: search_ordered_def ordered_numeric_hits_def split: list.split)
  moreover have "count_only env p s exact = False" using plainD by (auto simp: count_only_def)
  moreover have "complete_scan p s False False" using plainD by (simp add: complete_scan_def)
  moreover have "collect_hits env fuel p s False None True
      = loopE fuel (scan_round env p s True) \<lparr>sc_offset = JNull, sc_hits = [], sc_total = 0\<rparr>"
    using plainD by (simp add: collect_hits_def)
  ultimately have "bindO (loopE fuel (scan_round env p s True) \<lparr>sc_offset = JNull, sc_hits = [], sc_total = 0\<rparr>)
      (\<lambda>found. doneE (finish_search env p s True exact as_int aggs found)) w2 = (Inr (Some r), w')"
    using rest by (simp add: bindE_def returnE_def)
  then show ?thesis by (blast dest: bindO_Some doneE_Some)
qed

lemma finish_complete:
  assumes run: "finish_search env p s True exact as_int aggs (found, scanned) w = (Inr r, w')"
    and env: "\<not> document_projection (cfg env)" and kept: "\<And>h. h \<in> set found \<Longrightarrow> retained env p s h" and h: "hash_is_permutation env"
  shows "r = search_response env p (search_page env p s (dedupe_hits env found))
      (total_hits_value (p_track p) scanned True as_int) aggs"
    and "w_trace w' = w_trace w"
proof -
  have "filter (retained env p s) (dedupe_hits env found) = dedupe_hits env found"
    using dedupe_best [OF h, of found] kept by (intro filter_True) blast
  then show "r = search_response env p (search_page env p s (dedupe_hits env found))
      (total_hits_value (p_track p) scanned True as_int) aggs"
    and "w_trace w' = w_trace w"
    using run env by (auto simp: finish_search_def bindE_def returnE_def Let_def count_supported_def whenE_def modifyE_def split: if_split_asm)
qed

text \<open>The page before it is cut and rendered.\<close>

definition ranked :: "env \<Rightarrow> search_params \<Rightarrow> json list \<Rightarrow> json list \<Rightarrow> bool" where
  "ranked env p eligible hits \<longleftrightarrow>
     mset hits = mset (take (unat (window p)) (sort_hits (json_text env) (p_sorts p) eligible))
     \<and> sorted_by (fields_cmp (value_cmp (json_text env)) (p_sorts p)) hits"

lemma search_page_ranked:
  assumes plain: "p_sorts p \<noteq> []" "p_collapse p = None" and h: "hash_is_permutation env"
    and u: "uniform_hits (p_sorts p) eligible" and d: "distinct (map hit_id eligible)"
    and past: "\<And>h. h \<in> set eligible \<Longrightarrow> past_cursor env p h"
    and found: "found = take (unat (window p)) (sort_hits (json_text env) (p_sorts p) eligible)"
  shows "\<exists>hits. ranked env p eligible hits \<and> search_page env p s (dedupe_hits env found)
    = map (render_hit p) (take (unat (p_size p)) (drop (unat (p_from p)) hits))"
proof -
  let ?hits = "order_hits env p s (dedupe_hits env found)"
  have sub: "set found \<subseteq> set eligible" by (auto simp: found sort_hits_def dest: in_set_takeD)
  have "mset (map hit_id (sort_hits (json_text env) (p_sorts p) eligible)) = mset (map hit_id eligible)"
    by (simp add: sort_hits_def)
  then have "distinct (map hit_id (sort_hits (json_text env) (p_sorts p) eligible))"
    using d by (metis mset_eq_imp_distinct_iff)
  then have "distinct (map hit_id found)" by (simp add: found take_map [symmetric] distinct_take)
  then have m: "mset (dedupe_hits env found) = mset found" by (rule dedupe_distinct [OF h])
  then have set: "set (dedupe_hits env found) = set found" by (rule mset_eq_setD)
  have "uniform_hits (p_sorts p) (dedupe_hits env found)" using sub by (intro uniform_hits_mono [OF u]) (simp add: set)
  from order_hits_sorted [OF plain(1) this]
  have ordered: "sorted_by (fields_cmp (value_cmp (json_text env)) (p_sorts p)) ?hits" "mset ?hits = mset found"
    by (simp_all add: m)
  then have "set ?hits = set found" by (metis mset_eq_setD)
  then have "\<And>h. h \<in> set ?hits \<Longrightarrow> past_cursor env p h" using past sub by blast
  then have "after_cursor env p ?hits = ?hits"
    by (cases "p_cursor p"; cases ?hits) (simp_all add: after_cursor_def past_cursor_def)
  then have "search_page env p s (dedupe_hits env found) = map (render_hit p) (take (unat (p_size p)) (drop (unat (p_from p)) ?hits))"
    by (simp add: search_page_def collapse_hits_def plain(2))
  then show ?thesis using ordered by (intro exI [of _ ?hits]) (simp add: ranked_def found)
qed

lemma scanned_hits:
  assumes "\<not> document_projection (cfg env)" "p_collapse p = None"
    and "loopE n (scan_round env p s True) st w = (Inr (Some (hits, tally)), w')" "set (sc_hits st) \<subseteq> A"
    and "\<And>points. set (page_hits env p s points) \<subseteq> A"
  shows "set hits \<subseteq> A"
  using assms(3,4)
proof (induction n arbitrary: st w)
  case (Suc n)
  obtain r w1 where round: "scan_round env p s True st w = (Inr r, w1)"
    using Suc.prems by (cases "scan_round env p s True st w") (auto simp: bindE_def split: sum.split_asm)
  obtain c rep where "w_trace w1 = w_trace w @ [(c, rep)]"
      and res: "let hits = keep_page env p True (sc_hits st @ page_hits env p s (reply_points rep));
          found = sc_total st + page_total env p s (reply_points rep); next = next_offset (reply_result rep)
        in if is_null next then r = Inr (hits, found) else r = Inl \<lparr>sc_offset = next, sc_hits = hits, sc_total = found\<rparr>"
    using round assms(1) by (elim scan_round_sent) (auto simp: returnE_def scan_page Let_def split: if_split_asm)
  have kept: "set (keep_page env p True (sc_hits st @ page_hits env p s (reply_points rep))) \<subseteq> A"
    by (auto simp: keep_page_def assms(2) sort_hits_def dest!: in_set_takeD
        intro: subsetD [OF Suc.prems(2)] subsetD [OF assms(5)])
  show ?case
    using Suc.prems res Suc.IH [OF _ ] kept
    by (cases "is_null (next_offset (reply_result rep))") (auto simp: bindE_def round returnE_def Let_def)
qed (simp add: returnE_def)

text \<open>C9: A search sorted by fields that is answered from the complete scan answers exactly. It is one with
  a positive size and sort fields whose documents are in the index's own collection (no document projection),
  with no text, approximate or sparse query, no clause the gateway matches on the documents itself, no collapse
  and no more_like_this, and with no numeric field by which Qdrant could order. Such a search scrolls from the
  first page Qdrant has to the last; the total it reports is the number of documents on all of them that pass
  the post filter; and its hits are the requested page of the first window, by the sort fields and then by id,
  of all those documents that come after the cursor, put in the order of the sort fields. (The fields may not
  mix numbers with other values, and no document may occur on two pages. Documents that tie on every sort
  field are in the order of a hash map, which may be any.)\<close>

theorem sorted_search_exact:
  assumes run: "search_with_total_format env fuel name body as_int w = (Inr (Some r), w')"
    and p: "parse_search (cfg env) body as_int = Inr p" and s: "resolve_scope env name body w = (Inr s, w0)"
    and plain: "sorted_search env body p s" and h: "hash_is_permutation env"
  shows "\<exists>before sent page aggs. w_trace w' = before @ sent \<and> scroll_pages (scan_call env p s True) JNull sent
    \<and> (let matching = filter (selected p) (map (plain_hit s) (concat (map (\<lambda>(_, r). reply_points r) sent)));
          eligible = filter (past_cursor env p) matching
        in r = search_response env p page (total_hits_value (p_track p) (of_nat (length matching)) True as_int) aggs
          \<and> (uniform_hits (p_sorts p) eligible \<and> distinct (map hit_id eligible) \<longrightarrow>
              (\<exists>hits. ranked env p eligible hits
                \<and> page = map (render_hit p) (take (unat (p_size p)) (drop (unat (p_from p)) hits)))))"
proof -
  note plainD = sorted_searchD [OF plain]
  note pages = page_plain [OF plainD(10,8,3)]
  obtain aggs exact found scanned w1 w2
    where loop: "loopE fuel (scan_round env p s True) \<lparr>sc_offset = JNull, sc_hits = [], sc_total = 0\<rparr> w1 = (Inr (Some (found, scanned)), w2)"
      and fin: "finish_search env p s True exact as_int aggs (found, scanned) w2 = (Inr r, w')"
    using sorted_search_scans [OF run p s plain] by auto
  obtain sent where sent: "w_trace w2 = w_trace w1 @ sent" "scroll_pages (scan_call env p s True) JNull sent"
      and tally: "scanned = page_total env p s (concat (map (\<lambda>(_, r). reply_points r) sent))"
      and hits: "uniform_hits (p_sorts p) (page_hits env p s (concat (map (\<lambda>(_, r). reply_points r) sent))) \<Longrightarrow>
        found = take (unat (window p)) (sort_hits (json_text env) (p_sorts p)
          (page_hits env p s (concat (map (\<lambda>(_, r). reply_points r) sent))))"
    using full_scan_loop [OF plainD(10,3) loop] by (auto simp: Let_def)
  have "set found \<subseteq> {h. selected p h \<and> get ''_source'' h \<noteq> None}"
    by (rule scanned_hits [OF plainD(10,3) loop]) (auto simp: pages plain_hit_source)
  then have "retained env p s h" if "h \<in> set found" for h
    using that by (auto simp: retained_def matches_patterns_def plainD(8,9) selected_def split: option.split)
  note fin = finish_complete [OF fin plainD(10) this h]
  let ?points = "concat (map (\<lambda>(_, r). reply_points r) sent)" and ?page = "search_page env p s (dedupe_hits env found)"
  let ?matching = "filter (selected p) (map (plain_hit s) ?points)"
  let ?eligible = "filter (past_cursor env p) ?matching"
  have "w_trace w' = w_trace w1 @ sent" by (simp only: fin(2) sent(1))
  moreover have "r = search_response env p ?page (total_hits_value (p_track p) (of_nat (length ?matching)) True as_int) aggs"
    using fin(1) unfolding tally pages(2) .
  moreover have "\<exists>hits. ranked env p ?eligible hits \<and> ?page = map (render_hit p) (take (unat (p_size p)) (drop (unat (p_from p)) hits))"
    if "uniform_hits (p_sorts p) ?eligible \<and> distinct (map hit_id ?eligible)"
    using that hits [unfolded pages(1)] by (intro search_page_ranked [OF plainD(1,3) h]) simp_all
  ultimately show ?thesis unfolding Let_def using sent(2) by blast
qed

subsection \<open>A search of three documents\<close>

definition shoe_body :: json where
  "shoe_body = jobj [(''sort'', JArr [jobj [(''n'', JStr ''asc'')]]), (''size'', jint 2), (''track_total_hits'', jint 10000)]"

lemma get_shoe_body:
  "get k shoe_body = (if k = ''sort'' then Some (JArr [jobj [(''n'', JStr ''asc'')]])
     else if k = ''size'' then Some (jint 2) else if k = ''track_total_hits'' then Some (jint 10000) else None)"
  by (simp add: shoe_body_def get_jobj)

lemma shoe_sorts: "parse_sort_specs (Some (JArr [jobj [(''n'', JStr ''asc'')]])) = Inr [(''n'', ''asc'')]"
  by code_simp

lemma shoe_parsed: "parse_search (cfg shoe_env) shoe_body False = Inr shoe_params"
proof -
  have "max_page_size (cfg shoe_env) = 1000" by (simp add: shoe_env_def sample_env_def sample_config_def)
  moreover have "validate_search_execution_controls shoe_body = Inr ()"
    by (simp add: validate_search_execution_controls_def validate_script_fields_def validate_docvalue_fields_def
        boolean_controls_def rejected_controls_def require_false_def reject_control_def get_shoe_body)
  moreover have "parse_track_total_hits shoe_body = Inr (Threshold 10000)"
    by (simp add: parse_track_total_hits_def get_shoe_body)
  moreover have "parse_search_window shoe_body 1000 = Inr (0, 2)"
    by (simp add: parse_search_window_def non_negative_integer_def get_shoe_body window_fits_def)
  ultimately show ?thesis
    by (simp add: parse_search_def get_shoe_body shoe_sorts validate_search_after_def parse_source_filter_def parse_collapse_spec_def
        get_array_def shoe_params_def)
qed

lemma shoe_resolved: "resolve_scope shoe_env ''shoes'' shoe_body w = (Inr shoe_scope, w)"
proof -
  have "collection ''shoes'' = ''es_shoes''" by code_simp
  then have index: "get_index shoe_env ''shoes'' w = (Inr (''shoes'', ''es_shoes'', JObj [], []), w)"
    by (simp add: get_index_def shoe_env_def liftE_def view_get_index_def view_resolve_def view_index_def)
  have "sparse_validate_request shoe_body (JObj []) = Inr ()"
  proof -
    have "check_scalar_field ''n'' (JObj []) = Inr ()" by code_simp
    moreover have "pointer [''collapse'', ''field''] shoe_body = None" by code_simp
    ultimately show ?thesis
      by (simp add: sparse_validate_request_def get_shoe_body shoe_sorts optional_get_def)
  qed
  moreover have "get ''query'' shoe_body = None" "get ''more_like_this'' match_all = None"
    by (simp_all add: get_shoe_body match_all_def get_jobj)
  moreover have "plan_scope shoe_env shoe_body (''shoes'', ''es_shoes'', JObj [], []) match_all = Inr shoe_scope"
  proof -
    have all: "match_all = JObj [(''match_all'', JObj [])]" by code_simp
    have "collect_patterns (regex_new shoe_env) match_all [] = Inr []"
      by (simp add: all collect_patterns.simps)
    moreover have "sparse_query match_all (JObj []) = Inr None" by code_simp
    moreover have "parse_plan (chrono shoe_env) None = Inr None" by (simp add: parse_plan_def)
    moreover have "query_filter match_all = Inr None" by code_simp
    moreover have "pick_text (parse_float shoe_env) match_all = None" by (simp add: all pick_text.simps get_def)
    ultimately show ?thesis by (simp add: plan_scope_def get_shoe_body shoe_scope_def)
  qed
  ultimately show ?thesis
    by (simp add: resolve_scope_def bindE_def index liftE_def expand_more_like_this_def returnE_def)
qed

lemma shoe_plain: "sorted_search shoe_env shoe_body shoe_params shoe_scope"
proof -
  have "\<not> contains_approx_text_query match_all" by code_simp
  moreover have "mapped_type (JObj []) ''n'' = None" by code_simp
  ultimately show ?thesis
    by (simp add: sorted_search_def shoe_params_def shoe_scope_def has_text_def ordered_eligible_def)
qed

lemma shoe_run:
  "\<exists>r w'. search_with_total_format shoe_env 1 ''shoes'' shoe_body False w = (Inr (Some r), w')"
proof -
  let ?p = shoe_params and ?s = shoe_scope
  obtain w1 where total: "search_total shoe_env ?p ?s w = (Inr (Some 3), w1)"
    using shoe_request [of POST "points_path (s_coll ?s) ''/points/count''" "Some (jobj [(''exact'', JBool True)])" w]
    by (auto simp: search_total_def filter_only_def has_text_def shoe_params_def shoe_scope_def qdrant_exact_count_def
        bindE_def optional_member_def liftE_def returnE_def shoe_reply_def get_jobj)
  have ordered: "search_ordered shoe_env ?p shoe_body ?s w1 = (Inr None, w1)"
    using sorted_searchD(11) [OF shoe_plain]
    by (simp add: search_ordered_def ordered_numeric_hits_def returnE_def shoe_params_def)
  let ?hits = "keep_page shoe_env ?p True [shoe_hit ''a'' 2, shoe_hit ''b'' 1, shoe_hit ''c'' 3]"
  have "collect_hits shoe_env 1 ?p ?s False None True
      = loopE 1 (scan_round shoe_env ?p ?s True) \<lparr>sc_offset = JNull, sc_hits = [], sc_total = 0\<rparr>"
    using sorted_searchD [OF shoe_plain] by (simp add: collect_hits_def)
  then obtain w2 where "collect_hits shoe_env 1 ?p ?s False None True w1 = (Inr (Some (?hits, 3)), w2)"
    using shoe_scan [of w1] by auto
  moreover have "\<exists>r w'. finish_search shoe_env ?p ?s True (Some 3) False None (?hits, 3) w2 = (Inr r, w')"
    by (simp add: finish_search_def bindE_def returnE_def Let_def count_supported_def whenE_def modifyE_def)
  moreover have "count_only shoe_env ?p ?s (Some 3) = False" "complete_scan ?p ?s False False"
    using sorted_searchD [OF shoe_plain] by (auto simp: count_only_def complete_scan_def)
  ultimately show ?thesis
    using total ordered
    by (auto simp: search_with_total_format_def bindE_def bindO_def liftE_def shoe_parsed shoe_resolved search_aggregations_def
        shoe_scope_def doneE_def returnE_def)
qed

lemma sorted_search_exact_witness:
  "\<exists>r w' before sent. search_with_total_format shoe_env 1 ''shoes'' shoe_body False empty_world = (Inr (Some r), w')
    \<and> w_trace w' = before @ sent \<and> scroll_pages (scan_call shoe_env shoe_params shoe_scope True) JNull sent"
proof -
  obtain r w' where run: "search_with_total_format shoe_env 1 ''shoes'' shoe_body False empty_world = (Inr (Some r), w')"
    using shoe_run by blast
  have "hash_is_permutation shoe_env" by (simp add: hash_is_permutation_def shoe_env_def sample_env_def)
  from sorted_search_exact [OF run shoe_parsed shoe_resolved shoe_plain this] run show ?thesis by blast
qed

subsection \<open>Ties\<close>

text \<open>The window is cut with \<open>_id\<close> as the tie-break but the hits in it are then sorted without one, from
  the order of a hash map. With two documents that tie and a map that iterates in reverse, the second
  page of size one shows the document of the first page again and never the other one.\<close>

definition page_of :: "env \<Rightarrow> search_params \<Rightarrow> search_scope \<Rightarrow> json list \<Rightarrow> string list" where
  "page_of env p s hits = map hit_id (search_page env p s (dedupe_hits env (keep_page env p True hits)))"

definition tie_env :: env where
  "tie_env = shoe_env\<lparr>hash_order := rev\<rparr>"

definition tie_page :: "u64 \<Rightarrow> search_params" where
  "tie_page start = shoe_params\<lparr>p_from := start, p_size := 1\<rparr>"

theorem tied_pages_overlap:
  "page_of tie_env (tie_page 0) shoe_scope [shoe_hit ''a'' 7, shoe_hit ''b'' 7] = [''a'']
    \<and> page_of tie_env (tie_page 1) shoe_scope [shoe_hit ''a'' 7, shoe_hit ''b'' 7] = [''a'']"
proof -
  have sample: "hit_sort_value (shoe_hit i n) ''n'' = jint n" "hit_sort_value (shoe_hit i n) ''_id'' = JStr i"
    "hit_id (shoe_hit i n) = i" "hit_score (shoe_hit i n) = 0" for i n
    by (simp_all add: hit_sort_value_def shoe_hit_def search_hit_def get_jobj hit_id_def hit_score_def get_str_def
        sortable_source_field_def source_field_def compatibility_field_def strip_suffix_def ends_with_def)
  have cmp: "cmp_of ''a'' ''b'' = Less" by code_simp
  have rendered: "hit_id (render_hit p (shoe_hit i n)) = i" if "p_sorts p = [(''n'', ''asc'')]" "p_source p = None" for p i n
  proof -
    have "obj_get ''_id'' (apply_source_projection ob None) = obj_get ''_id'' ob" if "obj_ok ob" for ob
      using that by (simp add: apply_source_projection_def obj_get_insert obj_get_remove split: option.split)
    then show ?thesis
      using that by (simp add: render_hit_def project_hit_def shoe_hit_def search_hit_def set_member_def jobj_def hit_id_def
          get_str_def get_def obj_get_insert obj_get_obj_of)
  qed
  show ?thesis
    by (simp add: page_of_def search_page_def tie_page_def tie_env_def shoe_params_def rendered sample cmp keep_page_def
        sort_hits_def window_def dedupe_hits_def unique_hits_def add_unique_def map_filter_simps order_hits_def
        collapse_hits_def after_cursor_def directed_def cmp_of_def)
qed

end
