(* ===== verification/Spec2Isabelle.thy ===== *)
theory Spec2Isabelle
  imports Identities CacheServing Timing Transport FilterTranslation SearchResults
begin

text \<open>
  A verification development for the Elasticsearch gateway in front of Qdrant (\<open>src/src/*.rs\<close>).

  The program. The gateway accepts Elasticsearch requests, keeps index and alias metadata (in SQLite
  or in a catalog shared through Redis), and turns every request into calls of Qdrant's HTTP API.
  Filters are translated for Qdrant; what Qdrant cannot decide is decided by the gateway on the
  documents it reads back. With a shared catalog, several gateways serve the same indices: an
  administrative request holds a claim while it changes Qdrant and then publishes a new snapshot.
  With the read cache on top, every write holds a token that fences the cache, and responses of reads
  are stored under the generation they were computed in.

  How the code corresponds to the theories. A Rust \<open>Result\<close> is a sum with the error on the left, an
  early return is a branch, a struct is a record and an enum a datatype. Strings are byte lists, so
  lengths and limits are the code's; integers are words of their width (\<open>u64\<close>) where they can wrap,
  natural numbers where the code only counts, rationals for the finite doubles. A handler is a
  function from the world to a result and a world (\<open>act\<close>); the world holds the trace of calls sent to
  Qdrant with their replies, the metadata tables, the completion ledger and the analytics. Qdrant is
  an arbitrary function from the trace and the call to a reply: it may fail, answer anything, and
  change its answers over time. A Redis script is an atomic function on a store, and its delivery may
  lose the reply or the script itself.

  \<^item> \<open>Prelude\<close>, \<open>Strings\<close>, \<open>Json\<close>, \<open>Errors\<close>: fallible results, lawful comparators and stable sorting;
    the operations of \<open>str\<close>; \<open>serde_json\<close> values and ordered maps; \<open>GatewayError\<close> and the responses.
  \<^item> \<open>Compare\<close>, \<open>Filters\<close>, \<open>SourceFilter\<close>, \<open>TextQuery\<close>, \<open>SearchRequest\<close>, \<open>Naming\<close>, \<open>Sparse\<close>,
    \<open>Mapping_Model\<close>: the pure parts of \<open>main.rs\<close> and \<open>sparse.rs\<close>: comparing values and hits, clauses
    evaluated by the gateway and translated for Qdrant, \<open>_source\<close> filtering, ranked text, the options
    of a search, names and point ids, sparse vectors, mappings, payloads and partial updates.
  \<^item> \<open>FilterSemantics\<close>: what a translated filter means to an evaluator that obeys the documented
    meaning of Qdrant's conditions (\<open>qdrant_laws\<close>, stated over the values stored under a key, for plain
    keys, values and payloads); \<open>FilterTranslation\<close>: the same over the payloads documents are stored with.
  \<^item> \<open>Backend\<close>: \<open>impl Qdrant\<close> and \<open>mutation_completion.rs\<close>, the environment and the world.
  \<^item> \<open>Catalog\<close>, \<open>Documents\<close>, \<open>IndexAdmin\<close>, \<open>Aliases\<close>, \<open>Bulk\<close>, \<open>Aggregations\<close>, \<open>Search\<close>: the handlers of
    \<open>main.rs\<close> and \<open>aggregations.rs\<close>; \<open>SearchPages\<close> has the properties of the scans and \<open>SearchResults\<close>
    those of a sorted search from request to response.
  \<^item> \<open>Routing\<close>: \<open>dispatch_inner\<close> and the classifications of a request; \<open>ReadViews\<close>: requests answered
    from a snapshot in memory.
  \<^item> \<open>Redis\<close>, \<open>SharedCatalog\<close>, \<open>CatalogHistory\<close>, \<open>Transport\<close>: the store and its scripts,
    \<open>shared_catalog.rs\<close> with \<open>dispatch_catalog\<close>, any number of gateways over time, and the connection
    the requests of one gateway share.
  \<^item> \<open>Epochs\<close>, \<open>ReadCache\<close>, \<open>CacheCoherence\<close>, \<open>CacheAdmin\<close>, \<open>CacheRuntime\<close>, \<open>CacheServing\<close>,
    \<open>Identities\<close>: \<open>read_cache.rs\<close>, \<open>cache_request.rs\<close> and \<open>cache_runtime.rs\<close>: generations, the
    scripts and their clients, histories of readers and writers, administration, the dispatcher under the
    cache, the dispatcher as runs of the histories, and the life of deployment identities.
  \<^item> \<open>Deployment\<close>, \<open>Startup\<close>: \<open>cache_deployment.rs\<close>, \<open>Config::from_env\<close>, \<open>gateway_router\<close>, \<open>main\<close>;
    \<open>Timing\<close>: \<open>diagnostic_timing.rs\<close>, whose spans the other theories leave out.

  What the lemmas show. Pure parts: the comparator is exact on integers and doubles and the sort
  follows it; the glob loop decides its specification; source filtering keeps exactly the selected
  leaves; the edit distance is the least; a translated filter selects exactly the documents the
  gateway's own evaluator accepts, for plain clauses over mapped fields. Handlers: a document written is the
  document read, over a Qdrant that shows acknowledged writes; a batch of alias
  actions has the effect of its actions one by one; every bulk action is answered; an aggregation
  scan asks for page after page, observes every point once, and ends; a search sorted by fields that is answered
  from the complete scan reports the exact total and the requested
  page of all matching documents, except that pages may overlap in documents that tie. Routing: which requests
  change tables, which send Qdrant only reads, which are answered equally from a read view. Catalog:
  a publication replaces the snapshot it started from, and \<open>publication_complete\<close> is sound. Cache: a
  request the dispatcher serves by itself is a run of the histories, and a hit is a response the same request may
  compute now from the present catalog and data; whatever other gateways do through the clients (\<open>other_step\<close>), a
  token is released only when nothing is left pending, and while it is held nothing is served; a hit replays
  the stored response, up to what reading printed doubles back may change; an identity is granted once;
  recovery is a clean cut, and a deployment is only created or replaced over a catalog that loads. Process: with the cache on, Qdrant is changed only under an admitted token; a gateway that starts
  with the cache has checked what it relies on, and one without it never serves a catalog that had a
  cache; at most one request connects at a time.

  Interfaces. \<open>lawful_comparator\<close> (interpreted for values, numbers and hits), \<open>ordered_map\<close> (JSON
  objects and \<open>BTreeMap\<close>), \<open>catalog_lookup\<close> (SQL and read views), \<open>read_invariant\<close>,
  \<open>client_invariant\<close>, \<open>admin_invariant\<close> and \<open>search_invariant\<close> (what handlers keep of the world, for the
  ledger, the tables and reads only), \<open>request_invariant\<close> (the same for a whole request through the
  catalog), \<open>published\<close> (a snapshot as tables and as a view), \<open>generations\<close> (what the scripts of the
  cache promise, from which coherence follows), \<open>pinned_key\<close> (a key no operation takes away: the marks of
  identities and the lineage).

  Loops and bounds. A scan of Qdrant runs as long as Qdrant names another page, so \<open>loopE\<close> runs it
  with fuel and gives \<open>None\<close> when it has not ended. Over a Qdrant whose offsets advance along a rank,
  one round more than the rank of the first offset is enough (theories \<open>Aggregations\<close> and
  \<open>SearchPages\<close>); a loop of \<open>SearchPages\<close> that has no guard against a repeated offset is shown not to
  end over a Qdrant that repeats one. All other loops are recursive functions
  with a termination proof; the glob loop runs with a fuel proved enough for every input.

  Parameters. SHA-256, the texts of JSON values and floats and their parsers, regular expressions,
  percent decoding, lower-casing, the calendar, uuids, the clock, the order of a hash map, the syntax
  of envelopes and HTTP headers, the executable, and the HTTP, Redis and SQLite libraries. What a
  property needs of them is among its hypotheses.

  Not modelled. Requests of one gateway run one after another: \<open>try_join_all\<close> sends its requests in
  order, the lock \<open>index_admin\<close> is not represented, and other gateways act on the store between the
  steps of a request (\<open>meanwhile\<close>, \<open>before_dispatch\<close>, \<open>after_dispatch\<close>) or as steps of a history. Failures of
  SQLite, poisoned locks, non-finite doubles in documents, rounding in floating-point products, logging,
  the HTTP server, graceful shutdown and \<open>.env\<close> files are left out. What other writers of the documents
  do to Qdrant during a request is the arbitrary reply function; in the histories of the cache, data
  change at any moment while a token is held.
\<close>

end
